(* ===== verification/Prelude.thy ===== *)
theory Prelude
  imports Complex_Main "HOL-Library.List_Lexorder" "HOL-Library.Char_ord" "HOL-Library.Multiset"
begin

text \<open>
  Shared vocabulary of the development: the fact collections, Go's fixed-width integer
  conversions, the chunked loops the storage layer runs over id lists, table helpers
  (lists of rows with a key column) and the generic lemmas the components use.
\<close>

named_theorems reg_simps \<open>characteristic equations of the significance registry\<close>
named_theorems inv_intros \<open>preservation of the table invariants\<close>
named_theorems frame_simps \<open>fields an operation leaves alone\<close>

type_synonym ident = string
type_synonym nanos = int

section \<open>Go's signed integers\<close>

text \<open>
  \<open>i32 x\<close> is the value an \<open>int32\<close> holds after the exact result \<open>x\<close> was stored in it; \<open>i64\<close>
  likewise. Go's signed arithmetic wraps around in two's complement.
\<close>

definition i32 :: "int \<Rightarrow> int" where
  "i32 x = (x + 2147483648) mod 4294967296 - 2147483648"

definition max_i32 :: int where
  "max_i32 = 2147483647"

definition i64 :: "int \<Rightarrow> int" where
  "i64 x = (x + 9223372036854775808) mod 18446744073709551616 - 9223372036854775808"

lemma i32_id [simp]: "- 2147483648 \<le> x \<Longrightarrow> x \<le> max_i32 \<Longrightarrow> i32 x = x"
  by (simp add: i32_def max_i32_def)

lemma i32_range: "- 2147483648 \<le> i32 x \<and> i32 x \<le> max_i32"
proof -
  have "0 \<le> (x + 2147483648) mod 4294967296" "(x + 2147483648) mod 4294967296 < 4294967296"
    by simp_all
  then show ?thesis by (simp only: i32_def max_i32_def) linarith
qed

lemma i32_max_plus_one: "i32 (max_i32 + 1) = - 2147483648"
  by (simp add: i32_def max_i32_def)

text \<open>A UnixNano reading is a non-negative int64; differences of two of them do not wrap.\<close>

definition clock_ok :: "int \<Rightarrow> bool" where
  "clock_ok t \<longleftrightarrow> 0 \<le> t \<and> t < 9223372036854775808"

lemma i64_clock_diff [simp]: "clock_ok a \<Longrightarrow> clock_ok b \<Longrightarrow> i64 (a - b) = a - b"
  by (simp add: clock_ok_def i64_def)

text \<open>Go's integer division truncates towards zero.\<close>

definition go_div :: "int \<Rightarrow> int \<Rightarrow> int" where
  "go_div a b = sgn a * sgn b * (\<bar>a\<bar> div \<bar>b\<bar>)"

lemma go_div_nonneg: "0 \<le> a \<Longrightarrow> 0 < b \<Longrightarrow> go_div a b = a div b"
  by (auto simp: go_div_def sgn_if)

lemma go_div_neg: "a < 0 \<Longrightarrow> 0 < b \<Longrightarrow> go_div a b \<le> 0"
  by (auto simp: go_div_def sgn_if pos_imp_zdiv_nonneg_iff)

lemma int_div_less_iff: "0 < (b::int) \<Longrightarrow> a div b < k \<longleftrightarrow> a < k * b"
proof
  assume b: "0 < b" and "a div b < k"
  then have "(a div b + 1) * b \<le> k * b" by (intro mult_right_mono) auto
  moreover have "a < b * (a div b) + b"
    using mult_div_mod_eq [of b a] pos_mod_bound [OF b, of a] by linarith
  then have "a < (a div b + 1) * b" by (simp add: algebra_simps)
  ultimately show "a < k * b" by linarith
next
  assume b: "0 < b" and "a < k * b"
  show "a div b < k"
  proof (rule ccontr)
    assume "\<not> a div b < k"
    then have "k * b \<le> (a div b) * b" using b by (intro mult_right_mono) auto
    moreover have "(a div b) * b \<le> a"
      using div_mult_mod_eq [of a b] pos_mod_sign [OF b, of a] by linarith
    ultimately show False using \<open>a < k * b\<close> by linarith
  qed
qed

lemma go_div_less_iff:
  assumes "0 < b" and "0 < k"
  shows "go_div a b < k \<longleftrightarrow> a < k * b"
proof (cases "0 \<le> a")
  case True
  then show ?thesis using assms
    by (simp add: go_div_nonneg int_div_less_iff)
next
  case False
  then have "go_div a b \<le> 0" using assms by (simp add: go_div_neg)
  moreover have "a < k * b"
    using False assms by (meson linorder_not_less mult_pos_pos not_less_iff_gr_or_eq order.strict_trans)
  ultimately show ?thesis using assms by linarith
qed

lemma go_div_mono: "a \<le> b \<Longrightarrow> 0 < d \<Longrightarrow> go_div a d \<le> go_div b d"
proof (cases "0 \<le> a")
  case True
  then show "a \<le> b \<Longrightarrow> 0 < d \<Longrightarrow> go_div a d \<le> go_div b d"
    by (simp add: go_div_nonneg zdiv_mono1)
next
  case False
  assume "a \<le> b" "0 < d"
  show ?thesis
  proof (cases "0 \<le> b")
    case True
    then show ?thesis using go_div_neg [of a d] go_div_nonneg [of b d] False \<open>0 < d\<close>
      by (simp add: order_trans [OF _ pos_imp_zdiv_nonneg_iff [THEN iffD2]])
  next
    case False
    with \<open>\<not> 0 \<le> a\<close> \<open>a \<le> b\<close> \<open>0 < d\<close> have "(- b) div d \<le> (- a) div d" by (intro zdiv_mono1) auto
    with False \<open>\<not> 0 \<le> a\<close> \<open>0 < d\<close> show ?thesis by (simp add: go_div_def sgn_if)
  qed
qed

section \<open>Chunked loops\<close>

text \<open>
  The storage layer walks an id list in slices of at most \<open>n\<close>
  (\<^verbatim>\<open>for start := 0; start < len(xs); start += n\<close>). \<open>chunks n xs\<close> is the list of those slices.
\<close>

function chunks :: "nat \<Rightarrow> 'a list \<Rightarrow> 'a list list" where
  "chunks n xs = (if xs = [] \<or> n = 0 then [] else take n xs # chunks n (drop n xs))"
  by pat_completeness auto
termination
  by (relation "measure (\<lambda>(n, xs). length xs)") auto

declare chunks.simps [simp del]

lemma chunks_Nil [simp]: "chunks n [] = []"
  by (simp add: chunks.simps)

lemma concat_chunks [simp]: "0 < n \<Longrightarrow> concat (chunks n xs) = xs"
proof (induction n xs rule: chunks.induct)
  case (1 n xs)
  then show ?case by (cases "xs = []") (simp_all add: chunks.simps [of n xs])
qed

lemma chunks_length: "c \<in> set (chunks n xs) \<Longrightarrow> length c \<le> n \<and> c \<noteq> []"
proof (induction n xs rule: chunks.induct)
  case (1 n xs)
  then show ?case
    by (cases "xs = [] \<or> n = 0") (auto simp: chunks.simps [of n xs])
qed

lemma chunks_short: "xs \<noteq> [] \<Longrightarrow> length xs \<le> n \<Longrightarrow> chunks n xs = [xs]"
  by (cases n) (simp_all add: chunks.simps [of "Suc _" xs])

text \<open>A loop over chunks that treats each element on its own is the loop over the whole list.\<close>

lemma fold_chunks:
  "0 < n \<Longrightarrow> fold (\<lambda>c s. fold f c s) (chunks n xs) s = fold f xs s"
proof (induction n xs arbitrary: s rule: chunks.induct)
  case (1 n xs)
  show ?case
  proof (cases "xs = []")
    case False
    have "fold f xs s = fold f (drop n xs) (fold f (take n xs) s)"
      by (metis append_take_drop_id fold_append comp_apply)
    with False 1 show ?thesis by (simp add: chunks.simps [of n xs])
  qed simp
qed

section \<open>Tables\<close>

text \<open>
  A table is a list of rows. A primary key or UNIQUE column is a projection whose values are
  distinct. \<open>find_row\<close> is a SELECT by key.
\<close>

definition find_row :: "('r \<Rightarrow> 'k) \<Rightarrow> 'k \<Rightarrow> 'r list \<Rightarrow> 'r option" where
  "find_row key k rows = find (\<lambda>r. key r = k) rows"

lemma find_row_Nil [simp]: "find_row key k [] = None"
  by (simp add: find_row_def)

lemma find_row_Cons [simp]:
  "find_row key k (r # rows) = (if key r = k then Some r else find_row key k rows)"
  by (simp add: find_row_def)

lemma find_row_Some: "find_row key k rows = Some r \<Longrightarrow> r \<in> set rows \<and> key r = k"
  by (induction rows) (auto split: if_splits)

lemma find_row_None: "find_row key k rows = None \<longleftrightarrow> k \<notin> key ` set rows"
  by (induction rows) auto

lemma find_row_distinct:
  "distinct (map key rows) \<Longrightarrow> r \<in> set rows \<Longrightarrow> find_row key (key r) rows = Some r"
  by (induction rows) (auto simp: rev_image_eqI)

lemma find_row_iff:
  "distinct (map key rows) \<Longrightarrow> find_row key k rows = Some r \<longleftrightarrow> r \<in> set rows \<and> key r = k"
  by (auto dest: find_row_Some find_row_distinct)

lemma find_row_filter:
  "distinct (map key rows) \<Longrightarrow>
   find_row key k (filter P rows) =
     (case find_row key k rows of None \<Rightarrow> None | Some r \<Rightarrow> if P r then Some r else None)"
proof (induction rows)
  case (Cons a rows)
  have "k \<notin> key ` set rows \<Longrightarrow> find_row key k (filter P rows) = None"
    by (auto simp: find_row_None)
  with Cons show ?case by auto
qed simp

lemma distinct_map_filter_key: "distinct (map key rows) \<Longrightarrow> distinct (map key (filter P rows))"
  by (induction rows) auto

lemma find_row_map:
  assumes "\<And>r. key (f r) = key r"
  shows "find_row key k (map f rows) = map_option f (find_row key k rows)"
  by (induction rows) (auto simp: assms)

lemma in_set_insort_key: "x \<in> set (insort_key f a xs) \<longleftrightarrow> x = a \<or> x \<in> set xs"
  by (induction xs) auto

lemma sum_list_filter_le:
  fixes f :: "'a \<Rightarrow> int"
  assumes "\<And>x. x \<in> set xs \<Longrightarrow> 0 \<le> f x"
  shows "sum_list (map f (filter P xs)) \<le> sum_list (map f xs)"
  using assms
proof (induction xs)
  case (Cons a xs)
  have "0 \<le> f a" by (rule Cons.prems) simp
  moreover have "sum_list (map f (filter P xs)) \<le> sum_list (map f xs)"
    by (rule Cons.IH) (rule Cons.prems, simp)
  ultimately show ?case by simp
qed simp

section \<open>Names\<close>

text \<open>\<^verbatim>\<open>strings.ToLower(strings.TrimSpace(name))\<close> on ASCII names, which the tiers' and the roles' are.\<close>

definition is_space :: "char \<Rightarrow> bool" where
  "is_space ch \<longleftrightarrow> ch = CHR '' '' \<or> (9 \<le> (of_char ch :: nat) \<and> (of_char ch :: nat) \<le> 13)"

definition lower :: "char \<Rightarrow> char" where
  "lower ch = (if 65 \<le> (of_char ch :: nat) \<and> (of_char ch :: nat) \<le> 90 then char_of (of_char ch + 32 :: nat) else ch)"

definition trim_lower :: "string \<Rightarrow> string" where
  "trim_lower name = map lower (rev (dropWhile is_space (rev (dropWhile is_space name))))"

end
