(* ===== verification/Rate_Limit.thy ===== *)
theory Rate_Limit
  imports Prelude Complex_Main
begin

text \<open>
  Request throttling (\<^verbatim>\<open>ratelimit/bucket.go\<close>, \<^verbatim>\<open>clients.go\<close>, \<^verbatim>\<open>ratelimit.go\<close>): token buckets, the
  bounded table of one bucket per client, and the hierarchy of global, client and tier limits.
  Times are nanoseconds and \<open>float64\<close> is modelled by the reals. The client table keeps a map from keys to the
  elements of a list in use order; the model is that list, most recent first, looked up by key. A
  pointer to a bucket in the table is its key: operations through it update the entry in place, and
  have no effect on the table once the entry is gone.
\<close>

section \<open>Token buckets\<close>

record bucket =
  rate :: real
  burst :: real
  tokens :: real
  last_at :: nanos

definition newBucket :: "real \<Rightarrow> real \<Rightarrow> nanos \<Rightarrow> bucket" where
  "newBucket r b now = \<lparr>rate = r, burst = b, tokens = b, last_at = now\<rparr>"

definition seconds :: "int \<Rightarrow> real" where
  "seconds d = real_of_int d / 1000000000"

definition refill :: "nanos \<Rightarrow> bucket \<Rightarrow> bucket" where
  "refill now b = (let elapsed = now - last_at b in
     if elapsed \<le> 0 then b
     else b\<lparr>last_at := now, tokens := min (burst b) (tokens b + seconds elapsed * rate b)\<rparr>)"

text \<open>\<^verbatim>\<open>time.Duration(x)\<close> of a float truncates towards zero.\<close>

definition duration_of :: "real \<Rightarrow> int" where
  "duration_of x = (if x \<ge> 0 then \<lfloor>x\<rfloor> else \<lceil>x\<rceil>)"

definition take_token :: "nanos \<Rightarrow> bucket \<Rightarrow> (bool \<times> int) \<times> bucket" where
  "take_token now b0 =
     (let b = refill now b0
      in if tokens b \<ge> 1 then ((True, 0), b\<lparr>tokens := tokens b - 1\<rparr>)
         else if rate b \<le> 0 then ((False, 0), b)
         else ((False, duration_of ((1 - tokens b) / rate b * 1000000000)), b))"

definition refund :: "nanos \<Rightarrow> bucket \<Rightarrow> bucket" where
  "refund now b0 = (let b = refill now b0 in b\<lparr>tokens := min (burst b) (tokens b + 1)\<rparr>)"

section \<open>The client table\<close>

record clientEntry =
  ce_key :: string
  ce_bucket :: bucket
  ce_seen :: nanos

record clientTable =
  ct_rate :: real
  ct_burst :: real
  ct_max :: int
  ct_idle :: int
  ct_order :: "clientEntry list"

definition newClientTable :: "real \<Rightarrow> real \<Rightarrow> int \<Rightarrow> int \<Rightarrow> clientTable" where
  "newClientTable r b m i = \<lparr>ct_rate = r, ct_burst = b, ct_max = m, ct_idle = i, ct_order = []\<rparr>"

text \<open>Drop from the cold end while it is idle; stop at the first entry inside the window.\<close>

definition expire_clients :: "nanos \<Rightarrow> clientTable \<Rightarrow> clientTable" where
  "expire_clients now t =
     (if ct_idle t \<le> 0 then t
      else t\<lparr>ct_order := rev (dropWhile (\<lambda>e. \<not> now - ce_seen e < ct_idle t) (rev (ct_order t)))\<rparr>)"

definition evictOldest :: "clientTable \<Rightarrow> clientTable" where
  "evictOldest t = t\<lparr>ct_order := butlast (ct_order t)\<rparr>"

text \<open>The loop at the end of \<^verbatim>\<open>bucketFor\<close>. The cap is positive: \<^verbatim>\<open>New\<close> replaces any other by the default.\<close>

function evict_to_max :: "clientTable \<Rightarrow> clientTable" where
  "evict_to_max t = (if nat (ct_max t) < length (ct_order t) then evict_to_max (evictOldest t) else t)"
  by pat_completeness auto
termination by (relation "measure (\<lambda>t. length (ct_order t))") (auto simp: evictOldest_def)

declare evict_to_max.simps [simp del]

lemma evict_to_max_take: "evict_to_max t = t\<lparr>ct_order := take (nat (ct_max t)) (ct_order t)\<rparr>"
proof (induction t rule: evict_to_max.induct)
  case (1 t)
  then show ?case
    by (subst evict_to_max.simps) (auto simp: evictOldest_def butlast_conv_take min_def)
qed

definition bucketFor :: "string \<Rightarrow> nanos \<Rightarrow> clientTable \<Rightarrow> bucket \<times> clientTable" where
  "bucketFor k now t0 =
     (let t = expire_clients now t0
      in case find_row ce_key k (ct_order t) of
           Some e \<Rightarrow> (ce_bucket e, t\<lparr>ct_order := e\<lparr>ce_seen := now\<rparr> # filter (\<lambda>x. ce_key x \<noteq> k) (ct_order t)\<rparr>)
         | None \<Rightarrow> (let b = newBucket (ct_rate t) (ct_burst t) now;
                       e = \<lparr>ce_key = k, ce_bucket = b, ce_seen = now\<rparr>
                   in (b, evict_to_max (t\<lparr>ct_order := e # ct_order t\<rparr>))))"

definition table_size :: "clientTable \<Rightarrow> nat" where
  "table_size t = length (ct_order t)"

text \<open>A write through the pointer \<^verbatim>\<open>bucketFor\<close> returned.\<close>

definition set_bucket :: "string \<Rightarrow> bucket \<Rightarrow> clientTable \<Rightarrow> clientTable" where
  "set_bucket k b t = t\<lparr>ct_order := map (\<lambda>e. if ce_key e = k then e\<lparr>ce_bucket := b\<rparr> else e) (ct_order t)\<rparr>"

section \<open>The limiter\<close>

datatype Scope = ScopeNone | ScopeGlobal | ScopeTier | ScopeClient

record Decision =
  Allowed :: bool
  dec_scope :: Scope
  RetryAfter :: int

definition allowed :: Decision where
  "allowed = \<lparr>Allowed = True, dec_scope = ScopeNone, RetryAfter = 0\<rparr>"

definition denied :: "Scope \<Rightarrow> int \<Rightarrow> Decision" where
  "denied sc w = \<lparr>Allowed = False, dec_scope = sc, RetryAfter = w\<rparr>"

record Rule =
  RequestsPerSecond :: real
  rule_burst :: int

definition configured :: "Rule \<Rightarrow> bool" where
  "configured r \<longleftrightarrow> RequestsPerSecond r > 0"

definition burst_of :: "Rule \<Rightarrow> real" where
  "burst_of r = (if rule_burst r > 0 then real_of_int (rule_burst r)
     else if RequestsPerSecond r < 1 then 1 else RequestsPerSecond r)"

record Config =
  Global :: Rule
  PerClient :: Rule
  Tiers :: "(string \<times> Rule) list"
  MaxClients :: int
  ClientIdle :: int

datatype config_error = NegativeRate string | NegativeBurst string | BurstWithoutRate string
  | NegativeMaxClients | NegativeIdle

definition validateRule :: "string \<Rightarrow> Rule \<Rightarrow> config_error option" where
  "validateRule key r =
     (if RequestsPerSecond r < 0 then Some (NegativeRate key)
      else if rule_burst r < 0 then Some (NegativeBurst key)
      else if rule_burst r > 0 \<and> \<not> configured r then Some (BurstWithoutRate key)
      else None)"

record Limiter =
  l_global :: "bucket option"
  l_clients :: "clientTable option"
  l_tiers :: "(string \<times> bucket) list"

fun first_problem :: "config_error option list \<Rightarrow> config_error option" where
  "first_problem [] = None"
| "first_problem (None # es) = first_problem es"
| "first_problem (Some e # es) = Some e"

definition defaultMaxClients :: int where "defaultMaxClients = 10000"

definition defaultClientIdle :: int where "defaultClientIdle = 5 * 60 * 1000000000"

definition normaliseTier :: "string \<Rightarrow> string" where
  "normaliseTier name = trim_lower name"

definition put_tier :: "nanos \<Rightarrow> string \<times> Rule \<Rightarrow> (string \<times> bucket) list \<Rightarrow> (string \<times> bucket) list" where
  "put_tier now nr ts = (let (name, r) = nr; k = normaliseTier name
     in if configured r then (k, newBucket (RequestsPerSecond r) (burst_of r) now) # filter (\<lambda>p. fst p \<noteq> k) ts else ts)"

definition New :: "Config \<Rightarrow> nanos \<Rightarrow> config_error + Limiter" where
  "New cfg now =
     (case first_problem ([validateRule ''rateLimit.global'' (Global cfg), validateRule ''rateLimit.perClient'' (PerClient cfg)]
             @ map (\<lambda>(n, r). validateRule (''rateLimit.tiers.'' @ n) r) (Tiers cfg)
             @ [if MaxClients cfg < 0 then Some NegativeMaxClients else None, if ClientIdle cfg < 0 then Some NegativeIdle else None]) of
        Some e \<Rightarrow> Inl e
      | None \<Rightarrow> Inr \<lparr>
          l_global = (if configured (Global cfg)
                      then Some (newBucket (RequestsPerSecond (Global cfg)) (burst_of (Global cfg)) now) else None),
          l_clients = (if configured (PerClient cfg)
                       then Some (newClientTable (RequestsPerSecond (PerClient cfg)) (burst_of (PerClient cfg))
                              (if MaxClients cfg = 0 then defaultMaxClients else MaxClients cfg)
                              (if ClientIdle cfg = 0 then defaultClientIdle else ClientIdle cfg))
                       else None),
          l_tiers = fold (put_tier now) (Tiers cfg) []\<rparr>)"

definition ArrivalActive :: "Limiter \<Rightarrow> bool" where
  "ArrivalActive l \<longleftrightarrow> l_global l \<noteq> None"

definition PrincipalActive :: "Limiter \<Rightarrow> bool" where
  "PrincipalActive l \<longleftrightarrow> l_clients l \<noteq> None \<or> l_tiers l \<noteq> []"

definition Active :: "Limiter \<Rightarrow> bool" where
  "Active l \<longleftrightarrow> ArrivalActive l \<or> PrincipalActive l"

definition Arrival :: "nanos \<Rightarrow> Limiter \<Rightarrow> Decision \<times> Limiter" where
  "Arrival now l = (case l_global l of
       None \<Rightarrow> (allowed, l)
     | Some b \<Rightarrow> (case take_token now b of ((ok, wait), b') \<Rightarrow>
         (if ok then allowed else denied ScopeGlobal wait, l\<lparr>l_global := Some b'\<rparr>)))"

text \<open>The tier level, given the client's token has been spent or none was needed.\<close>

definition tier_step :: "nanos \<Rightarrow> string \<Rightarrow> (string \<times> bucket) list \<Rightarrow> Decision \<times> (string \<times> bucket) list" where
  "tier_step now tier ts = (case map_of ts (normaliseTier tier) of
       None \<Rightarrow> (allowed, ts)
     | Some b \<Rightarrow> (case take_token now b of ((ok, wait), b') \<Rightarrow>
         (if ok then allowed else denied ScopeTier wait,
          map (\<lambda>p. if fst p = normaliseTier tier then (fst p, b') else p) ts)))"

definition Principal :: "nanos \<Rightarrow> string \<Rightarrow> string \<Rightarrow> Limiter \<Rightarrow> Decision \<times> Limiter" where
  "Principal now client tier l =
     (if \<not> PrincipalActive l then (allowed, l)
      else case (if client = [] then None else l_clients l) of
        None \<Rightarrow> (case tier_step now tier (l_tiers l) of (d, ts) \<Rightarrow> (d, l\<lparr>l_tiers := ts\<rparr>))
      | Some tb \<Rightarrow>
          (case bucketFor client now tb of (b, tb1) \<Rightarrow>
            (case take_token now b of ((ok, wait), b1) \<Rightarrow>
              if \<not> ok then (denied ScopeClient wait, l\<lparr>l_clients := Some (set_bucket client b1 tb1)\<rparr>)
              else case tier_step now tier (l_tiers l) of (d, ts) \<Rightarrow>
                (d, l\<lparr>l_clients := Some (set_bucket client (if Allowed d then b1 else refund now b1) tb1), l_tiers := ts\<rparr>))))"

definition Clients :: "Limiter \<Rightarrow> nat" where
  "Clients l = (case l_clients l of None \<Rightarrow> 0 | Some t \<Rightarrow> table_size t)"

section \<open>Buckets\<close>

definition bucket_ok :: "bucket \<Rightarrow> bool" where
  "bucket_ok b \<longleftrightarrow> 0 < rate b \<and> 1 \<le> burst b \<and> 0 \<le> tokens b \<and> tokens b \<le> burst b"

lemma burst_of_ge_1: "validateRule k r = None \<Longrightarrow> configured r \<Longrightarrow> 1 \<le> burst_of r"
  by (auto simp: validateRule_def burst_of_def configured_def split: if_splits)

lemma newBucket_ok: "0 < r \<Longrightarrow> 1 \<le> b \<Longrightarrow> bucket_ok (newBucket r b now)"
  by (simp add: bucket_ok_def newBucket_def)

lemma seconds_nonneg: "0 \<le> d \<Longrightarrow> 0 \<le> seconds d"
  by (simp add: seconds_def)

lemma seconds_mono: "d \<le> e \<Longrightarrow> seconds d \<le> seconds e"
  by (simp add: seconds_def divide_right_mono)

lemma seconds_add: "seconds (d + e) = seconds d + seconds e"
  by (simp add: seconds_def add_divide_distrib)

lemma refill_keeps: "rate (refill now b) = rate b" "burst (refill now b) = burst b" "last_at (refill now b) = max (last_at b) now"
  by (auto simp: refill_def Let_def)

lemma refill_ok: "bucket_ok b \<Longrightarrow> bucket_ok (refill now b)"
  by (auto simp: bucket_ok_def refill_def Let_def seconds_nonneg min_def)

lemma take_token_ok: "bucket_ok b \<Longrightarrow> bucket_ok (snd (take_token now b))"
  using refill_ok [of b now] by (auto simp: take_token_def Let_def bucket_ok_def)

lemma refund_ok: "bucket_ok b \<Longrightarrow> bucket_ok (refund now b)"
  using refill_ok [of b now] by (auto simp: refund_def Let_def bucket_ok_def)

lemma take_token_keeps:
  "rate (snd (take_token now b)) = rate b" "burst (snd (take_token now b)) = burst b"
  "last_at (snd (take_token now b)) = max (last_at b) now"
  by (simp_all add: take_token_def Let_def refill_keeps)

lemma refund_keeps:
  "rate (refund now b) = rate b" "burst (refund now b) = burst b" "last_at (refund now b) = max (last_at b) now"
  by (simp_all add: refund_def Let_def refill_keeps)

text \<open>What a bucket holds never exceeds what it held plus what time has accrued.\<close>

lemma refill_credit:
  assumes "bucket_ok b" "now \<le> T" "last_at b \<le> T"
  shows "tokens (refill now b) + seconds (T - last_at (refill now b)) * rate b \<le> tokens b + seconds (T - last_at b) * rate b"
proof (cases "now \<le> last_at b")
  case False
  have "seconds (T - last_at b) = seconds (now - last_at b) + seconds (T - now)" by (simp flip: seconds_add)
  then show ?thesis using False by (simp add: refill_def Let_def algebra_simps)
qed (simp add: refill_def)

text \<open>The admissions of a run of requests on one bucket.\<close>

fun admitted :: "nanos list \<Rightarrow> bucket \<Rightarrow> nat" where
  "admitted [] b = 0"
| "admitted (t # ts) b = (if fst (fst (take_token t b)) then 1 else 0) + admitted ts (snd (take_token t b))"

lemma admitted_bound:
  assumes "bucket_ok b" "\<forall>t \<in> set ts. t \<le> T" "last_at b \<le> T"
  shows "real (admitted ts b) \<le> tokens b + seconds (T - last_at b) * rate b"
  using assms
proof (induction ts arbitrary: b)
  case Nil
  then have "0 \<le> tokens b" "0 \<le> seconds (T - last_at b) * rate b" by (simp_all add: bucket_ok_def seconds_nonneg)
  then show ?case by simp
next
  case (Cons t ts)
  let ?b = "snd (take_token t b)" and ?n = "if fst (fst (take_token t b)) then 1 else (0::real)"
  have "last_at ?b \<le> T" using Cons.prems by (simp add: take_token_keeps)
  then have "real (admitted ts ?b) \<le> tokens ?b + seconds (T - last_at ?b) * rate b"
    using Cons.IH [of ?b] Cons.prems take_token_ok by (simp add: take_token_keeps)
  moreover have "?n + tokens ?b = tokens (refill t b)" "last_at ?b = last_at (refill t b)"
    by (simp_all add: take_token_def Let_def)
  ultimately show ?case using refill_credit [of b t T] Cons.prems by (simp split: if_splits)
qed

section \<open>Arrivals\<close>

fun arrivals :: "nanos list \<Rightarrow> Limiter \<Rightarrow> Decision list \<times> Limiter" where
  "arrivals [] l = ([], l)"
| "arrivals (t # ts) l = (let (d, l1) = Arrival t l; (ds, l2) = arrivals ts l1 in (d # ds, l2))"

lemma arrivals_admitted:
  "l_global l = Some b \<Longrightarrow> length (filter Allowed (fst (arrivals ts l))) = admitted ts b"
proof (induction ts arbitrary: l b)
  case (Cons t ts)
  obtain ok w b' where "take_token t b = ((ok, w), b')" by (metis prod.collapse)
  with Cons show ?case by (simp add: Arrival_def allowed_def denied_def Let_def split_beta)
qed simp

lemma first_problem_None: "first_problem es = None \<longleftrightarrow> set es \<subseteq> {None}"
  by (induction es rule: first_problem.induct) auto

lemma New_rules:
  assumes "New cfg now = Inr l"
  shows "validateRule ''rateLimit.global'' (Global cfg) = None" "validateRule ''rateLimit.perClient'' (PerClient cfg) = None"
    "0 \<le> MaxClients cfg" "0 \<le> ClientIdle cfg"
    "l_global l = (if configured (Global cfg) then Some (newBucket (RequestsPerSecond (Global cfg)) (burst_of (Global cfg)) now) else None)"
    "l_clients l = (if configured (PerClient cfg)
       then Some (newClientTable (RequestsPerSecond (PerClient cfg)) (burst_of (PerClient cfg))
              (if MaxClients cfg = 0 then defaultMaxClients else MaxClients cfg)
              (if ClientIdle cfg = 0 then defaultClientIdle else ClientIdle cfg)) else None)"
  using assms by (auto simp: New_def first_problem_None split: option.splits if_splits)

text \<open>
  C36. The global ceiling holds: whatever times requests arrive at, clock steps backwards included, a
  limiter started at \<open>now\<close> admits no more of them by time \<open>T\<close> than its burst plus its rate times the
  seconds since it started.
\<close>

theorem global_ceiling_holds:
  assumes "New cfg now = Inr l" "configured (Global cfg)" "\<forall>t \<in> set ts. t \<le> T" "now \<le> T"
  shows "real (length (filter Allowed (fst (arrivals ts l)))) \<le> burst_of (Global cfg) + seconds (T - now) * RequestsPerSecond (Global cfg)"
proof -
  let ?b = "newBucket (RequestsPerSecond (Global cfg)) (burst_of (Global cfg)) now"
  have "l_global l = Some ?b" using New_rules(5) [OF assms(1)] assms(2) by simp
  moreover have "bucket_ok ?b" using burst_of_ge_1 [OF New_rules(1) [OF assms(1)] assms(2)] assms(2)
    by (intro newBucket_ok) (simp_all add: configured_def)
  ultimately show ?thesis
    using admitted_bound [of ?b ts T] arrivals_admitted [of l ?b ts] assms(3,4) by (simp add: newBucket_def)
qed

definition sample_limits :: Config where
  "sample_limits = \<lparr>Global = \<lparr>RequestsPerSecond = 2, rule_burst = 3\<rparr>, PerClient = \<lparr>RequestsPerSecond = 1, rule_burst = 0\<rparr>,
     Tiers = [(''Reader'', \<lparr>RequestsPerSecond = 5, rule_burst = 0\<rparr>)], MaxClients = 2, ClientIdle = 0\<rparr>"

lemma sample_limits_ok: "\<exists>l. New sample_limits 0 = Inr l"
  by (simp add: New_def sample_limits_def validateRule_def configured_def)

theorem global_ceiling_holds_witness:
  "\<exists>l. New sample_limits 0 = Inr l \<and> length (filter Allowed (fst (arrivals [0, 0, 0, 0, 0] l))) \<le> 3"
proof -
  obtain l where l: "New sample_limits 0 = Inr l" using sample_limits_ok by blast
  then show ?thesis using global_ceiling_holds [OF l, of "[0, 0, 0, 0, 0]" 0]
    by (auto simp: sample_limits_def configured_def burst_of_def seconds_def)
qed

section \<open>Waiting\<close>

lemma wait_suffices:
  assumes "bucket_ok b" "last_at b \<le> now" "take_token now b = ((False, w), b')" "now + w + 1 \<le> t"
  shows "fst (fst (take_token t b')) \<and> 0 \<le> w"
proof -
  define x where "x = (1 - tokens b') / rate b' * 1000000000"
  have b': "b' = refill now b" "tokens b' < 1" "w = duration_of x" and r: "0 < rate b'"
    using assms(1,3) by (auto simp: take_token_def Let_def x_def bucket_ok_def refill_keeps split: if_splits)
  have ok: "bucket_ok b'" using refill_ok [OF assms(1)] b'(1) by simp
  have "0 \<le> x" using b'(2) r by (simp add: x_def)
  then have w: "0 \<le> w" "x < real_of_int (w + 1)" by (simp_all add: b'(3) duration_of_def)
  have l: "last_at b' = now" using assms(2) by (simp add: b'(1) refill_keeps)
  have "x \<le> real_of_int (t - now)" using w(2) assms(4) by linarith
  then have "1 - tokens b' \<le> seconds (t - now) * rate b'" using r by (simp add: x_def seconds_def field_simps)
  moreover have "now < t" using w(1) assms(4) by linarith
  ultimately have "1 \<le> tokens (refill t b')" using ok by (simp add: refill_def Let_def l bucket_ok_def)
  then show ?thesis using w(1) by (simp add: take_token_def Let_def)
qed

definition global_ok :: "nanos \<Rightarrow> Limiter \<Rightarrow> bool" where
  "global_ok now l \<longleftrightarrow> (case l_global l of None \<Rightarrow> True | Some b \<Rightarrow> bucket_ok b \<and> last_at b \<le> now)"

text \<open>
  C38. The wait a refusal reports is honest: a request the global ceiling refused is admitted when it comes
  back, with nothing in between, any time after that wait and the nanosecond its truncation may have cost.
\<close>

theorem retry_after_is_enough:
  assumes "global_ok now l" "Arrival now l = (d, l')" "\<not> Allowed d" "now + RetryAfter d + 1 \<le> t"
  shows "Allowed (fst (Arrival t l')) \<and> 0 \<le> RetryAfter d \<and> dec_scope d = ScopeGlobal"
proof -
  obtain b where b: "l_global l = Some b" using assms(2,3) by (auto simp: Arrival_def allowed_def split: option.splits)
  obtain ok w b' where tk: "take_token now b = ((ok, w), b')" by (metis prod.collapse)
  have d: "\<not> ok" "d = denied ScopeGlobal w" "l' = l\<lparr>l_global := Some b'\<rparr>"
    using assms(2,3) by (auto simp: Arrival_def b tk allowed_def split: if_splits)
  then show ?thesis
    using wait_suffices [of b now w b' t] tk assms(1,4) b
    by (simp add: global_ok_def denied_def Arrival_def allowed_def split_beta)
qed

theorem retry_after_is_enough_witness:
  "let l = \<lparr>l_global = Some \<lparr>rate = 2, burst = 3, tokens = 0, last_at = 0\<rparr>, l_clients = None, l_tiers = []\<rparr>;
       r = Arrival 0 l
   in \<not> Allowed (fst r) \<and> RetryAfter (fst r) = 500000000 \<and> Allowed (fst (Arrival 500000001 (snd r)))"
proof -
  define l where "l = \<lparr>l_global = Some \<lparr>rate = 2, burst = 3, tokens = 0, last_at = 0\<rparr>, l_clients = None, l_tiers = []\<rparr>"
  have g: "global_ok 0 l" by (simp add: global_ok_def l_def bucket_ok_def)
  have d: "fst (Arrival 0 l) = denied ScopeGlobal 500000000"
    by (simp add: Arrival_def l_def take_token_def refill_def Let_def duration_of_def)
  from retry_after_is_enough [OF g surjective_pairing, of 500000001] show ?thesis
    by (simp add: d denied_def flip: l_def)
qed

section \<open>The client table\<close>

definition keys :: "clientTable \<Rightarrow> string list" where
  "keys t = map ce_key (ct_order t)"

definition table_ok :: "clientTable \<Rightarrow> bool" where
  "table_ok t \<longleftrightarrow> 0 < ct_max t \<and> distinct (keys t) \<and> int (length (keys t)) \<le> ct_max t"

lemma expire_clients_prefix: "\<exists>n. ct_order (expire_clients now t) = take n (ct_order t)"
proof -
  have "\<exists>n. rev (dropWhile P (rev xs)) = take n xs" for P and xs :: "clientEntry list"
    by (metis append_eq_conv_conj rev_append rev_rev_ident takeWhile_dropWhile_id)
  then show ?thesis by (auto simp: expire_clients_def intro: exI [of _ "length (ct_order t)"])
qed

lemma expire_clients_frame:
  "ct_max (expire_clients now t) = ct_max t" "ct_rate (expire_clients now t) = ct_rate t"
  "ct_burst (expire_clients now t) = ct_burst t" "ct_idle (expire_clients now t) = ct_idle t"
  by (simp_all add: expire_clients_def)

lemma keys_set_bucket [simp]: "keys (set_bucket k b t) = keys t"
  by (simp add: keys_def set_bucket_def comp_def if_distrib cong: if_cong)

lemma bucketFor_ok:
  assumes "table_ok t"
  shows "table_ok (snd (bucketFor k now t))" "k \<in> set (keys (snd (bucketFor k now t)))"
    "ct_max (snd (bucketFor k now t)) = ct_max t"
proof -
  let ?t = "expire_clients now t"
  obtain n where n: "ct_order ?t = take n (ct_order t)" using expire_clients_prefix by blast
  have d: "distinct (keys ?t)" and l: "int (length (keys ?t)) \<le> ct_max t" and m: "0 < ct_max t"
    using assms by (auto simp: table_ok_def keys_def n distinct_take simp flip: take_map)
  show "table_ok (snd (bucketFor k now t))" "k \<in> set (keys (snd (bucketFor k now t)))" "ct_max (snd (bucketFor k now t)) = ct_max t"
  proof (atomize (full), cases "find_row ce_key k (ct_order ?t)")
    case (Some e)
    then have e: "e \<in> set (ct_order ?t)" "ce_key e = k" by (auto dest: find_row_Some)
    then have "length (filter (\<lambda>x. ce_key x \<noteq> k) (ct_order ?t)) < length (ct_order ?t)" by (intro length_filter_less) auto
    with d l m e Some show "table_ok (snd (bucketFor k now t)) \<and> k \<in> set (keys (snd (bucketFor k now t))) \<and> ct_max (snd (bucketFor k now t)) = ct_max t"
      by (auto simp: bucketFor_def Let_def table_ok_def keys_def expire_clients_frame distinct_map_filter_key distinct_map inj_on_def)
  next
    case None
    then have "k \<notin> set (keys ?t)" by (auto simp: keys_def find_row_None)
    with d m None have "distinct (take (nat (ct_max t)) (k # keys ?t))" by (intro distinct_take) simp
    with d l m None show "table_ok (snd (bucketFor k now t)) \<and> k \<in> set (keys (snd (bucketFor k now t))) \<and> ct_max (snd (bucketFor k now t)) = ct_max t"
      by (cases "nat (ct_max t)") (auto simp: bucketFor_def Let_def table_ok_def keys_def expire_clients_frame evict_to_max_take newBucket_def take_map)
  qed
qed

section \<open>Runs of requests\<close>

type_synonym request = "nanos \<times> string \<times> string"

fun run :: "request list \<Rightarrow> Limiter \<Rightarrow> Decision list \<times> Limiter" where
  "run [] l = ([], l)"
| "run ((now, client, tier) # rs) l = (let (d, l1) = Principal now client tier l; (ds, l2) = run rs l1 in (d # ds, l2))"

definition tracked :: "Limiter \<Rightarrow> bool" where
  "tracked l \<longleftrightarrow> (case l_clients l of None \<Rightarrow> True | Some t \<Rightarrow> table_ok t)"

lemma Principal_tracked:
  assumes "tracked l" "Principal now client tier l = (d, l')"
  shows "tracked l' \<and> map_option ct_max (l_clients l') = map_option ct_max (l_clients l)
    \<and> (client \<noteq> [] \<longrightarrow> (case l_clients l' of None \<Rightarrow> True | Some t \<Rightarrow> client \<in> set (keys t)))"
proof (cases "client = [] \<or> l_clients l = None")
  case True
  then show ?thesis using assms by (auto simp: Principal_def PrincipalActive_def tracked_def split: if_splits prod.splits option.splits)
next
  case False
  then obtain t where t: "l_clients l = Some t" "client \<noteq> []" by auto
  have B: "table_ok (snd (bucketFor client now t))" "client \<in> set (keys (snd (bucketFor client now t)))"
    "ct_max (snd (bucketFor client now t)) = ct_max t"
    using bucketFor_ok assms(1) t by (simp_all add: tracked_def)
  have "\<exists>b. l_clients l' = Some (set_bucket client b (snd (bucketFor client now t)))"
    using assms(2) t by (auto simp: Principal_def PrincipalActive_def split_beta Let_def split: if_splits)
  then obtain b where "l_clients l' = Some (set_bucket client b (snd (bucketFor client now t)))" by blast
  with B t show ?thesis by (simp add: tracked_def table_ok_def) (simp add: set_bucket_def)
qed

text \<open>
  The client table is bounded and never loses the caller it is serving: through any run of requests,
  at any times, the limiter tracks no more clients than its maximum, each once, and the client of the
  last request, which is the one a limit could be refusing, is among them.
\<close>

theorem client_table_stays_bounded:
  assumes "New cfg start = Inr l" "configured (PerClient cfg)"
    and "run (rs @ [(now, client, tier)]) l = (ds, l')" "client \<noteq> []"
  shows "\<exists>t. l_clients l' = Some t \<and> distinct (keys t) \<and> client \<in> set (keys t)
    \<and> int (Clients l') \<le> (if MaxClients cfg = 0 then defaultMaxClients else MaxClients cfg)"
proof -
  let ?m = "if MaxClients cfg = 0 then defaultMaxClients else MaxClients cfg"
  have start: "tracked l \<and> map_option ct_max (l_clients l) = Some ?m"
    using New_rules(3,6) [OF assms(1)] assms(2)
    by (auto simp: tracked_def newClientTable_def table_ok_def keys_def defaultMaxClients_def)
  have inv: "tracked (snd (run qs k)) \<and> map_option ct_max (l_clients (snd (run qs k))) = Some ?m"
    if "tracked k \<and> map_option ct_max (l_clients k) = Some ?m" for qs k
    using that
  proof (induction qs arbitrary: k)
    case (Cons q qs)
    obtain n c r where q: "q = (n, c, r)" by (cases q)
    obtain d k1 where P: "Principal n c r k = (d, k1)" by fastforce
    with Principal_tracked [OF _ P] Cons.prems have "tracked k1 \<and> map_option ct_max (l_clients k1) = Some ?m" by simp
    from Cons.IH [OF this] show ?case by (simp add: q P split_beta Let_def)
  qed simp
  have snoc: "snd (run (qs @ [(n, c, r)]) k) = snd (Principal n c r (snd (run qs k)))" for qs n c r k
    by (induction qs arbitrary: k) (auto simp: split_beta Let_def)
  let ?k = "snd (run rs l)"
  have "l' = snd (Principal now client tier ?k)" using snoc [of rs now client tier l] assms(3) by simp
  then obtain d where "Principal now client tier ?k = (d, l')" by (metis prod.collapse)
  with Principal_tracked [OF _ this] inv [OF start, of rs] assms(4) show ?thesis
    by (auto simp: tracked_def table_ok_def keys_def Clients_def table_size_def split: option.splits)
qed

theorem client_table_stays_bounded_witness:
  "\<exists>l. New sample_limits 0 = Inr l \<and> Clients (snd (run [(0, ''a'', []), (0, ''b'', []), (0, ''c'', [])] l)) \<le> 2"
proof -
  obtain l where l: "New sample_limits 0 = Inr l" using sample_limits_ok by blast
  have c: "configured (PerClient sample_limits)" by (simp add: sample_limits_def configured_def)
  have s: "[(0, ''a'', []), (0, ''b'', []), (0, ''c'', [])] = [(0, ''a'', []), (0, ''b'', [])] @ [(0, ''c'', [] :: string)]" by simp
  from client_table_stays_bounded [OF l c surjective_pairing, where rs = "[(0, ''a'', []), (0, ''b'', [])]" and now = 0
      and client = "''c''" and tier = "[]"] l
  show ?thesis unfolding s by (auto simp: sample_limits_def)
qed

section \<open>What the table promises\<close>

text \<open>
  The client level reads and writes buckets through two operations, so it can be run against any
  table that offers them. The specification is the table nobody would dare to run: every bucket
  ever handed out, for ever.
\<close>

type_synonym 't bucket_reader = "string \<Rightarrow> nanos \<Rightarrow> 't \<Rightarrow> bucket \<times> 't"

definition principal_with :: "'t bucket_reader \<Rightarrow> (string \<Rightarrow> bucket \<Rightarrow> 't \<Rightarrow> 't) \<Rightarrow> request
    \<Rightarrow> 't \<times> (string \<times> bucket) list \<Rightarrow> Decision \<times> ('t \<times> (string \<times> bucket) list)" where
  "principal_with get put q st =
     (case (q, st) of ((now, client, tier), (tb, ts)) \<Rightarrow>
       if client = [] then (case tier_step now tier ts of (d, ts') \<Rightarrow> (d, (tb, ts')))
       else case get client now tb of (b, tb1) \<Rightarrow>
         (case take_token now b of ((ok, wait), b1) \<Rightarrow>
            if \<not> ok then (denied ScopeClient wait, (put client b1 tb1, ts))
            else case tier_step now tier ts of (d, ts') \<Rightarrow>
              (d, (put client (if Allowed d then b1 else refund now b1) tb1, ts'))))"

fun run_with :: "'t bucket_reader \<Rightarrow> (string \<Rightarrow> bucket \<Rightarrow> 't \<Rightarrow> 't) \<Rightarrow> request list
    \<Rightarrow> 't \<times> (string \<times> bucket) list \<Rightarrow> Decision list" where
  "run_with get put [] st = []"
| "run_with get put (q # qs) st = (case principal_with get put q st of (d, st') \<Rightarrow> d # run_with get put qs st')"

lemma run_is_run_with:
  "l_clients l = Some tb \<Longrightarrow> fst (run qs l) = run_with bucketFor set_bucket qs (tb, l_tiers l)"
proof (induction qs arbitrary: l tb)
  case (Cons q qs)
  obtain now c r where q: "q = (now, c, r)" by (cases q)
  obtain d l1 where P: "Principal now c r l = (d, l1)" by fastforce
  then obtain tb1 where "l_clients l1 = Some tb1" "principal_with bucketFor set_bucket q (tb, l_tiers l) = (d, (tb1, l_tiers l1))"
    using Cons.prems
    by (auto simp: Principal_def PrincipalActive_def principal_with_def q split_beta Let_def split: if_splits)
  with Cons.IH [of l1 tb1] show ?case by (simp add: q P split_beta Let_def)
qed simp

definition spec_get :: "real \<Rightarrow> real \<Rightarrow> (string \<Rightarrow> bucket option) bucket_reader" where
  "spec_get r b k now A = ((case A k of None \<Rightarrow> newBucket r b now | Some x \<Rightarrow> x), A)"

definition spec_put :: "string \<Rightarrow> bucket \<Rightarrow> (string \<Rightarrow> bucket option) \<Rightarrow> (string \<Rightarrow> bucket option)" where
  "spec_put k b A = A(k \<mapsto> b)"

text \<open>
  Two tables are interchangeable when buckets read from related tables behave alike on the request
  at hand and writing the result back keeps the tables related.
\<close>

locale interchangeable_tables =
  fixes get1 :: "'s bucket_reader" and put1 :: "string \<Rightarrow> bucket \<Rightarrow> 's \<Rightarrow> 's"
    and get2 :: "'t bucket_reader" and put2 :: "string \<Rightarrow> bucket \<Rightarrow> 't \<Rightarrow> 't"
    and related :: "nanos \<Rightarrow> 's \<Rightarrow> 't \<Rightarrow> bool" and known :: "string set"
  assumes same_answer: "related t0 s a \<Longrightarrow> t0 \<le> now \<Longrightarrow> k \<in> known \<Longrightarrow>
      take_token now (fst (get1 k now s)) = take_token now (fst (get2 k now a))"
    and write_back: "related t0 s a \<Longrightarrow> t0 \<le> now \<Longrightarrow> k \<in> known \<Longrightarrow>
      b1 = snd (take_token now (fst (get1 k now s))) \<Longrightarrow> x = b1 \<or> x = refund now b1 \<Longrightarrow>
      related now (put1 k x (snd (get1 k now s))) (put2 k x (snd (get2 k now a)))"
    and time_passes: "related t0 s a \<Longrightarrow> t0 \<le> now \<Longrightarrow> related now s a"
begin

lemma same_step:
  assumes "related t0 s a" "t0 \<le> now" "client = [] \<or> client \<in> known"
  shows "\<exists>d s' a' ts'. principal_with get1 put1 (now, client, tier) (s, ts) = (d, (s', ts'))
    \<and> principal_with get2 put2 (now, client, tier) (a, ts) = (d, (a', ts')) \<and> related now s' a'"
proof (cases "client = []")
  case True
  then show ?thesis using time_passes [OF assms(1,2)] by (auto simp: principal_with_def split: prod.splits)
next
  case False
  with assms(3) have k: "client \<in> known" by simp
  note same = same_answer [OF assms(1,2) k, symmetric] and wb = write_back [OF assms(1,2) k refl]
  show ?thesis using False wb by (auto simp: principal_with_def same split_beta)
qed

lemma same_decisions:
  assumes "related t0 s a" "sorted (t0 # map fst qs)" "\<forall>(now, client, tier) \<in> set qs. client = [] \<or> client \<in> known"
  shows "run_with get1 put1 qs (s, ts) = run_with get2 put2 qs (a, ts)"
  using assms
proof (induction qs arbitrary: t0 s a ts)
  case (Cons q qs)
  obtain now client tier where q: "q = (now, client, tier)" by (cases q)
  obtain d s' a' ts' where S: "principal_with get1 put1 q (s, ts) = (d, (s', ts'))"
    "principal_with get2 put2 q (a, ts) = (d, (a', ts'))" "related now s' a'"
    using same_step [OF Cons.prems(1), of now client tier ts] Cons.prems(2,3) q by auto
  have "sorted (now # map fst qs)" using Cons.prems(2) q by simp
  with Cons.IH [OF S(3)] Cons.prems(3) S(1,2) show ?case by simp
qed simp

end

section \<open>The bounded table refines the unbounded one\<close>

definition refilled_by :: "nanos \<Rightarrow> bucket \<Rightarrow> bool" where
  "refilled_by now b \<longleftrightarrow> bucket_ok b \<and> last_at b \<le> now \<and> burst b \<le> tokens b + seconds (now - last_at b) * rate b"

definition table_related :: "real \<Rightarrow> real \<Rightarrow> string set \<Rightarrow> nanos \<Rightarrow> clientTable \<Rightarrow> (string \<Rightarrow> bucket option) \<Rightarrow> bool" where
  "table_related r b known now t A \<longleftrightarrow>
     ct_rate t = r \<and> ct_burst t = b \<and> 0 < r \<and> 1 \<le> b \<and> b \<le> seconds (ct_idle t) * r
     \<and> distinct (keys t) \<and> set (keys t) \<subseteq> known \<and> finite known \<and> int (card known) \<le> ct_max t
     \<and> (\<forall>k x. A k = Some x \<longrightarrow> rate x = r \<and> burst x = b)
     \<and> (\<forall>e \<in> set (ct_order t). A (ce_key e) = Some (ce_bucket e) \<and> bucket_ok (ce_bucket e)
          \<and> last_at (ce_bucket e) \<le> ce_seen e \<and> ce_seen e \<le> now)
     \<and> (\<forall>k x. k \<notin> set (keys t) \<longrightarrow> A k = Some x \<longrightarrow> refilled_by now x)"

lemma refilled_later: "refilled_by now b \<Longrightarrow> now \<le> later \<Longrightarrow> refilled_by later b"
  using seconds_mono [of "now - last_at b" "later - last_at b"]
  by (auto simp: refilled_by_def bucket_ok_def intro: order_trans mult_right_mono add_mono)

lemma refilled_is_new: "refilled_by now x \<Longrightarrow> rate x = r \<Longrightarrow> burst x = b \<Longrightarrow> take_token now x = take_token now (newBucket r b now)"
proof -
  assume "refilled_by now x" "rate x = r" "burst x = b"
  then have "refill now x = newBucket r b now"
    by (auto simp: refilled_by_def refill_def Let_def newBucket_def bucket_ok_def seconds_def min_def)
  moreover have "refill now (newBucket r b now) = newBucket r b now" by (simp add: refill_def newBucket_def)
  ultimately show ?thesis by (simp add: take_token_def)
qed

lemma related_later: "table_related r b known t0 t A \<Longrightarrow> t0 \<le> now \<Longrightarrow> table_related r b known now t A"
  unfolding table_related_def by (auto intro: refilled_later [where now = t0])

text \<open>An idle entry's bucket has refilled, so dropping it is not observable.\<close>

lemma expire_related:
  assumes "table_related r b known now t A"
  shows "table_related r b known now (expire_clients now t) A"
proof (cases "ct_idle t \<le> 0")
  case False
  let ?t = "expire_clients now t" and ?old = "\<lambda>e. \<not> now - ce_seen e < ct_idle t"
  note R = assms [unfolded table_related_def]
  obtain n where n: "ct_order ?t = take n (ct_order t)" using expire_clients_prefix by blast
  have kept: "set (ct_order ?t) \<subseteq> set (ct_order t)" by (auto simp: n dest: in_set_takeD)
  have old: "?old e" if "e \<in> set (ct_order t)" "e \<notin> set (ct_order ?t)" for e
  proof -
    have "e \<in> set (takeWhile ?old (rev (ct_order t))) \<union> set (dropWhile ?old (rev (ct_order t)))"
      using that(1) unfolding set_append [symmetric] takeWhile_dropWhile_id by simp
    moreover have "e \<notin> set (dropWhile ?old (rev (ct_order t)))" using that(2) False by (simp add: expire_clients_def)
    ultimately show ?thesis by (auto dest: set_takeWhileD)
  qed
  have full: "refilled_by now x" if x: "k \<notin> set (keys ?t)" "A k = Some x" for k x
  proof (cases "k \<in> set (keys t)")
    case True
    then obtain e where e: "e \<in> set (ct_order t)" "ce_key e = k" by (auto simp: keys_def)
    with x(1) have "?old e" by (intro old) (auto simp: keys_def)
    moreover have E: "x = ce_bucket e" "bucket_ok x" "last_at x \<le> ce_seen e" "ce_seen e \<le> now" using R e x(2) by auto
    ultimately have "seconds (ct_idle t) * r \<le> seconds (now - last_at x) * rate x"
      using R x(2) by (intro mult_mono seconds_mono seconds_nonneg) auto
    moreover have "burst x = b" "0 \<le> tokens x" "b \<le> seconds (ct_idle t) * r" using R E(2) x(2) by (auto simp: bucket_ok_def)
    ultimately have "burst x \<le> tokens x + seconds (now - last_at x) * rate x" by linarith
    then show ?thesis using E by (simp add: refilled_by_def)
  qed (use R x(2) in blast)
  have "distinct (keys ?t)" using R by (simp add: keys_def n distinct_take flip: take_map)
  moreover have "set (keys ?t) \<subseteq> set (keys t)" using kept by (auto simp: keys_def)
  ultimately show ?thesis using full kept R unfolding table_related_def expire_clients_frame by blast
qed (use assms in \<open>simp add: expire_clients_def\<close>)

lemma get_related:
  assumes "table_related r b known t0 t A" "t0 \<le> now" "k \<in> known"
    and g: "bucketFor k now t = (x, t1)"
  shows "take_token now x = take_token now (fst (spec_get r b k now A))" "bucket_ok x" "rate x = r" "burst x = b" "last_at x \<le> now"
    and "\<exists>es. ct_order t1 = \<lparr>ce_key = k, ce_bucket = x, ce_seen = now\<rparr> # es \<and> k \<notin> ce_key ` set es
      \<and> insert k (ce_key ` set es) = insert k (set (keys (expire_clients now t))) \<and> distinct (map ce_key es)
      \<and> set es \<subseteq> set (ct_order (expire_clients now t)) \<and> t1 = (expire_clients now t)\<lparr>ct_order := ct_order t1\<rparr>"
proof -
  let ?t = "expire_clients now t"
  note R = expire_related [OF related_later [OF assms(1,2)], unfolded table_related_def]
  have max: "length (ct_order ?t) < nat (ct_max ?t)" if "k \<notin> set (keys ?t)"
  proof -
    have "card (set (k # keys ?t)) \<le> card known" using R assms(3) by (intro card_mono) auto
    moreover have "card (set (k # keys ?t)) = Suc (length (ct_order ?t))"
      using R that distinct_card [of "k # keys ?t"] by (simp add: keys_def)
    ultimately show ?thesis using R by linarith
  qed
  have "take_token now x = take_token now (fst (spec_get r b k now A)) \<and> bucket_ok x \<and> rate x = r \<and> burst x = b \<and> last_at x \<le> now
    \<and> (\<exists>es. ct_order t1 = \<lparr>ce_key = k, ce_bucket = x, ce_seen = now\<rparr> # es \<and> k \<notin> ce_key ` set es
      \<and> insert k (ce_key ` set es) = insert k (set (keys ?t)) \<and> distinct (map ce_key es)
      \<and> set es \<subseteq> set (ct_order ?t) \<and> t1 = ?t\<lparr>ct_order := ct_order t1\<rparr>)"
  proof (cases "find_row ce_key k (ct_order ?t)")
    case (Some e)
    then have e: "e \<in> set (ct_order ?t)" "ce_key e = k" by (auto dest: find_row_Some)
    have x: "x = ce_bucket e" "t1 = ?t\<lparr>ct_order := e\<lparr>ce_seen := now\<rparr> # filter (\<lambda>y. ce_key y \<noteq> k) (ct_order ?t)\<rparr>"
      using g Some by (simp_all add: bucketFor_def Let_def)
    have "A k = Some x" "bucket_ok x" "last_at x \<le> now" using R e x(1) by force+
    moreover have "e\<lparr>ce_seen := now\<rparr> = \<lparr>ce_key = k, ce_bucket = x, ce_seen = now\<rparr>" using e(2) x(1) by (cases e) simp
    ultimately show ?thesis using R x e
      by (auto simp: spec_get_def keys_def distinct_map_filter_key)
  next
    case None
    then have k: "k \<notin> set (keys ?t)" by (auto simp: keys_def find_row_None)
    have x: "x = newBucket r b now" "ct_order t1 = \<lparr>ce_key = k, ce_bucket = x, ce_seen = now\<rparr> # ct_order ?t"
      "t1 = ?t\<lparr>ct_order := ct_order t1\<rparr>"
      using g None R max [OF k]
      by (auto simp: bucketFor_def Let_def evict_to_max_take newBucket_def)
    have "take_token now x = take_token now (fst (spec_get r b k now A))"
      using R k refilled_is_new x(1) by (fastforce simp: spec_get_def split: option.splits)
    then show ?thesis using R x k by (auto simp: newBucket_ok keys_def) (simp_all add: newBucket_def)
  qed
  then show "take_token now x = take_token now (fst (spec_get r b k now A))" "bucket_ok x" "rate x = r" "burst x = b" "last_at x \<le> now"
    "\<exists>es. ct_order t1 = \<lparr>ce_key = k, ce_bucket = x, ce_seen = now\<rparr> # es \<and> k \<notin> ce_key ` set es
      \<and> insert k (ce_key ` set es) = insert k (set (keys ?t)) \<and> distinct (map ce_key es)
      \<and> set es \<subseteq> set (ct_order ?t) \<and> t1 = ?t\<lparr>ct_order := ct_order t1\<rparr>"
    by blast+
qed

lemma put_related:
  assumes "table_related r b known t0 t A" "t0 \<le> now" "k \<in> known"
    and g: "bucketFor k now t = (x, t1)" and y: "bucket_ok y" "rate y = r" "burst y = b" "last_at y \<le> now"
  shows "table_related r b known now (set_bucket k y t1) (spec_put k y A)"
proof -
  let ?t = "expire_clients now t"
  note R = expire_related [OF related_later [OF assms(1,2)], unfolded table_related_def]
  obtain es where es: "ct_order t1 = \<lparr>ce_key = k, ce_bucket = x, ce_seen = now\<rparr> # es" "k \<notin> ce_key ` set es"
    "insert k (ce_key ` set es) = insert k (set (keys ?t))" "distinct (map ce_key es)" "set es \<subseteq> set (ct_order ?t)"
    "t1 = ?t\<lparr>ct_order := ct_order t1\<rparr>"
    using get_related(6) [OF assms(1-3) g] by blast
  have "map (\<lambda>e. if ce_key e = k then e\<lparr>ce_bucket := y\<rparr> else e) es = es" using es(2) by (intro map_idI) auto
  then have o: "ct_order (set_bucket k y t1) = \<lparr>ce_key = k, ce_bucket = y, ce_seen = now\<rparr> # es"
    by (simp add: set_bucket_def es(1))
  have ks: "set (keys (set_bucket k y t1)) = insert k (set (keys ?t))" using es(3) by (simp add: keys_def o)
  have fr: "ct_rate (set_bucket k y t1) = ct_rate ?t" "ct_burst (set_bucket k y t1) = ct_burst ?t"
    "ct_idle (set_bucket k y t1) = ct_idle ?t" "ct_max (set_bucket k y t1) = ct_max ?t"
    by (subst es(6), simp add: set_bucket_def)+
  have "distinct (keys (set_bucket k y t1))" using es(2,4) by (simp add: keys_def o)
  moreover have "\<forall>e \<in> set (ct_order (set_bucket k y t1)). spec_put k y A (ce_key e) = Some (ce_bucket e) \<and> bucket_ok (ce_bucket e)
      \<and> last_at (ce_bucket e) \<le> ce_seen e \<and> ce_seen e \<le> now"
    unfolding o using R y es(2,5) by (auto simp: spec_put_def)
  ultimately show ?thesis
    unfolding table_related_def fr ks using R y assms(3) by (auto simp: spec_put_def)
qed

interpretation lru: interchangeable_tables bucketFor set_bucket "spec_get r b" spec_put "table_related r b known" known
  for r b known
proof
  fix t0 s a now k
  assume R: "table_related r b known t0 s a" and t: "t0 \<le> now"
  then show "table_related r b known now s a" by (rule related_later)
  assume k: "k \<in> known"
  note G = get_related [OF R t k surjective_pairing]
  show "take_token now (fst (bucketFor k now s)) = take_token now (fst (spec_get r b k now a))" by (rule G(1))
  fix b1 x
  assume "b1 = snd (take_token now (fst (bucketFor k now s)))" "x = b1 \<or> x = refund now b1"
  with G(2-5) have "bucket_ok x" "rate x = r" "burst x = b" "last_at x \<le> now"
    by (auto simp: take_token_ok refund_ok take_token_keeps refund_keeps)
  from put_related [OF R t k surjective_pairing this]
  show "table_related r b known now (set_bucket k x (snd (bucketFor k now s))) (spec_put k x (snd (spec_get r b k now a)))"
    by (simp add: spec_get_def)
qed

text \<open>
  C37. Bounding and ageing the client table is unobservable: as long as the idle window is long enough
  for a bucket to refill and no more clients than the maximum call, a limiter decides every request of
  a run, at non-decreasing times, exactly as one that keeps a bucket for every client for ever.
\<close>

theorem bounded_table_refines_unbounded:
  assumes "New cfg start = Inr l" "configured (PerClient cfg)" "sorted (start # map fst qs)"
    and idle: "burst_of (PerClient cfg) \<le> seconds (if ClientIdle cfg = 0 then defaultClientIdle else ClientIdle cfg) * RequestsPerSecond (PerClient cfg)"
    and few: "int (card ((\<lambda>(now, client, tier). client) ` set qs)) \<le> (if MaxClients cfg = 0 then defaultMaxClients else MaxClients cfg)"
  shows "fst (run qs l) = run_with (spec_get (RequestsPerSecond (PerClient cfg)) (burst_of (PerClient cfg))) spec_put qs (Map.empty, l_tiers l)"
proof -
  let ?r = "RequestsPerSecond (PerClient cfg)" and ?b = "burst_of (PerClient cfg)"
  let ?K = "(\<lambda>(now, client, tier). client) ` set qs"
  let ?t = "newClientTable ?r ?b (if MaxClients cfg = 0 then defaultMaxClients else MaxClients cfg)
      (if ClientIdle cfg = 0 then defaultClientIdle else ClientIdle cfg)"
  have c: "l_clients l = Some ?t" using New_rules(6) [OF assms(1)] assms(2) by simp
  have "table_related ?r ?b ?K start ?t Map.empty"
    using burst_of_ge_1 [OF New_rules(2) [OF assms(1)] assms(2)] assms(2) idle few
    by (simp add: table_related_def newClientTable_def keys_def configured_def)
  moreover have "\<forall>(now, client, tier) \<in> set qs. client = [] \<or> client \<in> ?K" by force
  ultimately show ?thesis unfolding run_is_run_with [OF c] by (rule lru.same_decisions [OF _ assms(3)])
qed

theorem bounded_table_refines_unbounded_witness:
  "\<exists>l. New sample_limits 0 = Inr l
     \<and> fst (run [(0, ''a'', []), (400000000000, ''b'', []), (400000000001, ''a'', [])] l)
       = run_with (spec_get 1 1) spec_put [(0, ''a'', []), (400000000000, ''b'', []), (400000000001, ''a'', [])] (Map.empty, l_tiers l)"
proof -
  obtain l where l: "New sample_limits 0 = Inr l" using sample_limits_ok by blast
  from bounded_table_refines_unbounded [OF l, of "[(0, ''a'', []), (400000000000, ''b'', []), (400000000001, ''a'', [])]"] l
  show ?thesis
    by (auto simp: sample_limits_def configured_def burst_of_def seconds_def defaultClientIdle_def defaultMaxClients_def
        card_insert_if)
qed

text \<open>
  The window does matter. At one request in a thousand seconds and a burst of two, a client that spends
  both tokens and stays away for the five minutes of the default window is admitted again: its entry was dropped
  and it starts over with a full bucket, where the bucket itself would hold three tenths of a token.
\<close>

definition slow_limits :: Config where
  "slow_limits = \<lparr>Global = \<lparr>RequestsPerSecond = 0, rule_burst = 0\<rparr>, PerClient = \<lparr>RequestsPerSecond = 1 / 1000, rule_burst = 2\<rparr>,
     Tiers = [], MaxClients = 0, ClientIdle = 0\<rparr>"

lemma short_window_resets_bucket:
  "\<exists>l. New slow_limits 0 = Inr l
     \<and> map Allowed (fst (run [(0, ''a'', []), (0, ''a'', []), (300000000000, ''a'', [])] l)) = [True, True, True]
     \<and> map Allowed (run_with (spec_get (1 / 1000) 2) spec_put [(0, ''a'', []), (0, ''a'', []), (300000000000, ''a'', [])] (Map.empty, l_tiers l))
       = [True, True, False]"
  by (simp add: New_def slow_limits_def validateRule_def configured_def newClientTable_def burst_of_def Principal_def PrincipalActive_def
      bucketFor_def expire_clients_def newBucket_def evict_to_max_take take_token_def refill_def Let_def tier_step_def set_bucket_def
      allowed_def denied_def principal_with_def spec_get_def spec_put_def seconds_def defaultMaxClients_def defaultClientIdle_def find_row_def)

end
