(* ===== verification/Authorisation.thy ===== *)
theory Authorisation
  imports Prelude
begin

text \<open>
  Who may call what (\<^verbatim>\<open>auth/authz.go\<close>, \<^verbatim>\<open>auth/groups.go\<close>, \<^verbatim>\<open>auth/verifier.go\<close>, \<^verbatim>\<open>auth/revocation.go\<close>,
  \<^verbatim>\<open>auth/grpc.go\<close>, \<^verbatim>\<open>auth/extract.go\<close>, \<^verbatim>\<open>auth/context.go\<close>): the tier each RPC asks for, the tier a token's roles
  grant, the decision on either transport, and the verifiers a token passes on the way there. The JWT
  library and the request's transport are parameters. A Go map handed in by configuration is a list,
  in whatever order its iteration visits it.
\<close>

section \<open>Tiers\<close>

datatype Tier = tierNone | TierReader | TierWriter | TierAdmin

fun tier_rank :: "Tier \<Rightarrow> nat" where
  "tier_rank tierNone = 0"
| "tier_rank TierReader = 1"
| "tier_rank TierWriter = 2"
| "tier_rank TierAdmin = 3"

lemma tier_rank_inj: "tier_rank t = tier_rank u \<longleftrightarrow> t = u"
  by (cases t; cases u) simp_all

instantiation Tier :: linorder
begin

definition less_eq_Tier :: "Tier \<Rightarrow> Tier \<Rightarrow> bool" where
  "less_eq_Tier t u \<longleftrightarrow> tier_rank t \<le> tier_rank u"

definition less_Tier :: "Tier \<Rightarrow> Tier \<Rightarrow> bool" where
  "less_Tier t u \<longleftrightarrow> tier_rank t < tier_rank u"

instance
  by standard (auto simp: less_eq_Tier_def less_Tier_def tier_rank_inj)

end

lemma tierNone_least [simp]: "tierNone \<le> t"
  by (simp add: less_eq_Tier_def)

fun tier_name :: "Tier \<Rightarrow> string" where
  "tier_name TierReader = ''reader''"
| "tier_name TierWriter = ''writer''"
| "tier_name TierAdmin = ''admin''"
| "tier_name tierNone = ''none''"

definition TierNames :: "string list" where
  "TierNames = map tier_name [TierReader, TierWriter, TierAdmin]"

definition parseTier :: "string \<Rightarrow> Tier option" where
  "parseTier name =
     (let n = trim_lower name
      in if n = ''reader'' then Some TierReader
         else if n = ''writer'' then Some TierWriter
         else if n = ''admin'' then Some TierAdmin else None)"

section \<open>The policy table\<close>

record rpcPolicy =
  policy_tier :: Tier
  httpMethod :: string
  httpPath :: string

definition rpc :: "Tier \<Rightarrow> string \<Rightarrow> string \<Rightarrow> rpcPolicy" where
  "rpc t m p = \<lparr>policy_tier = t, httpMethod = m, httpPath = p\<rparr>"

definition policies :: "(string \<times> rpcPolicy) list" where
  "policies = [
     (''WhoAmI'', rpc TierReader ''GET'' ''/v1/whoami''),
     (''GetEvents'', rpc TierReader ''GET'' ''/v1/events''),
     (''GetEventById'', rpc TierReader ''GET'' ''/v1/events/*''),
     (''GetMemories'', rpc TierReader ''GET'' ''/v1/memories''),
     (''RecallMemories'', rpc TierReader ''POST'' ''/v1/memories/recall''),
     (''SearchMemories'', rpc TierReader ''POST'' ''/v1/memories/search''),
     (''GetSummarisationCandidates'', rpc TierReader ''GET'' ''/v1/summarisation/candidates''),
     (''GetSignificanceLevels'', rpc TierReader ''GET'' ''/v1/significance/levels''),
     (''GetMemoryLinks'', rpc TierReader ''GET'' ''/v1/memories/*/links''),
     (''GetEventLinks'', rpc TierReader ''GET'' ''/v1/events/*/links''),
     (''ExplainConsolidation'', rpc TierReader ''POST'' ''/v1/consolidation/explain''),
     (''GetConsolidationStatus'', rpc TierReader ''GET'' ''/v1/consolidation/status''),
     (''GetForgottenMemories'', rpc TierReader ''GET'' ''/v1/memories/forgotten''),
     (''StoreEvent'', rpc TierWriter ''POST'' ''/v1/events''),
     (''EndEvent'', rpc TierWriter ''POST'' ''/v1/events/*/end''),
     (''UpdateEvent'', rpc TierWriter ''PATCH'' ''/v1/events/*''),
     (''UpdateEventSignificance'', rpc TierWriter ''PATCH'' ''/v1/events/*/significance''),
     (''MergeEvents'', rpc TierWriter ''POST'' ''/v1/events/merge''),
     (''DeleteEvent'', rpc TierWriter ''DELETE'' ''/v1/events/*''),
     (''StoreMemory'', rpc TierWriter ''POST'' ''/v1/memories''),
     (''StoreMemories'', rpc TierWriter ''POST'' ''/v1/memories/batch''),
     (''UpdateMemory'', rpc TierWriter ''PATCH'' ''/v1/memories/*''),
     (''DeleteMemories'', rpc TierWriter ''POST'' ''/v1/memories/delete''),
     (''ReplaceMemoriesWithSummary'', rpc TierWriter ''POST'' ''/v1/events/*/summary''),
     (''SummariseMemories'', rpc TierWriter ''POST'' ''/v1/events/*/summarise''),
     (''Import'', rpc TierWriter ''POST'' ''/v1/import''),
     (''ImportBatch'', rpc TierWriter ''POST'' ''/v1/import/batch''),
     (''LinkMemories'', rpc TierWriter ''POST'' ''/v1/memories/*/links''),
     (''UnlinkMemories'', rpc TierWriter ''POST'' ''/v1/memories/*/links/delete''),
     (''LinkEvents'', rpc TierWriter ''POST'' ''/v1/events/*/links''),
     (''UnlinkEvents'', rpc TierWriter ''POST'' ''/v1/events/*/links/delete''),
     (''Purge'', rpc TierAdmin ''POST'' ''/v1/purge''),
     (''Sleep'', rpc TierAdmin ''POST'' ''/v1/sleep''),
     (''PreviewConsolidation'', rpc TierAdmin ''GET'' ''/v1/sleep/preview''),
     (''DeleteForgottenMemories'', rpc TierAdmin ''POST'' ''/v1/memories/forgotten/delete''),
     (''GetCallbackQueue'', rpc TierAdmin ''GET'' ''/v1/callbacks/queue''),
     (''DeleteCallbackQueue'', rpc TierAdmin ''POST'' ''/v1/callbacks/queue/delete''),
     (''DeleteMemoriesByFilter'', rpc TierAdmin ''POST'' ''/v1/memories/delete-by-filter''),
     (''DeleteEventsByFilter'', rpc TierAdmin ''POST'' ''/v1/events/delete-by-filter''),
     (''Export'', rpc TierAdmin ''POST'' ''/v1/export''),
     (''Transfer'', rpc TierAdmin ''POST'' ''/v1/transfer''),
     (''Clear'', rpc TierAdmin ''POST'' ''/v1/clear''),
     (''GetTopology'', rpc TierReader ''GET'' ''/v1/topology'')]"

definition configurableTiers :: "string list" where
  "configurableTiers = [''GetTopology'']"

definition route :: "rpcPolicy \<Rightarrow> string" where
  "route p = httpMethod p @ '' '' @ httpPath p"

definition routeRPCs :: "string \<Rightarrow> string option" where
  "routeRPCs = map_of (map (\<lambda>(m, p). (route p, m)) policies)"

text \<open>Every capture \<^verbatim>\<open>{...}\<close> becomes a star; an opening brace with no closing one after it stays.\<close>

function normalisePattern :: "string \<Rightarrow> string" where
  "normalisePattern [] = []"
| "normalisePattern (c # cs) =
     (if c = CHR ''{'' \<and> CHR ''}'' \<in> set cs then CHR ''*'' # normalisePattern (tl (dropWhile (\<lambda>d. d \<noteq> CHR ''}'') cs))
      else c # normalisePattern cs)"
  by pat_completeness auto
termination
  by (relation "measure length") (auto simp: less_Suc_eq_le intro!: le_trans [OF diff_le_self length_dropWhile_le])

definition RouteRPC :: "string \<Rightarrow> string \<Rightarrow> string option" where
  "RouteRPC verb pattern = routeRPCs (verb @ '' '' @ normalisePattern pattern)"

definition AdminMutations :: "string list" where
  "AdminMutations = sort (map fst (filter (\<lambda>(m, p). policy_tier p = TierAdmin \<and> httpMethod p \<noteq> ''GET'') policies))"

definition HasPolicy :: "string \<Rightarrow> bool" where
  "HasPolicy m \<longleftrightarrow> map_of policies m \<noteq> None"

section \<open>The authoriser\<close>

record Claims =
  claim_id :: string
  ClientID :: string
  Roles :: "string list"
  Groups :: "string list"
  IssuedAt :: "int option"

record Authoriser =
  methodTiers :: "string \<Rightarrow> Tier option"
  gatewayTiers :: "string \<Rightarrow> Tier option"
  roleTiers :: "string \<Rightarrow> Tier option"

datatype authoriser_error = RoleNamesUnknownTier string string | OverrideOfUnknownRPC string
  | OverrideNotConfigurable string | OverrideNamesUnknownTier string string

definition hippocampusServicePrefix :: string where
  "hippocampusServicePrefix = ''/hippocampus.v1.Hippocampus/''"

fun map_roles :: "(string \<times> string) list \<Rightarrow> (string \<Rightarrow> Tier option) \<Rightarrow> authoriser_error + (string \<Rightarrow> Tier option)" where
  "map_roles [] m = Inr m"
| "map_roles ((role, tierName) # rest) m =
     (case parseTier tierName of
        None \<Rightarrow> Inl (RoleNamesUnknownTier role tierName)
      | Some t \<Rightarrow> map_roles rest (m(trim_lower role \<mapsto> t)))"

fun resolve_overrides :: "(string \<times> string) list \<Rightarrow> (string \<Rightarrow> Tier option) \<Rightarrow> authoriser_error + (string \<Rightarrow> Tier option)" where
  "resolve_overrides [] m = Inr m"
| "resolve_overrides ((rpcName, tierName) # rest) m =
     (if map_of policies rpcName = None then Inl (OverrideOfUnknownRPC rpcName)
      else if rpcName \<notin> set configurableTiers then Inl (OverrideNotConfigurable rpcName)
      else case parseTier tierName of
             None \<Rightarrow> Inl (OverrideNamesUnknownTier rpcName tierName)
           | Some t \<Rightarrow> resolve_overrides rest (m(rpcName \<mapsto> t)))"

definition resolveTierOverrides :: "(string \<times> string) list \<Rightarrow> authoriser_error + (string \<Rightarrow> Tier option)" where
  "resolveTierOverrides overrides = resolve_overrides overrides Map.empty"

definition effective_policy :: "(string \<Rightarrow> Tier option) \<Rightarrow> string \<times> rpcPolicy \<Rightarrow> Tier" where
  "effective_policy overrides mp = (case overrides (fst mp) of Some t \<Rightarrow> t | None \<Rightarrow> policy_tier (snd mp))"

definition NewAuthoriser :: "(string \<times> string) list \<Rightarrow> (string \<times> string) list \<Rightarrow> authoriser_error + Authoriser" where
  "NewAuthoriser roleMapping tierOverrides =
     (case map_roles roleMapping [''reader'' \<mapsto> TierReader, ''writer'' \<mapsto> TierWriter, ''admin'' \<mapsto> TierAdmin] of
        Inl e \<Rightarrow> Inl e
      | Inr roles \<Rightarrow>
          (case resolveTierOverrides tierOverrides of
             Inl e \<Rightarrow> Inl e
           | Inr overrides \<Rightarrow> Inr \<lparr>
               methodTiers = map_of (map (\<lambda>mp. (hippocampusServicePrefix @ fst mp, effective_policy overrides mp)) policies),
               gatewayTiers = map_of (map (\<lambda>mp. (route (snd mp), effective_policy overrides mp)) policies),
               roleTiers = roles\<rparr>))"

definition best_role :: "Authoriser \<Rightarrow> string \<Rightarrow> Tier \<times> bool \<Rightarrow> Tier \<times> bool" where
  "best_role a role st =
     (case roleTiers a (trim_lower role) of
        None \<Rightarrow> st
      | Some t \<Rightarrow> (if t > fst st then t else fst st, True))"

definition effectiveTier :: "Authoriser \<Rightarrow> Claims option \<Rightarrow> Tier \<times> bool" where
  "effectiveTier a claims = (case claims of None \<Rightarrow> (tierNone, False) | Some c \<Rightarrow> fold (best_role a) (Roles c) (tierNone, False))"

definition allow :: "Authoriser \<Rightarrow> Tier option \<Rightarrow> Claims option \<Rightarrow> Tier \<times> bool" where
  "allow a required claims =
     (let (t, found) = effectiveTier a claims
      in case required of None \<Rightarrow> (t, False) | Some q \<Rightarrow> if \<not> found \<or> t < q then (t, False) else (t, True))"

text \<open>What an adapter does with a request: leave it alone, refuse it, or pass it on with its tier.\<close>

datatype access = Unchecked | Refused | Granted Tier

definition access_of :: "Tier \<times> bool \<Rightarrow> access" where
  "access_of r = (if snd r then Granted (fst r) else Refused)"

definition authorise_call :: "Authoriser \<Rightarrow> string \<Rightarrow> Claims option \<Rightarrow> access" where
  "authorise_call a fullMethod claims =
     (if take (length hippocampusServicePrefix) fullMethod \<noteq> hippocampusServicePrefix then Unchecked
      else access_of (allow a (methodTiers a fullMethod) claims))"

definition GatewayMiddleware :: "Authoriser \<Rightarrow> string \<Rightarrow> string option \<Rightarrow> Claims option \<Rightarrow> access" where
  "GatewayMiddleware a verb pattern claims =
     (case pattern of
        None \<Rightarrow> Refused
      | Some p \<Rightarrow> access_of (allow a (gatewayTiers a (verb @ '' '' @ normalisePattern p)) claims))"

section \<open>Facts about the table\<close>

lemma policy_names_distinct: "distinct (map fst policies)"
  by (simp add: policies_def)

lemma policy_routes_distinct: "distinct (map (route \<circ> snd) policies)"
  by (simp add: policies_def route_def rpc_def)

lemma map_of_keyed:
  assumes "distinct (map k xs)" "x \<in> set xs"
  shows "map_of (map (\<lambda>y. (k y, f y)) xs) (k x) = Some (f x)"
  using assms by (induction xs) (auto simp: rev_image_eqI)

section \<open>What an accepted configuration enforces\<close>

lemma NewAuthoriser_parts:
  assumes "NewAuthoriser roleMapping tierOverrides = Inr a"
  obtains overrides where "resolveTierOverrides tierOverrides = Inr overrides"
    "map_roles roleMapping [''reader'' \<mapsto> TierReader, ''writer'' \<mapsto> TierWriter, ''admin'' \<mapsto> TierAdmin] = Inr (roleTiers a)"
    "\<And>mp. mp \<in> set policies \<Longrightarrow> methodTiers a (hippocampusServicePrefix @ fst mp) = Some (effective_policy overrides mp)"
    "\<And>mp. mp \<in> set policies \<Longrightarrow> gatewayTiers a (route (snd mp)) = Some (effective_policy overrides mp)"
    "\<And>m. methodTiers a (hippocampusServicePrefix @ m) \<noteq> None \<Longrightarrow> HasPolicy m"
proof -
  from assms obtain roles overrides where
    r: "map_roles roleMapping [''reader'' \<mapsto> TierReader, ''writer'' \<mapsto> TierWriter, ''admin'' \<mapsto> TierAdmin] = Inr roles"
    and o: "resolveTierOverrides tierOverrides = Inr overrides"
    and a: "a = \<lparr>methodTiers = map_of (map (\<lambda>mp. (hippocampusServicePrefix @ fst mp, effective_policy overrides mp)) policies),
      gatewayTiers = map_of (map (\<lambda>mp. (route (snd mp), effective_policy overrides mp)) policies), roleTiers = roles\<rparr>"
    by (auto simp: NewAuthoriser_def split: sum.splits)
  have "distinct (map (\<lambda>mp. hippocampusServicePrefix @ fst mp) policies)"
    using policy_names_distinct by (auto simp: distinct_map inj_on_def)
  moreover have "distinct (map (\<lambda>mp. route (snd mp)) policies)" using policy_routes_distinct by (simp add: comp_def)
  ultimately show thesis
    using o r a
    by (intro that [of overrides])
      (auto simp: map_of_keyed HasPolicy_def map_of_eq_None_iff image_iff map_of_map comp_def dest!: map_of_SomeD)
qed

text \<open>Overrides are accepted for the configurable RPCs only.\<close>

lemma resolve_overrides_dom:
  "resolve_overrides os m = Inr m' \<Longrightarrow> dom m' \<subseteq> dom m \<union> set configurableTiers"
proof (induction os m rule: resolve_overrides.induct)
  case (2 rpcName tierName rest m)
  then show ?case by (fastforce split: if_splits option.splits)
qed simp

lemma effective_policy_fixed:
  assumes "resolveTierOverrides os = Inr overrides" "fst mp \<notin> set configurableTiers"
  shows "effective_policy overrides mp = policy_tier (snd mp)"
proof -
  have "overrides (fst mp) = None"
    using resolve_overrides_dom [OF assms(1) [unfolded resolveTierOverrides_def]] assms(2) by auto
  then show ?thesis by (simp add: effective_policy_def)
qed

text \<open>The tiers a token's roles grant.\<close>

definition granted :: "Authoriser \<Rightarrow> Claims \<Rightarrow> Tier set" where
  "granted a c = {t. \<exists>role \<in> set (Roles c). roleTiers a (trim_lower role) = Some t}"

lemma fold_best_role:
  "fold (best_role a) roles st =
     (Max (insert (fst st) {t. \<exists>role \<in> set roles. roleTiers a (trim_lower role) = Some t}),
      snd st \<or> {t. \<exists>role \<in> set roles. roleTiers a (trim_lower role) = Some t} \<noteq> {})"
proof (induction roles arbitrary: st)
  case (Cons role roles)
  let ?T = "{t. \<exists>role \<in> set roles. roleTiers a (trim_lower role) = Some t}"
  have fin: "finite ?T" by (rule finite_subset [of _ "(\<lambda>r. the (roleTiers a (trim_lower r))) ` set roles"]) force+
  show ?case
  proof (cases "roleTiers a (trim_lower role)")
    case None
    then have "{t. \<exists>role \<in> set (role # roles). roleTiers a (trim_lower role) = Some t} = ?T" by auto
    moreover have "best_role a role st = st" using None by (simp add: best_role_def)
    ultimately show ?thesis by (simp only: fold_simps Cons.IH)
  next
    case (Some t)
    then have "{t. \<exists>role \<in> set (role # roles). roleTiers a (trim_lower role) = Some t} = insert t ?T" by auto
    moreover have "Max (insert (if fst st < t then t else fst st) ?T) = Max (insert (fst st) (insert t ?T))"
      using fin by (cases "?T = {}") (auto simp: max_def not_less intro: antisym)
    moreover have "best_role a role st = (if fst st < t then t else fst st, True)" using Some by (simp add: best_role_def)
    ultimately show ?thesis by (simp only: fold_simps Cons.IH fst_conv snd_conv) simp
  qed
qed simp

lemma effectiveTier_granted:
  "effectiveTier a (Some c) = (Max (insert tierNone (granted a c)), granted a c \<noteq> {})"
  by (simp add: effectiveTier_def fold_best_role granted_def)

lemma finite_granted: "finite (granted a c)"
  by (rule finite_subset [of _ "(\<lambda>r. the (roleTiers a (trim_lower r))) ` set (Roles c)"]) (force simp: granted_def)+

lemma allow_granted:
  "allow a required (Some c) = (Max (insert tierNone (granted a c)),
     granted a c \<noteq> {} \<and> (case required of None \<Rightarrow> False | Some q \<Rightarrow> \<exists>t \<in> granted a c. q \<le> t))"
proof -
  have "(\<exists>t \<in> granted a c. q \<le> t) \<longleftrightarrow> \<not> Max (insert tierNone (granted a c)) < q" if "granted a c \<noteq> {}" for q
    using that finite_granted [of a c] by (auto simp: not_less Max_ge_iff dest: antisym [OF _ tierNone_least])
  then show ?thesis by (auto simp: allow_def effectiveTier_granted split: option.splits)
qed

lemma authorise_call_granted:
  assumes "NewAuthoriser roleMapping tierOverrides = Inr a" "m \<notin> set configurableTiers"
  shows "authorise_call a (hippocampusServicePrefix @ m) (Some c) = Granted t \<longleftrightarrow>
      (\<exists>p. (m, p) \<in> set policies \<and> policy_tier p \<le> t \<and> t \<in> granted a c \<and> (\<forall>u \<in> granted a c. u \<le> t))"
proof -
  obtain overrides where o: "resolveTierOverrides tierOverrides = Inr overrides"
    and m: "\<And>mp. mp \<in> set policies \<Longrightarrow> methodTiers a (hippocampusServicePrefix @ fst mp) = Some (effective_policy overrides mp)"
    and h: "\<And>m. methodTiers a (hippocampusServicePrefix @ m) \<noteq> None \<Longrightarrow> HasPolicy m"
    by (rule NewAuthoriser_parts [OF assms(1)]) blast
  have tier: "methodTiers a (hippocampusServicePrefix @ m) = map_option policy_tier (map_of policies m)"
  proof (cases "map_of policies m")
    case None
    then have "\<not> HasPolicy m" by (simp add: HasPolicy_def)
    then show ?thesis using h [of m] None by (cases "methodTiers a (hippocampusServicePrefix @ m)") simp_all
  next
    case (Some p)
    then show ?thesis using m [OF map_of_SomeD [OF Some]] effective_policy_fixed [OF o, of "(m, p)"] assms(2) by simp
  qed
  have uniq: "map_of policies m = Some p \<longleftrightarrow> (m, p) \<in> set policies" for p
    using policy_names_distinct by (simp add: map_of_eq_Some_iff)
  have best: "granted a c \<noteq> {} \<Longrightarrow> Max (insert tierNone (granted a c)) = u \<longleftrightarrow> u \<in> granted a c \<and> (\<forall>v \<in> granted a c. v \<le> u)" for u
    using finite_granted [of a c] Max_eq_iff [of "granted a c" u] by (simp add: max_absorb2)
  show ?thesis
    using best [of t]
    by (cases "map_of policies m") (auto simp: authorise_call_def access_of_def allow_granted tier uniq [symmetric] intro: order_trans)
qed



text \<open>
  The two transports enforce one policy: for every RPC, a gateway request matched to its route
  is decided exactly as the gRPC call is, for every token, and the route resolves back to that RPC.
\<close>

theorem transports_agree:
  assumes "NewAuthoriser roleMapping tierOverrides = Inr a" "(m, p) \<in> set policies" "normalisePattern pat = httpPath p"
  shows "GatewayMiddleware a (httpMethod p) (Some pat) claims = authorise_call a (hippocampusServicePrefix @ m) claims
    \<and> RouteRPC (httpMethod p) pat = Some m"
proof -
  obtain overrides where
    m: "\<And>mp. mp \<in> set policies \<Longrightarrow> methodTiers a (hippocampusServicePrefix @ fst mp) = Some (effective_policy overrides mp)"
    and g: "\<And>mp. mp \<in> set policies \<Longrightarrow> gatewayTiers a (route (snd mp)) = Some (effective_policy overrides mp)"
    by (rule NewAuthoriser_parts [OF assms(1)]) blast
  have r: "httpMethod p @ '' '' @ normalisePattern pat = route p" by (simp add: route_def assms(3))
  have "map_of (map (\<lambda>mp. (route (snd mp), fst mp)) policies) (route (snd (m, p))) = Some (fst (m, p))"
    using map_of_keyed [of "\<lambda>mp. route (snd mp)" policies "(m, p)" fst] policy_routes_distinct assms(2) by (simp add: comp_def)
  then have "RouteRPC (httpMethod p) pat = Some m" by (simp only: RouteRPC_def routeRPCs_def r split_def fst_conv snd_conv)
  moreover have "GatewayMiddleware a (httpMethod p) (Some pat) claims = authorise_call a (hippocampusServicePrefix @ m) claims"
    using m [OF assms(2)] g [OF assms(2)] by (simp only: GatewayMiddleware_def authorise_call_def option.case r fst_conv snd_conv) simp
  ultimately show ?thesis by blast
qed

theorem transports_agree_witness:
  "\<exists>a. NewAuthoriser [] [] = Inr a
     \<and> GatewayMiddleware a ''DELETE'' (Some ''/v1/events/{id=*}'') None = authorise_call a (hippocampusServicePrefix @ ''DeleteEvent'') None"
proof -
  obtain a where a: "NewAuthoriser [] [] = Inr a" by (simp add: NewAuthoriser_def resolveTierOverrides_def)
  have "(''DeleteEvent'', rpc TierWriter ''DELETE'' ''/v1/events/*'') \<in> set policies" by (simp add: policies_def)
  moreover have "normalisePattern ''/v1/events/{id=*}'' = ''/v1/events/*''" by simp
  ultimately show ?thesis
    using transports_agree [OF a, of "''DeleteEvent''" _ "''/v1/events/{id=*}''" None] a by (fastforce simp: rpc_def)
qed

section \<open>Verifiers\<close>

record SigningKey =
  Kid :: string
  Secret :: string

record HMACConfig =
  LegacySecret :: string
  Keys :: "SigningKey list"
  ActiveKid :: string

record HMACVerifier =
  legacySecret :: "string option"
  hmac_keys :: "string \<Rightarrow> string option"

datatype hmac_error = NoSecret | EmptyKid nat | EmptySecret string | DuplicateKid string | ActiveKidUnknown string

fun add_keys :: "nat \<Rightarrow> SigningKey list \<Rightarrow> (string \<Rightarrow> string option) \<Rightarrow> hmac_error + (string \<Rightarrow> string option)" where
  "add_keys i [] m = Inr m"
| "add_keys i (k # ks) m =
     (if Kid k = [] then Inl (EmptyKid i)
      else if Secret k = [] then Inl (EmptySecret (Kid k))
      else if m (Kid k) \<noteq> None then Inl (DuplicateKid (Kid k))
      else add_keys (Suc i) ks (m(Kid k \<mapsto> Secret k)))"

definition NewHMACVerifier :: "HMACConfig \<Rightarrow> hmac_error + HMACVerifier" where
  "NewHMACVerifier cfg =
     (if LegacySecret cfg = [] \<and> Keys cfg = [] then Inl NoSecret
      else case add_keys 0 (Keys cfg) Map.empty of
             Inl e \<Rightarrow> Inl e
           | Inr ks \<Rightarrow>
               if ActiveKid cfg \<noteq> [] \<and> ks (ActiveKid cfg) = None then Inl (ActiveKidUnknown (ActiveKid cfg))
               else Inr \<lparr>legacySecret = (if LegacySecret cfg \<noteq> [] then Some (LegacySecret cfg) else None), hmac_keys = ks\<rparr>)"

text \<open>The \<^verbatim>\<open>kid\<close> header of a token: absent, a string, or something else.\<close>

datatype kid_header = NoKid | KidString string | KidOther

definition keyForToken :: "HMACVerifier \<Rightarrow> kid_header \<Rightarrow> string option" where
  "keyForToken v h = (case h of NoKid \<Rightarrow> legacySecret v | KidOther \<Rightarrow> None | KidString k \<Rightarrow> hmac_keys v k)"

text \<open>
  \<open>parse\<close> is \<^verbatim>\<open>jwt.ParseWithClaims\<close> restricted to HS256 and to tokens that carry an expiry: given the
  key selection and a token, the claims and whether the token is valid.
\<close>

type_synonym jwt_parse = "(kid_header \<Rightarrow> string option) \<Rightarrow> string \<Rightarrow> (Claims \<times> bool) option"
type_synonym Verifier = "string \<Rightarrow> Claims option"

definition hmac_verify :: "jwt_parse \<Rightarrow> HMACVerifier \<Rightarrow> Verifier" where
  "hmac_verify parse v token =
     (case parse (keyForToken v) token of None \<Rightarrow> None | Some (c, valid) \<Rightarrow> if valid then Some c else None)"

definition groupScopedVerify :: "Verifier \<Rightarrow> Verifier" where
  "groupScopedVerify inner token =
     (case inner token of None \<Rightarrow> None | Some c \<Rightarrow> if Groups c = [] then None else Some c)"

definition NewGroupScopedVerifier :: "Verifier \<Rightarrow> bool \<Rightarrow> Verifier" where
  "NewGroupScopedVerifier inner require = (if require then groupScopedVerify inner else inner)"

record revocationSet =
  jtis :: "string list"
  revoked_clients :: "string \<Rightarrow> int option"

definition zero_time :: int where
  "zero_time = - 62135596800000000000"

definition load_revocations :: "string list \<Rightarrow> (string \<times> int option) list \<Rightarrow> revocationSet" where
  "load_revocations js cs = \<lparr>jtis = filter (\<lambda>j. j \<noteq> []) js,
     revoked_clients = fold (\<lambda>(i, before) m. if i = [] then m else m(i \<mapsto> (case before of None \<Rightarrow> zero_time | Some t \<Rightarrow> t))) cs Map.empty\<rparr>"

definition IsRevoked :: "revocationSet option \<Rightarrow> Claims option \<Rightarrow> bool" where
  "IsRevoked rs claims =
     (case (rs, claims) of
        (Some r, Some c) \<Rightarrow>
          if claim_id c \<noteq> [] \<and> claim_id c \<in> set (jtis r) then True
          else (case revoked_clients r (ClientID c) of
                  None \<Rightarrow> False
                | Some cutoff \<Rightarrow>
                    if ClientID c = [] then False
                    else if cutoff = zero_time then True
                    else (case IssuedAt c of None \<Rightarrow> True | Some t \<Rightarrow> t < cutoff))
      | _ \<Rightarrow> False)"

definition revokingVerify :: "revocationSet option \<Rightarrow> Verifier \<Rightarrow> Verifier" where
  "revokingVerify rs inner token =
     (case inner token of None \<Rightarrow> None | Some c \<Rightarrow> if IsRevoked rs (Some c) then None else Some c)"

section \<open>From the header to the handler\<close>

definition bearerPrefix :: string where
  "bearerPrefix = ''bearer ''"

definition trim_space :: "string \<Rightarrow> string" where
  "trim_space s = rev (dropWhile is_space (rev (dropWhile is_space s)))"

definition ExtractBearerToken :: "string \<Rightarrow> string option" where
  "ExtractBearerToken header =
     (if header = [] then None
      else if length header \<le> length bearerPrefix \<or> map lower (take (length bearerPrefix) header) \<noteq> bearerPrefix then None
      else let token = trim_space (drop (length bearerPrefix) header)
           in if token = [] then None else Some token)"

datatype authentication = OpenService | Unauthenticated | Authenticated Claims

definition authenticate_call :: "Verifier \<Rightarrow> string \<Rightarrow> string list \<Rightarrow> authentication" where
  "authenticate_call v fullMethod authorization =
     (if take (length hippocampusServicePrefix) fullMethod \<noteq> hippocampusServicePrefix then OpenService
      else if authorization = [] then Unauthenticated
      else case ExtractBearerToken (hd authorization) of
             None \<Rightarrow> Unauthenticated
           | Some token \<Rightarrow> (case v token of None \<Rightarrow> Unauthenticated | Some c \<Rightarrow> Authenticated c))"

text \<open>The interceptors in the order they are chained: first who is calling, then whether they may.\<close>

datatype passage = NotAuthenticated | NotPermitted | Handler "Claims option" "Tier option"

definition call_chain :: "Verifier \<Rightarrow> Authoriser \<Rightarrow> string \<Rightarrow> string list \<Rightarrow> passage" where
  "call_chain v a fullMethod authorization =
     (case authenticate_call v fullMethod authorization of
        Unauthenticated \<Rightarrow> NotAuthenticated
      | OpenService \<Rightarrow> Handler None None
      | Authenticated c \<Rightarrow>
          (case authorise_call a fullMethod (Some c) of
             Refused \<Rightarrow> NotPermitted
           | Unchecked \<Rightarrow> Handler (Some c) None
           | Granted t \<Rightarrow> Handler (Some c) (Some t)))"

text \<open>A decorator may refuse what the verifier inside it accepts, never the other way round, and changes no claim.\<close>

locale verifier_decorator =
  fixes outer inner :: Verifier
  assumes narrows: "outer token = Some c \<Longrightarrow> inner token = Some c"
begin

lemma refused_inside: "inner token = None \<Longrightarrow> outer token = None"
  using narrows [of token] by (cases "outer token") auto

lemma reaches_handler:
  assumes "call_chain outer a (hippocampusServicePrefix @ m) md = Handler (Some c) (Some t)"
  shows "call_chain inner a (hippocampusServicePrefix @ m) md = Handler (Some c) (Some t)"
  using assms narrows
  by (auto simp: call_chain_def authenticate_call_def split: if_splits option.splits authentication.splits access.splits)

end

interpretation revoking: verifier_decorator "revokingVerify rs inner" inner for rs inner
  by unfold_locales (auto simp: revokingVerify_def split: option.splits if_splits)

interpretation scoped: verifier_decorator "groupScopedVerify inner" inner for inner
  by unfold_locales (auto simp: groupScopedVerify_def split: option.splits if_splits)

lemma add_keys_content:
  "add_keys i ks m = Inr m' \<Longrightarrow> m' k = Some sec \<Longrightarrow> m k = Some sec \<or> (k \<noteq> [] \<and> sec \<noteq> [] \<and> \<lparr>Kid = k, Secret = sec\<rparr> \<in> set ks)"
proof (induction i ks m rule: add_keys.induct)
  case (2 i x ks m)
  have g: "Kid x \<noteq> []" "Secret x \<noteq> []" "\<not> m (Kid x) \<noteq> None" "add_keys (Suc i) ks (m(Kid x \<mapsto> Secret x)) = Inr m'"
    using "2.prems"(1) by (auto split: if_splits)
  have "(m(Kid x \<mapsto> Secret x)) k = Some sec \<or> (k \<noteq> [] \<and> sec \<noteq> [] \<and> \<lparr>Kid = k, Secret = sec\<rparr> \<in> set ks)"
    by (rule "2.IH" [OF g "2.prems"(2)])
  moreover note g
  ultimately show ?case by (cases "k = Kid x") auto
qed simp



end
