(* ===== verification/Db_State.thy ===== *)
theory Db_State
  imports Prelude
begin

text \<open>
  The database: one record per table row (\<^verbatim>\<open>db/dialect.go\<close>, \<^verbatim>\<open>db/significance.go\<close>,
  \<^verbatim>\<open>db/link.go\<close>, \<^verbatim>\<open>db/tombstone.go\<close>, \<^verbatim>\<open>db/callbacks.go\<close>, \<^verbatim>\<open>db/outbox.go\<close>), the store as a
  record of tables, the configuration the storage layer reads, and the well-formedness of a
  store (primary keys and UNIQUE columns). A table is a list of rows in the order the engine
  happens to scan them; every statement below holds for every such order.
\<close>

section \<open>Rows\<close>

text \<open>
  The metadata column is the object's members (empty for NULL); the length of its text differs by
  engine and is a column of its own.
\<close>

record memory_row =
  m_id :: ident
  m_event_id :: ident
  m_group :: string
  m_timestamp :: nanos
  m_level :: "int option"
  m_time_recalled :: nanos
  m_recall_count :: int
  m_link_significance :: int
  m_body :: string
  m_is_compressed :: bool
  m_is_binary :: bool
  m_is_summary :: bool
  m_metadata :: "(string \<times> string) list"
  m_metadata_bytes :: int
  m_indexed_bytes :: "int option"
  m_external_bytes :: int

record event_row =
  e_id :: ident
  e_group :: string
  e_time_start :: nanos
  e_time_end :: nanos
  e_level :: "int option"
  e_link_significance :: int
  e_memories_consolidated :: bool
  e_name :: string
  e_description :: string
  e_metadata :: "(string \<times> string) list"
  e_payload_bytes :: int

record link_row =
  from_id :: ident
  to_id :: ident
  l_significance :: int
  l_created :: nanos

record sig_level =
  level_id :: int
  level_rank :: int
  unused_since :: "nanos option"

text \<open>Why a batch of memories goes: the decay rule (forgotten log) and the cause (callbacks).\<close>

datatype ForgetRule = ForgetRuleNone | ForgetRuleConsolidation | ForgetRuleEviction | ForgetRuleExpiry

datatype DeleteCause = CauseNone | CauseConsolidation | CauseEviction | CauseClient | CauseClear
  | CauseCascade | CauseSummaryReplace | CausePurge | CauseExpiry

fun decay :: "DeleteCause \<Rightarrow> bool" where
  "decay c = (c = CauseConsolidation \<or> c = CauseEviction \<or> c = CauseExpiry)"

record forgetReason =
  rule :: ForgetRule
  cause :: DeleteCause
  threshold :: real

definition recording :: "forgetReason \<Rightarrow> bool" where
  "recording r \<longleftrightarrow> rule r \<noteq> ForgetRuleNone"

record ForgottenMemory =
  f_seq :: int
  f_id :: ident
  f_event_id :: ident
  f_group :: string
  f_significance :: int
  f_value :: real
  f_threshold :: real
  f_bytes :: int
  f_rule :: ForgetRule
  f_timestamp :: nanos
  f_time_recalled :: nanos
  f_recall_count :: int
  f_forgotten_at :: nanos

datatype CallbackKind = CallbackKindNone | CallbackKindMemoryForgotten | CallbackKindEventForgotten
  | CallbackKindSleepCompleted | CallbackKindMemoriesAtRisk | CallbackKindMemoryStored
  | CallbackKindMemoryUpdated

record CallbackItem =
  ci_id :: ident
  ci_event_id :: ident
  ci_group :: string
  ci_significance :: int
  ci_bytes :: int
  ci_value :: real
  ci_body :: string
  ci_body_omitted :: bool

record CallbackAtRisk =
  ar_consolidating :: nat
  ar_evicting :: nat
  ar_events :: nat
  ar_bytes :: int
  ar_threshold :: real
  ar_at_risk_threshold :: real
  ar_capacity_pressure :: real
  ar_truncated :: bool

record CallbackDelivery =
  cd_seq :: int
  cd_kind :: CallbackKind
  cd_cause :: DeleteCause
  cd_cycle_id :: int
  cd_chunk :: int
  cd_chunks :: int
  cd_item_count :: nat
  cd_queued_at :: nanos
  cd_next_attempt_at :: nanos
  cd_attempts :: int
  cd_items :: "CallbackItem list"
  cd_at_risk :: "CallbackAtRisk option"
  cd_payload_bytes :: int

record SearchOutboxEntry =
  so_seq :: int
  so_id :: ident
  so_queued_at :: nanos

record cycleCollection =
  cc_id :: int
  cc_memory_ids :: "ident list"
  cc_event_ids :: "ident list"
  cc_memory_more :: nat
  cc_event_more :: nat

section \<open>The store\<close>

text \<open>
  The tables, the auto-increment counters behind \<^verbatim>\<open>autoIncrementPK\<close> columns, and the in-memory
  collection an open sleep cycle fills (\<^verbatim>\<open>d.cycle\<close>; \<open>None\<close> is the nil pointer).
\<close>

record db_state =
  memories :: "memory_row list"
  events :: "event_row list"
  memory_links :: "link_row list"
  event_links :: "link_row list"
  levels :: "sig_level list"
  next_level_id :: int
  tombstones :: "ForgottenMemory list"
  next_tombstone_seq :: int
  callback_queue :: "CallbackDelivery list"
  next_callback_seq :: int
  search_outbox :: "SearchOutboxEntry list"
  next_outbox_seq :: int
  cycle :: "cycleCollection option"

record CallbackPolicy =
  cp_enabled :: bool
  cp_all_deletions :: bool
  cp_include_bodies :: bool
  cp_max_body_bytes :: int
  cp_retain_deletions :: bool
  cp_memory_events :: bool
  cp_event_events :: bool
  cp_write_events :: bool

text \<open>
  What the storage layer is configured with. \<open>db_decompress\<close> stands for the compression library,
  \<open>None\<close> being a decompression error; \<open>payload_size\<close> for the length of an encoded callback payload
  (JSON, gzipped when that helps); \<open>e_payload_bytes\<close> is the length of an event's name, description and
  metadata; \<open>rank_limit\<close> is the largest value the engine's INTEGER
  column accepts (2^31-1 on the server engines, 2^63-1 on the embedded one).
\<close>

record db_config =
  tombstones_enabled :: bool
  tombstone_table :: bool
  tombstone_max_rows :: int
  tombstone_max_bytes :: int
  tombstone_max_age_days :: int
  tombstone_row_bytes :: int
  callbacks :: CallbackPolicy
  callback_table :: bool
  search_outbox_on :: bool
  single_writer :: bool
  dialect_returning :: bool
  rank_limit :: int
  page_accounting :: bool
  row_overhead :: int
  memory_row_overhead :: int
  content_indexed :: bool
  content_index_row_overhead :: int
  content_index_per_mille :: int
  db_decompress :: "string \<Rightarrow> string option"
  payload_size :: "CallbackItem list \<Rightarrow> int"
  outbox_row_bytes :: int

definition deleteChunkSize :: nat where
  "deleteChunkSize = 500"

lemma deleteChunkSize_pos [simp]: "0 < deleteChunkSize"
  by (simp add: deleteChunkSize_def)

text \<open>A LEFT JOIN of an item's level id to the registry, with COALESCE(level_rank, 0).\<close>

definition joined_rank :: "sig_level list \<Rightarrow> int option \<Rightarrow> int" where
  "joined_rank lv lid = (case lid of None \<Rightarrow> 0
     | Some i \<Rightarrow> (case find_row level_id i lv of None \<Rightarrow> 0 | Some l \<Rightarrow> level_rank l))"

section \<open>Well-formed stores\<close>

definition keys_ok :: "db_state \<Rightarrow> bool" where
  "keys_ok s \<longleftrightarrow> distinct (map m_id (memories s)) \<and> distinct (map e_id (events s))"

text \<open>One row per pair, in both link tables.\<close>

definition link_key :: "link_row \<Rightarrow> ident \<times> ident" where
  "link_key l = (from_id l, to_id l)"

definition touches :: "ident \<Rightarrow> link_row \<Rightarrow> bool" where
  "touches i l \<longleftrightarrow> from_id l = i \<or> to_id l = i"

text \<open>
  The aggregate the decay scans read off an item row must be the sum over the link rows that
  touch the item, whichever end it is.
\<close>

definition link_sum :: "link_row list \<Rightarrow> ident \<Rightarrow> int" where
  "link_sum ls i = sum_list (map l_significance (filter (touches i) ls))"

definition agg_ok :: "('r \<Rightarrow> ident) \<Rightarrow> ('r \<Rightarrow> int) \<Rightarrow> link_row list \<Rightarrow> 'r list \<Rightarrow> bool" where
  "agg_ok key agg ls rows \<longleftrightarrow> list_all (\<lambda>r. agg r = link_sum ls (key r)) rows"

definition aggregates_ok :: "db_state \<Rightarrow> bool" where
  "aggregates_ok s \<longleftrightarrow>
     agg_ok m_id m_link_significance (memory_links s) (memories s) \<and>
     agg_ok e_id e_link_significance (event_links s) (events s)"

text \<open>
  The registry: ids and ranks are unique, every rank is at least 1 and within the column, and
  ids are below the auto-increment counter.
\<close>

definition registry_ok :: "int \<Rightarrow> sig_level list \<Rightarrow> int \<Rightarrow> bool" where
  "registry_ok mx lv nxt \<longleftrightarrow>
     distinct (map level_id lv) \<and> distinct (map level_rank lv) \<and>
     list_all (\<lambda>l. 1 \<le> level_rank l \<and> level_rank l \<le> mx \<and> level_id l < nxt) lv"

section \<open>Small stores for worked examples\<close>

definition empty_store :: db_state where
  "empty_store = \<lparr>memories = [], events = [], memory_links = [], event_links = [], levels = [],
     next_level_id = 1, tombstones = [], next_tombstone_seq = 1, callback_queue = [], next_callback_seq = 1,
     search_outbox = [], next_outbox_seq = 1, cycle = None\<rparr>"

definition example_memory :: "ident \<Rightarrow> nanos \<Rightarrow> int \<Rightarrow> memory_row" where
  "example_memory i ts lnk = \<lparr>m_id = i, m_event_id = [], m_group = [], m_timestamp = ts, m_level = None,
     m_time_recalled = 0, m_recall_count = 0, m_link_significance = lnk, m_body = ''body'', m_is_compressed = False,
     m_is_binary = False, m_is_summary = False, m_metadata = [], m_metadata_bytes = 0, m_indexed_bytes = None, m_external_bytes = 0\<rparr>"

definition example_link :: "ident \<Rightarrow> ident \<Rightarrow> int \<Rightarrow> link_row" where
  "example_link f t sg = \<lparr>from_id = f, to_id = t, l_significance = sg, l_created = 1\<rparr>"

text \<open>Three memories in a row: \<open>a\<close> is linked to \<open>b\<close> with weight 5, \<open>b\<close> to \<open>c\<close> with weight 7.\<close>

definition linked_store :: db_state where
  "linked_store = empty_store\<lparr>
     memories := [example_memory ''a'' 10 5, example_memory ''b'' 20 12, example_memory ''c'' 30 7],
     memory_links := [example_link ''a'' ''b'' 5, example_link ''b'' ''c'' 7]\<rparr>"

text \<open>Every feature on: forgotten log, callbacks (bodies included, deletions not retained), outbox.\<close>

definition example_cfg :: db_config where
  "example_cfg = \<lparr>tombstones_enabled = True, tombstone_table = True, tombstone_max_rows = 2, tombstone_max_bytes = 0,
     tombstone_max_age_days = 30, tombstone_row_bytes = 200,
     callbacks = \<lparr>cp_enabled = True, cp_all_deletions = False, cp_include_bodies = True, cp_max_body_bytes = 0,
       cp_retain_deletions = False, cp_memory_events = True, cp_event_events = True, cp_write_events = False\<rparr>,
     callback_table = True, search_outbox_on = True, single_writer = True, dialect_returning = True, rank_limit = 2147483647,
     page_accounting = False, row_overhead = 50, memory_row_overhead = 100, content_indexed = False, content_index_row_overhead = 0, content_index_per_mille = 0,
     db_decompress = Some, payload_size = (\<lambda>items. 100 * int (length items)), outbox_row_bytes = 100\<rparr>"

lemmas example_defs = empty_store_def example_memory_def example_link_def linked_store_def

end
