(* ===== verification/Tx_Retry.thy ===== *)
theory Tx_Retry
  imports Prelude
begin

text \<open>
  Retried transactions (\<^verbatim>\<open>db/retry.go\<close>). A transaction body is a function of the attempt number
  and the store that reports an error or a result together with the store it leaves; between two
  attempts other writers may commit (\<open>world\<close>), and the caller's context may end (\<open>ctx_done\<close>).
\<close>

datatype write_error = ErrRetryable | ErrOther | ErrCtxDone | ErrWriteConflict | ErrDuplicateKey

definition writeRetryMaxAttempts :: nat where
  "writeRetryMaxAttempts = 5"

definition isRetryableWriteError :: "write_error \<Rightarrow> bool" where
  "isRetryableWriteError e \<longleftrightarrow> e = ErrRetryable"

text \<open>\<open>retry_from left attempt\<close>: the loop with \<open>left\<close> attempts to go, about to make number \<open>attempt\<close>.\<close>

fun retry_from :: "(nat \<Rightarrow> bool) \<Rightarrow> (nat \<Rightarrow> 's \<Rightarrow> 's) \<Rightarrow> (nat \<Rightarrow> 's \<Rightarrow> (write_error + 'a) \<times> 's)
    \<Rightarrow> nat \<Rightarrow> nat \<Rightarrow> 's \<Rightarrow> (write_error + 'a) \<times> 's" where
  "retry_from ctx_done world fn 0 attempt s = (Inl ErrWriteConflict, s)"
| "retry_from ctx_done world fn (Suc left) attempt s =
     (case fn attempt s of
        (Inr v, s') \<Rightarrow> (Inr v, s')
      | (Inl e, s') \<Rightarrow>
          if \<not> isRetryableWriteError e then (Inl e, s')
          else if left = 0 then (Inl ErrWriteConflict, s')
          else if ctx_done attempt then (Inl ErrCtxDone, s')
          else retry_from ctx_done world fn left (Suc attempt) (world attempt s'))"

definition withTxRetry :: "bool \<Rightarrow> (nat \<Rightarrow> bool) \<Rightarrow> (nat \<Rightarrow> 's \<Rightarrow> 's)
    \<Rightarrow> (nat \<Rightarrow> 's \<Rightarrow> (write_error + 'a) \<times> 's) \<Rightarrow> 's \<Rightarrow> (write_error + 'a) \<times> 's" where
  "withTxRetry singleWriter ctx_done world fn s =
     (if singleWriter then fn 0 s else retry_from ctx_done world fn writeRetryMaxAttempts 0 s)"

text \<open>
  One attempt at a transaction that rolls back on failure: the storage engine reports \<open>fault n\<close> on
  attempt \<open>n\<close>, or commits the body's effect.
\<close>

definition run_tx :: "(nat \<Rightarrow> write_error option) \<Rightarrow> ('s \<Rightarrow> 'a \<times> 's) \<Rightarrow> nat \<Rightarrow> 's \<Rightarrow> (write_error + 'a) \<times> 's" where
  "run_tx fault body n s = (case fault n of Some e \<Rightarrow> (Inl e, s) | None \<Rightarrow> (let (v, s') = body s in (Inr v, s')))"

text \<open>
  What the retry loop relies on, as a contract: a failed attempt leaves nothing behind. Clients
  prove invariants once, for every body with that contract.
\<close>

locale tx_body =
  fixes fn :: "nat \<Rightarrow> 's \<Rightarrow> (write_error + 'a) \<times> 's"
  assumes rolled_back: "fn n s = (Inl e, s') \<Longrightarrow> s' = s"
begin

lemma retry_invariant:
  assumes "I s" "\<And>n t. I t \<Longrightarrow> I (world n t)" "\<And>n t v t'. I t \<Longrightarrow> fn n t = (Inr v, t') \<Longrightarrow> I t'"
  shows "I (snd (retry_from ctx_done world fn left attempt s))"
  using assms(1)
proof (induction left arbitrary: attempt s)
  case (Suc left)
  show ?case
  proof (cases "fn attempt s")
    case (Pair r s')
    show ?thesis
    proof (cases r)
      case (Inl e)
      with Pair have "s' = s" using rolled_back by blast
      with Suc Pair Inl assms(2) show ?thesis by simp
    next
      case (Inr v)
      with Pair assms(3) [OF Suc.prems] show ?thesis by simp
    qed
  qed
qed simp

lemma withTxRetry_invariant:
  assumes "I s" "\<And>n t. I t \<Longrightarrow> I (world n t)" "\<And>n t v t'. I t \<Longrightarrow> fn n t = (Inr v, t') \<Longrightarrow> I t'"
  shows "I (snd (withTxRetry sw ctx_done world fn s))"
proof (cases sw)
  case True
  show ?thesis
  proof (cases "fn 0 s")
    case (Pair r s')
    show ?thesis
    proof (cases r)
      case (Inl e)
      with Pair have "s' = s" using rolled_back by blast
      with Pair True assms(1) show ?thesis by (simp add: withTxRetry_def)
    next
      case (Inr v)
      with Pair True assms(3) [OF assms(1)] show ?thesis by (simp add: withTxRetry_def)
    qed
  qed
next
  case False
  then show ?thesis using retry_invariant [of I, OF assms] by (simp add: withTxRetry_def)
qed

text \<open>A result comes from one attempt, on a store other writers alone have changed.\<close>

lemma retry_result:
  assumes "I s" "\<And>n t. I t \<Longrightarrow> I (world n t)" "retry_from ctx_done world fn left attempt s = (Inr v, s')"
  shows "\<exists>n t. I t \<and> fn n t = (Inr v, s')"
  using assms(1,3)
proof (induction left arbitrary: attempt s)
  case (Suc left)
  show ?case
  proof (cases "fn attempt s")
    case (Pair r u)
    show ?thesis
    proof (cases r)
      case (Inl e)
      with Pair have "u = s" using rolled_back by blast
      with Suc.prems Pair Inl have "retry_from ctx_done world fn left (Suc attempt) (world attempt s) = (Inr v, s')"
        by (auto split: if_splits)
      with Suc.IH assms(2) Suc.prems(1) show ?thesis by blast
    next
      case (Inr w)
      with Suc.prems Pair show ?thesis by auto
    qed
  qed
qed simp

lemma withTxRetry_result:
  assumes "I s" "\<And>n t. I t \<Longrightarrow> I (world n t)" "withTxRetry sw ctx_done world fn s = (Inr v, s')"
  shows "\<exists>n t. I t \<and> fn n t = (Inr v, s')"
  using assms(1,3) retry_result [of I, OF assms(1,2)] by (auto simp: withTxRetry_def split: if_splits)

lemma retry_failed:
  assumes "I s" "\<And>n t. I t \<Longrightarrow> I (world n t)" "retry_from ctx_done world fn left attempt s = (Inl e, s')"
  shows "I s'"
  using assms(1,3)
proof (induction left arbitrary: attempt s)
  case (Suc left)
  show ?case
  proof (cases "fn attempt s")
    case (Pair r u)
    show ?thesis
    proof (cases r)
      case (Inl e')
      with Pair have "u = s" using rolled_back by blast
      with Suc.prems Pair Inl Suc.IH [of "world attempt s"] assms(2) show ?thesis by (auto split: if_splits)
    next
      case (Inr w)
      with Suc.prems Pair show ?thesis by simp
    qed
  qed
qed simp

lemma withTxRetry_failed:
  assumes "I s" "\<And>n t. I t \<Longrightarrow> I (world n t)" "withTxRetry sw ctx_done world fn s = (Inl e, s')"
  shows "I s'"
proof (cases sw)
  case True
  with assms(3) have "fn 0 s = (Inl e, s')" by (simp add: withTxRetry_def)
  with rolled_back assms(1) show ?thesis by blast
next
  case False
  with assms(3) retry_failed [of I, OF assms(1,2)] show ?thesis by (simp add: withTxRetry_def)
qed

end

interpretation rtx: tx_body "run_tx fault body" for fault body
  by unfold_locales (auto simp: run_tx_def split: option.splits prod.splits)

text \<open>The first attempt the engine does not bounce with a transient conflict.\<close>

fun first_settled :: "(nat \<Rightarrow> write_error option) \<Rightarrow> nat \<Rightarrow> nat \<Rightarrow> nat option" where
  "first_settled fault 0 n = None"
| "first_settled fault (Suc k) n =
     (if fault n = Some ErrRetryable then first_settled fault k (Suc n) else Some n)"

lemma retry_from_quiet:
  "retry_from (\<lambda>_. False) (\<lambda>_. id) (run_tx fault body) k n s =
     (case first_settled fault k n of
        None \<Rightarrow> (Inl ErrWriteConflict, s)
      | Some a \<Rightarrow> run_tx fault body a s)"
proof (induction k arbitrary: n)
  case (Suc k)
  show ?case
  proof (cases "fault n = Some ErrRetryable")
    case True
    then have "run_tx fault body n s = (Inl ErrRetryable, s)" by (simp add: run_tx_def)
    then show ?thesis using Suc [of "Suc n"] True by (cases k) (simp_all add: isRetryableWriteError_def)
  next
    case False
    then show ?thesis
      by (cases "fault n") (auto simp: run_tx_def isRetryableWriteError_def split: prod.splits)
  qed
qed simp

text \<open>
  A retried transaction happens at most once and never in part: with no other writer and a
  live context, the outcome is the body run once on the original store if one of the first five
  attempts is not bounced by a transient conflict and succeeds, and otherwise an error with the
  store exactly as it was. Five conflicts in a row surface as a write conflict.
\<close>

theorem retry_applies_at_most_once:
  "withTxRetry False (\<lambda>_. False) (\<lambda>_. id) (run_tx fault body) s =
     (case first_settled fault 5 0 of
        None \<Rightarrow> (Inl ErrWriteConflict, s)
      | Some a \<Rightarrow> (case fault a of
            None \<Rightarrow> (Inr (fst (body s)), snd (body s))
          | Some e \<Rightarrow> (Inl e, s)))"
  by (auto simp: withTxRetry_def writeRetryMaxAttempts_def retry_from_quiet run_tx_def split: option.splits prod.splits)

end
