(* ===== verification/Link_Graph.thy ===== *)
theory Link_Graph
  imports Db_State Tx_Retry
begin

text \<open>
  The association graphs (\<^verbatim>\<open>db/link.go\<close>, \<^verbatim>\<open>types/link.go\<close>): link rows between memories and between
  events, the denormalised aggregate each item row carries, and every operation that changes
  either. Both graphs share one implementation, parameterised by a \<open>linkGraph\<close>; the contract it
  needs of the item table is the locale \<open>link_graph\<close>, interpreted for memories and for events.
\<close>

section \<open>The graph parameter\<close>

record 'r linkGraph =
  g_key :: "'r \<Rightarrow> ident"
  g_agg :: "'r \<Rightarrow> int"
  g_set :: "int \<Rightarrow> 'r \<Rightarrow> 'r"

definition memoryGraph :: "memory_row linkGraph" where
  "memoryGraph = \<lparr>g_key = m_id, g_agg = m_link_significance, g_set = (\<lambda>v r. r\<lparr>m_link_significance := v\<rparr>)\<rparr>"

definition eventGraph :: "event_row linkGraph" where
  "eventGraph = \<lparr>g_key = e_id, g_agg = e_link_significance, g_set = (\<lambda>v r. r\<lparr>e_link_significance := v\<rparr>)\<rparr>"

text \<open>\<^verbatim>\<open>types.Link\<close>: the far end and the weight.\<close>

record Link =
  Id :: ident
  LinkSig :: int

section \<open>Operations\<close>

definition lockOrderedIDs :: "ident list \<Rightarrow> ident list" where
  "lockOrderedIDs ids = sort ids"

text \<open>
  One UPDATE over a chunk: the correlated SUM over the rows touching the item, COALESCEd to 0
  (the sum of no rows).
\<close>

definition recalc_chunk :: "'r linkGraph \<Rightarrow> link_row list \<Rightarrow> ident list \<Rightarrow> 'r list \<Rightarrow> 'r list" where
  "recalc_chunk g ls chunk rows =
     map (\<lambda>r. if g_key g r \<in> set chunk then g_set g (link_sum ls (g_key g r)) r else r) rows"

definition recalculateLinkSignificance :: "'r linkGraph \<Rightarrow> link_row list \<Rightarrow> ident list \<Rightarrow> 'r list \<Rightarrow> 'r list" where
  "recalculateLinkSignificance g ls ids rows =
     (if ids = [] then rows
      else fold (recalc_chunk g ls) (chunks deleteChunkSize (lockOrderedIDs ids)) rows)"

definition ends_in :: "ident list \<Rightarrow> link_row \<Rightarrow> bool" where
  "ends_in ids l \<longleftrightarrow> from_id l \<in> set ids \<or> to_id l \<in> set ids"

text \<open>One chunk of the prune: read the rows, note the surviving far ends, delete if any matched.\<close>

definition prune_step :: "ident list \<Rightarrow> ident list \<Rightarrow> link_row list \<times> ident list \<Rightarrow> link_row list \<times> ident list" where
  "prune_step deleting chunk st =
     (let matched = filter (ends_in chunk) (fst st);
          survivors = snd st @ filter (\<lambda>i. i \<notin> set deleting) (concat (map (\<lambda>l. [from_id l, to_id l]) matched))
      in if matched = [] then (fst st, survivors)
         else (filter (\<lambda>l. \<not> ends_in chunk l) (fst st), survivors))"

definition linkTableEmpty :: "link_row list \<Rightarrow> bool" where
  "linkTableEmpty ls \<longleftrightarrow> ls = []"

definition pruneLinks :: "'r linkGraph \<Rightarrow> ident list \<Rightarrow> link_row list \<times> 'r list \<Rightarrow> link_row list \<times> 'r list" where
  "pruneLinks g ids t =
     (if ids = [] \<or> linkTableEmpty (fst t) then t
      else let (ls, survivors) = fold (prune_step ids) (chunks deleteChunkSize ids) (fst t, [])
           in if survivors = [] then (ls, snd t)
              else (ls, recalculateLinkSignificance g ls (remdups survivors) (snd t)))"

text \<open>INSERT .. ON CONFLICT (from_id, to_id) DO UPDATE SET significance: \<open>created\<close> is kept.\<close>

definition linkUpsert :: "ident \<Rightarrow> ident \<Rightarrow> int \<Rightarrow> nanos \<Rightarrow> link_row list \<Rightarrow> link_row list" where
  "linkUpsert f t sig now ls =
     (if (f, t) \<in> link_key ` set ls
      then map (\<lambda>l. if link_key l = (f, t) then l\<lparr>l_significance := sig\<rparr> else l) ls
      else ls @ [\<lparr>from_id = f, to_id = t, l_significance = sig, l_created = now\<rparr>])"

definition upsert_links :: "ident \<Rightarrow> nanos \<Rightarrow> Link list \<Rightarrow> link_row list \<Rightarrow> link_row list" where
  "upsert_links i now links ls = fold (\<lambda>l. linkUpsert i (Id l) (LinkSig l) now) links ls"

definition createLinksOnce :: "'r linkGraph \<Rightarrow> ident \<Rightarrow> nanos \<Rightarrow> Link list
    \<Rightarrow> link_row list \<times> 'r list \<Rightarrow> link_row list \<times> 'r list" where
  "createLinksOnce g i now links t =
     (let ls = upsert_links i now links (fst t)
      in (ls, recalculateLinkSignificance g ls (i # map Id links) (snd t)))"

definition createLinks :: "bool \<Rightarrow> (nat \<Rightarrow> write_error option) \<Rightarrow> (nat \<Rightarrow> bool)
    \<Rightarrow> (nat \<Rightarrow> link_row list \<times> 'r list \<Rightarrow> link_row list \<times> 'r list)
    \<Rightarrow> 'r linkGraph \<Rightarrow> ident \<Rightarrow> nanos \<Rightarrow> Link list
    \<Rightarrow> link_row list \<times> 'r list \<Rightarrow> (write_error + unit) \<times> (link_row list \<times> 'r list)" where
  "createLinks singleWriter fault ctx_done world g i now links t =
     (if links = [] then (Inr (), t)
      else withTxRetry singleWriter ctx_done world (run_tx fault (\<lambda>t. ((), createLinksOnce g i now links t))) t)"

definition between :: "ident \<Rightarrow> ident list \<Rightarrow> link_row \<Rightarrow> bool" where
  "between i targets l \<longleftrightarrow> from_id l = i \<and> to_id l \<in> set targets \<or> to_id l = i \<and> from_id l \<in> set targets"

definition deleteLinks :: "'r linkGraph \<Rightarrow> ident \<Rightarrow> ident list \<Rightarrow> link_row list \<times> 'r list \<Rightarrow> link_row list \<times> 'r list" where
  "deleteLinks g i targets t =
     (if targets = [] then t
      else let ls = fold (\<lambda>chunk ls. filter (\<lambda>l. \<not> between i chunk l) ls) (chunks deleteChunkSize targets) (fst t)
           in (ls, recalculateLinkSignificance g ls (i # targets) (snd t)))"

definition MissingIds :: "'r linkGraph \<Rightarrow> ident list \<Rightarrow> 'r list \<Rightarrow> ident list" where
  "MissingIds g ids rows =
     (let found = fold (\<lambda>chunk f. f @ filter (\<lambda>i. i \<in> set chunk) (map (g_key g) rows)) (chunks deleteChunkSize ids) []
      in filter (\<lambda>i. i \<notin> set found) ids)"

section \<open>Reads\<close>

datatype LinkDirection = LinkDirectionBoth | LinkDirectionOutbound | LinkDirectionInbound

record LinkEdge =
  edge_id :: ident
  edge_significance :: int
  edge_direction :: LinkDirection
  edge_created :: nanos

definition outbound :: "ident \<Rightarrow> link_row list \<Rightarrow> LinkEdge list" where
  "outbound i ls = map (\<lambda>l. \<lparr>edge_id = to_id l, edge_significance = l_significance l,
     edge_direction = LinkDirectionOutbound, edge_created = l_created l\<rparr>) (filter (\<lambda>l. from_id l = i) ls)"

definition inbound :: "ident \<Rightarrow> link_row list \<Rightarrow> LinkEdge list" where
  "inbound i ls = map (\<lambda>l. \<lparr>edge_id = from_id l, edge_significance = l_significance l,
     edge_direction = LinkDirectionInbound, edge_created = l_created l\<rparr>) (filter (\<lambda>l. to_id l = i) ls)"

definition linkSignificanceOf :: "'r linkGraph \<Rightarrow> ident \<Rightarrow> 'r list \<Rightarrow> int" where
  "linkSignificanceOf g i rows = (case find_row (g_key g) i rows of None \<Rightarrow> 0 | Some r \<Rightarrow> g_agg g r)"

definition getLinks :: "'r linkGraph \<Rightarrow> ident \<Rightarrow> LinkDirection \<Rightarrow> link_row list \<times> 'r list \<Rightarrow> LinkEdge list \<times> int" where
  "getLinks g i direction t =
     (let edges = (case direction of
            LinkDirectionOutbound \<Rightarrow> outbound i (fst t)
          | LinkDirectionInbound \<Rightarrow> inbound i (fst t)
          | LinkDirectionBoth \<Rightarrow> outbound i (fst t) @ inbound i (fst t));
          tot = sum_list (map edge_significance edges)
      in (edges, if direction \<noteq> LinkDirectionBoth then linkSignificanceOf g i (snd t) else tot))"

text \<open>One hop in either direction, the seeds left out, in the order first met.\<close>

definition note_neighbour :: "ident list \<Rightarrow> ident \<Rightarrow> ident list \<Rightarrow> ident list" where
  "note_neighbour seed i ordered = (if i \<in> set seed \<or> i \<in> set ordered then ordered else ordered @ [i])"

definition linkedIds :: "ident list \<Rightarrow> link_row list \<Rightarrow> ident list" where
  "linkedIds ids ls =
     fold (\<lambda>chunk ordered.
        fold (note_neighbour ids)
          (map to_id (filter (\<lambda>l. from_id l \<in> set chunk) ls) @ map from_id (filter (\<lambda>l. to_id l \<in> set chunk) ls))
          ordered)
       (chunks deleteChunkSize ids) []"

section \<open>Import\<close>

record import_state =
  is_links :: "link_row list"
  is_touched :: "ident list"
  is_written :: nat
  is_dropped :: nat

definition import_one :: "ident list \<Rightarrow> nanos \<Rightarrow> ident \<Rightarrow> Link \<Rightarrow> import_state \<Rightarrow> import_state" where
  "import_one missing now owner l st =
     (if Id l \<in> set missing \<or> Id l = owner then st\<lparr>is_dropped := is_dropped st + 1\<rparr>
      else st\<lparr>is_links := linkUpsert owner (Id l) (LinkSig l) now (is_links st),
              is_touched := is_touched st @ [owner, Id l],
              is_written := is_written st + 1\<rparr>)"

definition import_owner :: "ident list \<Rightarrow> nanos \<Rightarrow> ident \<times> Link list \<Rightarrow> import_state \<Rightarrow> import_state" where
  "import_owner missing now e st =
     (if fst e \<in> set missing then st\<lparr>is_dropped := is_dropped st + length (snd e)\<rparr>
      else fold (import_one missing now (fst e)) (snd e) st)"

text \<open>
  \<open>batch\<close> is the Go map of owner to links, in whatever order it is iterated. The result is the
  tables, the number of links written and the number dropped.
\<close>

definition importLinks :: "'r linkGraph \<Rightarrow> nanos \<Rightarrow> (ident \<times> Link list) list
    \<Rightarrow> link_row list \<times> 'r list \<Rightarrow> (link_row list \<times> 'r list) \<times> nat \<times> nat" where
  "importLinks g now batch t =
     (if batch = [] then (t, 0, 0)
      else let involved = remdups (concat (map (\<lambda>e. fst e # map Id (snd e)) batch));
               missing = MissingIds g involved (snd t);
               st = fold (import_owner missing now) batch
                      \<lparr>is_links = fst t, is_touched = [], is_written = 0, is_dropped = 0\<rparr>;
               rows = (if is_touched st = [] then snd t
                       else recalculateLinkSignificance g (is_links st) (remdups (is_touched st)) (snd t))
           in ((is_links st, rows), is_written st, is_dropped st))"

section \<open>Spreading activation\<close>

definition fractionScale :: int where
  "fractionScale = 1000"

text \<open>\<^verbatim>\<open>math.Round\<close> rounds half away from zero.\<close>

definition go_round :: "real \<Rightarrow> int" where
  "go_round x = (if 0 \<le> x then \<lfloor>x + 1 / 2\<rfloor> else - \<lfloor>- x + 1 / 2\<rfloor>)"

definition fractionRatio :: "real \<Rightarrow> int \<times> int" where
  "fractionRatio fraction =
     (let num = go_round (fraction * real_of_int fractionScale)
      in (if num > fractionScale then fractionScale else num, fractionScale))"

definition decay_clock :: "memory_row \<Rightarrow> nanos" where
  "decay_clock r = max (m_timestamp r) (m_time_recalled r)"

text \<open>
  The clock after the UPDATE, in the integer arithmetic of the engines whose \<open>/\<close> on two integers
  truncates (SQLite and PostgreSQL), divided before it is multiplied.
\<close>

definition advanced_clock :: "nanos \<Rightarrow> int \<Rightarrow> int \<Rightarrow> memory_row \<Rightarrow> nanos" where
  "advanced_clock now num den r = decay_clock r + go_div (now - decay_clock r) den * num"

definition reinforce_chunk :: "nanos \<Rightarrow> int \<Rightarrow> int \<Rightarrow> ident list \<Rightarrow> memory_row list \<Rightarrow> memory_row list" where
  "reinforce_chunk now num den chunk rows =
     map (\<lambda>r. if decay_clock r < now \<and> m_id r \<in> set chunk
              then r\<lparr>m_time_recalled := advanced_clock now num den r\<rparr> else r) rows"

definition ReinforceLinkedMemories :: "nanos \<Rightarrow> ident list \<Rightarrow> real \<Rightarrow> memory_row list \<Rightarrow> memory_row list" where
  "ReinforceLinkedMemories now ids fraction rows =
     (if ids = [] \<or> fraction \<le> 0 then rows
      else let (num, den) = fractionRatio (if fraction > 1 then 1 else fraction)
           in fold (reinforce_chunk now num den) (chunks deleteChunkSize (lockOrderedIDs ids)) rows)"

section \<open>The contract of the item table\<close>

definition one_row_per_pair :: "link_row list \<Rightarrow> bool" where
  "one_row_per_pair ls \<longleftrightarrow> distinct (map link_key ls)"

text \<open>Both ends exist and differ: no dangling edge and no self-link.\<close>

definition links_closed :: "link_row list \<Rightarrow> ident list \<Rightarrow> bool" where
  "links_closed ls ids \<longleftrightarrow> list_all (\<lambda>l. from_id l \<in> set ids \<and> to_id l \<in> set ids \<and> from_id l \<noteq> to_id l) ls"

definition rows_agg_ok :: "'r linkGraph \<Rightarrow> link_row list \<Rightarrow> 'r list \<Rightarrow> bool" where
  "rows_agg_ok g ls rows \<longleftrightarrow> agg_ok (g_key g) (g_agg g) ls rows"

lemma link_sum_filter:
  "(\<And>l. l \<in> set ls \<Longrightarrow> touches i l \<Longrightarrow> P l) \<Longrightarrow> link_sum (filter P ls) i = link_sum ls i"
proof -
  assume "\<And>l. l \<in> set ls \<Longrightarrow> touches i l \<Longrightarrow> P l"
  then have "filter (touches i) (filter P ls) = filter (touches i) ls"
    by (induction ls) auto
  then show ?thesis by (simp add: link_sum_def)
qed

lemma linkUpsert_keys:
  "map link_key (linkUpsert f t sg now ls) =
     (if (f, t) \<in> set (map link_key ls) then map link_key ls else map link_key ls @ [(f, t)])"
proof -
  have "map link_key (map (\<lambda>l. if link_key l = (f, t) then l\<lparr>l_significance := sg\<rparr> else l) ls) = map link_key ls"
    by (induction ls) (auto simp: link_key_def)
  then show ?thesis by (simp add: linkUpsert_def) (simp add: link_key_def)
qed

lemma link_sum_upsert_other:
  assumes "i \<noteq> f" "i \<noteq> t"
  shows "link_sum (linkUpsert f t sg now ls) i = link_sum ls i"
proof -
  have "filter (touches i) (map (\<lambda>l. if link_key l = (f, t) then l\<lparr>l_significance := sg\<rparr> else l) ls)
      = filter (touches i) ls"
    using assms by (induction ls) (auto simp: touches_def link_key_def)
  then show ?thesis using assms by (auto simp: linkUpsert_def link_sum_def touches_def)
qed

lemma linkUpsert_distinct: "one_row_per_pair ls \<Longrightarrow> one_row_per_pair (linkUpsert f t sg now ls)"
  unfolding one_row_per_pair_def linkUpsert_keys by auto

lemma upsert_links_distinct: "one_row_per_pair ls \<Longrightarrow> one_row_per_pair (upsert_links i now links ls)"
  unfolding upsert_links_def
  by (induction links arbitrary: ls) (simp_all add: linkUpsert_distinct)

lemma link_sum_upsert_links:
  "k \<noteq> i \<Longrightarrow> k \<notin> Id ` set links \<Longrightarrow> link_sum (upsert_links i now links ls) k = link_sum ls k"
  unfolding upsert_links_def
  by (induction links arbitrary: ls) (simp_all add: link_sum_upsert_other)

text \<open>The import loop: what it touches, what it counts, and that its edges are proper.\<close>

definition import_inv :: "link_row list \<Rightarrow> ident list \<Rightarrow> import_state \<Rightarrow> bool" where
  "import_inv ls0 ids st \<longleftrightarrow>
     (\<forall>k. k \<notin> set (is_touched st) \<longrightarrow> link_sum (is_links st) k = link_sum ls0 k)
     \<and> links_closed (is_links st) ids \<and> one_row_per_pair (is_links st)"

lemma links_closed_keys:
  "links_closed ls ids \<longleftrightarrow> list_all (\<lambda>(f, t). f \<in> set ids \<and> t \<in> set ids \<and> f \<noteq> t) (map link_key ls)"
  by (induction ls) (simp_all add: links_closed_def link_key_def)

lemma links_closed_upsert:
  "links_closed ls ids \<Longrightarrow> f \<in> set ids \<Longrightarrow> t \<in> set ids \<Longrightarrow> f \<noteq> t \<Longrightarrow> links_closed (linkUpsert f t sg now ls) ids"
  unfolding links_closed_keys linkUpsert_keys by simp

lemma import_one_inv:
  assumes "import_inv ls0 ids st" "owner \<in> set ids" "Id l \<notin> set missing \<Longrightarrow> Id l \<in> set ids"
  shows "import_inv ls0 ids (import_one missing now owner l st)"
  using assms
  by (auto simp: import_inv_def import_one_def links_closed_upsert linkUpsert_distinct link_sum_upsert_other)

lemma import_owner_inv:
  assumes "import_inv ls0 ids st" "fst e \<notin> set missing \<Longrightarrow> fst e \<in> set ids"
    and "\<And>l. l \<in> set (snd e) \<Longrightarrow> Id l \<notin> set missing \<Longrightarrow> Id l \<in> set ids"
  shows "import_inv ls0 ids (import_owner missing now e st)"
proof (cases "fst e \<in> set missing")
  case True
  with assms(1) show ?thesis by (simp add: import_owner_def import_inv_def)
next
  case False
  have "import_inv ls0 ids (fold (import_one missing now (fst e)) (snd e) st)"
    by (rule fold_invariant [where Q = "\<lambda>l. l \<in> set (snd e)"])
      (use assms False in \<open>auto intro: import_one_inv\<close>)
  with False show ?thesis by (simp add: import_owner_def)
qed

lemma import_counts:
  "is_written (fold (import_one missing now owner) links st) + is_dropped (fold (import_one missing now owner) links st)
     = is_written st + is_dropped st + length links"
  by (induction links arbitrary: st) (simp_all add: import_one_def)

lemma import_owner_counts:
  "is_written (fold (import_owner missing now) batch st) + is_dropped (fold (import_owner missing now) batch st)
     = is_written st + is_dropped st + sum_list (map (\<lambda>e. length (snd e)) batch)"
  by (induction batch arbitrary: st) (simp_all add: import_owner_def import_counts)

locale link_graph =
  fixes g :: "'r linkGraph"
  assumes agg_set [simp]: "g_agg g (g_set g v r) = v"
    and key_set [simp]: "g_key g (g_set g v r) = g_key g r"
    and set_set [simp]: "g_set g v (g_set g w r) = g_set g v r"
begin

lemma recalc_chunks: "fold (recalc_chunk g ls) cs rows = recalc_chunk g ls (concat cs) rows"
  by (induction cs arbitrary: rows) (simp_all add: recalc_chunk_def)

lemma recalc_chunk_cong: "set xs = set ys \<Longrightarrow> recalc_chunk g ls xs rows = recalc_chunk g ls ys rows"
  by (simp add: recalc_chunk_def)

lemma recalc_eq: "recalculateLinkSignificance g ls ids rows = recalc_chunk g ls ids rows"
proof (cases "ids = []")
  case False
  then have "recalculateLinkSignificance g ls ids rows = recalc_chunk g ls (lockOrderedIDs ids) rows"
    by (simp add: recalculateLinkSignificance_def recalc_chunks)
  also have "\<dots> = recalc_chunk g ls ids rows" by (rule recalc_chunk_cong) (simp add: lockOrderedIDs_def)
  finally show ?thesis .
qed (simp add: recalculateLinkSignificance_def recalc_chunk_def)

lemma recalc_keys: "map (g_key g) (recalculateLinkSignificance g ls ids rows) = map (g_key g) rows"
  by (simp add: recalc_eq recalc_chunk_def)

text \<open>The single point every mutation funnels through restores the aggregate.\<close>

lemma recalc_restores:
  assumes "rows_agg_ok g old rows"
    and "\<And>r. r \<in> set rows \<Longrightarrow> g_key g r \<notin> set ids \<Longrightarrow> link_sum new (g_key g r) = link_sum old (g_key g r)"
  shows "rows_agg_ok g new (recalculateLinkSignificance g new ids rows)"
  using assms by (auto simp: rows_agg_ok_def agg_ok_def recalc_eq recalc_chunk_def list_all_iff)

lemma createLinksOnce_agg:
  assumes "rows_agg_ok g (fst t) (snd t)"
  shows "rows_agg_ok g (fst (createLinksOnce g i now links t)) (snd (createLinksOnce g i now links t))"
  unfolding createLinksOnce_def Let_def fst_conv snd_conv
  by (rule recalc_restores [OF assms]) (auto simp: link_sum_upsert_links)

lemma createLinks_agg:
  assumes "rows_agg_ok g (fst t) (snd t)"
    and "\<And>n u. rows_agg_ok g (fst u) (snd u) \<Longrightarrow> rows_agg_ok g (fst (world n u)) (snd (world n u))"
  shows "rows_agg_ok g (fst (snd (createLinks sw fault ctx_done world g i now links t)))
           (snd (snd (createLinks sw fault ctx_done world g i now links t)))"
proof (cases "links = []")
  case False
  have "(\<lambda>u. rows_agg_ok g (fst u) (snd u))
      (snd (withTxRetry sw ctx_done world (run_tx fault (\<lambda>t. ((), createLinksOnce g i now links t))) t))"
  proof (rule rtx.withTxRetry_invariant)
    fix n u v u' assume "rows_agg_ok g (fst u) (snd u)"
      and "run_tx fault (\<lambda>t. ((), createLinksOnce g i now links t)) n u = (Inr v, u')"
    then show "rows_agg_ok g (fst u') (snd u')"
      using createLinksOnce_agg [of u i now links] by (auto simp: run_tx_def split: option.splits)
  qed (use assms in auto)
  with False show ?thesis by (simp add: createLinks_def)
qed (simp add: createLinks_def assms)

lemma deleteLinks_rows:
  "fold (\<lambda>chunk ls. filter (\<lambda>l. \<not> between i chunk l) ls) cs ls = filter (\<lambda>l. \<not> between i (concat cs) l) ls"
proof (induction cs arbitrary: ls)
  case (Cons c cs)
  then show ?case by (auto simp: between_def intro!: filter_cong)
qed (simp add: between_def)

lemma deleteLinks_links: "fst (deleteLinks g i targets t) = filter (\<lambda>l. \<not> between i targets l) (fst t)"
  by (simp add: deleteLinks_def deleteLinks_rows Let_def) (simp add: between_def)

lemma deleteLinks_agg:
  assumes "rows_agg_ok g (fst t) (snd t)"
  shows "rows_agg_ok g (fst (deleteLinks g i targets t)) (snd (deleteLinks g i targets t))"
proof (cases "targets = []")
  case False
  then have eq: "deleteLinks g i targets t = (let ls = filter (\<lambda>l. \<not> between i targets l) (fst t)
      in (ls, recalculateLinkSignificance g ls (i # targets) (snd t)))"
    by (simp add: deleteLinks_def deleteLinks_rows)
  show ?thesis
    unfolding eq Let_def fst_conv snd_conv
    by (rule recalc_restores [OF assms]) (intro link_sum_filter, auto simp: between_def touches_def)
qed (simp add: deleteLinks_def assms)

lemma prune_step_eq:
  "prune_step del chunk (ls, sv) = (filter (\<lambda>l. \<not> ends_in chunk l) ls,
     sv @ filter (\<lambda>i. i \<notin> set del) (concat (map (\<lambda>l. [from_id l, to_id l]) (filter (ends_in chunk) ls))))"
proof (cases "filter (ends_in chunk) ls = []")
  case True
  then have "filter (\<lambda>l. \<not> ends_in chunk l) ls = ls" by (auto simp: filter_empty_conv intro: filter_True)
  with True show ?thesis by (simp add: prune_step_def)
qed (simp add: prune_step_def)

lemma ends_in_append: "ends_in (xs @ ys) l \<longleftrightarrow> ends_in xs l \<or> ends_in ys l"
  by (auto simp: ends_in_def)

lemma prune_chunks:
  "fst (fold (prune_step del) cs (ls, sv)) = filter (\<lambda>l. \<not> ends_in (concat cs) l) ls"
  "set (snd (fold (prune_step del) cs (ls, sv))) =
     set sv \<union> {k. k \<notin> set del \<and> (\<exists>l \<in> set ls. ends_in (concat cs) l \<and> touches k l)}"
proof (induction cs arbitrary: ls sv)
  case (Cons c cs)
  { case 1
    show ?case by (simp add: prune_step_eq Cons.IH(1) ends_in_append conj_commute)
  next
    case 2
    show ?case by (auto simp: prune_step_eq Cons.IH(2) ends_in_append touches_def) }
qed (simp_all add: ends_in_def)

lemma pruneLinks_links: "fst (pruneLinks g ids t) = filter (\<lambda>l. \<not> ends_in ids l) (fst t)"
  using prune_chunks(1) [of ids "chunks deleteChunkSize ids" "fst t" "[]"]
  by (auto simp: pruneLinks_def linkTableEmpty_def Let_def ends_in_def split: prod.splits)

lemma pruneLinks_rows:
  "snd (pruneLinks g ids t) =
     map (\<lambda>r. if g_key g r \<notin> set ids \<and> (\<exists>l \<in> set (fst t). ends_in ids l \<and> touches (g_key g r) l)
              then g_set g (link_sum (filter (\<lambda>l. \<not> ends_in ids l) (fst t)) (g_key g r)) r else r) (snd t)"
proof (cases "ids = [] \<or> fst t = []")
  case True
  then show ?thesis by (auto simp: pruneLinks_def linkTableEmpty_def ends_in_def)
next
  case False
  obtain ls sv where f: "fold (prune_step ids) (chunks deleteChunkSize ids) (fst t, []) = (ls, sv)"
    by (cases "fold (prune_step ids) (chunks deleteChunkSize ids) (fst t, [])")
  have "ls = filter (\<lambda>l. \<not> ends_in ids l) (fst t)"
    "set sv = {k. k \<notin> set ids \<and> (\<exists>l \<in> set (fst t). ends_in ids l \<and> touches k l)}"
    using prune_chunks [of ids "chunks deleteChunkSize ids" "fst t" "[]"] by (simp_all add: f)
  moreover have "snd (pruneLinks g ids t) = recalc_chunk g ls sv (snd t)"
    using False f by (auto simp: pruneLinks_def linkTableEmpty_def recalc_eq recalc_chunk_def)
  ultimately show ?thesis by (auto simp: recalc_chunk_def)
qed

lemma pruneLinks_keys: "map (g_key g) (snd (pruneLinks g ids t)) = map (g_key g) (snd t)"
  by (simp add: pruneLinks_rows)

lemma pruneLinks_agg:
  assumes "rows_agg_ok g (fst t) (snd t)"
  shows "rows_agg_ok g (fst (pruneLinks g ids t)) (filter (\<lambda>r. g_key g r \<notin> set ids) (snd (pruneLinks g ids t)))"
proof -
  have "link_sum (filter (\<lambda>l. \<not> ends_in ids l) (fst t)) k = link_sum (fst t) k"
    if "\<not> (\<exists>l \<in> set (fst t). ends_in ids l \<and> touches k l)" for k
    using that by (intro link_sum_filter) blast
  with assms show ?thesis
    by (auto simp: rows_agg_ok_def agg_ok_def list_all_iff pruneLinks_links pruneLinks_rows)
qed

text \<open>Removing items and pruning their links, in one transaction, keeps the graph well-formed.\<close>

lemma remove_and_prune:
  assumes "rows_agg_ok g ls rows" "links_closed ls (map (g_key g) rows)" "one_row_per_pair ls"
    and kept: "\<And>r. r \<in> set rows \<Longrightarrow> P r \<longleftrightarrow> g_key g r \<notin> set gone"
    and ls': "ls' = filter (\<lambda>l. \<not> ends_in gone l) ls" and rows': "rows' = snd (pruneLinks g gone (ls, filter P rows))"
  shows "rows_agg_ok g ls' rows'" "links_closed ls' (map (g_key g) rows')" "one_row_per_pair ls'"
    "map (g_key g) rows' = filter (\<lambda>i. i \<notin> set gone) (map (g_key g) rows)"
proof -
  have ids: "map (g_key g) rows' = map (g_key g) (filter P rows)"
    using pruneLinks_keys [of gone "(ls, filter P rows)"] by (simp add: rows')
  also have "\<dots> = filter (\<lambda>i. i \<notin> set gone) (map (g_key g) rows)"
    using kept by (simp add: filter_map comp_def) (metis (mono_tags, lifting) filter_cong)
  finally show keys: "map (g_key g) rows' = filter (\<lambda>i. i \<notin> set gone) (map (g_key g) rows)" .
  have "rows_agg_ok g ls (filter P rows)"
    using assms(1) by (auto simp: rows_agg_ok_def agg_ok_def list_all_iff)
  from pruneLinks_agg [of "(ls, filter P rows)" gone] this
  have "rows_agg_ok g ls' (filter (\<lambda>r. g_key g r \<notin> set gone) rows')"
    by (simp add: pruneLinks_links ls' rows')
  moreover have "filter (\<lambda>r. g_key g r \<notin> set gone) rows' = rows'"
    using arg_cong [OF keys, of set] by (intro filter_True) auto
  ultimately show "rows_agg_ok g ls' rows'" by simp
  show "links_closed ls' (map (g_key g) rows')"
    using assms(2) unfolding keys by (auto simp: links_closed_def list_all_iff ls' ends_in_def)
  show "one_row_per_pair ls'" using assms(3) by (simp add: one_row_per_pair_def ls' distinct_map_filter_key)
qed

lemma MissingIds_iff: "set (MissingIds g ids rows) = set ids - g_key g ` set rows"
proof -
  have "set (fold (\<lambda>chunk f. f @ filter (\<lambda>i. i \<in> set chunk) (map (g_key g) rows)) cs acc)
      = set acc \<union> (set (concat cs) \<inter> g_key g ` set rows)" for cs acc
    by (induction cs arbitrary: acc) auto
  from this [of "chunks deleteChunkSize ids" "[]"] show ?thesis
    by (simp add: MissingIds_def set_diff_eq del: set_concat) blast
qed

lemma importLinks_state:
  assumes "links_closed (fst t) (map (g_key g) (snd t))" "one_row_per_pair (fst t)"
    and missing_def: "missing = MissingIds g (remdups (concat (map (\<lambda>e. fst e # map Id (snd e)) batch))) (snd t)"
  shows "import_inv (fst t) (map (g_key g) (snd t)) (fold (import_owner missing now) batch
           \<lparr>is_links = fst t, is_touched = [], is_written = 0, is_dropped = 0\<rparr>)"
proof (rule fold_invariant [where Q = "\<lambda>e. e \<in> set batch"])
  fix e st assume e: "e \<in> set batch" and "import_inv (fst t) (map (g_key g) (snd t)) st"
  have missing: "set missing = set (concat (map (\<lambda>e. fst e # map Id (snd e)) batch)) - g_key g ` set (snd t)"
    by (simp add: missing_def MissingIds_iff)
  show "import_inv (fst t) (map (g_key g) (snd t)) (import_owner missing now e st)"
    by (rule import_owner_inv) (use e \<open>import_inv _ _ st\<close> in \<open>auto simp: missing\<close>)
qed (use assms in \<open>auto simp: import_inv_def\<close>)

lemma importLinks_ok:
  assumes "links_closed (fst t) (map (g_key g) (snd t))" "one_row_per_pair (fst t)" "rows_agg_ok g (fst t) (snd t)"
    and r: "importLinks g now batch t = ((ls, rows), written, dropped)"
  shows "rows_agg_ok g ls rows \<and> links_closed ls (map (g_key g) rows) \<and> one_row_per_pair ls
    \<and> written + dropped = sum_list (map (\<lambda>e. length (snd e)) batch)"
proof (cases "batch = []")
  case True
  with assms show ?thesis by (auto simp: importLinks_def)
next
  case False
  define missing where "missing = MissingIds g (remdups (concat (map (\<lambda>e. fst e # map Id (snd e)) batch))) (snd t)"
  define st where "st = fold (import_owner missing now) batch
    \<lparr>is_links = fst t, is_touched = [], is_written = 0, is_dropped = 0\<rparr>"
  have inv: "import_inv (fst t) (map (g_key g) (snd t)) st"
    unfolding st_def by (rule importLinks_state [OF assms(1,2) missing_def])
  have res: "ls = is_links st" "written = is_written st" "dropped = is_dropped st"
    "rows = recalculateLinkSignificance g (is_links st) (remdups (is_touched st)) (snd t)"
    using r False
    by (auto simp: importLinks_def Let_def missing_def [symmetric] st_def [symmetric]
        recalculateLinkSignificance_def split: if_splits)
  have "rows_agg_ok g (is_links st) (recalculateLinkSignificance g (is_links st) (remdups (is_touched st)) (snd t))"
    by (rule recalc_restores [OF assms(3)]) (use inv in \<open>simp add: import_inv_def\<close>)
  moreover have "is_written st + is_dropped st = sum_list (map (\<lambda>e. length (snd e)) batch)"
    by (simp add: st_def import_owner_counts)
  ultimately show ?thesis using inv by (simp add: res import_inv_def recalc_keys)
qed

end

interpretation mem_graph: link_graph memoryGraph
  by unfold_locales (simp_all add: memoryGraph_def)

interpretation ev_graph: link_graph eventGraph
  by unfold_locales (simp_all add: eventGraph_def)

lemma mem_rows_agg: "rows_agg_ok memoryGraph ls rows = agg_ok m_id m_link_significance ls rows"
  by (simp add: rows_agg_ok_def memoryGraph_def)

lemma ev_rows_agg: "rows_agg_ok eventGraph ls rows = agg_ok e_id e_link_significance ls rows"
  by (simp add: rows_agg_ok_def eventGraph_def)

lemma graph_keys [simp]: "g_key memoryGraph = m_id" "g_key eventGraph = e_id"
  by (simp_all add: memoryGraph_def eventGraph_def)

section \<open>The operations on the store\<close>

definition mem_tables :: "db_state \<Rightarrow> link_row list \<times> memory_row list" where
  "mem_tables s = (memory_links s, memories s)"

definition ev_tables :: "db_state \<Rightarrow> link_row list \<times> event_row list" where
  "ev_tables s = (event_links s, events s)"

definition put_mem_tables :: "link_row list \<times> memory_row list \<Rightarrow> db_state \<Rightarrow> db_state" where
  "put_mem_tables t s = s\<lparr>memory_links := fst t, memories := snd t\<rparr>"

definition put_ev_tables :: "link_row list \<times> event_row list \<Rightarrow> db_state \<Rightarrow> db_state" where
  "put_ev_tables t s = s\<lparr>event_links := fst t, events := snd t\<rparr>"

definition LinkMemories :: "db_config \<Rightarrow> (nat \<Rightarrow> write_error option) \<Rightarrow> (nat \<Rightarrow> bool) \<Rightarrow> nanos
    \<Rightarrow> ident \<Rightarrow> Link list \<Rightarrow> db_state \<Rightarrow> (write_error + unit) \<times> db_state" where
  "LinkMemories cfg fault ctx_done now i links s =
     (let (r, t) = createLinks (single_writer cfg) fault ctx_done (\<lambda>_. id) memoryGraph i now links (mem_tables s)
      in (r, put_mem_tables t s))"

definition LinkEvents :: "db_config \<Rightarrow> (nat \<Rightarrow> write_error option) \<Rightarrow> (nat \<Rightarrow> bool) \<Rightarrow> nanos
    \<Rightarrow> ident \<Rightarrow> Link list \<Rightarrow> db_state \<Rightarrow> (write_error + unit) \<times> db_state" where
  "LinkEvents cfg fault ctx_done now i links s =
     (let (r, t) = createLinks (single_writer cfg) fault ctx_done (\<lambda>_. id) eventGraph i now links (ev_tables s)
      in (r, put_ev_tables t s))"

definition UnlinkMemories :: "ident \<Rightarrow> ident list \<Rightarrow> db_state \<Rightarrow> db_state" where
  "UnlinkMemories i targets s = put_mem_tables (deleteLinks memoryGraph i targets (mem_tables s)) s"

definition UnlinkEvents :: "ident \<Rightarrow> ident list \<Rightarrow> db_state \<Rightarrow> db_state" where
  "UnlinkEvents i targets s = put_ev_tables (deleteLinks eventGraph i targets (ev_tables s)) s"

definition GetMemoryLinks :: "ident \<Rightarrow> LinkDirection \<Rightarrow> db_state \<Rightarrow> LinkEdge list \<times> int" where
  "GetMemoryLinks i direction s = getLinks memoryGraph i direction (mem_tables s)"

definition GetEventLinks :: "ident \<Rightarrow> LinkDirection \<Rightarrow> db_state \<Rightarrow> LinkEdge list \<times> int" where
  "GetEventLinks i direction s = getLinks eventGraph i direction (ev_tables s)"

definition ImportMemoryLinks :: "nanos \<Rightarrow> (ident \<times> Link list) list \<Rightarrow> db_state \<Rightarrow> db_state \<times> nat \<times> nat" where
  "ImportMemoryLinks now batch s =
     (let (t, written, dropped) = importLinks memoryGraph now batch (mem_tables s)
      in (put_mem_tables t s, written, dropped))"

definition pruneMemoryLinks :: "ident list \<Rightarrow> db_state \<Rightarrow> db_state" where
  "pruneMemoryLinks ids s = put_mem_tables (pruneLinks memoryGraph ids (mem_tables s)) s"

definition pruneEventLinks :: "ident list \<Rightarrow> db_state \<Rightarrow> db_state" where
  "pruneEventLinks ids s = put_ev_tables (pruneLinks eventGraph ids (ev_tables s)) s"

lemmas store_link_defs = mem_tables_def ev_tables_def put_mem_tables_def put_ev_tables_def

section \<open>What the operations guarantee\<close>

lemma aggregates_put_mem:
  "aggregates_ok (put_mem_tables t s) \<longleftrightarrow> rows_agg_ok memoryGraph (fst t) (snd t)
     \<and> agg_ok e_id e_link_significance (event_links s) (events s)"
  by (simp add: aggregates_ok_def store_link_defs mem_rows_agg)

lemma aggregates_put_ev:
  "aggregates_ok (put_ev_tables t s) \<longleftrightarrow> agg_ok m_id m_link_significance (memory_links s) (memories s)
     \<and> rows_agg_ok eventGraph (fst t) (snd t)"
  by (simp add: aggregates_ok_def store_link_defs ev_rows_agg)

text \<open>
  C40. The aggregate the decay scans read off a memory or event row is the sum over the link rows
  that touch it, in either direction, and every link write keeps it so: linking (through retries,
  conflicts and failures alike) and unlinking, in both graphs.
\<close>

theorem link_writes_keep_aggregates:
  assumes "aggregates_ok s"
  shows "aggregates_ok (snd (LinkMemories cfg fault ctx_done now i links s))
    \<and> aggregates_ok (snd (LinkEvents cfg fault ctx_done now i links s))
    \<and> aggregates_ok (UnlinkMemories i targets s)
    \<and> aggregates_ok (UnlinkEvents i targets s)"
proof -
  have m: "rows_agg_ok memoryGraph (fst (mem_tables s)) (snd (mem_tables s))"
    and e: "rows_agg_ok eventGraph (fst (ev_tables s)) (snd (ev_tables s))"
    and m': "agg_ok m_id m_link_significance (memory_links s) (memories s)"
    and e': "agg_ok e_id e_link_significance (event_links s) (events s)"
    using assms by (simp_all add: aggregates_ok_def store_link_defs mem_rows_agg ev_rows_agg)
  show ?thesis
    using m' e' mem_graph.createLinks_agg [OF m, of "\<lambda>_. id"] ev_graph.createLinks_agg [OF e, of "\<lambda>_. id"]
      mem_graph.deleteLinks_agg [OF m] ev_graph.deleteLinks_agg [OF e]
    by (simp add: LinkMemories_def LinkEvents_def UnlinkMemories_def UnlinkEvents_def split_beta
        aggregates_put_mem aggregates_put_ev)
qed

lemma linked_store_ok: "aggregates_ok linked_store"
  by (simp add: aggregates_ok_def agg_ok_def link_sum_def touches_def example_defs)

theorem link_writes_keep_aggregates_witness:
  "aggregates_ok (UnlinkMemories ''a'' [''b''] linked_store)"
  using link_writes_keep_aggregates [OF linked_store_ok] by blast

text \<open>
  Deleting items prunes the graph: whatever the chunking, the short cut for an empty table and
  the set of survivors the loop collects, afterwards no link has an end among the deleted items, no
  other link is lost, and every remaining item's aggregate is the sum over the links left.
\<close>

theorem prune_leaves_no_trace:
  assumes "aggregates_ok s"
  shows "memory_links (pruneMemoryLinks ids s)
      = filter (\<lambda>l. from_id l \<notin> set ids \<and> to_id l \<notin> set ids) (memory_links s)
    \<and> map m_id (memories (pruneMemoryLinks ids s)) = map m_id (memories s)
    \<and> agg_ok m_id m_link_significance (memory_links (pruneMemoryLinks ids s))
        (filter (\<lambda>r. m_id r \<notin> set ids) (memories (pruneMemoryLinks ids s)))"
proof -
  have m: "rows_agg_ok memoryGraph (fst (mem_tables s)) (snd (mem_tables s))"
    using assms by (simp add: aggregates_ok_def store_link_defs mem_rows_agg)
  have "filter (\<lambda>l. \<not> ends_in ids l) (memory_links s)
      = filter (\<lambda>l. from_id l \<notin> set ids \<and> to_id l \<notin> set ids) (memory_links s)"
    by (simp add: ends_in_def)
  then show ?thesis
    using mem_graph.pruneLinks_links [of ids "mem_tables s"] mem_graph.pruneLinks_keys [of ids "mem_tables s"]
      mem_graph.pruneLinks_agg [OF m, of ids]
    by (simp add: pruneMemoryLinks_def mem_rows_agg) (simp add: store_link_defs)
qed

theorem prune_leaves_no_trace_witness:
  "memory_links (pruneMemoryLinks [''b''] linked_store) = []"
  using prune_leaves_no_trace [OF linked_store_ok, of "[''b'']"] by (simp add: example_defs)

text \<open>
  An import drops exactly what it cannot place: every link of the batch is either written or
  counted as dropped, and what was written leaves no dangling edge, no self-link, one row per pair
  and correct aggregates, in whatever order the batch is walked.
\<close>

theorem import_leaves_graph_sound:
  assumes "links_closed (memory_links s) (map m_id (memories s))" "one_row_per_pair (memory_links s)"
    and "aggregates_ok s"
    and r: "ImportMemoryLinks now batch s = (s', written, dropped)"
  shows "links_closed (memory_links s') (map m_id (memories s')) \<and> one_row_per_pair (memory_links s')
    \<and> aggregates_ok s'
    \<and> written + dropped = sum_list (map (\<lambda>e. length (snd e)) batch)"
proof -
  have "rows_agg_ok memoryGraph (fst (mem_tables s)) (snd (mem_tables s))"
    "agg_ok e_id e_link_significance (event_links s) (events s)"
    using assms(3) by (simp_all add: aggregates_ok_def store_link_defs mem_rows_agg)
  moreover obtain ls rows where t: "importLinks memoryGraph now batch (mem_tables s) = ((ls, rows), written, dropped)"
    and s': "s' = put_mem_tables (ls, rows) s"
    using r by (auto simp: ImportMemoryLinks_def split: prod.splits)
  ultimately show ?thesis
    using mem_graph.importLinks_ok [OF _ _ _ t] assms(1,2)
    by (simp add: s' aggregates_put_mem) (simp add: store_link_defs)
qed

definition example_batch :: "(ident \<times> Link list) list" where
  "example_batch = [(''a'', [\<lparr>Id = ''c'', LinkSig = 3\<rparr>, \<lparr>Id = ''gone'', LinkSig = 9\<rparr>, \<lparr>Id = ''a'', LinkSig = 1\<rparr>])]"

lemma example_import:
  "ImportMemoryLinks 99 example_batch linked_store =
     (linked_store\<lparr>memories := [example_memory ''a'' 10 8, example_memory ''b'' 20 12, example_memory ''c'' 30 10],
        memory_links := [example_link ''a'' ''b'' 5, example_link ''b'' ''c'' 7,
          \<lparr>from_id = ''a'', to_id = ''c'', l_significance = 3, l_created = 99\<rparr>]\<rparr>, 1, 2)"
  by code_simp

theorem import_leaves_graph_sound_witness:
  "aggregates_ok (fst (ImportMemoryLinks 99 example_batch linked_store))"
proof -
  have "links_closed (memory_links linked_store) (map m_id (memories linked_store))"
    "one_row_per_pair (memory_links linked_store)"
    by (simp_all add: links_closed_def one_row_per_pair_def link_key_def example_defs)
  from import_leaves_graph_sound [OF this linked_store_ok example_import] show ?thesis
    by (simp add: example_import)
qed

lemma edges_sum:
  assumes "list_all (\<lambda>l. from_id l \<noteq> to_id l) ls"
  shows "sum_list (map edge_significance (outbound i ls)) + sum_list (map edge_significance (inbound i ls)) = link_sum ls i"
  using assms by (induction ls) (auto simp: outbound_def inbound_def link_sum_def touches_def)

text \<open>
  The total a read reports does not depend on the direction it was narrowed to: with one row
  per id, correct aggregates and no self-links, the outbound, inbound and two-way reads of a stored
  memory all report the sum over every link that touches it.
\<close>

theorem link_total_ignores_direction:
  assumes "aggregates_ok s" "keys_ok s" "links_closed (memory_links s) (map m_id (memories s))"
    and "i \<in> m_id ` set (memories s)"
  shows "snd (GetMemoryLinks i direction s) = link_sum (memory_links s) i"
proof -
  obtain r where r: "r \<in> set (memories s)" "m_id r = i" using assms(4) by auto
  then have "find_row m_id i (memories s) = Some r"
    using assms(2) by (auto simp: keys_ok_def find_row_iff)
  moreover have "m_link_significance r = link_sum (memory_links s) i"
    using assms(1) r by (auto simp: aggregates_ok_def agg_ok_def list_all_iff)
  moreover have "list_all (\<lambda>l. from_id l \<noteq> to_id l) (memory_links s)"
    using assms(3) by (auto simp: links_closed_def list_all_iff)
  ultimately show ?thesis
    using edges_sum [of "memory_links s" i]
    by (cases direction)
      (simp_all add: GetMemoryLinks_def getLinks_def linkSignificanceOf_def mem_tables_def memoryGraph_def)
qed

theorem link_total_ignores_direction_witness:
  "snd (GetMemoryLinks ''b'' LinkDirectionInbound linked_store) = 12"
  using link_total_ignores_direction [OF linked_store_ok, of "''b''" LinkDirectionInbound]
  by (simp add: keys_ok_def links_closed_def link_sum_def touches_def example_defs)

section \<open>Replaying a link write\<close>

definition last_weight :: "Link list \<Rightarrow> ident \<Rightarrow> int option" where
  "last_weight links t = map_of (rev (map (\<lambda>l. (Id l, LinkSig l)) links)) t"

definition reweigh :: "ident \<Rightarrow> Link list \<Rightarrow> link_row \<Rightarrow> link_row" where
  "reweigh i links r = (if from_id r = i then (case last_weight links (to_id r) of
      None \<Rightarrow> r | Some w \<Rightarrow> r\<lparr>l_significance := w\<rparr>) else r)"

lemma upsert_links_snoc: "upsert_links i now (links @ [l]) ls = linkUpsert i (Id l) (LinkSig l) now (upsert_links i now links ls)"
  by (simp add: upsert_links_def)

lemma last_weight_snoc: "last_weight (links @ [l]) t = (if t = Id l then Some (LinkSig l) else last_weight links t)"
  by (simp add: last_weight_def)

lemma upsert_links_keys_mono: "link_key ` set ls \<subseteq> link_key ` set (upsert_links i now links ls)"
proof (induction links rule: rev_induct)
  case (snoc l links)
  have "link_key ` set (upsert_links i now (links @ [l]) ls)
      = insert (i, Id l) (link_key ` set (upsert_links i now links ls))"
    using arg_cong [OF linkUpsert_keys [of i "Id l" "LinkSig l" now "upsert_links i now links ls"], of set]
    by (auto simp: upsert_links_snoc)
  with snoc show ?case by blast
qed (simp add: upsert_links_def)

lemma upsert_links_present:
  assumes "\<And>l. l \<in> set links \<Longrightarrow> (i, Id l) \<in> link_key ` set ls"
  shows "upsert_links i now links ls = map (reweigh i links) ls"
  using assms
proof (induction links rule: rev_induct)
  case Nil
  then show ?case by (auto simp: upsert_links_def reweigh_def last_weight_def intro!: map_idI [symmetric])
next
  case (snoc l links)
  have "(i, Id l) \<in> link_key ` set (upsert_links i now links ls)"
    using snoc.prems upsert_links_keys_mono by fastforce
  then have "upsert_links i now (links @ [l]) ls
      = map (\<lambda>r. if link_key r = (i, Id l) then r\<lparr>l_significance := LinkSig l\<rparr> else r) (map (reweigh i links) ls)"
    using snoc by (simp add: upsert_links_snoc linkUpsert_def)
  also have "\<dots> = map (reweigh i (links @ [l])) ls"
    by (auto simp: reweigh_def last_weight_snoc link_key_def split: option.splits)
  finally show ?case .
qed

lemma upsert_links_all_present: "l \<in> set links \<Longrightarrow> (i, Id l) \<in> link_key ` set (upsert_links i now links ls)"
proof (induction links rule: rev_induct)
  case (snoc a links)
  have "link_key ` set (upsert_links i now (links @ [a]) ls)
      = insert (i, Id a) (link_key ` set (upsert_links i now links ls))"
    using arg_cong [OF linkUpsert_keys [of i "Id a" "LinkSig a" now "upsert_links i now links ls"], of set]
    by (auto simp: upsert_links_snoc)
  with snoc show ?case by auto
qed simp

lemma upsert_links_weights:
  "r \<in> set (upsert_links i now links ls) \<Longrightarrow> reweigh i links r = r"
proof (induction links arbitrary: r rule: rev_induct)
  case Nil
  then show ?case by (simp add: reweigh_def last_weight_def)
next
  case (snoc l links)
  from snoc.prems consider
    q where "q \<in> set (upsert_links i now links ls)"
      "r = (if link_key q = (i, Id l) then q\<lparr>l_significance := LinkSig l\<rparr> else q)"
    | "r = \<lparr>from_id = i, to_id = Id l, l_significance = LinkSig l, l_created = now\<rparr>"
    | "r \<in> set (upsert_links i now links ls)" "(i, Id l) \<notin> link_key ` set (upsert_links i now links ls)"
    by (auto simp: upsert_links_snoc linkUpsert_def simp del: if_image_distrib split: if_splits)
  then show ?case
  proof cases
    case 1
    with snoc.IH [OF 1(1)] show ?thesis
      by (auto simp: reweigh_def last_weight_snoc link_key_def split: if_splits option.splits)
  next
    case 2
    then show ?thesis by (simp add: reweigh_def last_weight_snoc)
  next
    case 3
    then have "link_key r \<noteq> (i, Id l)" by (metis image_eqI)
    with snoc.IH [OF 3(1)] show ?thesis
      by (auto simp: reweigh_def last_weight_snoc link_key_def split: if_splits option.splits)
  qed
qed

text \<open>
  Replaying a link write is harmless, which is what lets it be retried after a conflict whose
  outcome is unknown: applying the same set again, at a later time, changes nothing, neither the
  rows (weights, creation times, number) nor any aggregate.
\<close>

theorem relinking_is_idempotent:
  "createLinksOnce memoryGraph i later links (createLinksOnce memoryGraph i now links t)
     = createLinksOnce memoryGraph i now links t"
proof -
  let ?ls = "upsert_links i now links (fst t)"
  have "upsert_links i later links ?ls = map (reweigh i links) ?ls"
    by (rule upsert_links_present) (rule upsert_links_all_present)
  also have "\<dots> = ?ls" by (rule map_idI) (rule upsert_links_weights)
  finally have "upsert_links i later links ?ls = ?ls" .
  then show ?thesis
    by (simp add: createLinksOnce_def Let_def mem_graph.recalc_eq) (simp add: recalc_chunk_def memoryGraph_def)
qed

section \<open>Neighbours and spreading activation\<close>

lemma note_neighbours:
  "set (fold (note_neighbour seed) xs acc) = set acc \<union> (set xs - set seed)"
  "distinct acc \<Longrightarrow> distinct (fold (note_neighbour seed) xs acc)"
  by (induction xs arbitrary: acc) (auto simp: note_neighbour_def)

lemma linkedIds_set:
  "set (linkedIds ids ls) = {k. k \<notin> set ids \<and> (\<exists>l \<in> set ls. from_id l \<in> set ids \<and> to_id l = k
     \<or> to_id l \<in> set ids \<and> from_id l = k)}"
proof -
  define step where "step = (\<lambda>chunk. fold (note_neighbour ids)
      (map to_id (filter (\<lambda>l. from_id l \<in> set chunk) ls) @ map from_id (filter (\<lambda>l. to_id l \<in> set chunk) ls)))"
  have "set (fold step cs acc) = set acc \<union> {k. k \<notin> set ids \<and> (\<exists>l \<in> set ls. from_id l \<in> set (concat cs) \<and> to_id l = k
     \<or> to_id l \<in> set (concat cs) \<and> from_id l = k)}" for cs acc
  proof (induction cs arbitrary: acc)
    case (Cons c cs)
    show ?case unfolding fold_Cons comp_def Cons.IH
      by (auto simp: step_def note_neighbours)
  qed simp
  from this [of "chunks deleteChunkSize ids" "[]"] show ?thesis
    by (simp add: linkedIds_def step_def del: set_concat fold_append)
qed

lemma linkedIds_distinct: "distinct (linkedIds ids ls)"
proof -
  have "distinct (fold (\<lambda>chunk. fold (note_neighbour ids) (f chunk)) cs acc)" if "distinct acc"
    for f :: "ident list \<Rightarrow> ident list" and cs acc
    using that by (induction cs arbitrary: acc) (simp_all add: note_neighbours)
  from this [of "[]"] show ?thesis unfolding linkedIds_def by (simp del: fold_append)
qed

lemma fractionRatio_bounds:
  assumes "0 < fraction" "fraction \<le> 1"
  shows "0 \<le> fst (fractionRatio fraction)" "fst (fractionRatio fraction) \<le> 1000" "snd (fractionRatio fraction) = 1000"
    "fractionRatio 1 = (1000, 1000)"
  using assms by (auto simp: fractionRatio_def fractionScale_def go_round_def Let_def)

lemma advanced_clock_bounds:
  assumes "decay_clock r < now" "0 \<le> num" "num \<le> 1000"
  shows "decay_clock r \<le> advanced_clock now num 1000 r" "advanced_clock now num 1000 r \<le> now"
proof -
  let ?q = "(now - decay_clock r) div 1000"
  have q: "go_div (now - decay_clock r) 1000 = ?q" "0 \<le> ?q" using assms by (simp_all add: go_div_nonneg)
  have "?q * num \<le> ?q * 1000" using q assms by (intro mult_left_mono) auto
  also have "?q * 1000 \<le> now - decay_clock r" by simp
  finally have "?q * num \<le> now - decay_clock r" .
  then show "decay_clock r \<le> advanced_clock now num 1000 r" "advanced_clock now num 1000 r \<le> now"
    using q assms by (simp_all add: advanced_clock_def)
qed

text \<open>
  Chunking the id list does not apply the fraction twice to a row named once; a row is moved by at
  most one chunk when the ids are distinct, as the ids \<^const>\<open>linkedIds\<close> returns are.
\<close>

definition reinforced :: "nanos \<Rightarrow> int \<Rightarrow> ident list \<Rightarrow> memory_row \<Rightarrow> memory_row" where
  "reinforced now num ids r = (if decay_clock r < now \<and> m_id r \<in> set ids
     then r\<lparr>m_time_recalled := advanced_clock now num 1000 r\<rparr> else r)"

lemma reinforce_chunks:
  "distinct (concat cs) \<Longrightarrow> fold (reinforce_chunk now num 1000) cs rows = map (reinforced now num (concat cs)) rows"
proof (induction cs arbitrary: rows)
  case (Cons c cs)
  have "reinforced now num (concat cs) (reinforced now num c r) = reinforced now num (c @ concat cs) r" for r
    using Cons.prems by (auto simp: reinforced_def)
  then show ?case using Cons by (auto simp: reinforce_chunk_def reinforced_def [symmetric])
qed (simp add: reinforced_def map_idI)

lemma ReinforceLinkedMemories_eq:
  assumes "distinct ids" "0 < fraction"
  shows "ReinforceLinkedMemories now ids fraction rows =
    map (reinforced now (fst (fractionRatio (if fraction > 1 then 1 else fraction))) ids) rows"
proof -
  have "snd (fractionRatio f) = 1000" for f by (simp add: fractionRatio_def fractionScale_def Let_def)
  moreover have "fold (reinforce_chunk now num 1000) (chunks deleteChunkSize (lockOrderedIDs ids)) rows
      = map (reinforced now num ids) rows" for num
    using assms(1) reinforce_chunks [of "chunks deleteChunkSize (lockOrderedIDs ids)" now num rows]
    by (simp add: lockOrderedIDs_def reinforced_def)
  moreover have "map (reinforced now num []) rows = rows" for num by (simp add: reinforced_def map_idI)
  ultimately show ?thesis using assms(2) by (simp add: ReinforceLinkedMemories_def split_beta)
qed

text \<open>
  Spreading activation is bounded and one hop wide: reinforcing the neighbours of a set of
  memories moves only rows one link away from it, never moves a decay clock backwards or past the
  present, leaves recall counts and every other column alone, and at fraction 1 brings a neighbour's
  clock to within a microsecond of the present.
\<close>

theorem spreading_activation_bounded:
  assumes "0 < fraction" "r \<in> set rows"
  shows "\<exists>r' \<in> set (ReinforceLinkedMemories now (linkedIds ids ls) fraction rows).
     m_id r' = m_id r
     \<and> r' = r\<lparr>m_time_recalled := m_time_recalled r'\<rparr>
     \<and> decay_clock r \<le> decay_clock r'
     \<and> (decay_clock r \<le> now \<longrightarrow> decay_clock r' \<le> now)
     \<and> (m_id r \<notin> set (linkedIds ids ls) \<longrightarrow> r' = r)
     \<and> (1 \<le> fraction \<and> m_id r \<in> set (linkedIds ids ls) \<longrightarrow> now - decay_clock r' < 1000)"
proof -
  let ?num = "fst (fractionRatio (if fraction > 1 then 1 else fraction))"
  let ?r = "reinforced now ?num (linkedIds ids ls) r"
  have mem: "?r \<in> set (ReinforceLinkedMemories now (linkedIds ids ls) fraction rows)"
    using assms by (simp add: ReinforceLinkedMemories_eq linkedIds_distinct)
  have num: "0 \<le> ?num" "?num \<le> 1000" using fractionRatio_bounds [of "if fraction > 1 then 1 else fraction"] assms by auto
  have one: "1 \<le> fraction \<Longrightarrow> ?num = 1000" using fractionRatio_bounds(4) [of 1] by auto
  have "now - decay_clock ?r < 1000" if "1 \<le> fraction" "m_id r \<in> set (linkedIds ids ls)"
  proof (cases "decay_clock r < now")
    case True
    have "decay_clock ?r \<ge> decay_clock r + (now - decay_clock r) div 1000 * 1000"
      using True one [OF that(1)] that(2)
      by (simp add: reinforced_def decay_clock_def advanced_clock_def go_div_nonneg)
    moreover have "now - decay_clock r - (now - decay_clock r) div 1000 * 1000 < 1000"
      by (simp add: minus_div_mult_eq_mod)
    ultimately show ?thesis by linarith
  qed (simp add: reinforced_def)
  then show ?thesis
    using advanced_clock_bounds [of r now ?num] num
    by (intro bexI [OF _ mem]) (auto simp: reinforced_def decay_clock_def)
qed

theorem spreading_activation_bounded_witness:
  "\<exists>r' \<in> set (ReinforceLinkedMemories 5000 (linkedIds [''a''] (memory_links linked_store)) (1 / 2) (memories linked_store)).
     m_id r' = ''b'' \<and> decay_clock r' \<le> 5000"
proof -
  have "example_memory ''b'' 20 12 \<in> set (memories linked_store)" by (simp add: linked_store_def)
  moreover have "decay_clock (example_memory ''b'' 20 12) \<le> 5000" "m_id (example_memory ''b'' 20 12) = ''b''"
    by (simp_all add: decay_clock_def example_memory_def)
  ultimately show ?thesis
    using spreading_activation_bounded [of "1 / 2" "example_memory ''b'' 20 12" "memories linked_store" 5000
        "[''a'']" "memory_links linked_store"]
    by auto
qed

end
