(* ===== verification/Bounded_Queues.thy ===== *)
theory Bounded_Queues
  imports Db_State
begin

text \<open>
  The tables the store grows beside its memories and keeps inside bounds: the callback queue
  (\<^verbatim>\<open>db/callbacks.go\<close>), the search outbox (\<^verbatim>\<open>db/outbox.go\<close>) and the forgotten log
  (\<^verbatim>\<open>db/tombstone.go\<close>), with the caps they share (\<^verbatim>\<open>db/ancillary.go\<close>). All three are keyed by an
  auto-increment \<open>seq\<close>; the two spellings of "keep the newest n rows" the statements use are
  proved to be the same function, and to be the intended one.
\<close>

section \<open>Caps\<close>

record QueueBounds =
  MaxAge :: int
  MaxRows :: int
  MaxBytes :: int

datatype AncillaryBinding = BindingNone | BindingRows | BindingBytes | BindingAge

definition effectiveRowCap :: "QueueBounds \<Rightarrow> int \<Rightarrow> int \<times> AncillaryBinding" where
  "effectiveRowCap bounds rowBytes =
     (let fromBytes = (if MaxBytes bounds > 0 \<and> rowBytes > 0 then max (go_div (MaxBytes bounds) rowBytes) 1 else 0)
      in if fromBytes > 0 \<and> MaxRows bounds > 0 \<and> MaxRows bounds \<le> fromBytes then (MaxRows bounds, BindingRows)
         else if fromBytes > 0 then (fromBytes, BindingBytes)
         else if MaxRows bounds > 0 then (MaxRows bounds, BindingRows)
         else (0, BindingNone))"

definition rowsWithinBytes :: "QueueBounds \<Rightarrow> int \<Rightarrow> int" where
  "rowsWithinBytes bounds rowBytes = fst (effectiveRowCap bounds rowBytes)"

text \<open>
  The cap is one of the two settings or none; when a byte cap is set, the rows it allows cost at
  most the cap, unless the cap is smaller than a single row, where one row is kept.
\<close>

lemma effectiveRowCap_zero: "0 < rowBytes \<Longrightarrow> rowsWithinBytes b rowBytes = 0 \<longleftrightarrow> MaxBytes b \<le> 0 \<and> MaxRows b \<le> 0"
  by (auto simp: rowsWithinBytes_def effectiveRowCap_def Let_def)

lemma effectiveRowCap_bounds:
  assumes "0 < rowBytes"
  shows "0 \<le> rowsWithinBytes b rowBytes"
    and "0 < MaxRows b \<Longrightarrow> rowsWithinBytes b rowBytes \<le> MaxRows b"
    and "rowBytes \<le> MaxBytes b \<Longrightarrow> rowsWithinBytes b rowBytes * rowBytes \<le> MaxBytes b"
    and "0 < MaxBytes b \<Longrightarrow> MaxBytes b < rowBytes \<Longrightarrow> rowsWithinBytes b rowBytes = 1"
proof -
  show "0 \<le> rowsWithinBytes b rowBytes" "0 < MaxRows b \<Longrightarrow> rowsWithinBytes b rowBytes \<le> MaxRows b"
    by (auto simp: rowsWithinBytes_def effectiveRowCap_def Let_def)
  show "0 < MaxBytes b \<Longrightarrow> MaxBytes b < rowBytes \<Longrightarrow> rowsWithinBytes b rowBytes = 1"
    using assms by (auto simp: rowsWithinBytes_def effectiveRowCap_def Let_def go_div_nonneg)
  assume b: "rowBytes \<le> MaxBytes b"
  then have q: "max (go_div (MaxBytes b) rowBytes) 1 = MaxBytes b div rowBytes"
    using assms by (simp add: go_div_nonneg max_absorb1 zdiv_mono1 [of rowBytes "MaxBytes b" rowBytes, simplified])
  then have "rowsWithinBytes b rowBytes \<le> MaxBytes b div rowBytes"
    using assms b by (auto simp: rowsWithinBytes_def effectiveRowCap_def Let_def)
  then have "rowsWithinBytes b rowBytes * rowBytes \<le> (MaxBytes b div rowBytes) * rowBytes"
    using assms by (intro mult_right_mono) auto
  also have "\<dots> \<le> MaxBytes b" using assms div_mult_mod_eq [of "MaxBytes b" rowBytes] pos_mod_sign [OF assms, of "MaxBytes b"] by linarith
  finally show "rowsWithinBytes b rowBytes * rowBytes \<le> MaxBytes b" .
qed

section \<open>Keeping the newest rows\<close>

definition newest :: "('r \<Rightarrow> int) \<Rightarrow> nat \<Rightarrow> 'r list \<Rightarrow> 'r list" where
  "newest seq n rows = filter (\<lambda>r. length (filter (\<lambda>x. seq x > seq r) rows) < n) rows"

definition descending :: "('r \<Rightarrow> int) \<Rightarrow> 'r list \<Rightarrow> int list" where
  "descending seq rows = rev (sort (map seq rows))"

text \<open>
  \<^verbatim>\<open>DELETE .. WHERE seq <= (SELECT MIN(seq) FROM (SELECT seq .. ORDER BY seq DESC LIMIT n)) - 1\<close>, over
  the eligible rows; a MIN over no rows is NULL and deletes nothing.
\<close>

definition delete_below_min :: "('r \<Rightarrow> int) \<Rightarrow> ('r \<Rightarrow> bool) \<Rightarrow> nat \<Rightarrow> 'r list \<Rightarrow> 'r list" where
  "delete_below_min seq eligible n rows =
     (let keep = take n (descending seq (filter eligible rows))
      in if keep = [] then rows
         else filter (\<lambda>r. \<not> (seq r \<le> Min (set keep) - 1 \<and> eligible r)) rows)"

text \<open>\<^verbatim>\<open>SELECT seq .. ORDER BY seq DESC LIMIT 1 OFFSET n-1\<close>, then \<^verbatim>\<open>DELETE .. WHERE seq < cutoff\<close>.\<close>

definition delete_past_offset :: "('r \<Rightarrow> int) \<Rightarrow> nat \<Rightarrow> 'r list \<Rightarrow> 'r list" where
  "delete_past_offset seq n rows =
     (let ks = descending seq rows
      in if n - 1 < length ks then filter (\<lambda>r. \<not> seq r < ks ! (n - 1)) rows else rows)"

lemma descending_props:
  assumes "distinct (map seq rows)"
  shows "distinct (descending seq rows)" "set (descending seq rows) = seq ` set rows"
    "sorted (rev (descending seq rows))" "length (descending seq rows) = length rows"
    "length (filter P (descending seq rows)) = length (filter (P \<circ> seq) rows)"
proof -
  show "distinct (descending seq rows)" "set (descending seq rows) = seq ` set rows"
    "sorted (rev (descending seq rows))" "length (descending seq rows) = length rows"
    using assms by (simp_all add: descending_def)
  have "mset (filter P (rev (sort (map seq rows)))) = mset (filter P (map seq rows))"
    by (simp add: mset_filter)
  then have "length (filter P (rev (sort (map seq rows)))) = length (filter P (map seq rows))"
    using mset_eq_length by blast
  then show "length (filter P (descending seq rows)) = length (filter (P \<circ> seq) rows)"
    by (simp add: descending_def filter_map)
qed

lemma take_above_drop:
  assumes "distinct D" "sorted (rev D)" "x \<in> set (take n D)" "y \<in> set (drop n D)"
  shows "y < (x::int)"
proof -
  have "sorted_wrt (\<lambda>a b. b \<le> a) D" using assms(2) by (simp add: sorted_wrt_rev)
  then have "sorted_wrt (\<lambda>a b. b \<le> a) (take n D @ drop n D)" by simp
  then have "y \<le> x" using assms(3,4) unfolding sorted_wrt_append by blast
  moreover have "x \<noteq> y" using assms set_take_disj_set_drop_if_distinct [of D n n] by auto
  ultimately show ?thesis by simp
qed

lemma in_take_iff_few_above:
  fixes D :: "int list"
  assumes "distinct D" "sorted (rev D)" "x \<in> set D"
  shows "x \<in> set (take n D) \<longleftrightarrow> length (filter (\<lambda>y. y > x) D) < n"
proof
  assume x: "x \<in> set (take n D)"
  have "filter (\<lambda>y. y > x) D = filter (\<lambda>y. y > x) (take n D) @ filter (\<lambda>y. y > x) (drop n D)"
    by (metis append_take_drop_id filter_append)
  moreover have "filter (\<lambda>y. y > x) (drop n D) = []"
    using take_above_drop [OF assms(1,2) x] by (simp add: filter_empty_conv order.strict_implies_order not_less)
  ultimately have "length (filter (\<lambda>y. y > x) D) = length (filter (\<lambda>y. y > x) (take n D))" by simp
  also have "\<dots> < length (take n D)" using x by (intro length_filter_less [where x = x]) auto
  also have "\<dots> \<le> n" by simp
  finally show "length (filter (\<lambda>y. y > x) D) < n" .
next
  assume few: "length (filter (\<lambda>y. y > x) D) < n"
  show "x \<in> set (take n D)"
  proof (rule ccontr)
    assume "x \<notin> set (take n D)"
    then have d: "x \<in> set (drop n D)" using assms(3) by (metis append_take_drop_id Un_iff set_append)
    then have "filter (\<lambda>y. y > x) (take n D) = take n D"
      using take_above_drop [OF assms(1,2) _ d] by (intro filter_True) auto
    moreover have "length (take n D) = n" using d by (cases "n \<le> length D") auto
    moreover have "length (filter (\<lambda>y. y > x) (take n D)) \<le> length (filter (\<lambda>y. y > x) D)"
      by (metis append_take_drop_id filter_append le_add1 length_append)
    ultimately show False using few by simp
  qed
qed

lemma newest_descending:
  assumes "distinct (map seq rows)"
  shows "newest seq n rows = filter (\<lambda>r. seq r \<in> set (take n (descending seq rows))) rows"
  unfolding newest_def
proof (rule filter_cong [OF refl])
  fix r assume "r \<in> set rows"
  then have "seq r \<in> set (descending seq rows)" by (simp add: descending_props [OF assms])
  from in_take_iff_few_above [OF descending_props(1,3) [OF assms] this, of n]
  show "(length (filter (\<lambda>x. seq r < seq x) rows) < n) = (seq r \<in> set (take n (descending seq rows)))"
    by (simp add: descending_props(5) [OF assms] comp_def)
qed

lemma newest_length: "distinct (map seq rows) \<Longrightarrow> length (newest seq n rows) \<le> n"
proof -
  assume d: "distinct (map seq rows)"
  have "set (map seq (newest seq n rows)) \<subseteq> set (take n (descending seq rows))"
    by (auto simp: newest_descending [OF d])
  then have "card (set (map seq (newest seq n rows))) \<le> card (set (take n (descending seq rows)))"
    by (rule card_mono [rotated]) simp
  moreover have "distinct (map seq (newest seq n rows))" using d by (simp add: newest_def distinct_map_filter_key)
  then have "card (set (map seq (newest seq n rows))) = length (newest seq n rows)"
    using distinct_card by fastforce
  moreover have "card (set (take n (descending seq rows))) \<le> n"
    by (rule order_trans [OF card_length]) simp
  ultimately show ?thesis by linarith
qed

lemma newest_all: "length rows \<le> n \<Longrightarrow> newest seq n rows = rows"
proof -
  assume n: "length rows \<le> n"
  have "length (filter (\<lambda>x. seq r < seq x) rows) < n" if "r \<in> set rows" for r
    using that length_filter_less [of r rows "\<lambda>x. seq r < seq x"] n by simp
  then show ?thesis by (simp add: newest_def)
qed

text \<open>Both statements keep exactly the newest \<open>n\<close> eligible rows, and every ineligible one.\<close>

lemma delete_below_min_newest:
  assumes "distinct (map seq rows)" "0 < n"
  shows "filter eligible (delete_below_min seq eligible n rows) = newest seq n (filter eligible rows)"
    and "filter (\<lambda>r. \<not> eligible r) (delete_below_min seq eligible n rows) = filter (\<lambda>r. \<not> eligible r) rows"
proof -
  let ?E = "filter eligible rows"
  let ?D = "descending seq ?E"
  have dE: "distinct (map seq ?E)" using assms(1) by (rule distinct_map_filter_key)
  have "filter eligible (delete_below_min seq eligible n rows)
      = filter (\<lambda>r. seq r \<in> set (take n ?D)) ?E"
  proof (cases "?E = []")
    case True
    then show ?thesis by (simp add: delete_below_min_def descending_def)
  next
    case False
    then have ne: "take n ?D \<noteq> []" using assms(2) descending_props(4) [OF dE] by auto
    have "seq r \<in> set (take n ?D) \<longleftrightarrow> \<not> seq r \<le> Min (set (take n ?D)) - 1" if r: "r \<in> set ?E" for r
    proof
      assume "seq r \<in> set (take n ?D)"
      then have "Min (set (take n ?D)) \<le> seq r" by simp
      then show "\<not> seq r \<le> Min (set (take n ?D)) - 1" by simp
    next
      assume not: "\<not> seq r \<le> Min (set (take n ?D)) - 1"
      have "seq r \<in> set ?D" using r descending_props(2) [OF dE] by auto
      then have "seq r \<in> set (take n ?D) \<or> seq r \<in> set (drop n ?D)"
        by (metis Un_iff append_take_drop_id set_append)
      moreover have "seq r \<notin> set (drop n ?D)"
      proof
        assume "seq r \<in> set (drop n ?D)"
        moreover have "Min (set (take n ?D)) \<in> set (take n ?D)" using ne by (intro Min_in) auto
        ultimately have "seq r < Min (set (take n ?D))"
          using take_above_drop [OF descending_props(1,3) [OF dE]] by blast
        with not show False by simp
      qed
      ultimately show "seq r \<in> set (take n ?D)" by blast
    qed
    with ne show ?thesis by (auto simp: delete_below_min_def Let_def intro!: filter_cong)
  qed
  then show "filter eligible (delete_below_min seq eligible n rows) = newest seq n ?E"
    by (simp add: newest_descending [OF dE])
  show "filter (\<lambda>r. \<not> eligible r) (delete_below_min seq eligible n rows) = filter (\<lambda>r. \<not> eligible r) rows"
    by (auto simp: delete_below_min_def Let_def intro!: filter_cong)
qed

lemma delete_past_offset_newest:
  assumes "distinct (map seq rows)" "0 < n"
  shows "delete_past_offset seq n rows = newest seq n rows"
proof (cases "n - 1 < length rows")
  case False
  then show ?thesis using assms(2)
    by (simp add: delete_past_offset_def descending_props [OF assms(1)] newest_all)
next
  case True
  let ?D = "descending seq rows"
  have len: "n - 1 < length ?D" using True descending_props(4) [OF assms(1)] by simp
  have "filter (\<lambda>r. \<not> seq r < ?D ! (n - 1)) rows = filter (\<lambda>r. seq r \<in> set (take n ?D)) rows"
  proof (rule filter_cong [OF refl])
    fix r assume "r \<in> set rows"
    then have r: "seq r \<in> set ?D" by (simp add: descending_props [OF assms(1)])
    have last: "?D ! (n - 1) \<in> set (take n ?D)" using len assms(2) by (auto simp: in_set_conv_nth intro: exI [of _ "n - 1"])
    have "seq r \<in> set (take n ?D) \<Longrightarrow> ?D ! (n - 1) \<le> seq r"
    proof -
      assume "seq r \<in> set (take n ?D)"
      then obtain j where j: "j < n" "j < length ?D" "?D ! j = seq r" by (auto simp: in_set_conv_nth)
      have "sorted_wrt (\<lambda>a b. b \<le> a) ?D" using descending_props(3) [OF assms(1)] by (simp add: sorted_wrt_rev)
      moreover have "j = n - 1 \<or> j < n - 1" using j(1) by linarith
      ultimately show ?thesis using j len unfolding sorted_wrt_iff_nth_less by (metis order_refl)
    qed
    moreover have "seq r \<notin> set (take n ?D) \<Longrightarrow> seq r < ?D ! (n - 1)"
      using take_above_drop [OF descending_props(1,3) [OF assms(1)] last] r
      by (metis Un_iff append_take_drop_id set_append)
    ultimately show "(\<not> seq r < ?D ! (n - 1)) = (seq r \<in> set (take n ?D))" by auto
  qed
  with len show ?thesis by (simp add: delete_past_offset_def Let_def newest_descending [OF assms(1)])
qed

section \<open>The callback queue\<close>

definition wantsKind :: "CallbackPolicy \<Rightarrow> CallbackKind \<Rightarrow> bool" where
  "wantsKind p kind = (case kind of
       CallbackKindMemoryForgotten \<Rightarrow> cp_memory_events p
     | CallbackKindEventForgotten \<Rightarrow> cp_event_events p
     | _ \<Rightarrow> True)"

definition wants :: "CallbackPolicy \<Rightarrow> DeleteCause \<Rightarrow> bool" where
  "wants p c = (if \<not> cp_enabled p \<or> c = CauseNone then False else cp_all_deletions p \<or> decay c)"

definition wantsMemoryCallbacks :: "db_config \<Rightarrow> DeleteCause \<Rightarrow> bool" where
  "wantsMemoryCallbacks cfg c \<longleftrightarrow> callback_table cfg \<and> wants (callbacks cfg) c
     \<and> wantsKind (callbacks cfg) CallbackKindMemoryForgotten"

definition wantsEventCallbacks :: "db_config \<Rightarrow> DeleteCause \<Rightarrow> bool" where
  "wantsEventCallbacks cfg c \<longleftrightarrow> callback_table cfg \<and> wants (callbacks cfg) c
     \<and> wantsKind (callbacks cfg) CallbackKindEventForgotten"

definition deletion_kind :: "CallbackDelivery \<Rightarrow> bool" where
  "deletion_kind r \<longleftrightarrow> cd_kind r = CallbackKindMemoryForgotten \<or> cd_kind r = CallbackKindEventForgotten"

text \<open>The rows the caps may remove: all of them, unless deletions are retained.\<close>

definition prunableKinds :: "CallbackPolicy \<Rightarrow> CallbackDelivery \<Rightarrow> bool" where
  "prunableKinds p r \<longleftrightarrow> \<not> cp_retain_deletions p \<or> \<not> deletion_kind r"

definition callbackRowOverheadBytes :: int where
  "callbackRowOverheadBytes = 192"

definition callbackClaimLimit :: nat where
  "callbackClaimLimit = 100"

text \<open>One row of the multi-row INSERT: the queue time defaults to now and the delivery is due at once.\<close>

definition insert_delivery :: "db_config \<Rightarrow> nanos \<Rightarrow> CallbackDelivery \<Rightarrow> db_state \<Rightarrow> db_state" where
  "insert_delivery cfg now v s =
     (let queuedAt = (if cd_queued_at v = 0 then now else cd_queued_at v)
      in s\<lparr>callback_queue := callback_queue s @
             [v\<lparr>cd_seq := next_callback_seq s, cd_queued_at := queuedAt, cd_next_attempt_at := queuedAt,
                cd_attempts := 0, cd_payload_bytes := payload_size cfg (cd_items v)\<rparr>],
           next_callback_seq := next_callback_seq s + 1\<rparr>)"

definition queueCallbacks :: "db_config \<Rightarrow> nanos \<Rightarrow> CallbackDelivery list \<Rightarrow> db_state \<Rightarrow> db_state" where
  "queueCallbacks cfg now deliveries s =
     (if \<not> cp_enabled (callbacks cfg) \<or> \<not> callback_table cfg \<or> deliveries = [] then s
      else fold (\<lambda>chunk s. fold (insert_delivery cfg now) chunk s) (chunks deleteChunkSize deliveries) s)"

definition ClaimCallbacks :: "db_config \<Rightarrow> int \<Rightarrow> nanos \<Rightarrow> db_state \<Rightarrow> CallbackDelivery list" where
  "ClaimCallbacks cfg limit now s =
     (if \<not> cp_enabled (callbacks cfg) \<or> \<not> callback_table cfg then []
      else take (if limit \<le> 0 then callbackClaimLimit else nat limit)
             (sort_key cd_seq (filter (\<lambda>r. cd_next_attempt_at r \<le> now) (callback_queue s))))"

definition ConfirmCallbacks :: "int list \<Rightarrow> db_state \<Rightarrow> db_state" where
  "ConfirmCallbacks seqs s =
     fold (\<lambda>chunk s. s\<lparr>callback_queue := filter (\<lambda>r. cd_seq r \<notin> set chunk) (callback_queue s)\<rparr>)
       (chunks deleteChunkSize seqs) s"

definition DeferCallbacks :: "int list \<Rightarrow> nanos \<Rightarrow> db_state \<Rightarrow> db_state" where
  "DeferCallbacks seqs nextAttemptAt s =
     fold (\<lambda>chunk s. s\<lparr>callback_queue := map (\<lambda>r. if cd_seq r \<in> set chunk
               then r\<lparr>cd_attempts := cd_attempts r + 1, cd_next_attempt_at := nextAttemptAt\<rparr> else r) (callback_queue s)\<rparr>)
       (chunks deleteChunkSize seqs) s"

text \<open>The window sum \<^verbatim>\<open>SUM(payload_bytes + overhead) OVER (ORDER BY seq DESC)\<close> at a row.\<close>

definition held :: "CallbackDelivery list \<Rightarrow> CallbackDelivery \<Rightarrow> int" where
  "held q r = sum_list (map (\<lambda>x. cd_payload_bytes x + callbackRowOverheadBytes) (filter (\<lambda>x. cd_seq x \<ge> cd_seq r) q))"

definition delete_older :: "CallbackPolicy \<Rightarrow> int \<Rightarrow> CallbackDelivery list \<Rightarrow> CallbackDelivery list" where
  "delete_older p cutoff q = filter (\<lambda>r. \<not> (cd_seq r < cutoff \<and> prunableKinds p r)) q"

definition pruneCallbackQueueBytes :: "CallbackPolicy \<Rightarrow> int \<Rightarrow> CallbackDelivery list \<Rightarrow> CallbackDelivery list" where
  "pruneCallbackQueueBytes p maxBytes q =
     (if maxBytes \<le> 0 then q
      else let inside = map cd_seq (filter (\<lambda>r. held q r \<le> maxBytes) q)
           in if inside \<noteq> [] then delete_older p (Min (set inside)) q
              else if q = [] then q
              else delete_older p (Max (set (map cd_seq q))) q)"

definition PruneCallbackQueue :: "db_config \<Rightarrow> QueueBounds \<Rightarrow> nanos \<Rightarrow> db_state \<Rightarrow> db_state \<times> nat" where
  "PruneCallbackQueue cfg bounds now s =
     (if \<not> cp_enabled (callbacks cfg) \<or> \<not> callback_table cfg then (s, 0)
      else let p = callbacks cfg;
               q0 = callback_queue s;
               q1 = (if MaxAge bounds > 0
                     then filter (\<lambda>r. \<not> (cd_queued_at r < i64 (now - MaxAge bounds) \<and> prunableKinds p r)) q0 else q0);
               q2 = (if MaxRows bounds > 0 then delete_below_min cd_seq (prunableKinds p) (nat (MaxRows bounds)) q1 else q1);
               q3 = pruneCallbackQueueBytes p (MaxBytes bounds) q2
           in (s\<lparr>callback_queue := q3\<rparr>, length q0 - length q3))"

record CallbackBacklog =
  cb_rows :: int
  cb_oldest_at :: nanos
  cb_bytes :: int

definition measureBacklog :: "db_config \<Rightarrow> db_state \<Rightarrow> CallbackBacklog" where
  "measureBacklog cfg s =
     (if \<not> callback_table cfg then \<lparr>cb_rows = 0, cb_oldest_at = 0, cb_bytes = 0\<rparr>
      else let rs = filter deletion_kind (callback_queue s)
           in \<lparr>cb_rows = int (length rs),
               cb_oldest_at = (if rs = [] then 0 else Min (set (map cd_queued_at rs))),
               cb_bytes = sum_list (map cd_payload_bytes rs) + int (length rs) * callbackRowOverheadBytes\<rparr>)"

section \<open>The search outbox\<close>

definition outboxClaimLimit :: nat where
  "outboxClaimLimit = 500"

definition insert_outbox :: "nanos \<Rightarrow> ident \<Rightarrow> db_state \<Rightarrow> db_state" where
  "insert_outbox now i s =
     s\<lparr>search_outbox := search_outbox s @ [\<lparr>so_seq = next_outbox_seq s, so_id = i, so_queued_at = now\<rparr>],
       next_outbox_seq := next_outbox_seq s + 1\<rparr>"

definition queueSearchDeletes :: "db_config \<Rightarrow> nanos \<Rightarrow> ident list \<Rightarrow> db_state \<Rightarrow> db_state" where
  "queueSearchDeletes cfg now ids s =
     (if \<not> search_outbox_on cfg \<or> ids = [] then s
      else fold (\<lambda>chunk s. fold (insert_outbox now) chunk s) (chunks deleteChunkSize ids) s)"

definition ClaimSearchDeletes :: "db_config \<Rightarrow> int \<Rightarrow> db_state \<Rightarrow> SearchOutboxEntry list" where
  "ClaimSearchDeletes cfg limit s =
     (if \<not> search_outbox_on cfg then []
      else take (if limit \<le> 0 then outboxClaimLimit else nat limit) (sort_key so_seq (search_outbox s)))"

definition ConfirmSearchDeletes :: "int list \<Rightarrow> db_state \<Rightarrow> db_state" where
  "ConfirmSearchDeletes seqs s =
     fold (\<lambda>chunk s. s\<lparr>search_outbox := filter (\<lambda>r. so_seq r \<notin> set chunk) (search_outbox s)\<rparr>)
       (chunks deleteChunkSize seqs) s"

definition PruneSearchOutbox :: "db_config \<Rightarrow> QueueBounds \<Rightarrow> nanos \<Rightarrow> db_state \<Rightarrow> db_state \<times> nat" where
  "PruneSearchOutbox cfg bounds now s =
     (if \<not> search_outbox_on cfg then (s, 0)
      else let maxRows = rowsWithinBytes bounds (outbox_row_bytes cfg);
               q0 = search_outbox s;
               q1 = (if MaxAge bounds > 0 then filter (\<lambda>r. \<not> so_queued_at r < i64 (now - MaxAge bounds)) q0 else q0);
               q2 = (if maxRows > 0 then delete_below_min so_seq (\<lambda>_. True) (nat maxRows) q1 else q1)
           in (s\<lparr>search_outbox := q2\<rparr>, length q0 - length q2))"

section \<open>The forgotten log\<close>

definition dayInNanoseconds :: int where
  "dayInNanoseconds = 86400000000000"

definition tombstone_bounds :: "db_config \<Rightarrow> QueueBounds" where
  "tombstone_bounds cfg = \<lparr>MaxAge = i64 (tombstone_max_age_days cfg * dayInNanoseconds),
     MaxRows = tombstone_max_rows cfg, MaxBytes = tombstone_max_bytes cfg\<rparr>"

text \<open>\<^verbatim>\<open>groupScopeConditions\<close>: an empty scope is unrestricted.\<close>

definition in_scope :: "string list \<Rightarrow> string \<Rightarrow> bool" where
  "in_scope groups gr \<longleftrightarrow> groups = [] \<or> gr \<in> set groups"

definition DeleteForgottenMemories :: "nanos \<Rightarrow> string list \<Rightarrow> ForgottenMemory list \<Rightarrow> ForgottenMemory list \<times> nat" where
  "DeleteForgottenMemories before groups ts =
     (let kept = filter (\<lambda>f. \<not> ((before > 0 \<longrightarrow> f_forgotten_at f < before) \<and> in_scope groups (f_group f))) ts
      in (kept, length ts - length kept))"

definition CountForgottenMemories :: "string list \<Rightarrow> ForgottenMemory list \<Rightarrow> nat" where
  "CountForgottenMemories groups ts = length (filter (\<lambda>f. in_scope groups (f_group f)) ts)"

record ForgottenFilter =
  ff_memory_id :: ident
  ff_event_id :: ident
  ff_group :: string
  ff_rule :: ForgetRule
  ff_since :: nanos
  ff_until :: nanos
  ff_after_seq :: int
  ff_limit :: int
  ff_groups :: "string list"

definition ForgottenLimit :: "int \<Rightarrow> int" where
  "ForgottenLimit requested = (if requested \<le> 0 then 100 else if requested > 1000 then 1000 else requested)"

definition forgotten_matches :: "ForgottenFilter \<Rightarrow> ForgottenMemory \<Rightarrow> bool" where
  "forgotten_matches q f \<longleftrightarrow>
     (ff_memory_id q \<noteq> [] \<longrightarrow> f_id f = ff_memory_id q) \<and>
     (ff_event_id q \<noteq> [] \<longrightarrow> f_event_id f = ff_event_id q) \<and>
     (ff_group q \<noteq> [] \<longrightarrow> f_group f = ff_group q) \<and>
     (ff_rule q \<noteq> ForgetRuleNone \<longrightarrow> f_rule f = ff_rule q) \<and>
     (ff_since q > 0 \<longrightarrow> f_forgotten_at f \<ge> ff_since q) \<and>
     (ff_until q > 0 \<longrightarrow> f_forgotten_at f < ff_until q) \<and>
     (ff_after_seq q > 0 \<longrightarrow> f_seq f < ff_after_seq q) \<and>
     in_scope (ff_groups q) (f_group f)"

definition GetForgottenMemories :: "ForgottenFilter \<Rightarrow> ForgottenMemory list \<Rightarrow> ForgottenMemory list" where
  "GetForgottenMemories q ts =
     take (nat (ForgottenLimit (ff_limit q))) (rev (sort_key f_seq (filter (forgotten_matches q) ts)))"

definition PruneTombstones :: "db_config \<Rightarrow> nanos \<Rightarrow> db_state \<Rightarrow> db_state \<times> nat" where
  "PruneTombstones cfg now s =
     (if \<not> tombstones_enabled cfg \<or> \<not> tombstone_table cfg then (s, 0)
      else let bounds = tombstone_bounds cfg;
               (t1, n1) = (if MaxAge bounds > 0
                           then DeleteForgottenMemories (i64 (now - MaxAge bounds)) [] (tombstones s)
                           else (tombstones s, 0));
               maxRows = rowsWithinBytes bounds (tombstone_row_bytes cfg)
           in if maxRows \<le> 0 then (s\<lparr>tombstones := t1\<rparr>, n1)
              else let t2 = delete_past_offset f_seq (nat maxRows) t1
                   in (s\<lparr>tombstones := t2\<rparr>, n1 + (length t1 - length t2)))"

section \<open>What the queues guarantee\<close>

definition seqs_ok :: "('r \<Rightarrow> int) \<Rightarrow> 'r list \<Rightarrow> int \<Rightarrow> bool" where
  "seqs_ok seq rows nxt \<longleftrightarrow> distinct (map seq rows) \<and> list_all (\<lambda>r. seq r < nxt) rows"

definition queues_ok :: "db_state \<Rightarrow> bool" where
  "queues_ok s \<longleftrightarrow> seqs_ok cd_seq (callback_queue s) (next_callback_seq s)
     \<and> seqs_ok so_seq (search_outbox s) (next_outbox_seq s)
     \<and> seqs_ok f_seq (tombstones s) (next_tombstone_seq s)"

lemma queueCallbacks_fold:
  "queueCallbacks cfg now ds s =
     (if cp_enabled (callbacks cfg) \<and> callback_table cfg then fold (insert_delivery cfg now) ds s else s)"
  by (simp add: queueCallbacks_def fold_chunks)

lemma queueSearchDeletes_fold:
  "queueSearchDeletes cfg now ids s = (if search_outbox_on cfg then fold (insert_outbox now) ids s else s)"
  by (simp add: queueSearchDeletes_def fold_chunks)

lemma insert_outbox_ids:
  "map so_id (search_outbox (fold (insert_outbox now) ids s)) = map so_id (search_outbox s) @ ids"
  by (induction ids arbitrary: s) (simp_all add: insert_outbox_def)

lemma insert_delivery_items:
  "map cd_items (callback_queue (fold (insert_delivery cfg now) ds s)) = map cd_items (callback_queue s) @ map cd_items ds"
  "map cd_kind (callback_queue (fold (insert_delivery cfg now) ds s)) = map cd_kind (callback_queue s) @ map cd_kind ds"
  by (induction ds arbitrary: s) (simp_all add: insert_delivery_def Let_def)

lemma insert_delivery_queues: "queues_ok s \<Longrightarrow> queues_ok (insert_delivery cfg now v s)"
  by (fastforce simp: queues_ok_def seqs_ok_def insert_delivery_def Let_def list_all_iff)

lemma insert_outbox_queues: "queues_ok s \<Longrightarrow> queues_ok (insert_outbox now i s)"
  by (fastforce simp: queues_ok_def seqs_ok_def insert_outbox_def list_all_iff)

lemma queueCallbacks_queues: "queues_ok s \<Longrightarrow> queues_ok (queueCallbacks cfg now ds s)"
proof -
  have "queues_ok s \<Longrightarrow> queues_ok (fold (insert_delivery cfg now) ds s)"
    by (induction ds arbitrary: s) (simp_all add: insert_delivery_queues)
  then show "queues_ok s \<Longrightarrow> queues_ok (queueCallbacks cfg now ds s)" by (simp add: queueCallbacks_fold)
qed

lemma queueSearchDeletes_queues: "queues_ok s \<Longrightarrow> queues_ok (queueSearchDeletes cfg now ids s)"
proof -
  have "queues_ok s \<Longrightarrow> queues_ok (fold (insert_outbox now) ids s)"
    by (induction ids arbitrary: s) (simp_all add: insert_outbox_queues)
  then show "queues_ok s \<Longrightarrow> queues_ok (queueSearchDeletes cfg now ids s)" by (simp add: queueSearchDeletes_fold)
qed

lemma filter_delete_below_min:
  "(\<And>r. P r \<Longrightarrow> \<not> eligible r) \<Longrightarrow> filter P (delete_below_min seq eligible n rows) = filter P rows"
  by (auto simp: delete_below_min_def Let_def intro!: filter_cong)

lemma filter_pruneBytes:
  "(\<And>r. P r \<Longrightarrow> \<not> prunableKinds p r) \<Longrightarrow> filter P (pruneCallbackQueueBytes p m q) = filter P q"
  by (auto simp: pruneCallbackQueueBytes_def delete_older_def Let_def intro!: filter_cong)

text \<open>
  Under a retaining backlog policy a delivery about a forgotten memory or event is an
  instruction, not a notification: no cap, by age, rows or bytes, in any combination, removes one.
\<close>

theorem retained_deletions_survive_pruning:
  assumes "cp_retain_deletions (callbacks cfg)"
  shows "filter deletion_kind (callback_queue (fst (PruneCallbackQueue cfg bounds now s)))
    = filter deletion_kind (callback_queue s)"
proof -
  have np: "\<And>r. deletion_kind r \<Longrightarrow> \<not> prunableKinds (callbacks cfg) r" using assms by (simp add: prunableKinds_def)
  have "filter deletion_kind (filter (\<lambda>r. \<not> (P r \<and> prunableKinds (callbacks cfg) r)) q) = filter deletion_kind q"
    for P q using np by (auto intro!: filter_cong)
  then show ?thesis
    by (simp add: PruneCallbackQueue_def Let_def filter_pruneBytes [OF np] filter_delete_below_min [OF np])
qed

definition total_held :: "CallbackDelivery list \<Rightarrow> int" where
  "total_held q = sum_list (map (\<lambda>x. cd_payload_bytes x + callbackRowOverheadBytes) q)"

lemma pruneBytes_bounded:
  assumes "\<not> cp_retain_deletions p" "distinct (map cd_seq q)" "0 < m"
  shows "total_held (pruneCallbackQueueBytes p m q) \<le> m \<or> length (pruneCallbackQueueBytes p m q) \<le> 1"
proof -
  let ?inside = "map cd_seq (filter (\<lambda>r. held q r \<le> m) q)"
  have all: "delete_older p c q = filter (\<lambda>r. cd_seq r \<ge> c) q" for c
    using assms(1) by (auto simp: delete_older_def prunableKinds_def intro!: filter_cong)
  consider (some) "?inside \<noteq> []" | (none) "?inside = []" "q \<noteq> []" | (empty) "q = []" by auto
  then show ?thesis
  proof cases
    case some
    then have "Min (set ?inside) \<in> set ?inside" by (intro Min_in finite_set) (simp only: set_empty not_False_eq_True)
    then obtain r where r: "r \<in> set q" "held q r \<le> m" "cd_seq r = Min (set ?inside)" by auto
    then have "total_held (pruneCallbackQueueBytes p m q) = held q r"
      using some assms(3) by (simp add: pruneCallbackQueueBytes_def Let_def all total_held_def held_def)
    with r show ?thesis by simp
  next
    case none
    let ?k = "filter (\<lambda>r. cd_seq r \<ge> Max (set (map cd_seq q))) q"
    have "set (map cd_seq ?k) \<subseteq> {Max (set (map cd_seq q))}" by (auto intro: order.antisym)
    moreover have "distinct (map cd_seq ?k)" using assms(2) by (rule distinct_map_filter_key)
    ultimately have "length (map cd_seq ?k) \<le> 1"
      by (metis card.empty card_insert_le_m1 card_mono distinct_card empty_iff finite.emptyI finite.insertI le_numeral_extra(4)
          card_1_singleton_iff is_singletonI is_singleton_altdef One_nat_def)
    then show ?thesis using none assms(3) by (simp add: pruneCallbackQueueBytes_def Let_def all)
  next
    case empty
    then show ?thesis by (simp add: pruneCallbackQueueBytes_def)
  qed
qed

lemma pruneBytes_sub: "set (pruneCallbackQueueBytes p m q) \<subseteq> set q" "length (pruneCallbackQueueBytes p m q) \<le> length q"
  by (auto simp: pruneCallbackQueueBytes_def delete_older_def Let_def)

text \<open>
  Without a retaining policy the caps hold when the prune returns: no more rows than the row
  cap, nothing older than the age cap, and either the bytes within the byte cap or a single
  delivery that is larger than the cap on its own. The reported count is what was removed.
\<close>

theorem pruned_queue_is_bounded:
  assumes "cp_enabled (callbacks cfg)" "callback_table cfg" "\<not> cp_retain_deletions (callbacks cfg)"
    and "queues_ok s"
    and r: "PruneCallbackQueue cfg bounds now s = (s', n)"
  shows "(0 < MaxRows bounds \<longrightarrow> int (length (callback_queue s')) \<le> MaxRows bounds)
    \<and> (0 < MaxAge bounds \<longrightarrow> (\<forall>v \<in> set (callback_queue s'). i64 (now - MaxAge bounds) \<le> cd_queued_at v))
    \<and> (0 < MaxBytes bounds \<longrightarrow> total_held (callback_queue s') \<le> MaxBytes bounds \<or> length (callback_queue s') \<le> 1)
    \<and> length (callback_queue s') + n = length (callback_queue s)"
proof -
  define q1 where "q1 = (if MaxAge bounds > 0
    then filter (\<lambda>r. \<not> (cd_queued_at r < i64 (now - MaxAge bounds) \<and> prunableKinds (callbacks cfg) r)) (callback_queue s)
    else callback_queue s)"
  define q2 where "q2 = (if MaxRows bounds > 0
    then delete_below_min cd_seq (prunableKinds (callbacks cfg)) (nat (MaxRows bounds)) q1 else q1)"
  have all: "prunableKinds (callbacks cfg) = (\<lambda>_. True)" using assms(3) by (auto simp: prunableKinds_def)
  have d1: "distinct (map cd_seq q1)"
    using assms(4) by (simp add: q1_def queues_ok_def seqs_ok_def distinct_map_filter_key)
  have q2: "0 < MaxRows bounds \<Longrightarrow> q2 = newest cd_seq (nat (MaxRows bounds)) q1"
    using delete_below_min_newest(1) [OF d1, of "nat (MaxRows bounds)" "\<lambda>_. True"] by (simp add: q2_def all)
  have len2: "0 < MaxRows bounds \<Longrightarrow> int (length q2) \<le> MaxRows bounds"
    using newest_length [OF d1, of "nat (MaxRows bounds)"] q2 by simp
  have sub: "set q2 \<subseteq> set q1" "length q2 \<le> length q1" "distinct (map cd_seq q2)"
    using d1 by (auto simp: q2_def delete_below_min_def Let_def distinct_map_filter_key)
  have sub1: "length q1 \<le> length (callback_queue s)" by (simp add: q1_def)
  have s': "callback_queue s' = pruneCallbackQueueBytes (callbacks cfg) (MaxBytes bounds) q2"
    and n: "n = length (callback_queue s) - length (callback_queue s')"
    using r assms(1,2) unfolding PruneCallbackQueue_def Let_def q1_def [symmetric] q2_def [symmetric] by auto
  have "0 < MaxAge bounds \<Longrightarrow> v \<in> set q1 \<Longrightarrow> i64 (now - MaxAge bounds) \<le> cd_queued_at v" for v
    by (simp add: q1_def all)
  then show ?thesis
    using len2 sub sub1 pruneBytes_sub [of "callbacks cfg" "MaxBytes bounds" q2]
      pruneBytes_bounded [OF assms(3) sub(3), of "MaxBytes bounds"]
    unfolding n s' by (intro conjI impI ballI) (auto dest: subsetD)
qed

definition example_delivery :: "CallbackKind \<Rightarrow> int \<Rightarrow> nanos \<Rightarrow> CallbackDelivery" where
  "example_delivery k sq t = \<lparr>cd_seq = sq, cd_kind = k, cd_cause = CauseConsolidation, cd_cycle_id = 0, cd_chunk = 0,
     cd_chunks = 0, cd_item_count = 0, cd_queued_at = t, cd_next_attempt_at = t, cd_attempts = 0, cd_items = [], cd_at_risk = None,
     cd_payload_bytes = 100\<rparr>"

definition example_queue :: db_state where
  "example_queue = empty_store\<lparr>callback_queue :=
     [example_delivery CallbackKindMemoryForgotten 1 10, example_delivery CallbackKindSleepCompleted 2 20,
      example_delivery CallbackKindMemoryForgotten 3 30], next_callback_seq := 4\<rparr>"

definition retaining_cfg :: db_config where
  "retaining_cfg = example_cfg\<lparr>callbacks := (callbacks example_cfg)\<lparr>cp_retain_deletions := True\<rparr>\<rparr>"

theorem retained_deletions_survive_pruning_witness:
  "filter deletion_kind (callback_queue (fst (PruneCallbackQueue retaining_cfg
      \<lparr>MaxAge = 1, MaxRows = 1, MaxBytes = 1\<rparr> 1000 example_queue)))
   = [example_delivery CallbackKindMemoryForgotten 1 10, example_delivery CallbackKindMemoryForgotten 3 30]"
proof -
  have "cp_retain_deletions (callbacks retaining_cfg)" by (simp add: retaining_cfg_def)
  from retained_deletions_survive_pruning [OF this] show ?thesis
    by (simp add: example_queue_def deletion_kind_def example_delivery_def)
qed

theorem pruned_queue_is_bounded_witness:
  "length (callback_queue (fst (PruneCallbackQueue example_cfg \<lparr>MaxAge = 0, MaxRows = 2, MaxBytes = 300\<rparr> 1000 example_queue))) \<le> 1"
proof -
  have pre: "cp_enabled (callbacks example_cfg)" "callback_table example_cfg" "\<not> cp_retain_deletions (callbacks example_cfg)"
    "queues_ok example_queue"
    by (simp_all add: example_cfg_def queues_ok_def seqs_ok_def example_queue_def empty_store_def example_delivery_def)
  let ?r = "PruneCallbackQueue example_cfg \<lparr>MaxAge = 0, MaxRows = 2, MaxBytes = 300\<rparr> 1000 example_queue"
  have "length (callback_queue (fst ?r)) + snd ?r = 3"
    using pruned_queue_is_bounded [OF pre, of _ 1000 "fst ?r" "snd ?r"] by (simp add: example_queue_def)
  moreover have "snd ?r = 2" by code_simp
  ultimately show ?thesis by simp
qed

text \<open>
  The forgotten log stays inside its caps: for an age cap that does not reach back past the
  epoch, a prune keeps exactly the newest rows, up to the row cap the settings resolve to, among
  those younger than the age cap.
\<close>

theorem pruned_log_keeps_newest:
  assumes "tombstones_enabled cfg" "tombstone_table cfg" "queues_ok s" "clock_ok now"
    and "0 < tombstone_max_age_days cfg" "tombstone_max_age_days cfg * dayInNanoseconds < now"
    and "0 < rowsWithinBytes (tombstone_bounds cfg) (tombstone_row_bytes cfg)"
  shows "tombstones (fst (PruneTombstones cfg now s)) =
    newest f_seq (nat (rowsWithinBytes (tombstone_bounds cfg) (tombstone_row_bytes cfg)))
      (filter (\<lambda>f. now - tombstone_max_age_days cfg * dayInNanoseconds \<le> f_forgotten_at f) (tombstones s))"
proof -
  let ?age = "tombstone_max_age_days cfg * dayInNanoseconds"
  have age: "0 < ?age" "?age < 9223372036854775808" using assms(4-6) by (auto simp: dayInNanoseconds_def clock_ok_def)
  then have m: "MaxAge (tombstone_bounds cfg) = ?age" by (simp add: tombstone_bounds_def i64_def)
  have c: "i64 (now - ?age) = now - ?age" using assms(4,6) age by (simp add: i64_def clock_ok_def)
  have f: "filter (\<lambda>f. \<not> f_forgotten_at f < now - ?age) (tombstones s) = filter (\<lambda>f. now - ?age \<le> f_forgotten_at f) (tombstones s)"
    by (simp add: not_less)
  have d: "distinct (map f_seq (filter (\<lambda>f. now - ?age \<le> f_forgotten_at f) (tombstones s)))"
    using assms(3) by (simp add: queues_ok_def seqs_ok_def distinct_map_filter_key)
  show ?thesis
    using assms(1,2,6,7) age(1)
    by (simp add: PruneTombstones_def m c Let_def DeleteForgottenMemories_def in_scope_def f not_less
        delete_past_offset_newest [OF d])
qed

definition example_tombstone :: "int \<Rightarrow> nanos \<Rightarrow> ForgottenMemory" where
  "example_tombstone sq t = \<lparr>f_seq = sq, f_id = ''m'', f_event_id = [], f_group = [], f_significance = 1, f_value = 1,
     f_threshold = 2, f_bytes = 4, f_rule = ForgetRuleConsolidation, f_timestamp = 0, f_time_recalled = 0,
     f_recall_count = 0, f_forgotten_at = t\<rparr>"

definition example_log :: db_state where
  "example_log = empty_store\<lparr>tombstones := [example_tombstone 1 1759000000000000000,
     example_tombstone 2 1759000000000000001], next_tombstone_seq := 3\<rparr>"

theorem pruned_log_keeps_newest_witness:
  "tombstones (fst (PruneTombstones example_cfg 1760000000000000000 example_log)) = tombstones example_log"
proof -
  have pre: "tombstones_enabled example_cfg" "tombstone_table example_cfg" "queues_ok example_log"
    "clock_ok 1760000000000000000" "0 < tombstone_max_age_days example_cfg"
    "tombstone_max_age_days example_cfg * dayInNanoseconds < 1760000000000000000"
    "0 < rowsWithinBytes (tombstone_bounds example_cfg) (tombstone_row_bytes example_cfg)"
    by (simp_all add: example_cfg_def queues_ok_def seqs_ok_def example_log_def empty_store_def example_tombstone_def
        clock_ok_def dayInNanoseconds_def rowsWithinBytes_def effectiveRowCap_def tombstone_bounds_def)
  from pruned_log_keeps_newest [OF pre] show ?thesis
    by (simp add: example_cfg_def example_log_def example_tombstone_def dayInNanoseconds_def
        rowsWithinBytes_def effectiveRowCap_def tombstone_bounds_def newest_def)
qed

text \<open>
  An age cap that reaches back past the epoch empties the log instead of keeping everything:
  the cutoff is then not positive, which \<^verbatim>\<open>DeleteForgottenMemories\<close> reads as "the whole log". Nothing
  at startup bounds \<^verbatim>\<open>consolidation.tombstones.maxAgeInDays\<close> from above; a hundred years does it.
\<close>

theorem long_age_cap_wipes_log:
  assumes "tombstones_enabled cfg" "tombstone_table cfg" "clock_ok now"
    and "now \<le> tombstone_max_age_days cfg * dayInNanoseconds"
    and "0 < tombstone_max_age_days cfg" "tombstone_max_age_days cfg * dayInNanoseconds < 9223372036854775808"
  shows "tombstones (fst (PruneTombstones cfg now s)) = []"
proof -
  let ?age = "tombstone_max_age_days cfg * dayInNanoseconds"
  have age: "0 < ?age" using assms(5) by (simp add: dayInNanoseconds_def)
  have m: "MaxAge (tombstone_bounds cfg) = ?age" using assms(6) age by (simp add: tombstone_bounds_def i64_def)
  have c: "i64 (now - ?age) = now - ?age" using assms(3,4,6) by (simp add: i64_def clock_ok_def)
  show ?thesis
    using assms(1,2,4) age
    by (simp add: PruneTombstones_def m c Let_def DeleteForgottenMemories_def in_scope_def delete_past_offset_def)
qed

theorem long_age_cap_wipes_log_witness:
  "tombstones (fst (PruneTombstones (example_cfg\<lparr>tombstone_max_age_days := 36500\<rparr>) 1760000000000000000 example_log)) = []"
  by (rule long_age_cap_wipes_log) (simp_all add: example_cfg_def clock_ok_def dayInNanoseconds_def)

section \<open>Claiming, confirming, deferring\<close>

lemma ConfirmCallbacks_queue:
  "callback_queue (ConfirmCallbacks seqs s) = filter (\<lambda>r. cd_seq r \<notin> set seqs) (callback_queue s)"
proof -
  have "callback_queue (fold (\<lambda>chunk s. s\<lparr>callback_queue := filter (\<lambda>r. cd_seq r \<notin> set chunk) (callback_queue s)\<rparr>) cs s)
      = filter (\<lambda>r. cd_seq r \<notin> set (concat cs)) (callback_queue s)" for cs
    by (induction cs arbitrary: s) (auto intro!: filter_cong)
  from this [of "chunks deleteChunkSize seqs"] show ?thesis by (simp add: ConfirmCallbacks_def del: set_concat)
qed

definition deferred :: "nanos \<Rightarrow> int list \<Rightarrow> CallbackDelivery \<Rightarrow> CallbackDelivery" where
  "deferred t seqs r = (if cd_seq r \<in> set seqs
     then r\<lparr>cd_attempts := cd_attempts r + 1, cd_next_attempt_at := t\<rparr> else r)"

lemma deferred_fold:
  "cd_seq (fold (deferred t) cs r) = cd_seq r"
  "cd_next_attempt_at (fold (deferred t) cs r) = (if cd_seq r \<in> set (concat cs) then t else cd_next_attempt_at r)"
  by (induction cs arbitrary: r) (auto simp: deferred_def)

lemma DeferCallbacks_queue:
  "callback_queue (DeferCallbacks seqs t s) = map (fold (deferred t) (chunks deleteChunkSize seqs)) (callback_queue s)"
proof -
  have "callback_queue (fold (\<lambda>chunk s. s\<lparr>callback_queue := map (deferred t chunk) (callback_queue s)\<rparr>) cs s)
      = map (fold (deferred t) cs) (callback_queue s)" for cs
    by (induction cs arbitrary: s) (simp_all add: map_idI)
  moreover have "(\<lambda>r. if cd_seq r \<in> set c then r\<lparr>cd_attempts := cd_attempts r + 1, cd_next_attempt_at := t\<rparr> else r)
      = deferred t c" for c
    by (auto simp: deferred_def)
  ultimately show ?thesis by (simp add: DeferCallbacks_def)
qed

text \<open>
  Delivery is at least once and oldest first: a claim returns due deliveries in queue order and
  removes nothing; deferring what was claimed loses no delivery and keeps each of them from being
  claimed again before its next attempt is due; confirming removes exactly the confirmed ones.
\<close>

theorem claims_are_at_least_once:
  assumes "now' < t" and claimed_def: "claimed = ClaimCallbacks cfg limit now s"
  shows "sorted (map cd_seq claimed)
    \<and> (\<forall>r \<in> set claimed. r \<in> set (callback_queue s) \<and> cd_next_attempt_at r \<le> now)
    \<and> map cd_seq (callback_queue (DeferCallbacks (map cd_seq claimed) t s)) = map cd_seq (callback_queue s)
    \<and> cd_seq ` set (ClaimCallbacks cfg limit' now' (DeferCallbacks (map cd_seq claimed) t s)) \<inter> cd_seq ` set claimed = {}
    \<and> callback_queue (ConfirmCallbacks (map cd_seq claimed) s)
        = filter (\<lambda>r. cd_seq r \<notin> cd_seq ` set claimed) (callback_queue s)"
proof -
  let ?d = "DeferCallbacks (map cd_seq claimed) t s"
  have sorted: "sorted (map cd_seq claimed)"
    by (simp add: claimed_def ClaimCallbacks_def sorted_wrt_take take_map [symmetric])
  have due: "\<forall>r \<in> set claimed. r \<in> set (callback_queue s) \<and> cd_next_attempt_at r \<le> now"
    by (auto simp: claimed_def ClaimCallbacks_def dest!: in_set_takeD split: if_splits)
  have later: "cd_next_attempt_at r = t" if "r \<in> set (callback_queue ?d)" "cd_seq r \<in> cd_seq ` set claimed" for r
  proof -
    obtain q where q: "r = fold (deferred t) (chunks deleteChunkSize (map cd_seq claimed)) q"
      using \<open>r \<in> set (callback_queue ?d)\<close> by (auto simp: DeferCallbacks_queue)
    then have "cd_seq q \<in> set (map cd_seq claimed)" using that(2) by (simp add: deferred_fold)
    then show ?thesis by (simp add: q deferred_fold del: set_concat)
  qed
  have "r \<in> set (callback_queue ?d) \<and> cd_next_attempt_at r \<le> now'"
    if "r \<in> set (ClaimCallbacks cfg limit' now' ?d)" for r
    using that by (auto simp: ClaimCallbacks_def dest!: in_set_takeD split: if_splits)
  then have "cd_seq ` set (ClaimCallbacks cfg limit' now' ?d) \<inter> cd_seq ` set claimed = {}"
    using later assms(1) by fastforce
  then show ?thesis using sorted due
    by (simp add: ConfirmCallbacks_queue DeferCallbacks_queue comp_def deferred_fold)
qed

theorem claims_are_at_least_once_witness:
  "map cd_seq (callback_queue (DeferCallbacks (map cd_seq (ClaimCallbacks example_cfg 2 25 example_queue)) 50 example_queue)) = [1, 2, 3]"
  using claims_are_at_least_once [of 40 50 _ example_cfg 2 25 example_queue, OF _ refl, of 5]
  by (simp add: example_queue_def example_delivery_def)

end
