(* ===== verification/Delete_Chokepoint.thy ===== *)
theory Delete_Chokepoint
  imports Link_Graph Bounded_Queues
begin

text \<open>
  The delete chokepoint (\<^verbatim>\<open>deleteMemoriesIfUnrecalled\<close> in \<^verbatim>\<open>db/memory.go\<close>) every forgetting pass
  funnels through, with what it records in the same transaction: the forgotten log
  (\<^verbatim>\<open>db/tombstone.go\<close>), the callback deliveries and the open cycle's collection
  (\<^verbatim>\<open>db/callbacks.go\<close>), the search outbox and the pruned links. Also the id-addressed client
  delete and the recall that the guard races with.
\<close>

section \<open>The cycle's collection\<close>

definition maxCycleIds :: nat where
  "maxCycleIds = 100000"

definition appendBounded :: "ident list \<Rightarrow> ident list \<Rightarrow> nat \<Rightarrow> ident list \<times> nat" where
  "appendBounded into new_ids dropped =
     (if new_ids = [] then (into, dropped)
      else let room = int maxCycleIds - int (length into)
           in if room \<le> 0 then (into, dropped + length new_ids)
              else if int (length new_ids) \<le> room then (into @ new_ids, dropped)
              else (into @ take (nat room) new_ids, dropped + (length new_ids - nat room)))"

definition BeginCallbackCycle :: "db_config \<Rightarrow> int \<Rightarrow> db_state \<Rightarrow> db_state" where
  "BeginCallbackCycle cfg i s =
     (if \<not> cp_enabled (callbacks cfg) \<or> \<not> callback_table cfg \<or> i \<le> 0 then s\<lparr>cycle := None\<rparr>
      else s\<lparr>cycle := Some \<lparr>cc_id = i, cc_memory_ids = [], cc_event_ids = [], cc_memory_more = 0, cc_event_more = 0\<rparr>\<rparr>)"

definition EndCallbackCycle :: "db_state \<Rightarrow> (ident list \<times> ident list \<times> nat \<times> nat) \<times> db_state" where
  "EndCallbackCycle s = (case cycle s of
       None \<Rightarrow> (([], [], 0, 0), s)
     | Some c \<Rightarrow> ((cc_memory_ids c, cc_event_ids c, cc_memory_more c, cc_event_more c), s\<lparr>cycle := None\<rparr>))"

definition cycleId :: "db_state \<Rightarrow> DeleteCause \<Rightarrow> int" where
  "cycleId s c = (if \<not> decay c then 0 else case cycle s of None \<Rightarrow> 0 | Some cc \<Rightarrow> cc_id cc)"

definition collectForgotten :: "DeleteCause \<Rightarrow> ident list \<Rightarrow> ident list \<Rightarrow> db_state \<Rightarrow> db_state" where
  "collectForgotten c mids eids s =
     (if \<not> decay c \<or> (mids = [] \<and> eids = []) then s
      else case cycle s of None \<Rightarrow> s
        | Some cc \<Rightarrow>
            (let (ms, mm) = appendBounded (cc_memory_ids cc) mids (cc_memory_more cc);
                 (es, em) = appendBounded (cc_event_ids cc) eids (cc_event_more cc)
             in s\<lparr>cycle := Some (cc\<lparr>cc_memory_ids := ms, cc_memory_more := mm, cc_event_ids := es, cc_event_more := em\<rparr>)\<rparr>))"

section \<open>Capturing the rows about to go\<close>

record memoryRecallSnapshot =
  ms_id :: ident
  ms_time_recalled :: nanos
  ms_recall_count :: int
  ms_value :: real

record tombstoneRow =
  t_id :: ident
  t_event_id :: ident
  t_group :: string
  t_significance :: int
  t_value :: real
  t_bytes :: int
  t_timestamp :: nanos
  t_time_recalled :: nanos
  t_recall_count :: int
  t_body :: string
  t_body_omitted :: bool

definition decompressBody :: "db_config \<Rightarrow> string \<Rightarrow> bool \<Rightarrow> string option" where
  "decompressBody cfg stored isCompressed = (if isCompressed then db_decompress cfg stored else Some stored)"

definition capturedBody :: "db_config \<Rightarrow> string \<Rightarrow> bool \<Rightarrow> string \<times> bool" where
  "capturedBody cfg stored isCompressed = (case decompressBody cfg stored isCompressed of
       None \<Rightarrow> ([], True)
     | Some body \<Rightarrow>
         if cp_max_body_bytes (callbacks cfg) > 0 \<and> int (length body) > cp_max_body_bytes (callbacks cfg)
         then ([], True) else (body, False))"

definition captureMemoryRow :: "db_config \<Rightarrow> sig_level list \<Rightarrow> (ident \<Rightarrow> real) \<Rightarrow> bool \<Rightarrow> memory_row \<Rightarrow> tombstoneRow" where
  "captureMemoryRow cfg lv values withBodies r =
     (let (body, omitted) = (if withBodies then capturedBody cfg (m_body r) (m_is_compressed r) else ([], False))
      in \<lparr>t_id = m_id r, t_event_id = m_event_id r, t_group = m_group r, t_significance = joined_rank lv (m_level r),
          t_value = values (m_id r), t_bytes = int (length (m_body r)) + m_metadata_bytes r,
          t_timestamp = m_timestamp r, t_time_recalled = m_time_recalled r, t_recall_count = m_recall_count r,
          t_body = body, t_body_omitted = omitted\<rparr>)"

text \<open>The result set of the capture; looked up by id afterwards (a Go map keyed by id).\<close>

definition captureMemoryRows :: "db_config \<Rightarrow> ident list \<Rightarrow> (ident \<Rightarrow> real) \<Rightarrow> bool \<Rightarrow> db_state \<Rightarrow> tombstoneRow list" where
  "captureMemoryRows cfg ids values withBodies s =
     map (captureMemoryRow cfg (levels s) values withBodies) (filter (\<lambda>r. m_id r \<in> set ids) (memories s))"

definition snapshot_values :: "memoryRecallSnapshot list \<Rightarrow> ident \<Rightarrow> real" where
  "snapshot_values chunk i =
     (case map_of (rev (map (\<lambda>x. (ms_id x, ms_value x)) chunk)) i of None \<Rightarrow> 0 | Some v \<Rightarrow> v)"

definition recordTombstones :: "db_config \<Rightarrow> memoryRecallSnapshot list \<Rightarrow> bool \<Rightarrow> db_state \<Rightarrow> tombstoneRow list" where
  "recordTombstones cfg chunk withBodies s =
     captureMemoryRows cfg (map ms_id chunk) (snapshot_values chunk) withBodies s"

definition tombstoneChunkSize :: nat where
  "tombstoneChunkSize = 500"

definition insert_tombstone :: "nanos \<Rightarrow> tombstoneRow list \<Rightarrow> forgetReason \<Rightarrow> ident \<Rightarrow> db_state \<Rightarrow> db_state" where
  "insert_tombstone now captured reason i s = (case find_row t_id i captured of
       None \<Rightarrow> s
     | Some r \<Rightarrow> s\<lparr>tombstones := tombstones s @
           [\<lparr>f_seq = next_tombstone_seq s, f_id = t_id r, f_event_id = t_event_id r, f_group = t_group r,
             f_significance = t_significance r, f_value = t_value r, f_threshold = threshold reason,
             f_bytes = t_bytes r, f_rule = rule reason, f_timestamp = t_timestamp r,
             f_time_recalled = t_time_recalled r, f_recall_count = t_recall_count r, f_forgotten_at = now\<rparr>],
         next_tombstone_seq := next_tombstone_seq s + 1\<rparr>)"

definition writeTombstones :: "nanos \<Rightarrow> tombstoneRow list \<Rightarrow> ident list \<Rightarrow> forgetReason \<Rightarrow> db_state \<Rightarrow> db_state" where
  "writeTombstones now captured deletedIds reason s =
     (if captured = [] \<or> deletedIds = [] then s
      else fold (\<lambda>chunk s. fold (insert_tombstone now captured reason) chunk s)
             (chunks tombstoneChunkSize deletedIds) s)"

section \<open>Deliveries\<close>

definition empty_item :: "ident \<Rightarrow> CallbackItem" where
  "empty_item i = \<lparr>ci_id = i, ci_event_id = [], ci_group = [], ci_significance = 0, ci_bytes = 0, ci_value = 0, ci_body = [],
     ci_body_omitted = False\<rparr>"

definition delivery_item :: "tombstoneRow list \<Rightarrow> ident \<Rightarrow> CallbackItem" where
  "delivery_item captured i = (case find_row t_id i captured of
       None \<Rightarrow> empty_item i
     | Some r \<Rightarrow> \<lparr>ci_id = t_id r, ci_event_id = t_event_id r, ci_group = t_group r, ci_significance = t_significance r,
         ci_bytes = t_bytes r, ci_value = 0, ci_body = t_body r, ci_body_omitted = t_body_omitted r\<rparr>)"

definition new_delivery :: "CallbackKind \<Rightarrow> DeleteCause \<Rightarrow> int \<Rightarrow> CallbackItem list \<Rightarrow> CallbackDelivery" where
  "new_delivery k c cyc items = \<lparr>cd_seq = 0, cd_kind = k, cd_cause = c, cd_cycle_id = cyc, cd_chunk = 0, cd_chunks = 0,
     cd_item_count = length items, cd_queued_at = 0, cd_next_attempt_at = 0, cd_attempts = 0, cd_items = items, cd_at_risk = None,
     cd_payload_bytes = 0\<rparr>"

definition memoryDelivery :: "tombstoneRow list \<Rightarrow> ident list \<Rightarrow> forgetReason \<Rightarrow> int \<Rightarrow> CallbackDelivery option" where
  "memoryDelivery captured deletedIds reason cyc =
     (if deletedIds = [] then None
      else Some (new_delivery CallbackKindMemoryForgotten (cause reason) cyc (map (delivery_item captured) deletedIds)))"

section \<open>The guarded delete\<close>

definition still_as_scanned :: "memoryRecallSnapshot \<Rightarrow> memory_row \<Rightarrow> bool" where
  "still_as_scanned i r \<longleftrightarrow> m_id r = ms_id i \<and> m_time_recalled r = ms_time_recalled i \<and> m_recall_count r = ms_recall_count i"

definition guard :: "memoryRecallSnapshot list \<Rightarrow> memory_row \<Rightarrow> bool" where
  "guard chunk r \<longleftrightarrow> list_ex (\<lambda>i. still_as_scanned i r) chunk"

fun deleteChunkPerRow :: "memoryRecallSnapshot list \<Rightarrow> memory_row list \<Rightarrow> ident list \<times> memory_row list" where
  "deleteChunkPerRow [] rows = ([], rows)"
| "deleteChunkPerRow (i # chunk) rows =
     (let rows' = filter (\<lambda>r. \<not> still_as_scanned i r) rows;
          hit = (if length rows' < length rows then [ms_id i] else []);
          (ids, rows'') = deleteChunkPerRow chunk rows'
      in (hit @ ids, rows''))"

definition deleteChunkReturning :: "memoryRecallSnapshot list \<Rightarrow> memory_row list \<Rightarrow> ident list \<times> memory_row list" where
  "deleteChunkReturning chunk rows = (map m_id (filter (guard chunk) rows), filter (\<lambda>r. \<not> guard chunk r) rows)"

definition deleteChunkWithoutReturning :: "memoryRecallSnapshot list \<Rightarrow> memory_row list \<Rightarrow> ident list \<times> memory_row list" where
  "deleteChunkWithoutReturning chunk rows =
     (let ids = map m_id (filter (guard chunk) rows)
      in if ids = [] then ([], rows) else (ids, filter (\<lambda>r. m_id r \<notin> set ids) rows))"

definition deleteChunkIfUnrecalled :: "db_config \<Rightarrow> memoryRecallSnapshot list \<Rightarrow> memory_row list \<Rightarrow> ident list \<times> memory_row list" where
  "deleteChunkIfUnrecalled cfg chunk rows =
     (if single_writer cfg then deleteChunkPerRow chunk rows
      else if \<not> dialect_returning cfg then deleteChunkWithoutReturning chunk rows
      else deleteChunkReturning chunk rows)"

definition lockOrderedSnapshots :: "memoryRecallSnapshot list \<Rightarrow> memoryRecallSnapshot list" where
  "lockOrderedSnapshots items = sort_key ms_id items"

type_synonym chunk_state = "db_state \<times> ident list \<times> CallbackDelivery list"

definition delete_step :: "db_config \<Rightarrow> nanos \<Rightarrow> forgetReason \<Rightarrow> memoryRecallSnapshot list \<Rightarrow> chunk_state \<Rightarrow> chunk_state" where
  "delete_step cfg now reason chunk st =
     (let (s, deletedIds, deliveries) = st;
          notifying = wantsMemoryCallbacks cfg (cause reason);
          withBodies = (notifying \<and> cp_include_bodies (callbacks cfg));
          captured = (if recording reason \<or> notifying then recordTombstones cfg chunk withBodies s else []);
          (ids, rows) = deleteChunkIfUnrecalled cfg chunk (memories s);
          s1 = s\<lparr>memories := rows\<rparr>;
          s2 = (if recording reason then writeTombstones now captured ids reason s1 else s1);
          deliveries' = (if notifying
             then (case memoryDelivery captured ids reason (cycleId s (cause reason)) of
                     None \<Rightarrow> deliveries | Some d \<Rightarrow> deliveries @ [d])
             else deliveries)
      in (s2, deletedIds @ ids, deliveries'))"

definition deleteMemoriesIfUnrecalledOnce :: "db_config \<Rightarrow> nanos \<Rightarrow> memoryRecallSnapshot list \<Rightarrow> forgetReason
    \<Rightarrow> db_state \<Rightarrow> ident list \<times> db_state" where
  "deleteMemoriesIfUnrecalledOnce cfg now items reason s =
     (let (s1, deletedIds, deliveries) =
            fold (delete_step cfg now reason) (chunks deleteChunkSize (lockOrderedSnapshots items)) (s, [], []);
          s2 = pruneMemoryLinks deletedIds s1;
          s3 = queueSearchDeletes cfg now deletedIds s2;
          s4 = queueCallbacks cfg now deliveries s3;
          s5 = collectForgotten (cause reason) deletedIds [] s4
      in (deletedIds, s5))"

definition deleteMemoriesIfUnrecalled :: "db_config \<Rightarrow> (nat \<Rightarrow> write_error option) \<Rightarrow> (nat \<Rightarrow> bool)
    \<Rightarrow> (nat \<Rightarrow> db_state \<Rightarrow> db_state) \<Rightarrow> nanos \<Rightarrow> memoryRecallSnapshot list \<Rightarrow> forgetReason
    \<Rightarrow> db_state \<Rightarrow> (write_error + ident list) \<times> db_state" where
  "deleteMemoriesIfUnrecalled cfg fault ctx_done world now items reason s =
     (if items = [] then (Inr [], s)
      else withTxRetry (single_writer cfg) ctx_done world
             (run_tx fault (deleteMemoriesIfUnrecalledOnce cfg now items reason)) s)"

definition forgetReasonFor :: "db_config \<Rightarrow> ForgetRule \<Rightarrow> DeleteCause \<Rightarrow> real \<Rightarrow> forgetReason" where
  "forgetReasonFor cfg rl c thr =
     (if \<not> tombstones_enabled cfg \<or> \<not> tombstone_table cfg
      then \<lparr>rule = ForgetRuleNone, cause = c, threshold = 0\<rparr>
      else \<lparr>rule = rl, cause = c, threshold = thr\<rparr>)"

section \<open>Client deletes and recalls\<close>

definition captureMemoryCallback :: "db_config \<Rightarrow> ident list \<Rightarrow> DeleteCause \<Rightarrow> db_state \<Rightarrow> CallbackDelivery option" where
  "captureMemoryCallback cfg ids c s =
     (if \<not> wantsMemoryCallbacks cfg c \<or> ids = [] then None
      else let captured = captureMemoryRows cfg ids (\<lambda>_. 0) (cp_include_bodies (callbacks cfg)) s;
               present = filter (\<lambda>i. find_row t_id i captured \<noteq> None) ids
           in memoryDelivery captured present \<lparr>rule = ForgetRuleNone, cause = c, threshold = 0\<rparr> (cycleId s c))"

definition deleteMemoriesByIdsOnce :: "db_config \<Rightarrow> nanos \<Rightarrow> ident list \<Rightarrow> db_state \<Rightarrow> nat \<times> db_state" where
  "deleteMemoriesByIdsOnce cfg now ids0 s =
     (if ids0 = [] then (0, s)
      else let ids = lockOrderedIDs ids0;
               delivery = captureMemoryCallback cfg ids CauseClient s;
               rows = fold (\<lambda>chunk rows. filter (\<lambda>r. m_id r \<notin> set chunk) rows) (chunks deleteChunkSize ids) (memories s);
               s1 = pruneMemoryLinks ids (s\<lparr>memories := rows\<rparr>);
               s2 = queueSearchDeletes cfg now ids s1;
               s3 = (case delivery of None \<Rightarrow> s2 | Some d \<Rightarrow> queueCallbacks cfg now [d] s2)
           in (length (memories s) - length rows, s3))"

definition deleteMemoriesByIds :: "db_config \<Rightarrow> (nat \<Rightarrow> write_error option) \<Rightarrow> (nat \<Rightarrow> bool)
    \<Rightarrow> (nat \<Rightarrow> db_state \<Rightarrow> db_state) \<Rightarrow> nanos \<Rightarrow> ident list \<Rightarrow> db_state \<Rightarrow> (write_error + nat) \<times> db_state" where
  "deleteMemoriesByIds cfg fault ctx_done world now ids s =
     withTxRetry (single_writer cfg) ctx_done world (run_tx fault (deleteMemoriesByIdsOnce cfg now ids)) s"

definition DedupeIds :: "ident list \<Rightarrow> ident list" where
  "DedupeIds ids = fold (\<lambda>i out. if i \<in> set out then out else out @ [i]) ids []"

definition recall_row :: "nanos \<Rightarrow> memory_row \<Rightarrow> memory_row" where
  "recall_row now r = r\<lparr>m_time_recalled := now, m_recall_count := m_recall_count r + 1\<rparr>"

definition recall_chunk :: "nanos \<Rightarrow> ident list \<Rightarrow> memory_row list \<Rightarrow> memory_row list" where
  "recall_chunk now chunk rows = map (\<lambda>r. if m_id r \<in> set chunk then recall_row now r else r) rows"

text \<open>
  Reinforce and return. The statement with RETURNING and the transaction that updates and reads
  back give the same rows; ids with no row are absent.
\<close>

definition RecallMemories :: "nanos \<Rightarrow> ident list \<Rightarrow> db_state \<Rightarrow> memory_row list \<times> db_state" where
  "RecallMemories now ids s =
     fold (\<lambda>chunk (out, s).
         (let rows = recall_chunk now (lockOrderedIDs chunk) (memories s)
          in (out @ filter (\<lambda>r. m_id r \<in> set chunk) rows, s\<lparr>memories := rows\<rparr>)))
       (chunks deleteChunkSize (DedupeIds ids)) ([], s)"

section \<open>The arms of the guarded delete agree\<close>

lemma guard_Cons: "guard (i # chunk) r \<longleftrightarrow> still_as_scanned i r \<or> guard chunk r"
  by (simp add: guard_def)

lemma guard_append: "guard (xs @ ys) r \<longleftrightarrow> guard xs r \<or> guard ys r"
  by (simp add: guard_def)

lemma guard_set_cong: "set xs = set ys \<Longrightarrow> guard xs r = guard ys r"
  by (simp add: guard_def list_ex_iff)

lemma deleteChunkPerRow_rows: "snd (deleteChunkPerRow chunk rows) = filter (\<lambda>r. \<not> guard chunk r) rows"
proof (induction chunk arbitrary: rows)
  case (Cons i chunk)
  then show ?case by (simp add: guard_Cons split_beta Let_def)
qed (simp add: guard_def)

lemma deleteChunkPerRow_ids:
  "fst (deleteChunkPerRow chunk rows) = map ms_id (filter (\<lambda>i. \<exists>r \<in> set rows. still_as_scanned i r) chunk)"
  if "distinct (map ms_id chunk)"
  using that
proof (induction chunk arbitrary: rows)
  case (Cons i chunk)
  have same: "(\<exists>r \<in> set (filter (\<lambda>r. \<not> still_as_scanned i r) rows). still_as_scanned j r)
      \<longleftrightarrow> (\<exists>r \<in> set rows. still_as_scanned j r)" if "j \<in> set chunk" for j
    using Cons.prems that by (auto simp: still_as_scanned_def)
  have "length (filter (\<lambda>r. \<not> still_as_scanned i r) rows) < length rows \<longleftrightarrow> (\<exists>r \<in> set rows. still_as_scanned i r)"
  proof
    assume "length (filter (\<lambda>r. \<not> still_as_scanned i r) rows) < length rows"
    then show "\<exists>r \<in> set rows. still_as_scanned i r" by (metis filter_True less_irrefl)
  qed (auto intro: length_filter_less)
  moreover have "fst (deleteChunkPerRow chunk (filter (\<lambda>r. \<not> still_as_scanned i r) rows))
      = map ms_id (filter (\<lambda>j. \<exists>r \<in> set rows. still_as_scanned j r) chunk)"
    using Cons same by (auto intro!: arg_cong [of _ _ "map ms_id"] filter_cong)
  ultimately show ?case by (simp add: split_beta Let_def)
qed simp

text \<open>What a chunk deletes, whichever arm runs.\<close>

lemma deleteChunk_effect:
  assumes "distinct (map m_id rows)" "distinct (map ms_id chunk)"
    and r: "deleteChunkIfUnrecalled cfg chunk rows = (ids, rows')"
  shows "rows' = filter (\<lambda>r. \<not> guard chunk r) rows" "distinct ids"
    "set ids = m_id ` {r \<in> set rows. guard chunk r}"
proof -
  let ?hit = "map m_id (filter (guard chunk) rows)"
  have by_id: "m_id r \<notin> set ?hit \<longleftrightarrow> \<not> guard chunk r" if "r \<in> set rows" for r
    using that assms(1) by (auto dest: inj_onD [of m_id "set rows"] simp: distinct_map)
  then have filt: "filter (\<lambda>r. m_id r \<notin> set ?hit) rows = filter (\<lambda>r. \<not> guard chunk r) rows"
    by (intro filter_cong) auto
  have none: "?hit = [] \<Longrightarrow> filter (\<lambda>r. \<not> guard chunk r) rows = rows"
    by (auto simp: filter_empty_conv intro: filter_True)
  have per_row: "set (fst (deleteChunkPerRow chunk rows)) = m_id ` {r \<in> set rows. guard chunk r}"
    unfolding deleteChunkPerRow_ids [OF assms(2)]
    by (force simp: guard_def list_ex_iff still_as_scanned_def)
  show "rows' = filter (\<lambda>r. \<not> guard chunk r) rows"
    using r filt none deleteChunkPerRow_rows [of chunk rows]
    by (auto simp: deleteChunkIfUnrecalled_def deleteChunkReturning_def deleteChunkWithoutReturning_def Let_def
        simp del: set_map set_filter split: if_splits)
  have "distinct (fst (deleteChunkPerRow chunk rows))"
    using assms(2) by (simp add: deleteChunkPerRow_ids distinct_map_filter_key)
  moreover have "distinct ?hit" using assms(1) by (rule distinct_map_filter_key)
  ultimately show "distinct ids"
    using r by (auto simp: deleteChunkIfUnrecalled_def deleteChunkReturning_def deleteChunkWithoutReturning_def Let_def
        split: if_splits)
  show "set ids = m_id ` {r \<in> set rows. guard chunk r}"
    using r per_row by (auto simp: deleteChunkIfUnrecalled_def deleteChunkReturning_def
        deleteChunkWithoutReturning_def Let_def filter_empty_conv split: if_splits)
qed

section \<open>What one chunk records\<close>

lemma captured_lookup:
  assumes "r \<in> set (memories s)" "m_id r \<in> set ids"
  shows "\<exists>row. find_row t_id (m_id r) (captureMemoryRows cfg ids values wb s) = Some row"
proof -
  have "m_id r \<in> t_id ` set (captureMemoryRows cfg ids values wb s)"
    using assms by (force simp: captureMemoryRows_def captureMemoryRow_def split_beta Let_def)
  then show ?thesis using find_row_None [of t_id "m_id r"] by blast
qed

lemma insert_tombstones:
  assumes "\<And>i. i \<in> set ids \<Longrightarrow> find_row t_id i captured \<noteq> None"
  shows "map f_id (tombstones (fold (insert_tombstone now captured reason) ids s)) = map f_id (tombstones s) @ ids"
  using assms
proof (induction ids arbitrary: s)
  case (Cons i ids)
  then obtain row where "find_row t_id i captured = Some row" by fastforce
  moreover from find_row_Some [OF this] have "t_id row = i" by simp
  ultimately show ?case using Cons by (simp add: insert_tombstone_def)
qed simp

lemma tombstones_self: "\<exists>ts n. s = s\<lparr>tombstones := ts, next_tombstone_seq := n\<rparr>"
proof -
  have "s = s\<lparr>tombstones := tombstones s, next_tombstone_seq := next_tombstone_seq s\<rparr>" by simp
  then show ?thesis by blast
qed

lemma insert_tombstone_frame:
  "\<exists>ts n. insert_tombstone now captured reason i s = s\<lparr>tombstones := ts, next_tombstone_seq := n\<rparr>"
  "queues_ok s \<Longrightarrow> queues_ok (insert_tombstone now captured reason i s)"
proof -
  show "\<exists>ts n. insert_tombstone now captured reason i s = s\<lparr>tombstones := ts, next_tombstone_seq := n\<rparr>"
    using tombstones_self [of s] by (cases "find_row t_id i captured") (auto simp: insert_tombstone_def)
  show "queues_ok s \<Longrightarrow> queues_ok (insert_tombstone now captured reason i s)"
    by (cases "find_row t_id i captured")
      (fastforce simp: insert_tombstone_def queues_ok_def seqs_ok_def list_all_iff)+
qed

lemma fold_tombstones_frame:
  "\<exists>ts n. fold (insert_tombstone now captured reason) ids s = s\<lparr>tombstones := ts, next_tombstone_seq := n\<rparr>"
proof (induction ids arbitrary: s)
  case Nil
  show ?case using tombstones_self by simp
next
  case (Cons i ids)
  obtain ts n where "insert_tombstone now captured reason i s = s\<lparr>tombstones := ts, next_tombstone_seq := n\<rparr>"
    using insert_tombstone_frame(1) by blast
  with Cons [of "insert_tombstone now captured reason i s"] show ?case by auto
qed

lemma writeTombstones_fold:
  "writeTombstones now captured ids reason s =
     (if captured = [] then s else fold (insert_tombstone now captured reason) ids s)"
  by (simp add: writeTombstones_def fold_chunks tombstoneChunkSize_def)

lemma writeTombstones_queues: "queues_ok s \<Longrightarrow> queues_ok (writeTombstones now captured ids reason s)"
proof -
  have "queues_ok s \<Longrightarrow> queues_ok (fold (insert_tombstone now captured reason) ids s)"
    by (induction ids arbitrary: s) (simp_all add: insert_tombstone_frame)
  then show "queues_ok s \<Longrightarrow> queues_ok (writeTombstones now captured ids reason s)"
    by (simp add: writeTombstones_fold)
qed

definition delivered_ids :: "CallbackDelivery list \<Rightarrow> ident list" where
  "delivered_ids ds = concat (map (\<lambda>d. map ci_id (cd_items d)) ds)"

lemma delivery_item_id: "ci_id (delivery_item captured i) = i"
proof (cases "find_row t_id i captured")
  case (Some row)
  with find_row_Some [OF Some] show ?thesis by (simp add: delivery_item_def)
qed (simp add: delivery_item_def empty_item_def)

text \<open>The invariant of the chunk loop, relating its state to where it started.\<close>

definition chunk_effect :: "db_config \<Rightarrow> forgetReason \<Rightarrow> memoryRecallSnapshot list \<Rightarrow> chunk_state \<Rightarrow> chunk_state \<Rightarrow> bool" where
  "chunk_effect cfg reason done st st' \<longleftrightarrow>
     (\<exists>ids ts n. fst (snd st') = fst (snd st) @ ids
        \<and> distinct ids \<and> set ids = m_id ` {r \<in> set (memories (fst st)). guard done r}
        \<and> fst st' = (fst st)\<lparr>memories := filter (\<lambda>r. \<not> guard done r) (memories (fst st)),
                             tombstones := ts, next_tombstone_seq := n\<rparr>
        \<and> map f_id ts = map f_id (tombstones (fst st)) @ (if recording reason then ids else [])
        \<and> delivered_ids (snd (snd st')) = delivered_ids (snd (snd st))
            @ (if wantsMemoryCallbacks cfg (cause reason) then ids else [])
        \<and> (queues_ok (fst st) \<longrightarrow> queues_ok (fst st')))"

lemma delete_step_effect:
  assumes "keys_ok (fst st)" "distinct (map ms_id chunk)"
  shows "chunk_effect cfg reason chunk st (delete_step cfg now reason chunk st)"
proof -
  obtain s del ds where st: "st = (s, del, ds)" by (cases st)
  obtain ids rows where d: "deleteChunkIfUnrecalled cfg chunk (memories s) = (ids, rows)"
    by (cases "deleteChunkIfUnrecalled cfg chunk (memories s)")
  note E = deleteChunk_effect [OF _ assms(2) d]
  have E': "rows = filter (\<lambda>r. \<not> guard chunk r) (memories s)" "distinct ids"
    "set ids = m_id ` {r \<in> set (memories s). guard chunk r}"
    using E assms(1) by (simp_all add: st keys_ok_def)
  let ?n = "wantsMemoryCallbacks cfg (cause reason)"
  define captured where "captured = (if recording reason \<or> ?n
    then recordTombstones cfg chunk (?n \<and> cp_include_bodies (callbacks cfg)) s else [])"
  have cap: "find_row t_id i captured \<noteq> None" if "recording reason \<or> ?n" "i \<in> set ids" for i
  proof -
    from that(2) E'(3) obtain r where r: "r \<in> set (memories s)" "guard chunk r" "m_id r = i" by auto
    then have "m_id r \<in> set (map ms_id chunk)" by (auto simp: guard_def list_ex_iff still_as_scanned_def)
    with captured_lookup [OF r(1) this] r that(1) show ?thesis by (auto simp: captured_def recordTombstones_def)
  qed
  define s2 where "s2 = (if recording reason then writeTombstones now captured ids reason (s\<lparr>memories := rows\<rparr>)
    else s\<lparr>memories := rows\<rparr>)"
  obtain ts n where s2: "s2 = s\<lparr>memories := rows, tombstones := ts, next_tombstone_seq := n\<rparr>"
  proof (cases "recording reason \<and> captured \<noteq> []")
    case True
    with fold_tombstones_frame [of now captured reason ids "s\<lparr>memories := rows\<rparr>"] that show ?thesis
      by (auto simp: s2_def writeTombstones_fold)
  next
    case False
    have "s2 = s\<lparr>memories := rows, tombstones := tombstones s, next_tombstone_seq := next_tombstone_seq s\<rparr>"
      using False by (auto simp: s2_def writeTombstones_fold)
    then show ?thesis by (rule that)
  qed
  have "ids = [] \<or> captured \<noteq> []" if "recording reason"
    using that cap [of "hd ids"] by (cases ids) auto
  then have "map f_id (tombstones s2) = map f_id (tombstones s) @ (if recording reason then ids else [])"
    using insert_tombstones [of ids captured now reason "s\<lparr>memories := rows\<rparr>"] cap
    by (auto simp: s2_def writeTombstones_fold)
  then have ts: "map f_id ts = map f_id (tombstones s) @ (if recording reason then ids else [])"
    by (simp add: s2)
  have q: "queues_ok s \<Longrightarrow> queues_ok s2"
    using writeTombstones_queues [of "s\<lparr>memories := rows\<rparr>"] by (auto simp: s2_def queues_ok_def)
  have "delete_step cfg now reason chunk st = (s2, del @ ids, if ?n
      then (case memoryDelivery captured ids reason (cycleId s (cause reason)) of None \<Rightarrow> ds | Some d \<Rightarrow> ds @ [d]) else ds)"
    by (simp add: delete_step_def st d captured_def s2_def Let_def)
  moreover have "delivered_ids (if ?n
      then (case memoryDelivery captured ids reason (cycleId s (cause reason)) of None \<Rightarrow> ds | Some d \<Rightarrow> ds @ [d]) else ds)
      = delivered_ids ds @ (if ?n then ids else [])"
    by (simp add: memoryDelivery_def delivered_ids_def new_delivery_def comp_def delivery_item_id)
  ultimately show ?thesis
    unfolding chunk_effect_def st using E' s2 ts q by (intro exI [of _ ids] exI [of _ ts] exI [of _ n]) simp
qed

lemma chunk_effect_refl: "chunk_effect cfg reason [] st st"
proof -
  have "fst st = (fst st)\<lparr>memories := memories (fst st), tombstones := tombstones (fst st),
      next_tombstone_seq := next_tombstone_seq (fst st)\<rparr>" by simp
  then show ?thesis unfolding chunk_effect_def
    by (intro exI [of _ "[]"] exI [of _ "tombstones (fst st)"] exI [of _ "next_tombstone_seq (fst st)"])
      (simp add: guard_def)
qed

lemma chunk_effect_trans:
  assumes "keys_ok (fst st)" "chunk_effect cfg reason xs st st1" "chunk_effect cfg reason ys st1 st2"
  shows "chunk_effect cfg reason (xs @ ys) st st2"
proof -
  obtain ids ts n where 1: "fst (snd st1) = fst (snd st) @ ids" "distinct ids"
    "set ids = m_id ` {r \<in> set (memories (fst st)). guard xs r}"
    "fst st1 = (fst st)\<lparr>memories := filter (\<lambda>r. \<not> guard xs r) (memories (fst st)), tombstones := ts, next_tombstone_seq := n\<rparr>"
    "map f_id ts = map f_id (tombstones (fst st)) @ (if recording reason then ids else [])"
    "delivered_ids (snd (snd st1)) = delivered_ids (snd (snd st)) @ (if wantsMemoryCallbacks cfg (cause reason) then ids else [])"
    "queues_ok (fst st) \<longrightarrow> queues_ok (fst st1)"
    using assms(2) unfolding chunk_effect_def by blast
  obtain ids' ts' n' where 2: "fst (snd st2) = fst (snd st1) @ ids'" "distinct ids'"
    "set ids' = m_id ` {r \<in> set (memories (fst st1)). guard ys r}"
    "fst st2 = (fst st1)\<lparr>memories := filter (\<lambda>r. \<not> guard ys r) (memories (fst st1)), tombstones := ts', next_tombstone_seq := n'\<rparr>"
    "map f_id ts' = map f_id (tombstones (fst st1)) @ (if recording reason then ids' else [])"
    "delivered_ids (snd (snd st2)) = delivered_ids (snd (snd st1)) @ (if wantsMemoryCallbacks cfg (cause reason) then ids' else [])"
    "queues_ok (fst st1) \<longrightarrow> queues_ok (fst st2)"
    using assms(3) unfolding chunk_effect_def by blast
  have inj: "inj_on m_id (set (memories (fst st)))" using assms(1) by (simp add: keys_ok_def distinct_map)
  have rows1: "set (memories (fst st1)) = {r \<in> set (memories (fst st)). \<not> guard xs r}" by (simp add: 1(4))
  have "set ids \<inter> set ids' = {}"
    using inj unfolding 1(3) 2(3) rows1 by (auto dest: inj_onD)
  moreover have "set ids \<union> set ids' = m_id ` {r \<in> set (memories (fst st)). guard (xs @ ys) r}"
    unfolding 1(3) 2(3) rows1 by (auto simp: guard_append)
  moreover have "fst st2 = (fst st)\<lparr>memories := filter (\<lambda>r. \<not> guard (xs @ ys) r) (memories (fst st)),
      tombstones := ts', next_tombstone_seq := n'\<rparr>"
    unfolding 2(4) 1(4) by (simp add: guard_append conj_commute)
  ultimately show ?thesis
    unfolding chunk_effect_def using 1(1,2,5-7) 2(1,2,5-7)
    by (intro exI [of _ "ids @ ids'"] exI [of _ ts'] exI [of _ n']) (simp add: 1(4))
qed

lemma delete_loop_effect:
  assumes "keys_ok (fst st)" "\<And>c. c \<in> set cs \<Longrightarrow> distinct (map ms_id c)"
  shows "chunk_effect cfg reason (concat cs) st (fold (delete_step cfg now reason) cs st)"
  using assms
proof (induction cs arbitrary: st)
  case (Cons c cs)
  let ?st1 = "delete_step cfg now reason c st"
  have 1: "chunk_effect cfg reason c st ?st1" using Cons.prems by (intro delete_step_effect) auto
  then have "keys_ok (fst ?st1)"
    using Cons.prems(1) by (auto simp: chunk_effect_def keys_ok_def distinct_map_filter_key)
  then have "chunk_effect cfg reason (concat cs) ?st1 (fold (delete_step cfg now reason) cs ?st1)"
    using Cons by simp
  from chunk_effect_trans [OF Cons.prems(1) 1 this] show ?case by simp
qed (simp add: chunk_effect_refl)

lemma distinct_chunks: "distinct (map f xs) \<Longrightarrow> c \<in> set (chunks n xs) \<Longrightarrow> distinct (map f c)"
proof (induction n xs rule: chunks.induct)
  case (1 n xs)
  show ?case
  proof (cases "xs = [] \<or> n = 0")
    case True
    with 1 show ?thesis by (auto simp: chunks.simps [of n xs])
  next
    case False
    have "distinct (map f (take n xs))" "distinct (map f (drop n xs))"
      using 1 by (simp_all add: take_map [symmetric] drop_map [symmetric])
    with False 1 show ?thesis by (auto simp: chunks.simps [of n xs])
  qed
qed

section \<open>What the rest of the transaction leaves alone\<close>

lemma outbox_frame [frame_simps]:
  "memories (queueSearchDeletes cfg now ids s) = memories s"
  "events (queueSearchDeletes cfg now ids s) = events s"
  "memory_links (queueSearchDeletes cfg now ids s) = memory_links s"
  "event_links (queueSearchDeletes cfg now ids s) = event_links s"
  "levels (queueSearchDeletes cfg now ids s) = levels s"
  "tombstones (queueSearchDeletes cfg now ids s) = tombstones s"
  "next_tombstone_seq (queueSearchDeletes cfg now ids s) = next_tombstone_seq s"
  "callback_queue (queueSearchDeletes cfg now ids s) = callback_queue s"
  "cycle (queueSearchDeletes cfg now ids s) = cycle s"
proof -
  have "memories (fold (insert_outbox now) ids s) = memories s \<and> events (fold (insert_outbox now) ids s) = events s
    \<and> memory_links (fold (insert_outbox now) ids s) = memory_links s \<and> event_links (fold (insert_outbox now) ids s) = event_links s
    \<and> levels (fold (insert_outbox now) ids s) = levels s \<and> tombstones (fold (insert_outbox now) ids s) = tombstones s
    \<and> next_tombstone_seq (fold (insert_outbox now) ids s) = next_tombstone_seq s
    \<and> callback_queue (fold (insert_outbox now) ids s) = callback_queue s \<and> cycle (fold (insert_outbox now) ids s) = cycle s"
    by (induction ids arbitrary: s) (simp_all add: insert_outbox_def)
  then show "memories (queueSearchDeletes cfg now ids s) = memories s"
    "events (queueSearchDeletes cfg now ids s) = events s"
    "memory_links (queueSearchDeletes cfg now ids s) = memory_links s"
    "event_links (queueSearchDeletes cfg now ids s) = event_links s"
    "levels (queueSearchDeletes cfg now ids s) = levels s"
    "tombstones (queueSearchDeletes cfg now ids s) = tombstones s"
    "next_tombstone_seq (queueSearchDeletes cfg now ids s) = next_tombstone_seq s"
    "callback_queue (queueSearchDeletes cfg now ids s) = callback_queue s"
    "cycle (queueSearchDeletes cfg now ids s) = cycle s"
    by (simp_all add: queueSearchDeletes_fold)
qed

lemma callbacks_frame [frame_simps]:
  "memories (queueCallbacks cfg now ds s) = memories s"
  "events (queueCallbacks cfg now ds s) = events s"
  "memory_links (queueCallbacks cfg now ds s) = memory_links s"
  "event_links (queueCallbacks cfg now ds s) = event_links s"
  "levels (queueCallbacks cfg now ds s) = levels s"
  "tombstones (queueCallbacks cfg now ds s) = tombstones s"
  "next_tombstone_seq (queueCallbacks cfg now ds s) = next_tombstone_seq s"
  "search_outbox (queueCallbacks cfg now ds s) = search_outbox s"
  "cycle (queueCallbacks cfg now ds s) = cycle s"
proof -
  have "memories (fold (insert_delivery cfg now) ds s) = memories s \<and> events (fold (insert_delivery cfg now) ds s) = events s
    \<and> memory_links (fold (insert_delivery cfg now) ds s) = memory_links s
    \<and> event_links (fold (insert_delivery cfg now) ds s) = event_links s
    \<and> levels (fold (insert_delivery cfg now) ds s) = levels s \<and> tombstones (fold (insert_delivery cfg now) ds s) = tombstones s
    \<and> next_tombstone_seq (fold (insert_delivery cfg now) ds s) = next_tombstone_seq s
    \<and> search_outbox (fold (insert_delivery cfg now) ds s) = search_outbox s \<and> cycle (fold (insert_delivery cfg now) ds s) = cycle s"
    by (induction ds arbitrary: s) (simp_all add: insert_delivery_def Let_def)
  then show "memories (queueCallbacks cfg now ds s) = memories s"
    "events (queueCallbacks cfg now ds s) = events s"
    "memory_links (queueCallbacks cfg now ds s) = memory_links s"
    "event_links (queueCallbacks cfg now ds s) = event_links s"
    "levels (queueCallbacks cfg now ds s) = levels s"
    "tombstones (queueCallbacks cfg now ds s) = tombstones s"
    "next_tombstone_seq (queueCallbacks cfg now ds s) = next_tombstone_seq s"
    "search_outbox (queueCallbacks cfg now ds s) = search_outbox s"
    "cycle (queueCallbacks cfg now ds s) = cycle s"
    by (simp_all add: queueCallbacks_fold)
qed

lemma collectForgotten_frame: "\<exists>c'. collectForgotten c mids eids s = s\<lparr>cycle := c'\<rparr>"
proof (cases "collectForgotten c mids eids s = s")
  case True
  then have "collectForgotten c mids eids s = s\<lparr>cycle := cycle s\<rparr>" by simp
  then show ?thesis by blast
next
  case False
  then show ?thesis
    unfolding collectForgotten_def by (cases "cycle s") (auto split: prod.splits if_splits)
qed

lemma delivered_queueCallbacks:
  "delivered_ids (callback_queue (queueCallbacks cfg now ds s)) =
     delivered_ids (callback_queue s) @ (if cp_enabled (callbacks cfg) \<and> callback_table cfg then delivered_ids ds else [])"
proof -
  have d: "delivered_ids q = concat (map (map ci_id) (map cd_items q))" for q by (simp add: delivered_ids_def comp_def)
  show ?thesis unfolding queueCallbacks_fold
    by (cases "cp_enabled (callbacks cfg) \<and> callback_table cfg")
      (simp_all only: d insert_delivery_items(1) simp_thms if_True if_False map_append concat_append append_Nil2)
qed

lemma wants_enabled: "wantsMemoryCallbacks cfg c \<Longrightarrow> cp_enabled (callbacks cfg) \<and> callback_table cfg"
  by (auto simp: wantsMemoryCallbacks_def wants_def split: if_splits)

text \<open>A memory row without its link aggregate: the one column a deletion elsewhere may change.\<close>

definition sans_links :: "memory_row \<Rightarrow> memory_row" where
  "sans_links r = r\<lparr>m_link_significance := 0\<rparr>"

lemma pruneMemoryLinks_store:
  "memories (pruneMemoryLinks ids s) = snd (pruneLinks memoryGraph ids (memory_links s, memories s))"
  "memory_links (pruneMemoryLinks ids s) = filter (\<lambda>l. \<not> ends_in ids l) (memory_links s)"
  "map sans_links (memories (pruneMemoryLinks ids s)) = map sans_links (memories s)"
  "pruneMemoryLinks ids s = s\<lparr>memory_links := memory_links (pruneMemoryLinks ids s), memories := memories (pruneMemoryLinks ids s)\<rparr>"
proof -
  show "memories (pruneMemoryLinks ids s) = snd (pruneLinks memoryGraph ids (memory_links s, memories s))"
    "memory_links (pruneMemoryLinks ids s) = filter (\<lambda>l. \<not> ends_in ids l) (memory_links s)"
    by (simp_all add: pruneMemoryLinks_def store_link_defs mem_graph.pruneLinks_links)
  have "map sans_links (snd (pruneLinks memoryGraph ids (memory_links s, memories s))) = map sans_links (memories s)"
    by (simp add: mem_graph.pruneLinks_rows) (simp add: memoryGraph_def sans_links_def)
  then show "map sans_links (memories (pruneMemoryLinks ids s)) = map sans_links (memories s)"
    by (simp add: pruneMemoryLinks_def store_link_defs)
  show "pruneMemoryLinks ids s = s\<lparr>memory_links := memory_links (pruneMemoryLinks ids s), memories := memories (pruneMemoryLinks ids s)\<rparr>"
    by (simp add: pruneMemoryLinks_def store_link_defs)
qed

definition deletable :: "memoryRecallSnapshot list \<Rightarrow> db_state \<Rightarrow> ident set" where
  "deletable items s = m_id ` {r \<in> set (memories s). guard items r}"

definition delete_effect :: "db_config \<Rightarrow> memoryRecallSnapshot list \<Rightarrow> forgetReason \<Rightarrow> db_state \<Rightarrow> ident list \<Rightarrow> db_state \<Rightarrow> bool" where
  "delete_effect cfg items reason s deleted s' \<longleftrightarrow>
     distinct deleted \<and> set deleted = deletable items s
     \<and> map sans_links (memories s') = map sans_links (filter (\<lambda>r. \<not> guard items r) (memories s))
     \<and> memories s' = snd (pruneLinks memoryGraph deleted (memory_links s, filter (\<lambda>r. \<not> guard items r) (memories s)))
     \<and> memory_links s' = filter (\<lambda>l. \<not> ends_in deleted l) (memory_links s)
     \<and> map f_id (tombstones s') = map f_id (tombstones s) @ (if recording reason then deleted else [])
     \<and> map so_id (search_outbox s') = map so_id (search_outbox s) @ (if search_outbox_on cfg then deleted else [])
     \<and> delivered_ids (callback_queue s') = delivered_ids (callback_queue s)
         @ (if wantsMemoryCallbacks cfg (cause reason) then deleted else [])
     \<and> events s' = events s \<and> event_links s' = event_links s \<and> levels s' = levels s
     \<and> (queues_ok s \<longrightarrow> queues_ok s')"

lemma once_effect:
  assumes "keys_ok s" "distinct (map ms_id items)"
    and r: "deleteMemoriesIfUnrecalledOnce cfg now items reason s = (deleted, s')"
  shows "delete_effect cfg items reason s deleted s'"
proof -
  let ?cs = "chunks deleteChunkSize (lockOrderedSnapshots items)"
  have items: "distinct (map ms_id (lockOrderedSnapshots items))"
  proof -
    have "mset (map ms_id (lockOrderedSnapshots items)) = mset (map ms_id items)" by (simp add: lockOrderedSnapshots_def)
    then show ?thesis using assms(2) mset_eq_imp_distinct_iff by blast
  qed
  have g: "guard (concat ?cs) r = guard items r" for r
    by (rule guard_set_cong) (simp add: lockOrderedSnapshots_def)
  obtain s1 del ds where L: "fold (delete_step cfg now reason) ?cs (s, [], []) = (s1, del, ds)"
    by (cases "fold (delete_step cfg now reason) ?cs (s, [], [])")
  have "chunk_effect cfg reason (concat ?cs) (s, [], []) (s1, del, ds)"
    using delete_loop_effect [of "(s, [], [])" ?cs cfg reason now] assms(1) distinct_chunks [OF items] L by simp
  then obtain ts n where E: "distinct del" "set del = deletable items s"
    "s1 = s\<lparr>memories := filter (\<lambda>r. \<not> guard items r) (memories s), tombstones := ts, next_tombstone_seq := n\<rparr>"
    "map f_id ts = map f_id (tombstones s) @ (if recording reason then del else [])"
    "delivered_ids ds = (if wantsMemoryCallbacks cfg (cause reason) then del else [])"
    "queues_ok s \<longrightarrow> queues_ok s1"
    unfolding chunk_effect_def g by (auto simp: deletable_def delivered_ids_def)
  let ?s2 = "pruneMemoryLinks del s1"
  let ?s4 = "queueCallbacks cfg now ds (queueSearchDeletes cfg now del ?s2)"
  obtain c' where c': "collectForgotten (cause reason) del [] ?s4 = ?s4\<lparr>cycle := c'\<rparr>"
    using collectForgotten_frame by blast
  have res: "deleted = del" "s' = ?s4\<lparr>cycle := c'\<rparr>"
    using r by (auto simp: deleteMemoriesIfUnrecalledOnce_def L c' Let_def)
  have q2: "queues_ok s1 \<longrightarrow> queues_ok ?s2"
    by (simp add: queues_ok_def pruneMemoryLinks_def store_link_defs)
  have q: "queues_ok s \<longrightarrow> queues_ok s'"
    using E(6) q2 queueCallbacks_queues queueSearchDeletes_queues by (simp add: res queues_ok_def)
  have dc: "delivered_ids (callback_queue s') = delivered_ids (callback_queue s)
         @ (if wantsMemoryCallbacks cfg (cause reason) then del else [])"
    using wants_enabled [of cfg "cause reason"] E(3,5)
    by (simp add: res delivered_queueCallbacks frame_simps pruneMemoryLinks_def store_link_defs)
  have so: "map so_id (search_outbox s') = map so_id (search_outbox s) @ (if search_outbox_on cfg then del else [])"
    using E(3) by (simp add: res frame_simps queueSearchDeletes_fold insert_outbox_ids pruneMemoryLinks_def store_link_defs)
  have fr: "tombstones s' = ts" "events s' = events s" "event_links s' = event_links s" "levels s' = levels s"
    "memories s' = memories ?s2" "memory_links s' = memory_links ?s2"
    using E(3) by (simp_all add: res frame_simps pruneMemoryLinks_def store_link_defs)
  show ?thesis
    unfolding delete_effect_def using E(1,2,4) q dc so fr pruneMemoryLinks_store [of del s1] E(3)
    by (simp add: res(1))
qed

lemma delete_effectD:
  assumes "delete_effect cfg items reason s deleted s'"
  shows "distinct deleted" "set deleted = deletable items s"
    "map sans_links (memories s') = map sans_links (filter (\<lambda>r. \<not> guard items r) (memories s))"
    "memories s' = snd (pruneLinks memoryGraph deleted (memory_links s, filter (\<lambda>r. \<not> guard items r) (memories s)))"
    "memory_links s' = filter (\<lambda>l. \<not> ends_in deleted l) (memory_links s)"
    "map f_id (tombstones s') = map f_id (tombstones s) @ (if recording reason then deleted else [])"
    "map so_id (search_outbox s') = map so_id (search_outbox s) @ (if search_outbox_on cfg then deleted else [])"
    "delivered_ids (callback_queue s') = delivered_ids (callback_queue s)
       @ (if wantsMemoryCallbacks cfg (cause reason) then deleted else [])"
    "events s' = events s" "event_links s' = event_links s" "levels s' = levels s"
    "queues_ok s \<Longrightarrow> queues_ok s'"
  using assms unfolding delete_effect_def by blast+

lemma delete_effect_ids:
  assumes "delete_effect cfg items reason s deleted s'"
  shows "map m_id (memories s') = map m_id (filter (\<lambda>r. \<not> guard items r) (memories s))"
proof -
  have m: "map m_id xs = map m_id (map sans_links xs)" for xs by (simp add: sans_links_def)
  show ?thesis unfolding m [of "memories s'"] m [of "filter _ _"] delete_effectD(3) [OF assms] by (rule refl)
qed

section \<open>Guarantees of the chokepoint\<close>

lemma run_once: "run_tx fault body n t = (Inr v, s') \<longleftrightarrow> fault n = None \<and> body t = (v, s')"
  by (auto simp: run_tx_def split: option.splits prod.splits)

lemma chokepoint_result:
  assumes "I s" "\<And>n t. I t \<Longrightarrow> I (world n t)" "\<And>t. I t \<Longrightarrow> keys_ok t" "distinct (map ms_id items)" "items \<noteq> []"
    and "deleteMemoriesIfUnrecalled cfg fault ctx_done world now items reason s = (Inr deleted, s')"
  shows "\<exists>t. I t \<and> delete_effect cfg items reason t deleted s'"
proof -
  have w: "withTxRetry (single_writer cfg) ctx_done world
      (run_tx fault (deleteMemoriesIfUnrecalledOnce cfg now items reason)) s = (Inr deleted, s')"
    using assms(5,6) by (simp add: deleteMemoriesIfUnrecalled_def)
  from rtx.withTxRetry_result [of I, OF assms(1,2) w]
  obtain t where "I t" "deleteMemoriesIfUnrecalledOnce cfg now items reason t = (deleted, s')"
    by (auto simp: run_once)
  with once_effect [OF assms(3) assms(4)] show ?thesis by blast
qed

lemma chokepoint_failed:
  assumes "I s" "\<And>n t. I t \<Longrightarrow> I (world n t)"
    and "deleteMemoriesIfUnrecalled cfg fault ctx_done world now items reason s = (Inl e, s')"
  shows "I s'"
  using assms rtx.withTxRetry_failed [of I, OF assms(1,2)]
  by (auto simp: deleteMemoriesIfUnrecalled_def split: if_splits)

text \<open>
  C1. The chokepoint deletes exactly the scanned memories whose recall state is unchanged, and what
  it records in the same transaction names exactly those: the forgotten log (when the pass is one
  of forgetting), the search outbox and the callback deliveries each gain precisely the deleted ids.
  If every attempt fails, nothing at all has happened.
\<close>

theorem chokepoint_records_exactly_what_went:
  assumes "keys_ok s" "distinct (map ms_id items)" "items \<noteq> []"
    and r: "deleteMemoriesIfUnrecalled cfg fault ctx_done (\<lambda>_. id) now items reason s = (res, s')"
  shows "case res of
      Inl e \<Rightarrow> s' = s
    | Inr deleted \<Rightarrow>
        set deleted = {i. \<exists>r \<in> set (memories s). m_id r = i \<and> (\<exists>x \<in> set items. still_as_scanned x r)}
        \<and> m_id ` set (memories s') = m_id ` set (memories s) - set deleted
        \<and> map f_id (tombstones s') = map f_id (tombstones s) @ (if recording reason then deleted else [])
        \<and> map so_id (search_outbox s') = map so_id (search_outbox s) @ (if search_outbox_on cfg then deleted else [])
        \<and> delivered_ids (callback_queue s') = delivered_ids (callback_queue s)
            @ (if wantsMemoryCallbacks cfg (cause reason) then deleted else [])"
proof (cases res)
  case (Inl e)
  have "s' = s" by (rule chokepoint_failed [where I = "\<lambda>t. t = s", OF refl _ r [unfolded Inl]]) simp
  with Inl show ?thesis by simp
next
  case (Inr deleted)
  have "\<exists>t. t = s \<and> delete_effect cfg items reason t deleted s'"
    by (rule chokepoint_result) (use assms Inr in auto)
  then have E: "delete_effect cfg items reason s deleted s'" by blast
  have "m_id ` set (memories s') = m_id ` {r \<in> set (memories s). \<not> guard items r}"
    using arg_cong [OF delete_effect_ids [OF E], of set] by simp
  also have "\<dots> = m_id ` set (memories s) - m_id ` {r \<in> set (memories s). guard items r}"
    using assms(1) by (auto simp: keys_ok_def distinct_map dest: inj_onD)
  finally have "m_id ` set (memories s') = m_id ` set (memories s) - set deleted"
    by (simp add: delete_effectD(2) [OF E] deletable_def)
  moreover have "set deleted = {i. \<exists>r \<in> set (memories s). m_id r = i \<and> (\<exists>x \<in> set items. still_as_scanned x r)}"
    by (auto simp: delete_effectD(2) [OF E] deletable_def guard_def list_ex_iff)
  ultimately show ?thesis using delete_effectD(6-8) [OF E] Inr by simp
qed

definition snapshot_of :: "memory_row \<Rightarrow> memoryRecallSnapshot" where
  "snapshot_of r = \<lparr>ms_id = m_id r, ms_time_recalled = m_time_recalled r, ms_recall_count = m_recall_count r, ms_value = 1\<rparr>"

definition example_reason :: forgetReason where
  "example_reason = \<lparr>rule = ForgetRuleConsolidation, cause = CauseConsolidation, threshold = 3\<rparr>"

lemma linked_store_keys: "keys_ok linked_store"
  by (simp add: keys_ok_def example_defs)

theorem chokepoint_records_exactly_what_went_witness:
  "\<exists>deleted s'. deleteMemoriesIfUnrecalled example_cfg (\<lambda>_. None) (\<lambda>_. False) (\<lambda>_. id) 100
      (map snapshot_of (take 2 (memories linked_store))) example_reason linked_store = (Inr deleted, s')
    \<and> set deleted = {''a'', ''b''} \<and> m_id ` set (memories s') = {''c''} \<and> map f_id (tombstones s') = deleted"
proof -
  let ?items = "map snapshot_of (take 2 (memories linked_store))"
  obtain res s' where R: "deleteMemoriesIfUnrecalled example_cfg (\<lambda>_. None) (\<lambda>_. False) (\<lambda>_. id) 100 ?items
      example_reason linked_store = (res, s')" by fastforce
  have "distinct (map ms_id ?items)" "?items \<noteq> []" by (simp_all add: snapshot_of_def example_defs)
  note T = chokepoint_records_exactly_what_went [OF linked_store_keys this R]
  obtain deleted where D: "res = Inr deleted"
    using R by (auto simp: deleteMemoriesIfUnrecalled_def withTxRetry_def example_cfg_def run_tx_def linked_store_def
        split: prod.splits)
  have "set deleted = {''a'', ''b''}" using T D
    by (auto simp: still_as_scanned_def snapshot_of_def example_defs)
  moreover have "m_id ` set (memories linked_store) = {''a'', ''b'', ''c''}" "tombstones linked_store = []"
    "recording example_reason"
    by (auto simp: example_defs example_reason_def recording_def)
  ultimately have "m_id ` set (memories s') = {''c''}" "map f_id (tombstones s') = deleted" using T D by auto
  with R D \<open>set deleted = _\<close> show ?thesis by blast
qed

section \<open>The recall race\<close>

lemma DedupeIds_props: "set (DedupeIds ids) = set ids" "distinct (DedupeIds ids)"
proof -
  let ?f = "\<lambda>i out. if i \<in> set out then out else out @ [i]"
  have "set (fold ?f ids acc) = set acc \<union> set ids" for acc by (induction ids arbitrary: acc) auto
  moreover have "distinct acc \<Longrightarrow> distinct (fold ?f ids acc)" for acc by (induction ids arbitrary: acc) auto
  ultimately show "set (DedupeIds ids) = set ids" "distinct (DedupeIds ids)" by (simp_all add: DedupeIds_def)
qed

text \<open>Each named memory is reinforced exactly once, however the request repeats or orders the ids.\<close>

lemma RecallMemories_rows:
  "memories (snd (RecallMemories now ids s)) = map (\<lambda>r. if m_id r \<in> set ids then recall_row now r else r) (memories s)"
  "snd (RecallMemories now ids s) = s\<lparr>memories := memories (snd (RecallMemories now ids s))\<rparr>"
proof -
  let ?step = "\<lambda>chunk (out, s :: db_state). (let rows = recall_chunk now (lockOrderedIDs chunk) (memories s)
          in (out @ filter (\<lambda>r. m_id r \<in> set chunk) rows, s\<lparr>memories := rows\<rparr>))"
  have "distinct (concat cs) \<Longrightarrow> snd (fold ?step cs (out, s))
      = s\<lparr>memories := map (\<lambda>r. if m_id r \<in> set (concat cs) then recall_row now r else r) (memories s)\<rparr>" for cs out
  proof (induction cs arbitrary: out s)
    case (Cons c cs)
    have "(if m_id (if m_id r \<in> set c then recall_row now r else r) \<in> set (concat cs)
          then recall_row now (if m_id r \<in> set c then recall_row now r else r)
          else (if m_id r \<in> set c then recall_row now r else r))
        = (if m_id r \<in> set (concat (c # cs)) then recall_row now r else r)" for r
      using Cons.prems by (auto simp: recall_row_def)
    with Cons show ?case by (auto simp: recall_chunk_def lockOrderedIDs_def Let_def)
  qed (simp add: map_idI)
  from this [of "chunks deleteChunkSize (DedupeIds ids)" "[]"]
  have "snd (RecallMemories now ids s) = s\<lparr>memories := map (\<lambda>r. if m_id r \<in> set ids then recall_row now r else r) (memories s)\<rparr>"
    by (simp add: RecallMemories_def DedupeIds_props del: set_concat)
  then show "memories (snd (RecallMemories now ids s)) = map (\<lambda>r. if m_id r \<in> set ids then recall_row now r else r) (memories s)"
    "snd (RecallMemories now ids s) = s\<lparr>memories := memories (snd (RecallMemories now ids s))\<rparr>" by simp_all
qed

lemma RecallMemories_ids: "map m_id (memories (snd (RecallMemories now ids s))) = map m_id (memories s)"
  unfolding RecallMemories_rows(1) by (simp add: recall_row_def)

lemma RecallMemories_keys: "keys_ok s \<Longrightarrow> keys_ok (snd (RecallMemories now ids s))"
proof -
  have "events (snd (RecallMemories now ids s)) = events s" using RecallMemories_rows(2) [of now ids s]
    by (metis (no_types, lifting) db_state.select_convs(2) db_state.surjective db_state.update_convs(1))
  then show "keys_ok s \<Longrightarrow> keys_ok (snd (RecallMemories now ids s))"
    by (simp add: keys_ok_def RecallMemories_ids)
qed

text \<open>
  C2. A recall wins the race with forgetting: a memory a pass has selected for deletion and a client
  then recalls before the delete runs is still there afterwards, reinforced, whatever the clock reads.
\<close>

theorem recall_beats_deletion:
  assumes "keys_ok s" "items = map snapshot_of scanned" "distinct (map ms_id items)" "set scanned \<subseteq> set (memories s)"
    and "items \<noteq> []"
    and r: "deleteMemoriesIfUnrecalled cfg fault ctx_done (\<lambda>_. id) now items reason (snd (RecallMemories t ids s)) = (res, s')"
    and i: "i \<in> set ids" "i \<in> m_id ` set (memories s)"
  shows "i \<in> m_id ` set (memories s')
    \<and> (\<forall>deleted. res = Inr deleted \<longrightarrow> i \<notin> set deleted)"
proof -
  let ?s1 = "snd (RecallMemories t ids s)"
  have k: "keys_ok ?s1" by (rule RecallMemories_keys) fact
  have there: "i \<in> m_id ` set (memories ?s1)"
    using i(2) arg_cong [OF RecallMemories_ids [of t ids s], of set] by simp
  have spared: "\<not> still_as_scanned x q" if q: "q \<in> set (memories ?s1)" "m_id q = i" and x: "x \<in> set items" for x q
  proof
    assume "still_as_scanned x q"
    obtain r0 where r0: "r0 \<in> set (memories s)" "q = recall_row t r0" "m_id r0 = i"
    proof -
      obtain r0 where "r0 \<in> set (memories s)" "q = (if m_id r0 \<in> set ids then recall_row t r0 else r0)"
        using q(1) unfolding RecallMemories_rows(1) set_map by (rule imageE) blast
      moreover from this q(2) have "m_id r0 = i" by (simp add: recall_row_def split: if_splits)
      ultimately show ?thesis using that i(1) by simp
    qed
    obtain r1 where r1: "r1 \<in> set (memories s)" "x = snapshot_of r1" using x assms(2,4) by auto
    have "m_id r1 = m_id r0" "m_recall_count r1 = m_recall_count r0 + 1"
      using \<open>still_as_scanned x q\<close> r0(2) r1(2) by (simp_all add: still_as_scanned_def snapshot_of_def recall_row_def)
    moreover have "inj_on m_id (set (memories s))" using assms(1) by (simp add: keys_ok_def distinct_map)
    ultimately show False using r0(1) r1(1) by (metis add.right_neutral add_left_cancel inj_onD zero_neq_one)
  qed
  show ?thesis
  proof (cases res)
    case (Inl e)
    have "s' = ?s1" by (rule chokepoint_failed [where I = "\<lambda>t. t = ?s1", OF refl _ r [unfolded Inl]]) simp
    with there Inl show ?thesis by simp
  next
    case (Inr deleted)
    have "\<exists>t. t = ?s1 \<and> delete_effect cfg items reason t deleted s'"
      by (rule chokepoint_result) (use assms k Inr in auto)
    then have E: "delete_effect cfg items reason ?s1 deleted s'" by blast
    obtain q where q: "q \<in> set (memories ?s1)" "m_id q = i" using there by auto
    then have "q \<in> set (filter (\<lambda>r. \<not> guard items r) (memories ?s1))"
      using spared by (auto simp: guard_def list_ex_iff)
    then have "m_id q \<in> set (map m_id (memories s'))" unfolding delete_effect_ids [OF E] by simp
    then have "i \<in> m_id ` set (memories s')" using q(2) by simp
    moreover have "i \<notin> set deleted"
      using spared by (auto simp: delete_effectD(2) [OF E] deletable_def guard_def list_ex_iff)
    ultimately show ?thesis using Inr by simp
  qed
qed

theorem recall_beats_deletion_witness:
  "''b'' \<in> m_id ` set (memories (snd (deleteMemoriesIfUnrecalled example_cfg (\<lambda>_. None) (\<lambda>_. False) (\<lambda>_. id) 100
      (map snapshot_of (memories linked_store)) example_reason (snd (RecallMemories 50 [''b'', ''b''] linked_store)))))"
proof -
  let ?items = "map snapshot_of (memories linked_store)"
  obtain res s' where R: "deleteMemoriesIfUnrecalled example_cfg (\<lambda>_. None) (\<lambda>_. False) (\<lambda>_. id) 100 ?items
      example_reason (snd (RecallMemories 50 [''b'', ''b''] linked_store)) = (res, s')" by fastforce
  have "distinct (map ms_id ?items)" "?items \<noteq> []" by (simp_all add: snapshot_of_def example_defs)
  from recall_beats_deletion [OF linked_store_keys refl this(1) subset_refl this(2) R, of "''b''"]
  show ?thesis by (simp add: R) (simp add: example_defs)
qed

section \<open>The store stays well-formed\<close>

definition store_ok :: "db_state \<Rightarrow> bool" where
  "store_ok s \<longleftrightarrow> keys_ok s \<and> aggregates_ok s \<and> queues_ok s
     \<and> links_closed (memory_links s) (map m_id (memories s)) \<and> one_row_per_pair (memory_links s)
     \<and> links_closed (event_links s) (map e_id (events s)) \<and> one_row_per_pair (event_links s)"

lemma delete_effect_store_ok:
  assumes "store_ok s" "delete_effect cfg items reason s deleted s'"
  shows "store_ok s'"
proof -
  note D = delete_effectD [OF assms(2)]
  have S: "keys_ok s" "aggregates_ok s" "queues_ok s" "links_closed (memory_links s) (map m_id (memories s))"
    "one_row_per_pair (memory_links s)" using assms(1) by (simp_all add: store_ok_def)
  have kept: "\<not> guard items r \<longleftrightarrow> m_id r \<notin> set deleted" if "r \<in> set (memories s)" for r
    using S(1) that by (auto simp: D(2) deletable_def keys_ok_def distinct_map dest: inj_onD)
  have "rows_agg_ok memoryGraph (memory_links s) (memories s)" using S(2) by (simp add: aggregates_ok_def mem_rows_agg)
  note R = mem_graph.remove_and_prune [OF this _ S(5), of "\<lambda>r. \<not> guard items r" deleted, unfolded graph_keys, OF S(4) kept D(5,4)]
  show ?thesis
    using R S D(12) assms(1) by (auto simp: store_ok_def keys_ok_def aggregates_ok_def mem_rows_agg D(9,10))
qed

text \<open>
  Forgetting leaves a well-formed store: keys unique, one link row per pair, no link to a memory
  that is gone, every aggregate the sum of the links left, queue sequence numbers unique, after the
  chokepoint returns, with an error or not, and whatever well-formed changes other writers commit
  between its attempts.
\<close>

theorem chokepoint_keeps_store_ok:
  assumes "store_ok s" "distinct (map ms_id items)"
    and "\<And>n t. store_ok t \<Longrightarrow> store_ok (world n t)"
  shows "store_ok (snd (deleteMemoriesIfUnrecalled cfg fault ctx_done world now items reason s))"
proof (cases "items = []")
  case True
  with assms(1) show ?thesis by (simp add: deleteMemoriesIfUnrecalled_def)
next
  case False
  have "store_ok (snd (withTxRetry (single_writer cfg) ctx_done world
      (run_tx fault (deleteMemoriesIfUnrecalledOnce cfg now items reason)) s))"
  proof (rule rtx.withTxRetry_invariant [where I = store_ok, OF assms(1) assms(3)])
    fix n t v t' assume "store_ok t" and "run_tx fault (deleteMemoriesIfUnrecalledOnce cfg now items reason) n t = (Inr v, t')"
    then show "store_ok t'"
      using delete_effect_store_ok [of t] once_effect [OF _ assms(2), of t cfg now reason v t']
      by (auto simp: run_once store_ok_def)
  qed
  with False show ?thesis by (simp add: deleteMemoriesIfUnrecalled_def)
qed

lemma linked_store_store_ok: "store_ok linked_store"
  using linked_store_ok
  by (simp add: store_ok_def keys_ok_def queues_ok_def seqs_ok_def links_closed_def one_row_per_pair_def link_key_def example_defs)

theorem chokepoint_keeps_store_ok_witness:
  "store_ok (snd (deleteMemoriesIfUnrecalled example_cfg (\<lambda>_. None) (\<lambda>_. False) (\<lambda>_. id) 100
      (map snapshot_of (take 1 (memories linked_store))) example_reason linked_store))"
  by (rule chokepoint_keeps_store_ok [OF linked_store_store_ok]) (simp_all add: snapshot_of_def example_defs)

text \<open>
  The three ways a chunk is deleted, row by row on the embedded engine, by one statement with
  RETURNING, and by locking then deleting by id, remove the same rows and report the same ids.
\<close>

theorem delete_arms_agree:
  assumes "distinct (map m_id rows)" "distinct (map ms_id chunk)"
  shows "snd (deleteChunkPerRow chunk rows) = snd (deleteChunkReturning chunk rows)
    \<and> snd (deleteChunkWithoutReturning chunk rows) = snd (deleteChunkReturning chunk rows)
    \<and> mset (fst (deleteChunkPerRow chunk rows)) = mset (fst (deleteChunkReturning chunk rows))
    \<and> fst (deleteChunkWithoutReturning chunk rows) = fst (deleteChunkReturning chunk rows)"
proof -
  define arm where "arm sw ret = deleteChunkIfUnrecalled (example_cfg\<lparr>single_writer := sw, dialect_returning := ret\<rparr>) chunk rows" for sw ret
  have arms: "deleteChunkPerRow chunk rows = arm True True" "deleteChunkReturning chunk rows = arm False True"
    "deleteChunkWithoutReturning chunk rows = arm False False"
    by (simp_all add: arm_def deleteChunkIfUnrecalled_def)
  have E: "snd (arm sw ret) = filter (\<lambda>r. \<not> guard chunk r) rows" "distinct (fst (arm sw ret))"
    "set (fst (arm sw ret)) = m_id ` {r \<in> set rows. guard chunk r}" for sw ret
    using deleteChunk_effect [OF assms arm_def [symmetric, THEN trans, OF prod.collapse [symmetric]]] by blast+
  have "mset (fst (arm True True)) = mset (fst (arm False True))"
    using E(2,3) set_eq_iff_mset_eq_distinct by metis
  moreover have "fst (deleteChunkWithoutReturning chunk rows) = fst (deleteChunkReturning chunk rows)"
    by (simp add: deleteChunkWithoutReturning_def deleteChunkReturning_def Let_def)
  ultimately show ?thesis by (simp add: arms E(1))
qed

theorem delete_arms_agree_witness:
  "mset (fst (deleteChunkPerRow (map snapshot_of (rev (memories linked_store))) (memories linked_store)))
     = {#''a'', ''b'', ''c''#}"
  using delete_arms_agree [of "memories linked_store" "map snapshot_of (rev (memories linked_store))"]
  by (simp add: snapshot_of_def deleteChunkReturning_def guard_def still_as_scanned_def example_defs)

section \<open>The client's delete\<close>

lemma delete_by_ids_rows:
  "fold (\<lambda>chunk rows. filter (\<lambda>r. m_id r \<notin> set chunk) rows) cs rows = filter (\<lambda>r. m_id r \<notin> set (concat cs)) rows"
  by (induction cs arbitrary: rows) (auto intro!: filter_cong)

lemma deleteMemoriesByIdsOnce_effect:
  assumes "ids \<noteq> []" and r: "deleteMemoriesByIdsOnce cfg now ids s = (cnt, s')"
  shows "memories s' = snd (pruneLinks memoryGraph (sort ids) (memory_links s, filter (\<lambda>r. m_id r \<notin> set ids) (memories s)))"
    "memory_links s' = filter (\<lambda>l. \<not> ends_in (sort ids) l) (memory_links s)"
    "events s' = events s" "event_links s' = event_links s" "tombstones s' = tombstones s"
    "cnt = length (filter (\<lambda>r. m_id r \<in> set ids) (memories s))"
    "map so_id (search_outbox s') = map so_id (search_outbox s) @ (if search_outbox_on cfg then sort ids else [])"
    "queues_ok s \<Longrightarrow> queues_ok s'" "levels s' = levels s"
proof -
  let ?ids = "sort ids"
  let ?rows = "filter (\<lambda>r. m_id r \<notin> set ids) (memories s)"
  let ?s1 = "pruneMemoryLinks ?ids (s\<lparr>memories := ?rows\<rparr>)"
  let ?s2 = "queueSearchDeletes cfg now ?ids ?s1"
  have rows: "fold (\<lambda>chunk rows. filter (\<lambda>r. m_id r \<notin> set chunk) rows) (chunks deleteChunkSize ?ids) (memories s) = ?rows"
    using delete_by_ids_rows [of "chunks deleteChunkSize ?ids" "memories s"] by (simp del: set_concat)
  obtain d where s': "s' = (case d of None \<Rightarrow> ?s2 | Some v \<Rightarrow> queueCallbacks cfg now [v] ?s2)"
    and cnt: "cnt = length (memories s) - length ?rows"
    using assms unfolding deleteMemoriesByIdsOnce_def lockOrderedIDs_def Let_def rows by auto
  have fr: "memories s' = memories ?s1" "memory_links s' = memory_links ?s1" "events s' = events s"
    "event_links s' = event_links s" "tombstones s' = tombstones s" "levels s' = levels s"
    by (cases d; simp add: s' frame_simps pruneMemoryLinks_def store_link_defs)+
  then show "memories s' = snd (pruneLinks memoryGraph ?ids (memory_links s, ?rows))"
    "memory_links s' = filter (\<lambda>l. \<not> ends_in ?ids l) (memory_links s)"
    "events s' = events s" "event_links s' = event_links s" "tombstones s' = tombstones s" "levels s' = levels s"
    by (simp_all add: pruneMemoryLinks_store(1,2))
  show "map so_id (search_outbox s') = map so_id (search_outbox s) @ (if search_outbox_on cfg then ?ids else [])"
    by (cases d) (simp_all add: s' frame_simps queueSearchDeletes_fold insert_outbox_ids pruneMemoryLinks_def store_link_defs)
  have "length (memories s) = length (filter (\<lambda>r. m_id r \<in> set ids) (memories s)) + length ?rows"
    by (rule sum_length_filter_compl [symmetric])
  then show "cnt = length (filter (\<lambda>r. m_id r \<in> set ids) (memories s))" using cnt by simp
  have "queues_ok s \<Longrightarrow> queues_ok ?s2"
    by (rule queueSearchDeletes_queues) (simp add: queues_ok_def pruneMemoryLinks_def store_link_defs)
  then show "queues_ok s \<Longrightarrow> queues_ok s'"
    by (cases d) (simp_all add: s' queueCallbacks_queues)
qed

lemma delete_by_ids_exact:
  assumes "store_ok s" "ids \<noteq> []" and r: "deleteMemoriesByIdsOnce cfg now ids s = (cnt, s')"
  shows "m_id ` set (memories s') = m_id ` set (memories s) - set ids
    \<and> cnt = card (m_id ` set (memories s) \<inter> set ids)
    \<and> tombstones s' = tombstones s
    \<and> store_ok s'"
proof -
  note E = deleteMemoriesByIdsOnce_effect [OF assms(2) r]
  have S: "keys_ok s" "aggregates_ok s" "queues_ok s" "links_closed (memory_links s) (map m_id (memories s))"
    "one_row_per_pair (memory_links s)" using assms(1) by (simp_all add: store_ok_def)
  have d: "rows_agg_ok memoryGraph (memory_links s) (memories s)" "distinct (map m_id (memories s))"
    using S(1,2) by (simp_all add: aggregates_ok_def keys_ok_def mem_rows_agg)
  note R = mem_graph.remove_and_prune [OF d(1) _ S(5), of "\<lambda>r. m_id r \<notin> set ids" "sort ids", unfolded graph_keys set_sort,
      OF S(4) refl E(2,1)]
  have "distinct (map m_id (filter (\<lambda>r. m_id r \<in> set ids) (memories s)))" using d(2) by (rule distinct_map_filter_key)
  then have "length (filter (\<lambda>r. m_id r \<in> set ids) (memories s))
      = card (m_id ` set (filter (\<lambda>r. m_id r \<in> set ids) (memories s)))"
    using distinct_card by fastforce
  moreover have "m_id ` set (filter (\<lambda>r. m_id r \<in> set ids) (memories s)) = m_id ` set (memories s) \<inter> set ids" by auto
  ultimately have "cnt = card (m_id ` set (memories s) \<inter> set ids)" by (simp add: E(6))
  moreover have "m_id ` set (memories s') = m_id ` set (memories s) - set ids"
    using arg_cong [OF R(4), of set] by auto
  moreover have "store_ok s'"
    using R S E(8) assms(1) by (auto simp: store_ok_def keys_ok_def aggregates_ok_def mem_rows_agg E(3,4))
  ultimately show ?thesis using E(5) by simp
qed

text \<open>
  A client's delete by id removes exactly the named memories that exist and counts them,
  whatever duplicates or unknown ids the request has, is not recorded as forgetting, and leaves the
  store well-formed.
\<close>

theorem client_delete_is_exact:
  assumes "store_ok s" "ids \<noteq> []" and r: "deleteMemoriesByIdsOnce cfg now ids s = (cnt, s')"
  shows "m_id ` set (memories s') = m_id ` set (memories s) - set ids
    \<and> cnt = card (m_id ` set (memories s) \<inter> set ids)
    \<and> tombstones s' = tombstones s
    \<and> store_ok s'"
  using assms by (rule delete_by_ids_exact)

theorem client_delete_is_exact_witness:
  "fst (deleteMemoriesByIdsOnce example_cfg 7 [''c'', ''gone'', ''a'', ''c''] linked_store) = 2"
proof -
  obtain cnt s' where R: "deleteMemoriesByIdsOnce example_cfg 7 [''c'', ''gone'', ''a'', ''c''] linked_store = (cnt, s')"
    by fastforce
  from client_delete_is_exact [OF linked_store_store_ok _ R]
  have "cnt = card ({''a'', ''b'', ''c''} \<inter> {''c'', ''gone'', ''a'', ''c''} :: ident set)"
    by (simp add: example_defs)
  moreover have "{''a'', ''b'', ''c''} \<inter> {''c'', ''gone'', ''a'', ''c''} = {''a'', ''c''}" by auto
  ultimately have "cnt = card {''a'', ''c''}" by simp
  then show ?thesis by (simp add: R)
qed

end
