(* ===== verification/Group_Scope.thy ===== *)
theory Group_Scope
  imports Authorisation Delete_Chokepoint
begin

text \<open>
  The soft partition by group (\<^verbatim>\<open>hippocampus/scope.go\<close>, \<^verbatim>\<open>db/scope.go\<close>) and the handlers that act on records a
  caller names or links to (\<^verbatim>\<open>hippocampus/memory.go\<close>, \<^verbatim>\<open>hippocampus/link.go\<close>): what a token bound to some groups can
  learn, delete, recall and link. A request is its verified claims and tier; the failures of single
  queries are parameters.
\<close>

section \<open>Requests and answers\<close>

record request_ctx =
  ctx_claims :: "Claims option"
  ctx_tier :: "Tier option"

datatype rpc_error = NotFound "ident list" | AlreadyExists "ident list" | PermissionDenied | InvalidArgument | FailedPrecondition
  | Canceled | Aborted | Unavailable | Internal | Unknown

definition mapError :: "write_error \<Rightarrow> rpc_error" where
  "mapError e = (case e of ErrCtxDone \<Rightarrow> Canceled | ErrWriteConflict \<Rightarrow> Aborted | ErrDuplicateKey \<Rightarrow> AlreadyExists [] | _ \<Rightarrow> Internal)"

datatype scopeMode = scopeFilter | scopeIdChecked | scopeWrite | scopeUnbound | scopeNone

definition scopes :: "(string \<times> scopeMode) list" where
  "scopes = [
     (''GetEvents'', scopeFilter), (''GetMemories'', scopeFilter), (''SearchMemories'', scopeFilter),
     (''GetForgottenMemories'', scopeFilter), (''DeleteForgottenMemories'', scopeFilter), (''GetSummarisationCandidates'', scopeFilter),
     (''DeleteMemoriesByFilter'', scopeFilter), (''DeleteEventsByFilter'', scopeFilter), (''Export'', scopeFilter),
     (''Transfer'', scopeFilter), (''Clear'', scopeFilter), (''ExplainConsolidation'', scopeIdChecked),
     (''EndEvent'', scopeIdChecked), (''UpdateEvent'', scopeIdChecked), (''UpdateEventSignificance'', scopeIdChecked),
     (''MergeEvents'', scopeIdChecked), (''DeleteEvent'', scopeIdChecked), (''GetEventById'', scopeIdChecked),
     (''UpdateMemory'', scopeIdChecked), (''DeleteMemories'', scopeIdChecked), (''RecallMemories'', scopeIdChecked),
     (''LinkMemories'', scopeIdChecked), (''UnlinkMemories'', scopeIdChecked), (''GetMemoryLinks'', scopeIdChecked),
     (''LinkEvents'', scopeIdChecked), (''UnlinkEvents'', scopeIdChecked), (''GetEventLinks'', scopeIdChecked),
     (''ReplaceMemoriesWithSummary'', scopeIdChecked), (''SummariseMemories'', scopeIdChecked), (''StoreEvent'', scopeWrite),
     (''StoreMemory'', scopeWrite), (''StoreMemories'', scopeWrite), (''Import'', scopeWrite),
     (''ImportBatch'', scopeWrite), (''Purge'', scopeUnbound), (''Sleep'', scopeUnbound),
     (''PreviewConsolidation'', scopeUnbound), (''GetTopology'', scopeUnbound), (''WhoAmI'', scopeNone),
     (''GetSignificanceLevels'', scopeNone), (''GetConsolidationStatus'', scopeNone), (''GetCallbackQueue'', scopeUnbound),
     (''DeleteCallbackQueue'', scopeUnbound)]"

section \<open>The scope\<close>

definition GroupInScope :: "string list \<Rightarrow> string \<Rightarrow> bool" where
  "GroupInScope groups g \<longleftrightarrow> groups = [] \<or> g \<in> set groups"

definition GroupsFromContext :: "request_ctx \<Rightarrow> string list option" where
  "GroupsFromContext ctx = (case ctx_claims ctx of None \<Rightarrow> None | Some c \<Rightarrow> if Groups c = [] then None else Some (Groups c))"

definition requireUnbound :: "request_ctx \<Rightarrow> rpc_error + unit" where
  "requireUnbound ctx = (case GroupsFromContext ctx of None \<Rightarrow> Inr () | Some _ \<Rightarrow> Inl PermissionDenied)"

definition writeGroup :: "request_ctx \<Rightarrow> string \<Rightarrow> rpc_error + string" where
  "writeGroup ctx requested =
     (case GroupsFromContext ctx of
        None \<Rightarrow> Inr requested
      | Some groups \<Rightarrow>
          if requested = [] then (if length groups = 1 then Inr (hd groups) else Inl InvalidArgument)
          else if \<not> GroupInScope groups requested then Inl PermissionDenied
          else Inr requested)"

section \<open>Kinds of record\<close>

record 'r linkKind =
  lk_graph :: "'r linkGraph"
  lk_group :: "'r \<Rightarrow> string"
  lk_rows :: "db_state \<Rightarrow> 'r list"
  lk_tables :: "db_state \<Rightarrow> link_row list \<times> 'r list"
  lk_put :: "link_row list \<times> 'r list \<Rightarrow> db_state \<Rightarrow> db_state"

definition memoryKind :: "memory_row linkKind" where
  "memoryKind = \<lparr>lk_graph = memoryGraph, lk_group = m_group, lk_rows = memories, lk_tables = mem_tables, lk_put = put_mem_tables\<rparr>"

definition eventKind :: "event_row linkKind" where
  "eventKind = \<lparr>lk_graph = eventGraph, lk_group = e_group, lk_rows = events, lk_tables = ev_tables, lk_put = put_ev_tables\<rparr>"

definition lk_key :: "'r linkKind \<Rightarrow> 'r \<Rightarrow> ident" where
  "lk_key k = g_key (lk_graph k)"

definition idsOutsideGroups :: "'r linkKind \<Rightarrow> ident list \<Rightarrow> string list \<Rightarrow> db_state \<Rightarrow> ident list" where
  "idsOutsideGroups k ids groups s =
     (if ids = [] \<or> groups = [] then []
      else let inScope = fold (\<lambda>chunk found. found @ map (lk_key k)
                 (filter (\<lambda>r. lk_key k r \<in> set chunk \<and> lk_group k r \<in> set groups) (lk_rows k s))) (chunks deleteChunkSize ids) []
           in filter (\<lambda>i. i \<notin> set inScope) ids)"

text \<open>The failures a request may meet, and its clock.\<close>

record rpc_env =
  rpc_now :: nanos
  scope_fails :: bool
  missing_fails :: bool
  get_fails :: bool
  write_fails :: "write_error option"
  linked_fails :: bool
  read_fails :: bool

definition idsOutsideScope :: "'r linkKind \<Rightarrow> rpc_env \<Rightarrow> request_ctx \<Rightarrow> ident list \<Rightarrow> db_state \<Rightarrow> write_error + ident list" where
  "idsOutsideScope k env ctx ids s =
     (case GroupsFromContext ctx of
        None \<Rightarrow> Inr []
      | Some groups \<Rightarrow> if ids = [] then Inr [] else if scope_fails env then Inl ErrOther else Inr (idsOutsideGroups k ids groups s))"

definition scopeIds :: "'r linkKind \<Rightarrow> rpc_env \<Rightarrow> request_ctx \<Rightarrow> ident list \<Rightarrow> db_state \<Rightarrow> rpc_error + unit" where
  "scopeIds k env ctx ids s =
     (case GroupsFromContext ctx of
        None \<Rightarrow> Inr ()
      | Some groups \<Rightarrow>
          if ids = [] then Inr ()
          else if scope_fails env then Inl (mapError ErrOther)
          else let outside = idsOutsideGroups k ids groups s
               in if outside \<noteq> [] then Inl (NotFound outside) else Inr ())"

definition missingIds :: "'r linkKind \<Rightarrow> rpc_env \<Rightarrow> ident list \<Rightarrow> db_state \<Rightarrow> write_error + ident list" where
  "missingIds k env ids s = (if missing_fails env then Inl ErrOther else Inr (MissingIds (lk_graph k) ids (lk_rows k s)))"

definition heldOutsideScope :: "'r linkKind \<Rightarrow> rpc_env \<Rightarrow> request_ctx \<Rightarrow> ident list \<Rightarrow> db_state \<Rightarrow> write_error + ident list" where
  "heldOutsideScope k env ctx ids s =
     (case idsOutsideScope k env ctx ids s of
        Inl e \<Rightarrow> Inl e
      | Inr outside \<Rightarrow>
          if outside = [] then Inr []
          else case missingIds k env outside s of
                 Inl e \<Rightarrow> Inl e
               | Inr absent \<Rightarrow> Inr (filter (\<lambda>i. i \<notin> set absent) outside))"

definition refuseHeldOutsideScope :: "'r linkKind \<Rightarrow> rpc_env \<Rightarrow> request_ctx \<Rightarrow> ident list \<Rightarrow> db_state \<Rightarrow> rpc_error + unit" where
  "refuseHeldOutsideScope k env ctx ids s =
     (case heldOutsideScope k env ctx ids s of
        Inl e \<Rightarrow> Inl (mapError e)
      | Inr hs \<Rightarrow> if hs \<noteq> [] then Inl (AlreadyExists hs) else Inr ())"

text \<open>An import batch: the ids of its events, and each memory's id with the event it names.\<close>

definition scopeImport :: "rpc_env \<Rightarrow> request_ctx \<Rightarrow> ident list \<Rightarrow> (ident \<times> ident) list \<Rightarrow> db_state \<Rightarrow> rpc_error + unit" where
  "scopeImport env ctx eventIds mems s =
     (case GroupsFromContext ctx of
        None \<Rightarrow> Inr ()
      | Some groups \<Rightarrow>
          (let referenced = remdups (filter (\<lambda>i. i \<noteq> []) (map snd mems))
           in case refuseHeldOutsideScope eventKind env ctx eventIds s of
                Inl e \<Rightarrow> Inl e
              | Inr _ \<Rightarrow>
                  (case refuseHeldOutsideScope memoryKind env ctx (map fst mems) s of
                     Inl e \<Rightarrow> Inl e
                   | Inr _ \<Rightarrow>
                       (case heldOutsideScope eventKind env ctx referenced s of
                          Inl e \<Rightarrow> Inl (mapError e)
                        | Inr hs \<Rightarrow> if hs \<noteq> [] then Inl (NotFound hs) else Inr ()))))"

definition filterMemoriesToScope :: "request_ctx \<Rightarrow> memory_row list \<Rightarrow> memory_row list" where
  "filterMemoriesToScope ctx ms =
     (case GroupsFromContext ctx of None \<Rightarrow> ms | Some groups \<Rightarrow> filter (\<lambda>r. GroupInScope groups (m_group r)) ms)"

section \<open>Deleting and recalling by id\<close>

text \<open>
  The answer says whether everything asked for went; after a successful delete the search index is
  told of every id. Nobody else writes between the check and the delete.
\<close>

record delete_answer =
  da_ok :: bool
  da_unindexed :: "ident list"

definition rpc_DeleteMemories :: "db_config \<Rightarrow> rpc_env \<Rightarrow> request_ctx \<Rightarrow> ident list \<Rightarrow> db_state
    \<Rightarrow> (rpc_error + delete_answer) \<times> db_state" where
  "rpc_DeleteMemories cfg env ctx ids0 s =
     (let ids = DedupeIds ids0
      in if ids = [] then (Inr \<lparr>da_ok = False, da_unindexed = []\<rparr>, s)
         else case scopeIds memoryKind env ctx ids s of
                Inl e \<Rightarrow> (Inl e, s)
              | Inr _ \<Rightarrow>
                  (case write_fails env of
                     Some e \<Rightarrow> (Inl (mapError e), s)
                   | None \<Rightarrow> (let (cnt, s') = deleteMemoriesByIdsOnce cfg (rpc_now env) ids s
                              in (Inr \<lparr>da_ok = (cnt = length ids), da_unindexed = ids\<rparr>, s'))))"

definition mayReinforce :: "bool \<Rightarrow> request_ctx \<Rightarrow> bool" where
  "mayReinforce readerRecallReinforces ctx =
     (case ctx_tier ctx of None \<Rightarrow> True | Some t \<Rightarrow> if t \<ge> TierWriter then True else readerRecallReinforces)"

definition GetMemoriesByIds :: "ident list \<Rightarrow> db_state \<Rightarrow> memory_row list" where
  "GetMemoriesByIds ids s = concat (map (\<lambda>chunk. filter (\<lambda>r. m_id r \<in> set chunk) (memories s)) (chunks deleteChunkSize ids))"

definition reinforceLinked :: "rpc_env \<Rightarrow> real \<Rightarrow> ident list \<Rightarrow> db_state \<Rightarrow> db_state" where
  "reinforceLinked env propagation ids s =
     (if propagation \<le> 0 \<or> ids = [] \<or> linked_fails env then s
      else let linked = linkedIds ids (memory_links s)
           in if linked = [] then s
              else s\<lparr>memories := ReinforceLinkedMemories (rpc_now env) linked propagation (memories s)\<rparr>)"

definition linkedMemories :: "rpc_env \<Rightarrow> request_ctx \<Rightarrow> ident list \<Rightarrow> db_state \<Rightarrow> memory_row list" where
  "linkedMemories env ctx ids s =
     (if ids = [] \<or> linked_fails env then []
      else let linked = linkedIds ids (memory_links s)
           in if linked = [] \<or> read_fails env then [] else filterMemoriesToScope ctx (GetMemoriesByIds linked s))"

record recall_config =
  rc_propagation :: real
  rc_reader_reinforces :: bool

definition rpc_RecallMemories :: "recall_config \<Rightarrow> rpc_env \<Rightarrow> request_ctx \<Rightarrow> ident list \<Rightarrow> bool \<Rightarrow> db_state
    \<Rightarrow> (rpc_error + memory_row list) \<times> db_state" where
  "rpc_RecallMemories rc env ctx ids includeLinked s =
     (if ids = [] then (Inr [], s)
      else case scopeIds memoryKind env ctx ids s of
             Inl e \<Rightarrow> (Inl e, s)
           | Inr _ \<Rightarrow>
               (case write_fails env of
                  Some e \<Rightarrow> (Inl (mapError e), s)
                | None \<Rightarrow>
                    (let reinforce = mayReinforce (rc_reader_reinforces rc) ctx;
                         (ms, s1) = (if reinforce then RecallMemories (rpc_now env) ids s else (GetMemoriesByIds ids s, s));
                         s2 = (if reinforce then reinforceLinked env (rc_propagation rc) ids s1 else s1)
                     in (Inr (ms @ (if includeLinked then linkedMemories env ctx ids s2 else [])), s2))))"

section \<open>Links\<close>

definition MaxLinks :: nat where "MaxLinks = 128"

definition maxLinkIdLength :: nat where "maxLinkIdLength = 128"

definition MaxLinkSignificance :: int where "MaxLinkSignificance = 1000000"

fun valid_links :: "ident \<Rightarrow> ident list \<Rightarrow> Link list \<Rightarrow> bool" where
  "valid_links owner seen [] \<longleftrightarrow> True"
| "valid_links owner seen (l # ls) \<longleftrightarrow>
     \<not> (Id l = [] \<or> length (Id l) > maxLinkIdLength \<or> owner \<noteq> [] \<and> Id l = owner \<or> Id l \<in> set seen
        \<or> LinkSig l < 0 \<or> LinkSig l > MaxLinkSignificance) \<and> valid_links owner (Id l # seen) ls"

definition ValidateLinks :: "Link list \<Rightarrow> ident \<Rightarrow> bool" where
  "ValidateLinks links owner \<longleftrightarrow> length links \<le> MaxLinks \<and> valid_links owner [] links"

definition checkLinkCapacity :: "'r linkKind \<Rightarrow> rpc_env \<Rightarrow> ident \<Rightarrow> Link list \<Rightarrow> db_state \<Rightarrow> rpc_error + unit" where
  "checkLinkCapacity k env i links s =
     (if get_fails env then Inl Internal
      else let hs = remdups (map edge_id (fst (getLinks (lk_graph k) i LinkDirectionBoth (lk_tables k s))));
               tot = length hs + length (filter (\<lambda>l. Id l \<notin> set hs) links)
           in if tot > MaxLinks then Inl InvalidArgument else Inr ())"

definition rpc_createLinks :: "'r linkKind \<Rightarrow> rpc_env \<Rightarrow> request_ctx \<Rightarrow> ident \<Rightarrow> Link list \<Rightarrow> db_state
    \<Rightarrow> (rpc_error + bool) \<times> db_state" where
  "rpc_createLinks k env ctx i links s =
     (if i = [] \<or> links = [] \<or> \<not> ValidateLinks links i then (Inl InvalidArgument, s)
      else let ids = i # map Id links
           in case scopeIds k env ctx ids s of
                Inl e \<Rightarrow> (Inl e, s)
              | Inr _ \<Rightarrow>
                  (case missingIds k env ids s of
                     Inl e \<Rightarrow> (Inl (mapError e), s)
                   | Inr missing \<Rightarrow>
                       if missing \<noteq> [] then (Inl (NotFound missing), s)
                       else case checkLinkCapacity k env i links s of
                              Inl e \<Rightarrow> (Inl e, s)
                            | Inr _ \<Rightarrow>
                                (case write_fails env of
                                   Some e \<Rightarrow> (Inl (mapError e), s)
                                 | None \<Rightarrow> (Inr True, lk_put k (createLinksOnce (lk_graph k) i (rpc_now env) links (lk_tables k s)) s))))"

definition rpc_removeLinks :: "'r linkKind \<Rightarrow> rpc_env \<Rightarrow> request_ctx \<Rightarrow> ident \<Rightarrow> ident list \<Rightarrow> db_state
    \<Rightarrow> (rpc_error + bool) \<times> db_state" where
  "rpc_removeLinks k env ctx i targets s =
     (if i = [] \<or> targets = [] then (Inl InvalidArgument, s)
      else case scopeIds k env ctx [i] s of
             Inl e \<Rightarrow> (Inl e, s)
           | Inr _ \<Rightarrow>
               (case missingIds k env [i] s of
                  Inl e \<Rightarrow> (Inl (mapError e), s)
                | Inr missing \<Rightarrow>
                    if missing \<noteq> [] then (Inl (NotFound [i]), s)
                    else case idsOutsideScope k env ctx (DedupeIds targets) s of
                           Inl e \<Rightarrow> (Inl (mapError e), s)
                         | Inr outside \<Rightarrow>
                             (let remaining = filter (\<lambda>j. j \<notin> set outside) (DedupeIds targets)
                              in if remaining = [] then (Inr True, s)
                                 else case write_fails env of
                                        Some e \<Rightarrow> (Inl (mapError e), s)
                                      | None \<Rightarrow> (Inr True, lk_put k (deleteLinks (lk_graph k) i remaining (lk_tables k s)) s))))"

definition filterEdgesToScope :: "'r linkKind \<Rightarrow> rpc_env \<Rightarrow> request_ctx \<Rightarrow> LinkEdge list \<Rightarrow> db_state \<Rightarrow> write_error + LinkEdge list" where
  "filterEdgesToScope k env ctx edges s =
     (if GroupsFromContext ctx = None \<or> edges = [] then Inr edges
      else case idsOutsideScope k env ctx (map edge_id edges) s of
             Inl e \<Rightarrow> Inl e
           | Inr outside \<Rightarrow> Inr (filter (\<lambda>e. edge_id e \<notin> set outside) edges))"

definition rpc_readLinks :: "'r linkKind \<Rightarrow> rpc_env \<Rightarrow> request_ctx \<Rightarrow> ident \<Rightarrow> LinkDirection \<Rightarrow> db_state
    \<Rightarrow> rpc_error + LinkEdge list \<times> int" where
  "rpc_readLinks k env ctx i direction s =
     (if i = [] then Inl InvalidArgument
      else case scopeIds k env ctx [i] s of
             Inl e \<Rightarrow> Inl e
           | Inr _ \<Rightarrow>
               (case missingIds k env [i] s of
                  Inl e \<Rightarrow> Inl (mapError e)
                | Inr missing \<Rightarrow>
                    if missing \<noteq> [] then Inl (NotFound [i])
                    else if get_fails env then Inl Internal
                    else let (edges, tot) = getLinks (lk_graph k) i direction (lk_tables k s)
                         in case filterEdgesToScope k env ctx edges s of
                              Inl e \<Rightarrow> Inl (mapError e)
                            | Inr kept \<Rightarrow> Inr (kept, tot)))"

section \<open>The tables agree\<close>

text \<open>Every RPC that has a tier has a scope and the other way round, under the same name.\<close>

lemma tables_name_the_same_rpcs: "map_of scopes m \<noteq> None \<longleftrightarrow> HasPolicy m"
proof -
  have "list_all (\<lambda>x. x \<in> set (map fst policies)) (map fst scopes)" "list_all (\<lambda>x. x \<in> set (map fst scopes)) (map fst policies)"
    by code_simp+
  then have "fst ` set scopes = fst ` set policies" by (auto simp only: list_all_iff set_map)
  then show ?thesis by (metis HasPolicy_def map_of_eq_None_iff)
qed

section \<open>What a scope lets through\<close>

text \<open>The ids a caller bound to \<open>groups\<close> can see.\<close>

definition visible :: "'r linkKind \<Rightarrow> string list \<Rightarrow> db_state \<Rightarrow> ident set" where
  "visible k groups s = lk_key k ` {r \<in> set (lk_rows k s). lk_group k r \<in> set groups}"

lemma scan_in_scope:
  "set (fold (\<lambda>chunk found. found @ map (lk_key k) (filter (\<lambda>r. lk_key k r \<in> set chunk \<and> P r) rows)) cs acc)
   = set acc \<union> {i. i \<in> set (concat cs) \<and> (\<exists>r \<in> set rows. lk_key k r = i \<and> P r)}"
  by (induction cs arbitrary: acc) auto

lemma idsOutsideGroups_eq:
  assumes "groups \<noteq> []"
  shows "idsOutsideGroups k ids groups s = filter (\<lambda>i. i \<notin> visible k groups s) ids"
proof (cases "ids = []")
  case False
  have "set (fold (\<lambda>chunk found. found @ map (lk_key k) (filter (\<lambda>r. lk_key k r \<in> set chunk \<and> lk_group k r \<in> set groups) (lk_rows k s)))
      (chunks deleteChunkSize ids) []) = {i. i \<in> set ids \<and> i \<in> visible k groups s}"
    unfolding scan_in_scope by (auto simp: visible_def simp del: set_concat)
  with False assms show ?thesis unfolding idsOutsideGroups_def Let_def by (auto intro: filter_cong)
qed (simp add: idsOutsideGroups_def)

lemma bound_groups: "GroupsFromContext ctx = Some groups \<Longrightarrow> groups \<noteq> []"
  by (auto simp: GroupsFromContext_def split: option.splits if_splits)

lemma scopeIds_bound:
  assumes "GroupsFromContext ctx = Some groups"
  shows "scopeIds k env ctx ids s =
    (if ids = [] then Inr ()
     else if scope_fails env then Inl Internal
     else let outside = filter (\<lambda>i. i \<notin> visible k groups s) ids in if outside \<noteq> [] then Inl (NotFound outside) else Inr ())"
  using assms idsOutsideGroups_eq [OF bound_groups [OF assms], of k ids s] by (simp add: scopeIds_def mapError_def)

lemma scopeIds_ok:
  assumes "GroupsFromContext ctx = Some groups" "scopeIds k env ctx ids s = Inr ()"
  shows "set ids \<subseteq> visible k groups s"
  using assms by (auto simp: scopeIds_bound Let_def filter_empty_conv split: if_splits)

lemma idsOutsideScope_bound:
  assumes "GroupsFromContext ctx = Some groups" "idsOutsideScope k env ctx ids s = Inr outside"
  shows "outside = filter (\<lambda>i. i \<notin> visible k groups s) ids"
  using assms idsOutsideGroups_eq [OF bound_groups [OF assms(1)], of k ids s]
  by (auto simp: idsOutsideScope_def split: if_splits)

text \<open>
  C34. A refusal is no oracle: the answer a bound caller gets for the ids it names depends on nothing but
  which of them it can see. Two stores with the same visible records answer alike, whether the
  other ids name another group's record or none at all.
\<close>

theorem scope_refusal_is_no_oracle:
  assumes "GroupsFromContext ctx = Some groups" "visible k groups s = visible k groups s'"
  shows "scopeIds k env ctx ids s = scopeIds k env ctx ids s'
    \<and> (scopeIds k env ctx ids s = Inr () \<longrightarrow> set ids \<subseteq> visible k groups s)"
  using assms by (auto simp: scopeIds_bound Let_def filter_empty_conv)

text \<open>
  A write lands where its writer can read it: the group a bound caller's write is stamped with is
  always one of its own, a sole group is filled in, several are never chosen between, and an
  unbound caller gets what it asked for.
\<close>

theorem write_group_is_own:
  "case GroupsFromContext ctx of
     None \<Rightarrow> writeGroup ctx requested = Inr requested
   | Some groups \<Rightarrow>
       (case writeGroup ctx requested of
          Inr g \<Rightarrow> g \<in> set groups \<and> (requested = g \<or> requested = [] \<and> groups = [g])
        | Inl e \<Rightarrow> e = InvalidArgument \<and> requested = [] \<and> length groups > 1 \<or> e = PermissionDenied \<and> requested \<notin> set groups)"
proof (cases "GroupsFromContext ctx")
  case (Some groups)
  then show ?thesis using bound_groups [OF Some]
    by (cases groups) (auto simp: writeGroup_def GroupInScope_def)
qed (simp add: writeGroup_def)

lemma visible_memory: "i \<in> visible memoryKind groups s \<longleftrightarrow> (\<exists>r \<in> set (memories s). m_id r = i \<and> m_group r \<in> set groups)"
  by (auto simp: visible_def memoryKind_def lk_key_def)

lemma distinct_visible:
  assumes "keys_ok s" "r \<in> set (memories s)" "m_group r \<notin> set groups"
  shows "m_id r \<notin> visible memoryKind groups s"
  using assms by (auto simp: visible_memory keys_ok_def distinct_map dest: inj_onD)

lemma pruneLinks_sans: "map sans_links (snd (pruneLinks memoryGraph ids t)) = map sans_links (snd t)"
  by (simp add: mem_graph.pruneLinks_rows) (simp add: memoryGraph_def sans_links_def)

text \<open>
  C35. A bound caller's delete stays in its groups. Whatever ids it names, every memory of another group
  is still there, unchanged but for the aggregate of links that went with the caller's own
  memories; and if one of the ids is not the caller's, nothing happens at all.
\<close>

theorem scoped_delete_stays_in_scope:
  assumes "store_ok s" "GroupsFromContext ctx = Some groups" "rpc_DeleteMemories cfg env ctx ids s = (res, s')"
    and "r \<in> set (memories s)" "m_group r \<notin> set groups"
  shows "(\<exists>r' \<in> set (memories s'). sans_links r' = sans_links r)
    \<and> (m_id r \<in> set ids \<longrightarrow> s' = s \<and> (scope_fails env \<or> res = Inl (NotFound (filter (\<lambda>i. i \<notin> visible memoryKind groups s) (DedupeIds ids)))))"
proof -
  have k: "keys_ok s" using assms(1) by (simp add: store_ok_def)
  have r: "m_id r \<notin> visible memoryKind groups s" by (rule distinct_visible [OF k assms(4,5)])
  have D: "set (DedupeIds ids) = set ids" "DedupeIds ids = [] \<longleftrightarrow> ids = []"
    using DedupeIds_props(1) [of ids] by (auto simp flip: set_empty)
  show ?thesis
  proof (cases "scopeIds memoryKind env ctx (DedupeIds ids) s = Inr () \<and> DedupeIds ids \<noteq> [] \<and> write_fails env = None")
    case False
    then have "s' = s" using assms(3) by (auto simp: rpc_DeleteMemories_def Let_def split: sum.splits option.splits if_splits)
    moreover have "scope_fails env \<or> res = Inl (NotFound (filter (\<lambda>i. i \<notin> visible memoryKind groups s) (DedupeIds ids)))"
      if "m_id r \<in> set ids"
      using assms(3) that r D by (auto simp: rpc_DeleteMemories_def scopeIds_bound [OF assms(2)] Let_def filter_empty_conv split: if_splits)
    ultimately show ?thesis using assms(4) by blast
  next
    case True
    then have sub: "set ids \<subseteq> visible memoryKind groups s" using scopeIds_ok [OF assms(2)] D(1) by metis
    obtain cnt where c: "deleteMemoriesByIdsOnce cfg (rpc_now env) (DedupeIds ids) s = (cnt, s')"
      using True assms(3) by (auto simp: rpc_DeleteMemories_def Let_def split: prod.splits)
    have "DedupeIds ids \<noteq> []" using True by blast
    note E = deleteMemoriesByIdsOnce_effect(1) [OF this c]
    have "map sans_links (memories s') = map sans_links (filter (\<lambda>r. m_id r \<notin> set (DedupeIds ids)) (memories s))"
      unfolding E pruneLinks_sans by simp
    moreover have "m_id r \<notin> set ids" using sub r by blast
    ultimately have "sans_links r \<in> set (map sans_links (memories s'))" using assms(4) D(1) by auto
    then show ?thesis using \<open>m_id r \<notin> set ids\<close> by force
  qed
qed

section \<open>Recall\<close>

lemma reinforceLinked_rows:
  "\<exists>f. memories (reinforceLinked env p ids s) = map f (memories s) \<and> (\<forall>r. f r = r\<lparr>m_time_recalled := m_time_recalled (f r)\<rparr>
     \<and> (p \<le> 0 \<or> m_id r \<notin> set (linkedIds ids (memory_links s)) \<longrightarrow> f r = r))"
proof (cases "p \<le> 0 \<or> ids = [] \<or> linked_fails env \<or> linkedIds ids (memory_links s) = []")
  case True
  then have "reinforceLinked env p ids s = s" by (auto simp: reinforceLinked_def Let_def)
  then show ?thesis by (intro exI [of _ id]) simp
next
  case False
  let ?f = "reinforced (rpc_now env) (fst (fractionRatio (if p > 1 then 1 else p))) (linkedIds ids (memory_links s))"
  have "memories (reinforceLinked env p ids s) = map ?f (memories s)"
    using False by (simp add: reinforceLinked_def Let_def ReinforceLinkedMemories_eq linkedIds_distinct)
  then show ?thesis using False by (intro exI [of _ ?f]) (auto simp: reinforced_def Let_def)
qed

lemma GetMemoriesByIds_set: "set (GetMemoriesByIds ids s) = {r \<in> set (memories s). m_id r \<in> set ids}"
proof -
  have "set (concat (map (\<lambda>chunk. filter (\<lambda>r. m_id r \<in> set chunk) rows) cs)) = {r \<in> set rows. m_id r \<in> set (concat cs)}" for cs rows
    by (induction cs) auto
  from this [of "memories s" "chunks deleteChunkSize ids"] show ?thesis by (simp add: GetMemoriesByIds_def del: set_concat)
qed

lemma RecallMemories_answer:
  "\<forall>m \<in> set (fst (RecallMemories now ids s)). \<exists>r \<in> set (memories s). m_id r = m_id m \<and> m_group r = m_group m \<and> m_id r \<in> set ids"
proof -
  let ?step = "\<lambda>chunk (out, s :: db_state). (let rows = recall_chunk now (lockOrderedIDs chunk) (memories s)
          in (out @ filter (\<lambda>r. m_id r \<in> set chunk) rows, s\<lparr>memories := rows\<rparr>))"
  have "\<forall>m \<in> set (fst (fold ?step cs (out, u))). m \<in> set out
      \<or> (\<exists>r \<in> set (memories u). m_id r = m_id m \<and> m_group r = m_group m \<and> m_id r \<in> set (concat cs))" for cs out and u :: db_state
  proof (induction cs arbitrary: out u)
    case (Cons c cs)
    let ?rows = "recall_chunk now (lockOrderedIDs c) (memories u)"
    have src: "\<exists>r \<in> set (memories u). m_id r = m_id q \<and> m_group r = m_group q" if "q \<in> set ?rows" for q
      using that by (auto simp: recall_chunk_def recall_row_def split: if_splits)
    show ?case
      using Cons.IH [of "out @ filter (\<lambda>r. m_id r \<in> set c) ?rows" "u\<lparr>memories := ?rows\<rparr>"] src by (fastforce simp: Let_def)
  qed simp
  from this [of "chunks deleteChunkSize (DedupeIds ids)" "[]" s] show ?thesis
    by (simp add: RecallMemories_def DedupeIds_props del: set_concat)
qed

text \<open>
  A bound caller's recall shows it only its own memories, linked ones included, and of another
  group's memories it can move at most the decay clock, and that only by spreading activation, on
  a memory one link away from one it recalled. (It can move that: see the lemma below.)
\<close>

theorem scoped_recall_stays_in_scope:
  assumes "store_ok s" "GroupsFromContext ctx = Some groups"
    and "rpc_RecallMemories rc env ctx ids includeLinked s = (res, s')"
  shows "(\<forall>ms. res = Inr ms \<longrightarrow> (\<forall>m \<in> set ms. m_group m \<in> set groups))
    \<and> (\<forall>r \<in> set (memories s). m_group r \<notin> set groups
         \<longrightarrow> (\<exists>r' \<in> set (memories s'). r' = r\<lparr>m_time_recalled := m_time_recalled r'\<rparr>
               \<and> (r' = r \<or> 0 < rc_propagation rc \<and> m_id r \<in> set (linkedIds ids (memory_links s)))))"
proof (cases "ids \<noteq> [] \<and> scopeIds memoryKind env ctx ids s = Inr () \<and> write_fails env = None")
  case False
  then have "s' = s" "\<forall>ms. res = Inr ms \<longrightarrow> ms = []"
    using assms(3) by (auto simp: rpc_RecallMemories_def Let_def split: sum.splits option.splits if_splits)
  then have "\<forall>ms. res = Inr ms \<longrightarrow> (\<forall>m \<in> set ms. m_group m \<in> set groups)" by auto
  moreover have "\<exists>r' \<in> set (memories s'). r' = r\<lparr>m_time_recalled := m_time_recalled r'\<rparr> \<and> r' = r" if "r \<in> set (memories s)" for r
    using that \<open>s' = s\<close> by (intro bexI [of _ r]) simp_all
  ultimately show ?thesis by blast
next
  case True
  have k: "keys_ok s" using assms(1) by (simp add: store_ok_def)
  have sub: "set ids \<subseteq> visible memoryKind groups s" using True scopeIds_ok [OF assms(2)] by blast
  define first where "first = (if mayReinforce (rc_reader_reinforces rc) ctx then RecallMemories (rpc_now env) ids s else (GetMemoriesByIds ids s, s))"
  define s2 where "s2 = (if mayReinforce (rc_reader_reinforces rc) ctx then reinforceLinked env (rc_propagation rc) ids (snd first) else snd first)"
  have run: "res = Inr (fst first @ (if includeLinked then linkedMemories env ctx ids s2 else []))" "s' = s2"
    using True assms(3) by (auto simp: rpc_RecallMemories_def Let_def first_def s2_def split_beta split: if_splits)
  have own: "m_group r \<in> set groups" if "r \<in> set (memories s)" "m_id r \<in> set ids" for r
    using that sub distinct_visible [OF k that(1)] by blast
  have "m_group m \<in> set groups" if "m \<in> set (fst first)" for m
    using that own RecallMemories_answer [of "rpc_now env" ids s] by (fastforce simp: first_def GetMemoriesByIds_set split: if_splits)
  moreover have "m_group m \<in> set groups" if "m \<in> set (linkedMemories env ctx ids s2)" for m
    using that bound_groups [OF assms(2)]
    by (auto simp: linkedMemories_def Let_def filterMemoriesToScope_def assms(2) GroupInScope_def split: if_splits)
  moreover have "\<exists>r' \<in> set (memories s'). r' = r\<lparr>m_time_recalled := m_time_recalled r'\<rparr>
      \<and> (r' = r \<or> 0 < rc_propagation rc \<and> m_id r \<in> set (linkedIds ids (memory_links s)))"
    if r: "r \<in> set (memories s)" "m_group r \<notin> set groups" for r
  proof -
    have "m_id r \<notin> set ids" using own r by blast
    then have 1: "r \<in> set (memories (snd first))"
      using r(1) RecallMemories_rows(1) [of "rpc_now env" ids s] by (auto simp: first_def intro: rev_image_eqI)
    have 2: "memory_links (snd first) = memory_links s"
      using arg_cong [OF RecallMemories_rows(2) [of "rpc_now env" ids s], of memory_links] by (simp add: first_def)
    obtain f where f: "memories (reinforceLinked env (rc_propagation rc) ids (snd first)) = map f (memories (snd first))"
      "f r = r\<lparr>m_time_recalled := m_time_recalled (f r)\<rparr>"
      "rc_propagation rc \<le> 0 \<or> m_id r \<notin> set (linkedIds ids (memory_links s)) \<longrightarrow> f r = r"
      using reinforceLinked_rows [of env "rc_propagation rc" ids "snd first"] 2 by metis
    have "memories s' = (if mayReinforce (rc_reader_reinforces rc) ctx then map f (memories (snd first)) else memories (snd first))"
      by (simp add: run(2) s2_def f(1))
    moreover have "r = r\<lparr>m_time_recalled := m_time_recalled r\<rparr>" by simp
    ultimately show ?thesis
      using f(2,3) 1 by (cases "mayReinforce (rc_reader_reinforces rc) ctx") (auto simp: not_le [symmetric] intro!: bexI [of _ "f r"] bexI [of _ r])
  qed
  ultimately show ?thesis using run(1) by auto
qed

section \<open>Linking across the boundary\<close>

definition neighbours :: "ident \<Rightarrow> link_row list \<Rightarrow> ident set" where
  "neighbours i ls = {j. \<exists>l \<in> set ls. from_id l = i \<and> to_id l = j \<or> to_id l = i \<and> from_id l = j}"

lemma edges_are_neighbours: "edge_id ` set (fst (getLinks g i LinkDirectionBoth t)) = neighbours i (fst t)"
  by (force simp: getLinks_def Let_def outbound_def inbound_def neighbours_def image_iff)

lemma neighbours_keys: "neighbours i ls = {j. (i, j) \<in> link_key ` set ls \<or> (j, i) \<in> link_key ` set ls}"
  by (auto simp: neighbours_def link_key_def image_iff)

lemma upsert_links_keys: "link_key ` set (upsert_links i now links ls) = link_key ` set ls \<union> (\<lambda>l. (i, Id l)) ` set links"
proof (induction links rule: rev_induct)
  case (snoc l links)
  have "link_key ` set (upsert_links i now (links @ [l]) ls) = insert (i, Id l) (link_key ` set (upsert_links i now links ls))"
    using arg_cong [OF linkUpsert_keys [of i "Id l" "LinkSig l" now "upsert_links i now links ls"], of set]
    by (auto simp: upsert_links_snoc)
  with snoc show ?case by auto
qed (simp add: upsert_links_def)

lemma upsert_neighbours:
  "neighbours j (upsert_links i now links ls) = neighbours j ls \<union> {k. j = i \<and> k \<in> Id ` set links} \<union> {k. k = i \<and> j \<in> Id ` set links}"
  by (auto simp: neighbours_keys upsert_links_keys image_iff)

lemma unlink_keeps:
  "set (fst (deleteLinks g i targets t)) \<supseteq> {l \<in> set (fst t). \<not> (from_id l = i \<and> to_id l \<in> set targets \<or> to_id l = i \<and> from_id l \<in> set targets)}"
proof -
  have "fold (\<lambda>chunk ls. filter (\<lambda>l. \<not> between i chunk l) ls) cs ls = filter (\<lambda>l. \<forall>c \<in> set cs. \<not> between i c l) ls" for cs ls
    by (induction cs arbitrary: ls) (auto intro: filter_cong)
  moreover have "set c \<subseteq> set targets" if "c \<in> set (chunks deleteChunkSize targets)" for c
    using that concat_chunks [OF deleteChunkSize_pos, of targets] by (metis UN_upper set_concat)
  ultimately show ?thesis by (auto simp: deleteLinks_def Let_def between_def)
qed

text \<open>
  Links keep to the partition as far as a bound caller can tell: it can only join records it sees, the
  edges it is shown are exactly those of the item whose far end it sees, and an unlink leaves every
  link with an end it cannot see where it was.
\<close>

theorem scoped_links_stay_in_scope:
  assumes "GroupsFromContext ctx = Some groups"
  shows "(rpc_createLinks k env ctx i links s = (Inr b, s') \<longrightarrow> insert i (Id ` set links) \<subseteq> visible k groups s)
    \<and> (rpc_readLinks k env ctx i direction s = Inr (edges, tot) \<longrightarrow>
         edges = filter (\<lambda>e. edge_id e \<in> visible k groups s) (fst (getLinks (lk_graph k) i direction (lk_tables k s))))
    \<and> (\<forall>l \<in> set (memory_links s). from_id l \<notin> visible memoryKind groups s \<or> to_id l \<notin> visible memoryKind groups s
         \<longrightarrow> l \<in> set (memory_links (snd (rpc_removeLinks memoryKind env ctx i targets s))))"
proof (intro conjI impI ballI)
  assume "rpc_createLinks k env ctx i links s = (Inr b, s')"
  then have "scopeIds k env ctx (i # map Id links) s = Inr ()"
    by (auto simp: rpc_createLinks_def Let_def split: if_splits sum.splits option.splits)
  from scopeIds_ok [OF assms this] show "insert i (Id ` set links) \<subseteq> visible k groups s" by simp
next
  assume "rpc_readLinks k env ctx i direction s = Inr (edges, tot)"
  then have f: "filterEdgesToScope k env ctx (fst (getLinks (lk_graph k) i direction (lk_tables k s))) s = Inr edges"
    by (auto simp: rpc_readLinks_def Let_def split_beta split: if_splits sum.splits)
  let ?edges = "fst (getLinks (lk_graph k) i direction (lk_tables k s))"
  show "edges = filter (\<lambda>e. edge_id e \<in> visible k groups s) ?edges"
  proof (cases "?edges = []")
    case False
    then obtain outside where o: "idsOutsideScope k env ctx (map edge_id ?edges) s = Inr outside" "edges = filter (\<lambda>e. edge_id e \<notin> set outside) ?edges"
      using f assms by (auto simp: filterEdgesToScope_def split: sum.splits)
    show ?thesis unfolding o(2) idsOutsideScope_bound [OF assms o(1)] by (auto intro!: filter_cong)
  qed (use f in \<open>simp add: filterEdgesToScope_def\<close>)
next
  fix l assume l: "l \<in> set (memory_links s)" "from_id l \<notin> visible memoryKind groups s \<or> to_id l \<notin> visible memoryKind groups s"
  show "l \<in> set (memory_links (snd (rpc_removeLinks memoryKind env ctx i targets s)))"
  proof (cases "snd (rpc_removeLinks memoryKind env ctx i targets s) = s")
    case False
    then obtain outside where i: "scopeIds memoryKind env ctx [i] s = Inr ()"
      and o: "idsOutsideScope memoryKind env ctx (DedupeIds targets) s = Inr outside"
      and s': "snd (rpc_removeLinks memoryKind env ctx i targets s)
        = lk_put memoryKind (deleteLinks memoryGraph i (filter (\<lambda>j. j \<notin> set outside) (DedupeIds targets)) (mem_tables s)) s"
      by (auto simp: rpc_removeLinks_def Let_def memoryKind_def split: if_splits sum.splits option.splits)
    let ?rem = "filter (\<lambda>j. j \<notin> set outside) (DedupeIds targets)"
    have "set ?rem \<subseteq> visible memoryKind groups s" using idsOutsideScope_bound [OF assms o] by auto
    moreover have "i \<in> visible memoryKind groups s" using scopeIds_ok [OF assms i] by simp
    ultimately have "\<not> (from_id l = i \<and> to_id l \<in> set ?rem \<or> to_id l = i \<and> from_id l \<in> set ?rem)" using l(2) by blast
    then have "l \<in> set (fst (deleteLinks memoryGraph i ?rem (mem_tables s)))"
      using l(1) unlink_keeps [where t = "mem_tables s" and g = memoryGraph and i = i and targets = ?rem] by (auto simp: store_link_defs)
    moreover have "memory_links (lk_put memoryKind t s) = fst t" for t by (simp add: memoryKind_def store_link_defs)
    ultimately show ?thesis by (simp only: s')
  qed (use l in simp)
qed

text \<open>
  No item takes on more links than the cap by its own doing: after a link request the item it was made
  for has at most \<^verbatim>\<open>MaxLinks\<close> neighbours, re-weighting an existing link is never refused for capacity,
  and the new neighbours are exactly the old ones and the ones named.
\<close>

theorem link_cap_holds_for_the_near_end:
  assumes "rpc_createLinks memoryKind env ctx i links s = (Inr b, s')"
  shows "card (neighbours i (memory_links s')) \<le> MaxLinks
    \<and> neighbours i (memory_links s') = neighbours i (memory_links s) \<union> Id ` set links"
proof -
  let ?hs = "remdups (map edge_id (fst (getLinks memoryGraph i LinkDirectionBoth (mem_tables s))))"
  have ok: "checkLinkCapacity memoryKind env i links s = Inr ()" "ValidateLinks links i" "i \<noteq> []"
    and s': "s' = lk_put memoryKind (createLinksOnce memoryGraph i (rpc_now env) links (mem_tables s)) s"
    using assms by (auto simp: rpc_createLinks_def Let_def memoryKind_def split: if_splits sum.splits option.splits)
  have "memory_links s' = upsert_links i (rpc_now env) links (memory_links s)"
    by (simp add: s' memoryKind_def store_link_defs createLinksOnce_def Let_def)
  moreover have "i \<notin> Id ` set links"
  proof -
    have "valid_links i seen ls \<Longrightarrow> i \<notin> Id ` set ls" for seen ls using ok(3) by (induction i seen ls rule: valid_links.induct) auto
    then show ?thesis using ok(2) by (auto simp: ValidateLinks_def)
  qed
  ultimately have n: "neighbours i (memory_links s') = neighbours i (memory_links s) \<union> Id ` set links" by (auto simp: upsert_neighbours)
  have hs: "set ?hs = neighbours i (memory_links s)"
    using edges_are_neighbours [of memoryGraph i "mem_tables s"] by (simp add: store_link_defs)
  have "length ?hs + length (filter (\<lambda>l. Id l \<notin> set ?hs) links) \<le> MaxLinks"
    using ok(1) by (auto simp: checkLinkCapacity_def memoryKind_def Let_def split: if_splits)
  moreover have "neighbours i (memory_links s') = set ?hs \<union> Id ` set (filter (\<lambda>l. Id l \<notin> set ?hs) links)" using n hs by auto
  moreover have "card (set as \<union> Id ` set bs) \<le> length as + length bs" for as and bs :: "Link list"
    by (intro order_trans [OF card_Un_le add_mono] card_length order_trans [OF card_image_le [OF finite_set] card_length])
  ultimately have "card (neighbours i (memory_links s')) \<le> MaxLinks" by (simp only:) (rule order_trans)
  then show ?thesis using n by simp
qed

text \<open>
  The cap is not enforced for the far ends, though an inbound link costs what an outbound one does: an
  item that already holds any number of links gains one more whenever another item, with room of
  its own, links to it.
\<close>

lemma far_end_cap_unchecked:
  assumes "rpc_createLinks memoryKind env ctx i [l] s = (Inr b, s')" "i \<notin> neighbours (Id l) (memory_links s)"
  shows "neighbours (Id l) (memory_links s') = insert i (neighbours (Id l) (memory_links s)) \<and> checkLinkCapacity memoryKind env i [l] s = Inr ()"
proof -
  have "i \<noteq> Id l" "checkLinkCapacity memoryKind env i [l] s = Inr ()" "s' = lk_put memoryKind (createLinksOnce memoryGraph i (rpc_now env) [l] (mem_tables s)) s"
    using assms(1) by (auto simp: rpc_createLinks_def Let_def memoryKind_def ValidateLinks_def split: if_splits sum.splits option.splits)
  then show ?thesis
    by (auto simp: memoryKind_def store_link_defs createLinksOnce_def Let_def upsert_neighbours)
qed

section \<open>Import\<close>

definition stored :: "'r linkKind \<Rightarrow> db_state \<Rightarrow> ident set" where
  "stored k s = lk_key k ` set (lk_rows k s)"

lemma missing_stored:
  "missingIds memoryKind env ids s = Inr absent \<Longrightarrow> set absent = set ids - stored memoryKind s"
  "missingIds eventKind env ids s = Inr absent \<Longrightarrow> set absent = set ids - stored eventKind s"
  by (auto simp: missingIds_def memoryKind_def eventKind_def stored_def lk_key_def mem_graph.MissingIds_iff ev_graph.MissingIds_iff
      split: if_splits)

lemma heldOutsideScope_bound:
  assumes "GroupsFromContext ctx = Some groups"
    and "\<And>ids absent. missingIds k env ids s = Inr absent \<Longrightarrow> set absent = set ids - stored k s"
    and "heldOutsideScope k env ctx ids s = Inr hs"
  shows "set hs = (set ids \<inter> stored k s) - visible k groups s"
proof -
  obtain outside where o: "idsOutsideScope k env ctx ids s = Inr outside"
    and h: "outside = [] \<and> hs = [] \<or> (\<exists>absent. missingIds k env outside s = Inr absent \<and> hs = filter (\<lambda>i. i \<notin> set absent) outside)"
    using assms(3) by (auto simp: heldOutsideScope_def split: sum.splits if_splits)
  have "set outside = set ids - visible k groups s" using idsOutsideScope_bound [OF assms(1) o] by auto
  then show ?thesis using h assms(2) by auto
qed

text \<open>
  An import takes over nobody's record: a batch the scope check lets through names no event and no
  memory that is stored under a group the caller does not hold, nor an event of such a group as the
  event of one of its memories. An id nobody holds is free to use.
\<close>

theorem import_replaces_only_own_records:
  assumes "GroupsFromContext ctx = Some groups" "scopeImport env ctx eventIds mems s = Inr ()"
  shows "set eventIds \<inter> stored eventKind s \<subseteq> visible eventKind groups s
    \<and> set (map fst mems) \<inter> stored memoryKind s \<subseteq> visible memoryKind groups s
    \<and> (set (map snd mems) - {[]}) \<inter> stored eventKind s \<subseteq> visible eventKind groups s"
proof -
  from assms obtain hs hm he where
    "heldOutsideScope eventKind env ctx eventIds s = Inr hs" "hs = []"
    "heldOutsideScope memoryKind env ctx (map fst mems) s = Inr hm" "hm = []"
    "heldOutsideScope eventKind env ctx (remdups (filter (\<lambda>i. i \<noteq> []) (map snd mems))) s = Inr he" "he = []"
    by (auto simp: scopeImport_def refuseHeldOutsideScope_def Let_def split: sum.splits if_splits)
  note H = heldOutsideScope_bound [OF assms(1) missing_stored(2) [where env = env] this(1)] heldOutsideScope_bound [OF assms(1) missing_stored(1) [where env = env] this(3)]
    heldOutsideScope_bound [OF assms(1) missing_stored(2) [where env = env] this(5)]
  show ?thesis using H \<open>hs = []\<close> \<open>hm = []\<close> \<open>he = []\<close> by auto
qed

section \<open>Two groups in one store\<close>

text \<open>The linked store with \<open>a\<close> in one group and \<open>b\<close>, \<open>c\<close> in another: a link crosses the boundary.\<close>

definition mixed_store :: db_state where
  "mixed_store = linked_store\<lparr>memories := map (\<lambda>r. r\<lparr>m_group := if m_id r = ''a'' then ''sales'' else ''ops''\<rparr>) (memories linked_store)\<rparr>"

definition sales_ctx :: request_ctx where
  "sales_ctx = \<lparr>ctx_claims = Some \<lparr>claim_id = ''j'', ClientID = ''c'', Roles = [''writer''], Groups = [''sales''], IssuedAt = None\<rparr>,
     ctx_tier = Some TierWriter\<rparr>"

definition quiet_rpc :: "nanos \<Rightarrow> rpc_env" where
  "quiet_rpc now = \<lparr>rpc_now = now, scope_fails = False, missing_fails = False, get_fails = False, write_fails = None,
     linked_fails = False, read_fails = False\<rparr>"

lemma mixed_store_ok: "store_ok mixed_store"
  using linked_store_store_ok
  by (simp add: mixed_store_def store_ok_def keys_ok_def queues_ok_def aggregates_ok_def agg_ok_def linked_store_def empty_store_def
      example_memory_def)

lemma sales_bound: "GroupsFromContext sales_ctx = Some [''sales'']"
  by (simp add: GroupsFromContext_def sales_ctx_def)

lemma mixed_visible: "visible memoryKind [''sales''] mixed_store = {''a''}"
  by (auto simp: visible_memory mixed_store_def example_defs)

theorem scope_refusal_is_no_oracle_witness:
  "scopeIds memoryKind (quiet_rpc 9) sales_ctx [''a'', ''b'', ''zz''] mixed_store
   = scopeIds memoryKind (quiet_rpc 9) sales_ctx [''a'', ''b'', ''zz''] (mixed_store\<lparr>memories := filter (\<lambda>r. m_id r = ''a'') (memories mixed_store)\<rparr>)"
proof -
  have "visible memoryKind [''sales''] mixed_store
      = visible memoryKind [''sales''] (mixed_store\<lparr>memories := filter (\<lambda>r. m_id r = ''a'') (memories mixed_store)\<rparr>)"
    by (auto simp: visible_memory mixed_store_def example_defs)
  from scope_refusal_is_no_oracle [OF sales_bound this] show ?thesis by blast
qed

theorem scoped_delete_stays_in_scope_witness:
  "snd (rpc_DeleteMemories example_cfg (quiet_rpc 9) sales_ctx [''a'', ''b''] mixed_store) = mixed_store"
proof -
  obtain res s' where d: "rpc_DeleteMemories example_cfg (quiet_rpc 9) sales_ctx [''a'', ''b''] mixed_store = (res, s')" by fastforce
  have "(example_memory ''b'' 20 12)\<lparr>m_group := ''ops''\<rparr> \<in> set (memories mixed_store)" by (simp add: mixed_store_def example_defs)
  from scoped_delete_stays_in_scope [OF mixed_store_ok sales_bound d this] show ?thesis by (simp add: d example_memory_def)
qed

theorem scoped_recall_stays_in_scope_witness:
  "\<exists>ms s'. rpc_RecallMemories \<lparr>rc_propagation = 1, rc_reader_reinforces = False\<rparr> (quiet_rpc 1000) sales_ctx [''a''] True mixed_store = (Inr ms, s')
     \<and> (\<forall>m \<in> set ms. m_group m = ''sales'')"
proof -
  obtain res s' where d: "rpc_RecallMemories \<lparr>rc_propagation = 1, rc_reader_reinforces = False\<rparr> (quiet_rpc 1000) sales_ctx [''a''] True mixed_store = (res, s')"
    by fastforce
  then obtain ms where "res = Inr ms"
    by (auto simp: rpc_RecallMemories_def scopeIds_bound [OF sales_bound] mixed_visible quiet_rpc_def Let_def split_beta)
  with scoped_recall_stays_in_scope [OF mixed_store_ok sales_bound d] d show ?thesis by auto
qed

text \<open>
  Spreading activation does cross the boundary: recalling a memory of its own, a bound caller advances
  the decay clock of another group's memory that is linked to it, which its group then forgets later.
\<close>

lemma activation_crosses_the_boundary:
  assumes "rpc_RecallMemories \<lparr>rc_propagation = 1, rc_reader_reinforces = False\<rparr> (quiet_rpc 100020) sales_ctx [''a''] False mixed_store = (res, s')"
  shows "\<exists>r \<in> set (memories mixed_store). \<exists>r' \<in> set (memories s'). m_id r' = m_id r \<and> m_group r \<noteq> ''sales''
    \<and> m_time_recalled r = 0 \<and> m_time_recalled r' = 100020"
proof -
  have ok: "scopeIds memoryKind (quiet_rpc 100020) sales_ctx [''a''] mixed_store = Inr ()"
    by (simp add: scopeIds_bound [OF sales_bound] mixed_visible quiet_rpc_def)
  have "s' = reinforceLinked (quiet_rpc 100020) 1 [''a''] (snd (RecallMemories 100020 [''a''] mixed_store))"
    using assms ok by (auto simp: rpc_RecallMemories_def Let_def split_beta quiet_rpc_def mayReinforce_def sales_ctx_def)
  moreover have "memory_links (snd (RecallMemories 100020 [''a''] mixed_store)) = memory_links mixed_store"
    by (subst RecallMemories_rows(2)) simp
  moreover have "linkedIds [''a''] (memory_links mixed_store) = [''b'']"
    by code_simp
  ultimately have "memories s' = map (reinforced 100020 1000 [''b'']) (memories (snd (RecallMemories 100020 [''a''] mixed_store)))"
    using fractionRatio_bounds(4) [of 1] by (simp add: reinforceLinked_def quiet_rpc_def ReinforceLinkedMemories_eq)
  then show ?thesis
    by (simp add: RecallMemories_rows(1) mixed_store_def example_defs reinforced_def decay_clock_def advanced_clock_def
        recall_row_def go_div_def)
qed

theorem scoped_links_stay_in_scope_witness:
  "\<exists>tot. rpc_readLinks memoryKind (quiet_rpc 9) sales_ctx ''a'' LinkDirectionBoth mixed_store = Inr ([], tot)"
proof -
  have "missingIds memoryKind (quiet_rpc 9) [''a''] mixed_store = Inr []"
    by (simp add: missingIds_def memoryKind_def quiet_rpc_def MissingIds_def mixed_store_def example_defs
        chunks_short deleteChunkSize_def)
  moreover have "\<exists>kept. filterEdgesToScope memoryKind (quiet_rpc 9) sales_ctx es mixed_store = Inr kept" for es
    by (simp add: filterEdgesToScope_def idsOutsideScope_def sales_bound quiet_rpc_def)
  ultimately have "\<exists>et. rpc_readLinks memoryKind (quiet_rpc 9) sales_ctx ''a'' LinkDirectionBoth mixed_store = Inr et"
    by (auto simp: rpc_readLinks_def scopeIds_bound [OF sales_bound] mixed_visible split_beta quiet_rpc_def split: sum.splits)
      (metis Inr_not_Inl)+
  then obtain edges tot where r: "rpc_readLinks memoryKind (quiet_rpc 9) sales_ctx ''a'' LinkDirectionBoth mixed_store = Inr (edges, tot)"
    by auto
  have "lk_graph memoryKind = memoryGraph" "lk_tables memoryKind = mem_tables" by (simp_all add: memoryKind_def)
  then have "edges = filter (\<lambda>e. edge_id e \<in> {''a''}) (fst (getLinks memoryGraph ''a'' LinkDirectionBoth (mem_tables mixed_store)))"
    using scoped_links_stay_in_scope [OF sales_bound, of memoryKind "quiet_rpc 9" "''a''" _ mixed_store _ _ LinkDirectionBoth edges tot] r
    by (simp only: mixed_visible)
  also have "\<dots> = []" by (simp add: getLinks_def outbound_def inbound_def store_link_defs mixed_store_def example_defs)
  finally show ?thesis using r by blast
qed

theorem link_cap_holds_for_the_near_end_witness:
  "\<exists>s'. rpc_createLinks memoryKind (quiet_rpc 9) \<lparr>ctx_claims = None, ctx_tier = None\<rparr> ''a'' [\<lparr>Id = ''c'', LinkSig = 3\<rparr>] mixed_store = (Inr True, s')
     \<and> neighbours ''a'' (memory_links s') = {''b'', ''c''}"
proof -
  let ?ctx = "\<lparr>ctx_claims = None, ctx_tier = None\<rparr> :: request_ctx" and ?l = "\<lparr>Id = ''c'', LinkSig = 3\<rparr>"
  have "missingIds memoryKind (quiet_rpc 9) [''a'', ''c''] mixed_store = Inr []"
    by (simp add: missingIds_def memoryKind_def quiet_rpc_def MissingIds_def mixed_store_def example_defs
        chunks_short deleteChunkSize_def)
  moreover have "checkLinkCapacity memoryKind (quiet_rpc 9) ''a'' [?l] mixed_store = Inr ()"
    by (simp add: checkLinkCapacity_def quiet_rpc_def memoryKind_def getLinks_def outbound_def inbound_def store_link_defs mixed_store_def
        example_defs MaxLinks_def)
  moreover have "scopeIds memoryKind (quiet_rpc 9) ?ctx [''a'', ''c''] mixed_store = Inr ()" by (simp add: scopeIds_def GroupsFromContext_def)
  ultimately obtain s' where r: "rpc_createLinks memoryKind (quiet_rpc 9) ?ctx ''a'' [?l] mixed_store = (Inr True, s')"
    by (auto simp: rpc_createLinks_def ValidateLinks_def MaxLinks_def maxLinkIdLength_def MaxLinkSignificance_def Let_def quiet_rpc_def)
  have "neighbours ''a'' (memory_links mixed_store) = {''b''}" by (auto simp: neighbours_def mixed_store_def example_defs)
  with link_cap_holds_for_the_near_end [OF r] r show ?thesis by auto
qed

theorem import_replaces_only_own_records_witness:
  "scopeImport (quiet_rpc 9) sales_ctx [''e''] [(''a'', []), (''new'', [])] mixed_store = Inr ()
   \<and> {''a'', ''new''} \<inter> stored memoryKind mixed_store \<subseteq> {''a''}"
proof -
  have v: "visible eventKind [''sales''] mixed_store = {}"
    by (auto simp: visible_def eventKind_def mixed_store_def example_defs)
  have "scopeImport (quiet_rpc 9) sales_ctx [''e''] [(''a'', []), (''new'', [])] mixed_store = Inr ()"
    by (simp add: scopeImport_def sales_bound refuseHeldOutsideScope_def heldOutsideScope_def idsOutsideScope_def quiet_rpc_def
        idsOutsideGroups_eq mixed_visible v missingIds_def MissingIds_def memoryKind_def [THEN arg_cong, of lk_graph]
        eventKind_def [THEN arg_cong, of lk_graph] memoryKind_def [THEN arg_cong, of lk_rows] eventKind_def [THEN arg_cong, of lk_rows]
        visible_memory mixed_store_def example_defs chunks_short deleteChunkSize_def)
  from import_replaces_only_own_records [OF sales_bound this] this show ?thesis by (simp add: mixed_visible)
qed

end
