(* ===== verification/Metadata.thy ===== *)
theory Metadata
  imports Prelude
begin

text \<open>
  Item metadata (\<^verbatim>\<open>types/metadata.go\<close>): the bounds a write is held to, the encoding whose length the
  byte accounting charges, and the packing of a filter's key/value pairs into strings. A Go map is an
  association list with distinct keys, in the order the runtime happens to iterate it.
\<close>

section \<open>Bounds\<close>

type_synonym metadata = "(string \<times> string) list"

definition MaxMetadataKeys :: nat where "MaxMetadataKeys = 32"

definition MaxMetadataKeyLength :: nat where "MaxMetadataKeyLength = 64"

definition MaxMetadataValueLength :: nat where "MaxMetadataValueLength = 512"

definition MaxMetadataBytes :: nat where "MaxMetadataBytes = 4096"

lemmas metadata_bounds = MaxMetadataKeys_def MaxMetadataKeyLength_def MaxMetadataValueLength_def MaxMetadataBytes_def

definition byte :: "char \<Rightarrow> nat" where
  "byte ch = of_char ch"

definition alphanumeric :: "char \<Rightarrow> bool" where
  "alphanumeric ch \<longleftrightarrow> 97 \<le> byte ch \<and> byte ch \<le> 122 \<or> 65 \<le> byte ch \<and> byte ch \<le> 90 \<or> 48 \<le> byte ch \<and> byte ch \<le> 57"

definition key_char :: "char \<Rightarrow> bool" where
  "key_char ch \<longleftrightarrow> alphanumeric ch \<or> ch \<in> set ''._:/-''"

definition validMetadataKey :: "string \<Rightarrow> bool" where
  "validMetadataKey k \<longleftrightarrow> (case k of [] \<Rightarrow> False
     | ch # rest \<Rightarrow> length k \<le> MaxMetadataKeyLength \<and> alphanumeric ch \<and> list_all key_char rest)"

definition sortedMetadataKeys :: "metadata \<Rightarrow> string list" where
  "sortedMetadataKeys m = sort (map fst m)"

definition metadata_value :: "metadata \<Rightarrow> string \<Rightarrow> string" where
  "metadata_value m k = (case map_of m k of None \<Rightarrow> [] | Some v \<Rightarrow> v)"

section \<open>The stored form\<close>

text \<open>
  \<^verbatim>\<open>utf8.DecodeRuneInString\<close>: the width of the rune a string starts with, \<open>None\<close> where the bytes are
  not UTF-8 (overlong forms, surrogates and values past U+10FFFF included).
\<close>

definition between_bytes :: "nat \<Rightarrow> nat \<Rightarrow> char \<Rightarrow> bool" where
  "between_bytes lo hi ch \<longleftrightarrow> lo \<le> byte ch \<and> byte ch \<le> hi"

definition cont :: "char \<Rightarrow> bool" where
  "cont = between_bytes 0x80 0xBF"

fun rune_width :: "string \<Rightarrow> nat option" where
  "rune_width [] = None"
| "rune_width (a # rest) =
     (if byte a < 0x80 then Some 1
      else if between_bytes 0xC2 0xDF a then (case rest of b # _ \<Rightarrow> if cont b then Some 2 else None | _ \<Rightarrow> None)
      else if between_bytes 0xE0 0xEF a then
        (case rest of b # c # _ \<Rightarrow>
            if between_bytes (if byte a = 0xE0 then 0xA0 else 0x80) (if byte a = 0xED then 0x9F else 0xBF) b \<and> cont c then Some 3 else None
         | _ \<Rightarrow> None)
      else if between_bytes 0xF0 0xF4 a then
        (case rest of b # c # d # _ \<Rightarrow>
            if between_bytes (if byte a = 0xF0 then 0x90 else 0x80) (if byte a = 0xF4 then 0x8F else 0xBF) b \<and> cont c \<and> cont d then Some 4 else None
         | _ \<Rightarrow> None)
      else None)"

lemma rune_width_pos: "rune_width s = Some n \<Longrightarrow> 0 < n"
  by (cases s) (auto split: if_splits list.splits)

function ValidString :: "string \<Rightarrow> bool" where
  "ValidString s = (if s = [] then True else case rune_width s of None \<Rightarrow> False | Some n \<Rightarrow> ValidString (drop n s))"
  by pat_completeness auto
termination
  by (relation "measure length") (auto dest: rune_width_pos)

definition hex_digit :: "nat \<Rightarrow> char" where
  "hex_digit n = ''0123456789abcdef'' ! (n mod 16)"

definition u00 :: "char \<Rightarrow> string" where
  "u00 ch = (CHR 0x5C # ''u00'') @ [hex_digit (byte ch div 16), hex_digit (byte ch)]"

text \<open>What \<^verbatim>\<open>json.Marshal\<close> writes for one ASCII byte of a string; HTML characters are escaped too.\<close>

definition json_byte :: "char \<Rightarrow> string" where
  "json_byte ch =
     (if ch = CHR 0x22 \<or> ch = CHR 0x5C then [CHR 0x5C, ch]
      else if byte ch = 8 then (CHR 0x5C # ''b'') else if byte ch = 12 then (CHR 0x5C # ''f'') else if byte ch = 10 then (CHR 0x5C # ''n'')
      else if byte ch = 13 then (CHR 0x5C # ''r'') else if byte ch = 9 then (CHR 0x5C # ''t'')
      else if byte ch < 32 \<or> ch \<in> set ''<>&'' then u00 ch
      else [ch])"

function json_body :: "string \<Rightarrow> string" where
  "json_body s =
     (case s of [] \<Rightarrow> []
      | ch # rest \<Rightarrow>
          if byte ch < 0x80 then json_byte ch @ json_body rest
          else (case rune_width s of
                  None \<Rightarrow> (CHR 0x5C # ''ufffd'') @ json_body rest
                | Some n \<Rightarrow>
                    (if take n s = [CHR 0xE2, CHR 0x80, CHR 0xA8] then (CHR 0x5C # ''u2028'')
                     else if take n s = [CHR 0xE2, CHR 0x80, CHR 0xA9] then (CHR 0x5C # ''u2029'')
                     else take n s) @ json_body (drop n s)))"
  by pat_completeness auto
termination
proof (relation "measure length")
  fix s ch rest n assume "s = ch # rest" "rune_width s = Some n"
  then show "(drop n s, s) \<in> measure length" using rune_width_pos [of s n] by simp
qed auto

declare ValidString.simps [simp del] json_body.simps [simp del]

definition json_string :: "string \<Rightarrow> string" where
  "json_string s = [CHR 0x22] @ json_body s @ [CHR 0x22]"

fun join_with :: "char \<Rightarrow> string list \<Rightarrow> string" where
  "join_with sep [] = []"
| "join_with sep [x] = x"
| "join_with sep (x # y # ys) = x @ [sep] @ join_with sep (y # ys)"

definition marshalMetadata :: "metadata \<Rightarrow> string" where
  "marshalMetadata m =
     ''{'' @ join_with (CHR '','') (map (\<lambda>k. json_string k @ '':'' @ json_string (metadata_value m k)) (sortedMetadataKeys m)) @ ''}''"

text \<open>The column value: NULL for an empty map.\<close>

definition MarshalMetadata :: "metadata \<Rightarrow> string option" where
  "MarshalMetadata m = (if m = [] then None else Some (marshalMetadata m))"

definition MetadataSerialisedLen :: "metadata \<Rightarrow> nat" where
  "MetadataSerialisedLen m = (if m = [] then 0 else length (marshalMetadata m))"

section \<open>Validation\<close>

datatype metadata_error = TooManyKeys | BadKey string | ValueTooLong string | ValueNotUTF8 string | MetadataTooLarge nat

fun check_entries :: "metadata \<Rightarrow> string list \<Rightarrow> metadata_error option" where
  "check_entries m [] = None"
| "check_entries m (k # ks) =
     (let v = metadata_value m k
      in if \<not> validMetadataKey k then Some (BadKey k)
         else if length v > MaxMetadataValueLength then Some (ValueTooLong k)
         else if \<not> ValidString v then Some (ValueNotUTF8 k)
         else check_entries m ks)"

definition ValidateMetadata :: "metadata \<Rightarrow> metadata_error option" where
  "ValidateMetadata m =
     (if m = [] then None
      else if length m > MaxMetadataKeys then Some TooManyKeys
      else case check_entries m (sortedMetadataKeys m) of
             Some e \<Rightarrow> Some e
           | None \<Rightarrow> if MetadataSerialisedLen m > MaxMetadataBytes then Some (MetadataTooLarge (MetadataSerialisedLen m)) else None)"

section \<open>Filters\<close>

datatype filter_error = TooManyFilters | NotAPair string | BadFilterKey string | KeyGivenTwice string

text \<open>\<^verbatim>\<open>strings.Cut(pair, "=")\<close>: split at the first separator, if there is one.\<close>

definition cut_pair :: "string \<Rightarrow> (string \<times> string) option" where
  "cut_pair p = (if CHR ''='' \<in> set p
     then Some (takeWhile (\<lambda>c. c \<noteq> CHR ''='') p, tl (dropWhile (\<lambda>c. c \<noteq> CHR ''='') p)) else None)"

fun parse_pairs :: "string list \<Rightarrow> metadata \<Rightarrow> filter_error + metadata" where
  "parse_pairs [] filters = Inr filters"
| "parse_pairs (p # ps) filters =
     (case cut_pair p of
        None \<Rightarrow> Inl (NotAPair p)
      | Some (k, v) \<Rightarrow>
          if \<not> validMetadataKey k then Inl (BadFilterKey k)
          else (case map_of filters k of
                  Some v' \<Rightarrow> if v' \<noteq> v then Inl (KeyGivenTwice k) else parse_pairs ps filters
                | None \<Rightarrow> parse_pairs ps (filters @ [(k, v)])))"

definition ParseMetadataFilters :: "string list \<Rightarrow> filter_error + metadata" where
  "ParseMetadataFilters pairs =
     (if pairs = [] then Inr []
      else if length pairs > MaxMetadataKeys then Inl TooManyFilters
      else parse_pairs pairs [])"

definition MetadataToTerms :: "metadata \<Rightarrow> string list" where
  "MetadataToTerms m = map (\<lambda>k. k @ ''='' @ metadata_value m k) (sortedMetadataKeys m)"

section \<open>Facts\<close>

text \<open>
  The characters a key cannot have: the separator, and those that would end or extend the JSON path
  \<^verbatim>\<open>$."key"\<close> it is bound into.
\<close>

lemma key_chars_safe:
  assumes "validMetadataKey k"
  shows "CHR ''='' \<notin> set k \<and> CHR 0x22 \<notin> set k \<and> CHR 0x5C \<notin> set k \<and> CHR ''['' \<notin> set k \<and> CHR ''$'' \<notin> set k"
proof -
  have "list_all key_char k" using assms by (cases k) (auto simp: validMetadataKey_def key_char_def)
  moreover have "\<not> key_char (CHR ''='')" "\<not> key_char (CHR 0x22)" "\<not> key_char (CHR 0x5C)" "\<not> key_char (CHR ''['')" "\<not> key_char (CHR ''$'')"
    by (simp_all add: key_char_def alphanumeric_def byte_def)
  ultimately show ?thesis by (auto simp: list_all_iff)
qed

lemma cut_term: "CHR ''='' \<notin> set k \<Longrightarrow> cut_pair (k @ ''='' @ v) = Some (k, v)"
  by (induction k) (auto simp: cut_pair_def)

lemma check_entries_ok:
  "check_entries m ks = None \<longleftrightarrow> (\<forall>k \<in> set ks. validMetadataKey k \<and> length (metadata_value m k) \<le> MaxMetadataValueLength
     \<and> ValidString (metadata_value m k))"
  by (induction ks) (auto simp: Let_def not_less)

lemma validated:
  assumes "ValidateMetadata m = None"
  shows "length m \<le> MaxMetadataKeys" "k \<in> fst ` set m \<Longrightarrow> validMetadataKey k" "MetadataSerialisedLen m \<le> MaxMetadataBytes"
  using assms by (auto simp: ValidateMetadata_def check_entries_ok sortedMetadataKeys_def MetadataSerialisedLen_def not_less
      split: if_splits option.splits)

lemma parse_terms:
  assumes "distinct ks" "\<And>k. k \<in> set ks \<Longrightarrow> validMetadataKey k" "fst ` set done \<inter> set ks = {}"
  shows "parse_pairs (map (\<lambda>k. k @ ''='' @ f k) ks) done = Inr (done @ map (\<lambda>k. (k, f k)) ks)"
  using assms
proof (induction ks arbitrary: "done")
  case (Cons k ks)
  have "cut_pair (k @ ''='' @ f k) = Some (k, f k)" by (rule cut_term) (use key_chars_safe Cons.prems(2) in force)
  moreover have "map_of done k = None" using Cons.prems(3) by (auto simp: map_of_eq_None_iff)
  moreover have "parse_pairs (map (\<lambda>k. k @ ''='' @ f k) ks) (done @ [(k, f k)]) = Inr ((done @ [(k, f k)]) @ map (\<lambda>k. (k, f k)) ks)"
    by (rule Cons.IH) (use Cons.prems in auto)
  ultimately show ?case using Cons.prems(2) [of k] by simp
qed simp

lemma map_of_keys: "map_of (map (\<lambda>k. (k, metadata_value m k)) (sortedMetadataKeys m)) = map_of m"
proof
  fix k
  have "map_of (map (\<lambda>k. (k, metadata_value m k)) ks) k = (if k \<in> set ks then Some (metadata_value m k) else None)" for ks
    by (induction ks) auto
  note K = this [of "sortedMetadataKeys m"]
  show "map_of (map (\<lambda>k. (k, metadata_value m k)) (sortedMetadataKeys m)) k = map_of m k"
  proof (cases "map_of m k")
    case None
    then have "k \<notin> fst ` set m" by (simp add: map_of_eq_None_iff)
    then show ?thesis using K None by (simp add: sortedMetadataKeys_def)
  next
    case (Some v)
    then have "k \<in> fst ` set m" by (auto dest: map_of_SomeD intro: rev_image_eqI)
    then show ?thesis using K Some by (simp add: sortedMetadataKeys_def metadata_value_def)
  qed
qed

text \<open>
  The filter wire form and the index terms are the same packing: the terms of any metadata a write
  may carry, sent as filters, parse back to that metadata, whatever separators its values contain.
\<close>

theorem metadata_terms_parse_back:
  assumes "distinct (map fst m)" "ValidateMetadata m = None"
  shows "\<exists>m'. ParseMetadataFilters (MetadataToTerms m) = Inr m' \<and> map_of m' = map_of m \<and> length m' = length m"
proof -
  have "distinct (sortedMetadataKeys m)" using assms(1) by (simp add: sortedMetadataKeys_def)
  moreover have "k \<in> set (sortedMetadataKeys m) \<Longrightarrow> validMetadataKey k" for k
    using validated(2) [OF assms(2), of k] by (simp add: sortedMetadataKeys_def)
  ultimately have "parse_pairs (MetadataToTerms m) [] = Inr (map (\<lambda>k. (k, metadata_value m k)) (sortedMetadataKeys m))"
    using parse_terms [of "sortedMetadataKeys m" "[]" "metadata_value m"] by (simp add: MetadataToTerms_def)
  then show ?thesis
    using validated(1) [OF assms(2)] map_of_keys [of m]
    by (auto simp: ParseMetadataFilters_def MetadataToTerms_def sortedMetadataKeys_def)
qed

theorem metadata_terms_parse_back_witness:
  "\<exists>m'. ParseMetadataFilters [''env=a=b'', ''team=ops''] = Inr m' \<and> map_of m' = map_of [(''team'', ''ops''), (''env'', ''a=b'')] \<and> length m' = 2"
proof -
  let ?m = "[(''team'', ''ops''), (''env'', ''a=b'')]"
  have "ValidateMetadata ?m = None" by code_simp
  moreover have "MetadataToTerms ?m = [''env=a=b'', ''team=ops'']" by code_simp
  ultimately show ?thesis using metadata_terms_parse_back [of ?m] by (simp add: numeral_2_eq_2)
qed

text \<open>The stored bytes do not depend on the order the map is iterated in.\<close>

lemma marshal_order_free:
  assumes "mset m = mset m'" "distinct (map fst m)"
  shows "marshalMetadata m = marshalMetadata m'"
proof -
  have "sortedMetadataKeys m = sortedMetadataKeys m'"
    using assms(1) by (simp add: sortedMetadataKeys_def properties_for_sort mset_map)
  moreover have "distinct (map fst m')" using assms by (metis mset_map mset_eq_imp_distinct_iff)
  then have "map_of m = map_of m'" using assms map_of_inject_set mset_eq_setD by metis
  ultimately show ?thesis by (simp add: marshalMetadata_def metadata_value_def)
qed

end
