(* ===== verification/Selection.thy ===== *)
theory Selection
  imports Group_Scope Metadata "HOL-Library.AList" "HOL-Library.Sublist"
begin

text \<open>
  Filters and listings: the filter a request builds (\<^verbatim>\<open>hippocampus/selection.go\<close>), the predicate the
  storage layer turns it into (\<^verbatim>\<open>db/memory.go\<close>, \<^verbatim>\<open>db/event.go\<close>), the orderings of a listing
  (\<^verbatim>\<open>db/order.go\<close>), and the paged listing with its cached total (\<^verbatim>\<open>hippocampus/memory.go\<close>,
  \<^verbatim>\<open>hippocampus/countcache.go\<close>). A WHERE clause is a predicate on rows, an ORDER BY a list of terms.
\<close>

section \<open>Filters\<close>

datatype TriState = TriStateUnset | TriStateFalse | TriStateTrue

datatype SignificanceExtremum = SignificanceExtremumNone | SignificanceExtremumHighest | SignificanceExtremumLowest

datatype SortDirection = SortDirectionNatural | SortDirectionAscending | SortDirectionDescending

record MemoryFilter =
  mf_timestamp_min :: int
  mf_timestamp_max :: int
  mf_significance_min :: int
  mf_significance_max :: int
  mf_extremum :: SignificanceExtremum
  mf_group :: string
  mf_order_by :: string
  mf_order_direction :: SortDirection
  mf_limit :: int
  mf_offset :: int
  mf_ids :: "ident list"
  mf_groups :: "string list"
  mf_metadata :: metadata
  mf_event_id :: ident
  mf_recalled :: TriState
  mf_has_event :: TriState
  mf_is_summary :: TriState
  mf_is_binary :: TriState
  mf_recall_count_min :: int
  mf_recall_count_max :: int
  mf_time_recalled_min :: int
  mf_time_recalled_max :: int
  mf_id_after :: ident
  mf_significance_equals :: "int option"

record EventFilter =
  ef_time_start_min :: int
  ef_time_start_max :: int
  ef_time_end_min :: int
  ef_time_end_max :: int
  ef_significance_min :: int
  ef_significance_max :: int
  ef_extremum :: SignificanceExtremum
  ef_group :: string
  ef_order_by :: string
  ef_order_direction :: SortDirection
  ef_limit :: int
  ef_offset :: int
  ef_metadata :: metadata
  ef_groups :: "string list"
  ef_ids :: "ident list"
  ef_id_after :: ident
  ef_significance_equals :: "int option"
  ef_name_contains :: string
  ef_description_contains :: string
  ef_ended :: TriState

definition no_memory_filter :: MemoryFilter where
  "no_memory_filter = \<lparr>mf_timestamp_min = 0, mf_timestamp_max = 0, mf_significance_min = 0, mf_significance_max = 0,
     mf_extremum = SignificanceExtremumNone, mf_group = [], mf_order_by = [], mf_order_direction = SortDirectionNatural,
     mf_limit = 0, mf_offset = 0, mf_ids = [], mf_groups = [], mf_metadata = [], mf_event_id = [], mf_recalled = TriStateUnset,
     mf_has_event = TriStateUnset, mf_is_summary = TriStateUnset, mf_is_binary = TriStateUnset, mf_recall_count_min = 0,
     mf_recall_count_max = 0, mf_time_recalled_min = 0, mf_time_recalled_max = 0, mf_id_after = [], mf_significance_equals = None\<rparr>"

definition no_event_filter :: EventFilter where
  "no_event_filter = \<lparr>ef_time_start_min = 0, ef_time_start_max = 0, ef_time_end_min = 0, ef_time_end_max = 0,
     ef_significance_min = 0, ef_significance_max = 0, ef_extremum = SignificanceExtremumNone, ef_group = [], ef_order_by = [],
     ef_order_direction = SortDirectionNatural, ef_limit = 0, ef_offset = 0, ef_metadata = [], ef_groups = [], ef_ids = [],
     ef_id_after = [], ef_significance_equals = None, ef_name_contains = [], ef_description_contains = [], ef_ended = TriStateUnset\<rparr>"

text \<open>A clause that is there only when its field is set.\<close>

definition when_set :: "bool \<Rightarrow> bool \<Rightarrow> bool" where
  "when_set given clause \<longleftrightarrow> (given \<longrightarrow> clause)"

definition triStateArg :: "TriState \<Rightarrow> bool option" where
  "triStateArg t = (case t of TriStateTrue \<Rightarrow> Some True | TriStateFalse \<Rightarrow> Some False | TriStateUnset \<Rightarrow> None)"

definition tri_is :: "TriState \<Rightarrow> bool \<Rightarrow> bool" where
  "tri_is t b \<longleftrightarrow> (case triStateArg t of None \<Rightarrow> True | Some v \<Rightarrow> b = v)"

definition metadataConditions :: "metadata \<Rightarrow> metadata \<Rightarrow> bool" where
  "metadataConditions wanted stored_md \<longleftrightarrow> list_all (\<lambda>k. map_of stored_md k = map_of wanted k) (sortedMetadataKeys wanted)"

definition groupScopeConditions :: "string list \<Rightarrow> string \<Rightarrow> bool" where
  "groupScopeConditions groups g \<longleftrightarrow> when_set (groups \<noteq> []) (g \<in> set groups)"

section \<open>LIKE\<close>

definition likeEscape :: char where "likeEscape = CHR ''#''"

fun escapeLikePattern :: "string \<Rightarrow> string" where
  "escapeLikePattern [] = []"
| "escapeLikePattern (c # cs) =
     (if c = likeEscape \<or> c = CHR ''%'' \<or> c = CHR ''_'' then likeEscape # c # escapeLikePattern cs else c # escapeLikePattern cs)"

text \<open>
  \<^verbatim>\<open>text LIKE pattern ESCAPE '#'\<close>: a percent sign stands for any run of characters, an underscore for
  one, and an escaped character for itself.
\<close>

fun like :: "string \<Rightarrow> string \<Rightarrow> bool" where
  "like [] t \<longleftrightarrow> t = []"
| "like (p # ps) t \<longleftrightarrow>
     (if p = CHR ''%'' then like ps t \<or> (case t of [] \<Rightarrow> False | _ # t' \<Rightarrow> like (p # ps) t')
      else if p = likeEscape then
        (case ps of [] \<Rightarrow> False | q # qs \<Rightarrow> (case t of [] \<Rightarrow> False | c # t' \<Rightarrow> c = q \<and> like qs t'))
      else (case t of [] \<Rightarrow> False | c # t' \<Rightarrow> (p = CHR ''_'' \<or> c = p) \<and> like ps t'))"

text \<open>\<^verbatim>\<open>LOWER\<close> on both sides: the pattern is lowered after it was escaped, which changes no wildcard.\<close>

definition contains_ignoring_case :: "string \<Rightarrow> string \<Rightarrow> bool" where
  "contains_ignoring_case wanted t \<longleftrightarrow> like (map lower (''%'' @ escapeLikePattern wanted @ ''%'')) (map lower t)"

section \<open>The predicates\<close>

definition memory_significance :: "db_state \<Rightarrow> memory_row \<Rightarrow> int" where
  "memory_significance s r = joined_rank (levels s) (m_level r)"

definition event_significance :: "db_state \<Rightarrow> event_row \<Rightarrow> int" where
  "event_significance s e = joined_rank (levels s) (e_level e)"

definition memory_where :: "MemoryFilter \<Rightarrow> memory_row \<Rightarrow> bool" where
  "memory_where f r \<longleftrightarrow>
     when_set (mf_timestamp_min f > 0) (m_timestamp r \<ge> mf_timestamp_min f)
     \<and> when_set (mf_timestamp_max f > 0) (m_timestamp r \<le> mf_timestamp_max f)
     \<and> when_set (mf_group f \<noteq> []) (m_group r = mf_group f)
     \<and> groupScopeConditions (mf_groups f) (m_group r)
     \<and> when_set (mf_ids f \<noteq> []) (m_id r \<in> set (mf_ids f))
     \<and> when_set (mf_id_after f \<noteq> []) (m_id r > mf_id_after f)
     \<and> when_set (mf_event_id f \<noteq> []) (m_event_id r = mf_event_id f)
     \<and> tri_is (mf_has_event f) (m_event_id r \<noteq> [])
     \<and> metadataConditions (mf_metadata f) (m_metadata r)
     \<and> (case mf_recalled f of TriStateFalse \<Rightarrow> m_recall_count r = 0 | TriStateTrue \<Rightarrow> m_recall_count r > 0 | TriStateUnset \<Rightarrow> True)
     \<and> when_set (mf_recall_count_min f > 0) (m_recall_count r \<ge> mf_recall_count_min f)
     \<and> when_set (mf_recall_count_max f > 0) (m_recall_count r \<le> mf_recall_count_max f)
     \<and> when_set (mf_time_recalled_min f > 0) (m_time_recalled r \<ge> mf_time_recalled_min f)
     \<and> when_set (mf_time_recalled_max f > 0) (m_time_recalled r > 0 \<and> m_time_recalled r \<le> mf_time_recalled_max f)
     \<and> tri_is (mf_is_summary f) (m_is_summary r)
     \<and> tri_is (mf_is_binary f) (m_is_binary r)"

definition event_where :: "EventFilter \<Rightarrow> event_row \<Rightarrow> bool" where
  "event_where f e \<longleftrightarrow>
     when_set (ef_time_start_min f > 0) (e_time_start e \<ge> ef_time_start_min f)
     \<and> when_set (ef_time_start_max f > 0) (e_time_start e \<le> ef_time_start_max f)
     \<and> when_set (ef_time_end_min f > 0) (e_time_end e \<ge> ef_time_end_min f)
     \<and> when_set (ef_time_end_max f > 0) (e_time_end e > 0 \<and> e_time_end e \<le> ef_time_end_max f)
     \<and> (case ef_ended f of TriStateFalse \<Rightarrow> e_time_end e = 0 | TriStateTrue \<Rightarrow> e_time_end e > 0 | TriStateUnset \<Rightarrow> True)
     \<and> when_set (ef_group f \<noteq> []) (e_group e = ef_group f)
     \<and> when_set (ef_ids f \<noteq> []) (e_id e \<in> set (ef_ids f))
     \<and> when_set (ef_id_after f \<noteq> []) (e_id e > ef_id_after f)
     \<and> when_set (ef_name_contains f \<noteq> []) (contains_ignoring_case (ef_name_contains f) (e_name e))
     \<and> when_set (ef_description_contains f \<noteq> []) (contains_ignoring_case (ef_description_contains f) (e_description e))
     \<and> groupScopeConditions (ef_groups f) (e_group e)
     \<and> metadataConditions (ef_metadata f) (e_metadata e)"

text \<open>
  The significance clauses come last. An extremum replaces them by equality with the MAX or MIN over
  the rows that the same filter, without extremum and range, selects; over no rows that is NULL,
  which equals nothing.
\<close>

definition significance_range :: "int option \<Rightarrow> int \<Rightarrow> int \<Rightarrow> int \<Rightarrow> bool" where
  "significance_range eq lo hi sig \<longleftrightarrow>
     (case eq of None \<Rightarrow> True | Some v \<Rightarrow> sig = v) \<and> when_set (lo > 0) (sig \<ge> lo) \<and> when_set (hi > 0) (sig \<le> hi)"

definition extreme_of :: "SignificanceExtremum \<Rightarrow> int list \<Rightarrow> int option" where
  "extreme_of x sigs = (if sigs = [] then None
     else Some (if x = SignificanceExtremumLowest then foldr min (tl sigs) (hd sigs) else foldr max (tl sigs) (hd sigs)))"

definition memoryFilterConditions :: "MemoryFilter \<Rightarrow> db_state \<Rightarrow> memory_row \<Rightarrow> bool" where
  "memoryFilterConditions f s r \<longleftrightarrow> memory_where f r \<and>
     (if mf_extremum f \<noteq> SignificanceExtremumNone
      then let sub = f\<lparr>mf_extremum := SignificanceExtremumNone, mf_significance_min := 0, mf_significance_max := 0\<rparr>
           in extreme_of (mf_extremum f)
                (map (memory_significance s)
                   (filter (\<lambda>q. memory_where sub q \<and> significance_range (mf_significance_equals sub) 0 0 (memory_significance s q)) (memories s)))
              = Some (memory_significance s r)
      else significance_range (mf_significance_equals f) (mf_significance_min f) (mf_significance_max f) (memory_significance s r))"

definition eventFilterConditions :: "EventFilter \<Rightarrow> db_state \<Rightarrow> event_row \<Rightarrow> bool" where
  "eventFilterConditions f s e \<longleftrightarrow> event_where f e \<and>
     (if ef_extremum f \<noteq> SignificanceExtremumNone
      then let sub = f\<lparr>ef_extremum := SignificanceExtremumNone, ef_significance_min := 0, ef_significance_max := 0\<rparr>
           in extreme_of (ef_extremum f)
                (map (event_significance s)
                   (filter (\<lambda>q. event_where sub q \<and> significance_range (ef_significance_equals sub) 0 0 (event_significance s q)) (events s)))
              = Some (event_significance s e)
      else significance_range (ef_significance_equals f) (ef_significance_min f) (ef_significance_max f) (event_significance s e))"

definition limited :: "int \<Rightarrow> 'a list \<Rightarrow> 'a list" where
  "limited n xs = (if n > 0 then take (nat n) xs else xs)"

definition MemoryIdsMatching :: "MemoryFilter \<Rightarrow> db_state \<Rightarrow> ident list" where
  "MemoryIdsMatching f s = limited (mf_limit f) (sort (map m_id (filter (memoryFilterConditions f s) (memories s))))"

definition EventIdsMatching :: "EventFilter \<Rightarrow> db_state \<Rightarrow> ident list" where
  "EventIdsMatching f s = limited (ef_limit f) (sort (map e_id (filter (eventFilterConditions f s) (events s))))"

definition CountMemoriesFiltered :: "MemoryFilter \<Rightarrow> db_state \<Rightarrow> nat" where
  "CountMemoriesFiltered f s = length (filter (memoryFilterConditions f s) (memories s))"

definition CountEventsFiltered :: "EventFilter \<Rightarrow> db_state \<Rightarrow> nat" where
  "CountEventsFiltered f s = length (filter (eventFilterConditions f s) (events s))"

section \<open>Orderings\<close>

datatype 'r order_key = IntKey "'r \<Rightarrow> int" | StrKey "'r \<Rightarrow> string"

text \<open>A term of an ORDER BY: a column and whether it ascends.\<close>

type_synonym 'r order_term = "'r order_key \<times> bool"

definition sort_term :: "'r order_term \<Rightarrow> 'r list \<Rightarrow> 'r list" where
  "sort_term t rows =
     (let up = (\<lambda>xs. case fst t of IntKey k \<Rightarrow> sort_key k xs | StrKey k \<Rightarrow> sort_key k xs)
      in if snd t then up rows else rev (up (rev rows)))"

text \<open>Later terms break the ties of earlier ones: sort by the last term first, each sort stable.\<close>

definition order_rows :: "'r order_term list \<Rightarrow> 'r list \<Rightarrow> 'r list" where
  "order_rows terms rows = foldr sort_term terms rows"

record 'r orderClause =
  oc_ascending :: "'r order_term list"
  oc_descending :: "'r order_term list"
  oc_naturally_ascending :: bool

definition memoryOrderClauses :: "db_state \<Rightarrow> (string \<times> memory_row orderClause) list" where
  "memoryOrderClauses s =
     (let sig = IntKey (memory_significance s); ts = IntKey m_timestamp; rc = IntKey m_time_recalled; cnt = IntKey m_recall_count;
          ls = IntKey m_link_significance; grp = StrKey m_group; i = StrKey m_id
      in [(''significance'', \<lparr>oc_ascending = [(sig, True), (ts, True), (i, False)], oc_descending = [(sig, False), (ts, False), (i, True)], oc_naturally_ascending = False\<rparr>),
          (''timestamp'', \<lparr>oc_ascending = [(ts, True), (i, False)], oc_descending = [(ts, False), (i, True)], oc_naturally_ascending = False\<rparr>),
          (''time_recalled'', \<lparr>oc_ascending = [(rc, True), (ts, True), (i, False)], oc_descending = [(rc, False), (ts, False), (i, True)], oc_naturally_ascending = False\<rparr>),
          (''recall_count'', \<lparr>oc_ascending = [(cnt, True), (ts, True), (i, False)], oc_descending = [(cnt, False), (ts, False), (i, True)], oc_naturally_ascending = False\<rparr>),
          (''link_significance'', \<lparr>oc_ascending = [(ls, True), (sig, True), (i, False)], oc_descending = [(ls, False), (sig, False), (i, True)], oc_naturally_ascending = False\<rparr>),
          (''group'', \<lparr>oc_ascending = [(grp, True), (ts, True), (i, False)], oc_descending = [(grp, False), (ts, False), (i, True)], oc_naturally_ascending = True\<rparr>),
          (''id'', \<lparr>oc_ascending = [(i, True)], oc_descending = [(i, False)], oc_naturally_ascending = True\<rparr>)])"

definition eventOrderClauses :: "db_state \<Rightarrow> (string \<times> event_row orderClause) list" where
  "eventOrderClauses s =
     (let sig = IntKey (event_significance s); ts = IntKey e_time_start; te = IntKey e_time_end; nm = StrKey e_name;
          ls = IntKey e_link_significance; grp = StrKey e_group; i = StrKey e_id
      in [(''significance'', \<lparr>oc_ascending = [(sig, True), (ts, True), (i, False)], oc_descending = [(sig, False), (ts, False), (i, True)], oc_naturally_ascending = False\<rparr>),
          (''timestamp'', \<lparr>oc_ascending = [(ts, True), (i, False)], oc_descending = [(ts, False), (i, True)], oc_naturally_ascending = False\<rparr>),
          (''time_end'', \<lparr>oc_ascending = [(te, True), (ts, True), (i, False)], oc_descending = [(te, False), (ts, False), (i, True)], oc_naturally_ascending = False\<rparr>),
          (''name'', \<lparr>oc_ascending = [(nm, True), (i, False)], oc_descending = [(nm, False), (i, True)], oc_naturally_ascending = True\<rparr>),
          (''link_significance'', \<lparr>oc_ascending = [(ls, True), (sig, True), (i, False)], oc_descending = [(ls, False), (sig, False), (i, True)], oc_naturally_ascending = False\<rparr>),
          (''group'', \<lparr>oc_ascending = [(grp, True), (ts, True), (i, False)], oc_descending = [(grp, False), (ts, False), (i, True)], oc_naturally_ascending = True\<rparr>),
          (''id'', \<lparr>oc_ascending = [(i, True)], oc_descending = [(i, False)], oc_naturally_ascending = True\<rparr>)])"

definition defaultMemoryOrderBy :: string where "defaultMemoryOrderBy = ''timestamp''"

definition defaultEventOrderBy :: string where "defaultEventOrderBy = ''timestamp''"

definition validOrderBy :: "(string \<times> 'r orderClause) list \<Rightarrow> string \<Rightarrow> bool" where
  "validOrderBy clauses name \<longleftrightarrow> name = [] \<or> map_of clauses name \<noteq> None"

definition clause_named :: "(string \<times> 'r orderClause) list \<Rightarrow> string \<Rightarrow> string \<Rightarrow> 'r orderClause" where
  "clause_named clauses name fallback =
     (case map_of clauses name of Some c \<Rightarrow> c
      | None \<Rightarrow> (case map_of clauses fallback of Some c \<Rightarrow> c | None \<Rightarrow> \<lparr>oc_ascending = [], oc_descending = [], oc_naturally_ascending = False\<rparr>))"

definition resolveOrder :: "(string \<times> 'r orderClause) list \<Rightarrow> string \<Rightarrow> SortDirection \<Rightarrow> string \<Rightarrow> 'r order_term list" where
  "resolveOrder clauses name direction fallback =
     (let c = clause_named clauses name fallback;
          ascending = (case direction of SortDirectionAscending \<Rightarrow> True | SortDirectionDescending \<Rightarrow> False
                       | SortDirectionNatural \<Rightarrow> oc_naturally_ascending c)
      in if ascending then oc_ascending c else oc_descending c)"

text \<open>LIMIT and OFFSET, the latter only beside a positive limit.\<close>

definition page :: "int \<Rightarrow> int \<Rightarrow> 'a list \<Rightarrow> 'a list" where
  "page lmt offset xs = (if lmt > 0 then take (nat lmt) (drop (nat offset) xs) else xs)"

definition matching_memories :: "MemoryFilter \<Rightarrow> db_state \<Rightarrow> memory_row list" where
  "matching_memories f s =
     order_rows (resolveOrder (memoryOrderClauses s) (mf_order_by f) (mf_order_direction f) defaultMemoryOrderBy)
       (filter (memoryFilterConditions f s) (memories s))"

definition GetMemories :: "MemoryFilter \<Rightarrow> db_state \<Rightarrow> memory_row list" where
  "GetMemories f s = page (mf_limit f) (mf_offset f) (matching_memories f s)"

definition matching_events :: "EventFilter \<Rightarrow> db_state \<Rightarrow> event_row list" where
  "matching_events f s =
     order_rows (resolveOrder (eventOrderClauses s) (ef_order_by f) (ef_order_direction f) defaultEventOrderBy)
       (filter (eventFilterConditions f s) (events s))"

definition GetEvents :: "EventFilter \<Rightarrow> db_state \<Rightarrow> event_row list" where
  "GetEvents f s = page (ef_limit f) (ef_offset f) (matching_events f s)"

section \<open>From a request to a filter\<close>

text \<open>The selecting fields the listing and the deletion requests share (\<^verbatim>\<open>memorySelector\<close>, \<^verbatim>\<open>eventSelector\<close>).\<close>

record memorySelector =
  sm_timestamp_min :: int
  sm_timestamp_max :: int
  sm_significance_min :: int
  sm_significance_max :: int
  sm_extremum :: SignificanceExtremum
  sm_group :: string
  sm_metadata :: "string list"
  sm_recalled :: TriState
  sm_recall_count_min :: int
  sm_recall_count_max :: int
  sm_time_recalled_min :: int
  sm_time_recalled_max :: int
  sm_is_summary :: TriState
  sm_is_binary :: TriState
  sm_event_id :: ident
  sm_has_event :: TriState

record eventSelector =
  se_time_start_min :: int
  se_time_start_max :: int
  se_time_end_min :: int
  se_time_end_max :: int
  se_significance_min :: int
  se_significance_max :: int
  se_extremum :: SignificanceExtremum
  se_group :: string
  se_metadata :: "string list"
  se_ended :: TriState
  se_name_contains :: string
  se_description_contains :: string

text \<open>Two bounds that are both given, the wrong way round.\<close>

definition inverted :: "int \<Rightarrow> int \<Rightarrow> bool" where
  "inverted hi lo \<longleftrightarrow> hi > 0 \<and> lo > 0 \<and> hi < lo"

text \<open>A range error is a plain error, which a caller sees as Unknown; a metadata error has its status.\<close>

definition memorySelectionFilter :: "memorySelector \<Rightarrow> rpc_error + MemoryFilter" where
  "memorySelectionFilter q =
     (if inverted (sm_significance_max q) (sm_significance_min q) \<or> inverted (sm_timestamp_max q) (sm_timestamp_min q)
         \<or> inverted (sm_recall_count_max q) (sm_recall_count_min q) \<or> inverted (sm_time_recalled_max q) (sm_time_recalled_min q)
      then Inl Unknown
      else case ParseMetadataFilters (sm_metadata q) of
             Inl _ \<Rightarrow> Inl InvalidArgument
           | Inr md \<Rightarrow>
               if sm_extremum q \<noteq> SignificanceExtremumNone \<and> (sm_significance_min q > 0 \<or> sm_significance_max q > 0) then Inl Unknown
               else Inr (no_memory_filter\<lparr>mf_timestamp_min := sm_timestamp_min q, mf_timestamp_max := sm_timestamp_max q,
                 mf_significance_min := sm_significance_min q, mf_significance_max := sm_significance_max q, mf_extremum := sm_extremum q,
                 mf_group := sm_group q, mf_event_id := sm_event_id q, mf_metadata := md, mf_recalled := sm_recalled q,
                 mf_has_event := sm_has_event q, mf_is_summary := sm_is_summary q, mf_is_binary := sm_is_binary q,
                 mf_recall_count_min := sm_recall_count_min q, mf_recall_count_max := sm_recall_count_max q,
                 mf_time_recalled_min := sm_time_recalled_min q, mf_time_recalled_max := sm_time_recalled_max q\<rparr>))"

definition eventSelectionFilter :: "eventSelector \<Rightarrow> rpc_error + EventFilter" where
  "eventSelectionFilter q =
     (if inverted (se_significance_max q) (se_significance_min q) \<or> inverted (se_time_start_max q) (se_time_start_min q)
         \<or> inverted (se_time_end_max q) (se_time_end_min q) \<or> inverted (se_time_end_min q) (se_time_start_min q)
         \<or> inverted (se_time_end_max q) (se_time_start_max q)
      then Inl Unknown
      else case ParseMetadataFilters (se_metadata q) of
             Inl _ \<Rightarrow> Inl InvalidArgument
           | Inr md \<Rightarrow>
               if se_extremum q \<noteq> SignificanceExtremumNone \<and> (se_significance_min q > 0 \<or> se_significance_max q > 0) then Inl Unknown
               else Inr (no_event_filter\<lparr>ef_time_start_min := se_time_start_min q, ef_time_start_max := se_time_start_max q,
                 ef_time_end_min := se_time_end_min q, ef_time_end_max := se_time_end_max q, ef_significance_min := se_significance_min q,
                 ef_significance_max := se_significance_max q, ef_extremum := se_extremum q, ef_group := se_group q, ef_metadata := md,
                 ef_ended := se_ended q, ef_name_contains := se_name_contains q, ef_description_contains := se_description_contains q\<rparr>))"

section \<open>The cached total\<close>

record countCacheEntry =
  cce_count :: nat
  cce_expires :: nanos

record countCache =
  cc_ttl :: nanos
  cc_entries :: "(string \<times> countCacheEntry) list"

definition maxCountCacheEntries :: nat where "maxCountCacheEntries = 256"

definition newCountCache :: "nanos \<Rightarrow> countCache" where
  "newCountCache ttl = \<lparr>cc_ttl = ttl, cc_entries = []\<rparr>"

definition cache_enabled :: "countCache \<Rightarrow> bool" where
  "cache_enabled c \<longleftrightarrow> cc_ttl c > 0"

definition cache_get :: "nanos \<Rightarrow> string \<Rightarrow> countCache \<Rightarrow> nat option \<times> countCache" where
  "cache_get now key c =
     (if \<not> cache_enabled c then (None, c)
      else case map_of (cc_entries c) key of
             None \<Rightarrow> (None, c)
           | Some e \<Rightarrow> if now > cce_expires e then (None, c\<lparr>cc_entries := AList.delete key (cc_entries c)\<rparr>) else (Some (cce_count e), c))"

definition cache_reset :: "countCache \<Rightarrow> countCache" where
  "cache_reset c = (if \<not> cache_enabled c then c else c\<lparr>cc_entries := []\<rparr>)"

text \<open>The empty key is how the loop says that it has seen no entry yet.\<close>

definition cache_evictOldest :: "(string \<times> countCacheEntry) list \<Rightarrow> (string \<times> countCacheEntry) list" where
  "cache_evictOldest entries =
     (let (oldestKey, _) = fold (\<lambda>(k, e) (ok, o'). if ok = [] \<or> cce_expires e < o' then (k, cce_expires e) else (ok, o')) entries ([], 0)
      in if oldestKey \<noteq> [] then AList.delete oldestKey entries else entries)"

definition cache_put :: "nanos \<Rightarrow> string \<Rightarrow> nat \<Rightarrow> countCache \<Rightarrow> countCache" where
  "cache_put now key n c =
     (if \<not> cache_enabled c then c
      else let entries = (if length (cc_entries c) \<ge> maxCountCacheEntries \<and> map_of (cc_entries c) key = None
                          then cache_evictOldest (cc_entries c) else cc_entries c)
           in c\<lparr>cc_entries := AList.update key \<lparr>cce_count = n, cce_expires = now + cc_ttl c\<rparr> entries\<rparr>)"

text \<open>\<^verbatim>\<open>fmt\<close>'s \<^verbatim>\<open>%v\<close> for the types a filter has: no string is quoted, and a slice is joined by spaces.\<close>

fun show_nat :: "nat \<Rightarrow> string" where
  "show_nat n = (if n < 10 then [char_of (48 + n)] else show_nat (n div 10) @ [char_of (48 + n mod 10)])"

declare show_nat.simps [simp del]

definition show_int :: "int \<Rightarrow> string" where
  "show_int i = (if i < 0 then CHR ''-'' # show_nat (nat (- i)) else show_nat (nat i))"

definition show_slice :: "string list \<Rightarrow> string" where
  "show_slice xs = ''['' @ join_with (CHR '' '') xs @ '']''"

definition show_map :: "metadata \<Rightarrow> string" where
  "show_map m = ''map['' @ join_with (CHR '' '') (map (\<lambda>k. k @ '':'' @ metadata_value m k) (sortedMetadataKeys m)) @ '']''"

definition tri_number :: "TriState \<Rightarrow> int" where
  "tri_number t = (case t of TriStateUnset \<Rightarrow> 0 | TriStateFalse \<Rightarrow> 1 | TriStateTrue \<Rightarrow> 2)"

definition extremum_number :: "SignificanceExtremum \<Rightarrow> int" where
  "extremum_number x = (case x of SignificanceExtremumNone \<Rightarrow> 0 | SignificanceExtremumHighest \<Rightarrow> 1 | SignificanceExtremumLowest \<Rightarrow> 2)"

definition direction_number :: "SortDirection \<Rightarrow> int" where
  "direction_number d = (case d of SortDirectionNatural \<Rightarrow> 0 | SortDirectionAscending \<Rightarrow> 1 | SortDirectionDescending \<Rightarrow> 2)"

text \<open>Every field but the limit and the offset, in the order of the struct.\<close>

definition filter_fields :: "MemoryFilter \<Rightarrow> (string \<times> string) list" where
  "filter_fields f =
     [(''TimeStampMin'', show_int (mf_timestamp_min f)), (''TimeStampMax'', show_int (mf_timestamp_max f)),
      (''SignificanceMin'', show_int (mf_significance_min f)), (''SignificanceMax'', show_int (mf_significance_max f)),
      (''SignificanceExtremum'', show_int (extremum_number (mf_extremum f))), (''Group'', mf_group f), (''OrderBy'', mf_order_by f),
      (''OrderDirection'', show_int (direction_number (mf_order_direction f))), (''Ids'', show_slice (mf_ids f)),
      (''Groups'', show_slice (mf_groups f)), (''Metadata'', show_map (mf_metadata f)), (''EventId'', mf_event_id f),
      (''Recalled'', show_int (tri_number (mf_recalled f))), (''HasEvent'', show_int (tri_number (mf_has_event f))),
      (''IsSummary'', show_int (tri_number (mf_is_summary f))), (''IsBinary'', show_int (tri_number (mf_is_binary f))),
      (''RecallCountMin'', show_int (mf_recall_count_min f)), (''RecallCountMax'', show_int (mf_recall_count_max f)),
      (''TimeRecalledMin'', show_int (mf_time_recalled_min f)), (''TimeRecalledMax'', show_int (mf_time_recalled_max f)),
      (''IdAfter'', mf_id_after f),
      (''SignificanceEquals'', case mf_significance_equals f of None \<Rightarrow> ''<nil>'' | Some v \<Rightarrow> show_int v)]"

definition filterCacheKey :: "string \<Rightarrow> MemoryFilter \<Rightarrow> string" where
  "filterCacheKey pfx f = pfx @ concat (map (\<lambda>(name, v). ''|'' @ name @ ''='' @ v) (filter_fields f))"

definition countMemories :: "nanos \<Rightarrow> MemoryFilter \<Rightarrow> db_state \<Rightarrow> countCache \<Rightarrow> nat \<times> countCache" where
  "countMemories now f s c =
     (let key = filterCacheKey ''memories'' f
      in case cache_get now key c of
           (Some n, c') \<Rightarrow> (n, c')
         | (None, c') \<Rightarrow> (let n = CountMemoriesFiltered f s in (n, cache_put now key n c')))"

section \<open>The listing handler\<close>

definition defaultMemoryPageSize :: int where "defaultMemoryPageSize = 25"

definition maxMemoryPageSize :: int where "maxMemoryPageSize = 200"

definition maxMemoryIdsPerRead :: nat where "maxMemoryIdsPerRead = 200"

fun restrict_from :: "ident list \<Rightarrow> ident list \<Rightarrow> ident list \<Rightarrow> ident list" where
  "restrict_from current seen [] = []"
| "restrict_from current seen (i # is) =
     (if i \<in> set seen \<or> current \<noteq> [] \<and> i \<notin> set current then restrict_from current seen is
      else i # restrict_from current (i # seen) is)"

definition restrictIds :: "ident list \<Rightarrow> ident list \<Rightarrow> ident list" where
  "restrictIds current requested = restrict_from current [] requested"

record list_request =
  lr_selection :: memorySelector
  lr_order_by :: string
  lr_order_dir :: SortDirection
  lr_limit :: int
  lr_offset :: int
  lr_ids :: "ident list"
  lr_linked_to :: ident

definition page_size :: "int \<Rightarrow> int" where
  "page_size n = (let l = (if n \<le> 0 then defaultMemoryPageSize else n) in if l > maxMemoryPageSize then maxMemoryPageSize else l)"

definition list_filter :: "request_ctx \<Rightarrow> list_request \<Rightarrow> MemoryFilter \<Rightarrow> MemoryFilter" where
  "list_filter ctx q f = f\<lparr>mf_order_by := lr_order_by q, mf_order_direction := lr_order_dir q, mf_limit := page_size (lr_limit q),
     mf_offset := (if lr_offset q < 0 then 0 else lr_offset q),
     mf_groups := (case GroupsFromContext ctx of None \<Rightarrow> [] | Some groups \<Rightarrow> groups)\<rparr>"

text \<open>The neighbours of \<open>linked_to\<close>; \<open>None\<close> is a listing that can only be empty.\<close>

definition narrow_linked :: "rpc_env \<Rightarrow> request_ctx \<Rightarrow> ident \<Rightarrow> db_state \<Rightarrow> MemoryFilter \<Rightarrow> rpc_error + MemoryFilter option" where
  "narrow_linked env ctx linkedTo s f =
     (if linkedTo = [] then Inr (Some f)
      else case scopeIds memoryKind env ctx [linkedTo] s of
             Inl e \<Rightarrow> Inl e
           | Inr _ \<Rightarrow>
               (case missingIds memoryKind env [linkedTo] s of
                  Inl e \<Rightarrow> Inl (mapError e)
                | Inr missing \<Rightarrow>
                    if missing \<noteq> [] then Inl (NotFound [linkedTo])
                    else if linked_fails env then Inl Internal
                    else let linked = linkedIds [linkedTo] (memory_links s)
                         in Inr (if linked = [] then None else Some (f\<lparr>mf_ids := linked\<rparr>))))"

definition narrow_ids :: "ident list \<Rightarrow> MemoryFilter \<Rightarrow> MemoryFilter option" where
  "narrow_ids requested f =
     (if requested = [] then Some f
      else let ids = restrictIds (mf_ids f) requested in if ids = [] then None else Some (f\<lparr>mf_ids := ids\<rparr>))"

definition listing_total :: "nanos \<Rightarrow> MemoryFilter \<Rightarrow> nat \<Rightarrow> db_state \<Rightarrow> countCache \<Rightarrow> nat \<times> countCache" where
  "listing_total now f got s c =
     (if int got \<ge> mf_limit f \<or> mf_offset f > 0 \<and> got = 0 then countMemories now f s c
      else if mf_offset f > 0 then (nat (mf_offset f) + got, c)
      else (got, c))"

definition rpc_GetMemories :: "rpc_env \<Rightarrow> request_ctx \<Rightarrow> list_request \<Rightarrow> db_state \<Rightarrow> countCache
    \<Rightarrow> (rpc_error + memory_row list \<times> int) \<times> countCache" where
  "rpc_GetMemories env ctx q s c =
     (case memorySelectionFilter (lr_selection q) of
        Inl e \<Rightarrow> (Inl e, c)
      | Inr f0 \<Rightarrow>
          if \<not> validOrderBy (memoryOrderClauses s) (lr_order_by q) then (Inl InvalidArgument, c)
          else if length (lr_ids q) > maxMemoryIdsPerRead then (Inl InvalidArgument, c)
          else (case narrow_linked env ctx (lr_linked_to q) s (list_filter ctx q f0) of
                  Inl e \<Rightarrow> (Inl e, c)
                | Inr None \<Rightarrow> (Inr ([], 0), c)
                | Inr (Some f1) \<Rightarrow>
                    (case narrow_ids (lr_ids q) f1 of
                       None \<Rightarrow> (Inr ([], 0), c)
                     | Some f \<Rightarrow>
                         if read_fails env then (Inl Internal, c)
                         else let ms = GetMemories f s; (tot, c') = listing_total (rpc_now env) f (length ms) s c
                              in (Inr (ms, i32 (int tot)), c'))))"

section \<open>Facts about orderings\<close>

definition flip_terms :: "'r order_term list \<Rightarrow> 'r order_term list" where
  "flip_terms = map (\<lambda>(k, up). (k, \<not> up))"

lemma sort_term_mset [simp]: "mset (sort_term t rows) = mset rows"
  by (auto simp: sort_term_def Let_def split: order_key.splits)

lemma order_rows_mset [simp]: "mset (order_rows ts rows) = mset rows"
  by (induction ts) (simp_all add: order_rows_def)

lemma order_rows_set [simp]: "set (order_rows ts rows) = set rows"
  by (rule mset_eq_setD) simp

lemma order_rows_length [simp]: "length (order_rows ts rows) = length rows"
  by (rule mset_eq_length) simp

lemma order_rows_distinct [simp]: "distinct (order_rows ts rows) = distinct rows"
  by (rule mset_eq_imp_distinct_iff) simp

lemma flip_reverses: "order_rows (flip_terms ts) (rev rows) = rev (order_rows ts rows)"
  by (induction ts) (auto simp: order_rows_def flip_terms_def sort_term_def Let_def split: order_key.splits)

text \<open>A listing whose last term is a key does not depend on the order the engine scans the rows in.\<close>

lemma keyed_sort_determined:
  assumes "mset xs = mset ys" "distinct (map k xs)"
  shows "sort_term (StrKey k, up) xs = sort_term (StrKey k, up) ys"
proof -
  have d: "inj_on k (set xs)" "inj_on k (set (rev xs))" using assms(2) by (simp_all add: distinct_map)
  have "sort_key k xs = sort_key k ys"
    by (rule sort_key_inj_key_eq) (use assms d in auto)
  moreover have "sort_key k (rev xs) = sort_key k (rev ys)"
    by (rule sort_key_inj_key_eq) (use assms d in auto)
  ultimately show ?thesis by (simp add: sort_term_def Let_def)
qed

lemma order_rows_determined:
  assumes "mset xs = mset ys" "distinct (map k xs)"
  shows "order_rows (ts @ [(StrKey k, up)]) xs = order_rows (ts @ [(StrKey k, up)]) ys"
  using keyed_sort_determined [OF assms] by (simp add: order_rows_def)

text \<open>The SQL comparison: by the first term that tells two rows apart.\<close>

fun key_less :: "'r order_key \<Rightarrow> 'r \<Rightarrow> 'r \<Rightarrow> bool" where
  "key_less (IntKey k) a b \<longleftrightarrow> k a < k b"
| "key_less (StrKey k) a b \<longleftrightarrow> k a < k b"

fun row_le :: "'r order_term list \<Rightarrow> 'r \<Rightarrow> 'r \<Rightarrow> bool" where
  "row_le [] a b \<longleftrightarrow> True"
| "row_le ((k, up) # ts) a b \<longleftrightarrow>
     (if up then key_less k a b else key_less k b a) \<or> (\<not> key_less k a b \<and> \<not> key_less k b a \<and> row_le ts a b)"

lemma sort_key_lexicographic:
  fixes k :: "'r \<Rightarrow> 'k :: linorder"
  assumes "sorted_wrt R xs"
  shows "sorted_wrt (\<lambda>a b. k a < k b \<or> k a = k b \<and> R a b) (sort_key k xs)"
  using assms
proof (induction xs)
  case (Cons x xs)
  have ins: "sorted_wrt (\<lambda>a b. k a < k b \<or> k a = k b \<and> R a b) ys \<Longrightarrow> \<forall>y \<in> set ys. R x y \<Longrightarrow>
      sorted_wrt (\<lambda>a b. k a < k b \<or> k a = k b \<and> R a b) (insort_key k x ys)" for ys
    by (induction ys) (auto simp: in_set_insort_key)
  then show ?case using Cons by auto
qed simp

lemma order_rows_sorted: "sorted_wrt (row_le ts) (order_rows ts rows)"
proof (induction ts)
  case Nil
  then show ?case by (simp add: order_rows_def sorted_wrt_iff_nth_less)
next
  case (Cons t ts)
  obtain k up where t: "t = (k, up)" by fastforce
  have sorted_rev: "sorted_wrt (\<lambda>a b. row_le ts b a) (rev (order_rows ts rows))" using Cons by (simp add: sorted_wrt_rev)
  have tie: "\<not> x < y \<and> \<not> y < x \<and> P \<longleftrightarrow> x = y \<and> P" for x y :: "'k :: linorder" and P by auto
  show ?case
  proof (cases k)
    case (IntKey f)
    then show ?thesis using sort_key_lexicographic [OF Cons, of f] sort_key_lexicographic [OF sorted_rev, of f]
      by (cases up) (simp_all add: t order_rows_def sort_term_def sorted_wrt_rev tie eq_commute)
  next
    case (StrKey f)
    then show ?thesis using sort_key_lexicographic [OF Cons, of f] sort_key_lexicographic [OF sorted_rev, of f]
      by (cases up) (simp_all add: t order_rows_def sort_term_def sorted_wrt_rev tie eq_commute)
  qed
qed

section \<open>Listings\<close>

text \<open>
  What the two clause tables promise a listing: the ascending form of each clause is the descending
  one turned round, its last term is the primary key, and the default is one of the names.
\<close>

definition keyed_clause :: "('r \<Rightarrow> ident) \<Rightarrow> 'r orderClause \<Rightarrow> bool" where
  "keyed_clause key c \<longleftrightarrow> oc_ascending c = flip_terms (oc_descending c) \<and> (\<exists>ts up. oc_descending c = ts @ [(StrKey key, up)])"

locale ordered_listing =
  fixes clauses :: "(string \<times> 'r orderClause) list" and key :: "'r \<Rightarrow> ident" and fallback :: string
  assumes keyed: "(n, c) \<in> set clauses \<Longrightarrow> keyed_clause key c"
    and default_there: "map_of clauses fallback \<noteq> None"
begin

lemma named_keyed: "keyed_clause key (clause_named clauses n fallback)"
  using default_there by (auto simp: clause_named_def split: option.splits intro!: keyed dest: map_of_SomeD)

lemma resolve_keyed: "\<exists>ts up. resolveOrder clauses n d fallback = ts @ [(StrKey key, up)]"
proof -
  obtain ts up where "oc_descending (clause_named clauses n fallback) = ts @ [(StrKey key, up)]"
    "oc_ascending (clause_named clauses n fallback) = flip_terms ts @ [(StrKey key, \<not> up)]"
    using named_keyed [of n] by (auto simp: keyed_clause_def flip_terms_def)
  then show ?thesis by (auto simp: resolveOrder_def Let_def)
qed

lemma listing_determined:
  assumes "mset xs = mset ys" "distinct (map key xs)"
  shows "order_rows (resolveOrder clauses n d fallback) xs = order_rows (resolveOrder clauses n d fallback) ys"
  using order_rows_determined [OF assms] resolve_keyed [of n d] by metis

lemma listing_reversed:
  assumes "distinct (map key rows)"
  shows "order_rows (resolveOrder clauses n SortDirectionAscending fallback) rows
    = rev (order_rows (resolveOrder clauses n SortDirectionDescending fallback) rows)"
proof -
  have "resolveOrder clauses n SortDirectionAscending fallback = flip_terms (resolveOrder clauses n SortDirectionDescending fallback)"
    using named_keyed [of n] by (simp add: resolveOrder_def keyed_clause_def)
  moreover have "order_rows (resolveOrder clauses n SortDirectionAscending fallback) rows
      = order_rows (resolveOrder clauses n SortDirectionAscending fallback) (rev rows)"
    by (rule listing_determined) (use assms in simp_all)
  ultimately show ?thesis by (simp add: flip_reverses)
qed

end

interpretation memory_listing: ordered_listing "memoryOrderClauses s" m_id defaultMemoryOrderBy for s
  by unfold_locales (auto simp: memoryOrderClauses_def Let_def keyed_clause_def flip_terms_def defaultMemoryOrderBy_def)

interpretation event_listing: ordered_listing "eventOrderClauses s" e_id defaultEventOrderBy for s
  by unfold_locales (auto simp: eventOrderClauses_def Let_def keyed_clause_def flip_terms_def defaultEventOrderBy_def)

lemma extreme_of_Max:
  "sigs \<noteq> [] \<Longrightarrow> extreme_of x sigs = Some (if x = SignificanceExtremumLowest then Min (set sigs) else Max (set sigs))"
proof -
  have "foldr max xs a = Max (insert a (set xs))" "foldr min xs a = Min (insert a (set xs))" for xs and a :: int
    by (induction xs) (simp_all add: insert_commute [of a])
  then show "sigs \<noteq> [] \<Longrightarrow> ?thesis" by (cases sigs) (auto simp: extreme_of_def)
qed

lemma extreme_of_cong: "set xs = set ys \<Longrightarrow> extreme_of x xs = extreme_of x ys"
  by (cases "xs = []") (force simp: extreme_of_def, metis extreme_of_Max set_empty)

lemma conditions_cong:
  assumes "set (memories s') = set (memories s)" "levels s' = levels s"
  shows "memoryFilterConditions f s' r = memoryFilterConditions f s r"
proof -
  have "memory_significance s' = memory_significance s" by (simp add: memory_significance_def fun_eq_iff assms(2))
  moreover have "extreme_of x (map g (filter P (memories s'))) = extreme_of x (map g (filter P (memories s)))" for x g P
    by (rule extreme_of_cong) (simp add: assms(1))
  ultimately show ?thesis by (simp add: memoryFilterConditions_def Let_def)
qed

lemma matching_set: "set (matching_memories f s) = {r \<in> set (memories s). memoryFilterConditions f s r}"
  by (simp add: matching_memories_def)

lemma matching_length: "length (matching_memories f s) = CountMemoriesFiltered f s"
  by (simp add: matching_memories_def CountMemoriesFiltered_def)

lemma pages_concat:
  assumes "0 < n" "length xs \<le> m * n"
  shows "concat (map (\<lambda>k. take n (drop (k * n) xs)) [0..<m]) = xs"
  using assms(2)
proof (induction m arbitrary: xs)
  case (Suc m)
  have "concat (map (\<lambda>k. take n (drop (k * n) xs)) [0..<Suc m])
      = take n xs @ concat (map (\<lambda>k. take n (drop (k * n) (drop n xs))) [0..<m])"
    by (simp add: upt_conv_Cons map_Suc_upt [symmetric] comp_def add.commute del: upt_Suc)
  moreover have "concat (map (\<lambda>k. take n (drop (k * n) (drop n xs))) [0..<m]) = drop n xs" by (rule Suc.IH) (use Suc.prems in simp)
  ultimately show ?case by simp
qed simp

text \<open>
  C27. A listing is a total order of what the filter matches: paging through it meets every matching
  memory exactly once, whichever order the engine keeps the rows in, sorted by the requested columns;
  and the opposite direction is the same listing read backwards.
\<close>

theorem listing_pages_are_exact:
  assumes "keys_ok s" "mset (memories s') = mset (memories s)" "levels s' = levels s"
    and "0 < n" "CountMemoriesFiltered f s \<le> m * nat n"
  shows "GetMemories f s' = GetMemories f s
    \<and> concat (map (\<lambda>k. GetMemories (f\<lparr>mf_limit := n, mf_offset := int k * n\<rparr>) s) [0..<m]) = matching_memories f s
    \<and> distinct (matching_memories f s) \<and> set (matching_memories f s) = {r \<in> set (memories s). memoryFilterConditions f s r}
    \<and> sorted_wrt (row_le (resolveOrder (memoryOrderClauses s) (mf_order_by f) (mf_order_direction f) defaultMemoryOrderBy)) (matching_memories f s)
    \<and> matching_memories (f\<lparr>mf_order_direction := SortDirectionAscending\<rparr>) s = rev (matching_memories (f\<lparr>mf_order_direction := SortDirectionDescending\<rparr>) s)"
proof -
  have d: "distinct (map m_id (memories s))" "distinct (memories s)" using assms(1) by (auto simp: keys_ok_def distinct_map)
  have c: "memoryFilterConditions f s' = memoryFilterConditions f s"
    using conditions_cong mset_eq_setD [OF assms(2)] assms(3) by blast
  have "memory_significance s' = memory_significance s" by (simp add: memory_significance_def assms(3) fun_eq_iff)
  then have "memoryOrderClauses s' = memoryOrderClauses s" by (simp add: memoryOrderClauses_def)
  moreover have "distinct (map m_id (filter P (memories s)))" for P using d(1) by (rule distinct_map_filter_key)
  moreover have "mset (filter P (memories s')) = mset (filter P (memories s))" for P using assms(2) by (simp only: mset_filter)
  ultimately have "matching_memories f s' = matching_memories f s"
    by (simp add: matching_memories_def c) (rule memory_listing.listing_determined [symmetric], simp_all)
  then have "GetMemories f s' = GetMemories f s" by (simp add: GetMemories_def)
  moreover have cond: "memoryFilterConditions (f\<lparr>mf_limit := a, mf_offset := b\<rparr>) = memoryFilterConditions f"
    "memoryFilterConditions (f\<lparr>mf_order_direction := dir\<rparr>) = memoryFilterConditions f" for a b dir
    by (simp_all add: memoryFilterConditions_def memory_where_def Let_def fun_eq_iff)
  then have "matching_memories (f\<lparr>mf_limit := n, mf_offset := b\<rparr>) s = matching_memories f s" for b by (simp add: matching_memories_def)
  then have "concat (map (\<lambda>k. GetMemories (f\<lparr>mf_limit := n, mf_offset := int k * n\<rparr>) s) [0..<m])
      = concat (map (\<lambda>k. take (nat n) (drop (k * nat n) (matching_memories f s))) [0..<m])"
    using assms(4) by (simp add: GetMemories_def page_def nat_mult_distrib)
  moreover have "\<dots> = matching_memories f s" by (rule pages_concat) (use assms in \<open>simp_all add: matching_length\<close>)
  moreover have "distinct (matching_memories f s)"
    using d(2) by (simp add: matching_memories_def)
  moreover have "distinct (map m_id (filter (memoryFilterConditions f s) (memories s)))" using d(1) by (rule distinct_map_filter_key)
  then have "matching_memories (f\<lparr>mf_order_direction := SortDirectionAscending\<rparr>) s = rev (matching_memories (f\<lparr>mf_order_direction := SortDirectionDescending\<rparr>) s)"
    by (simp add: matching_memories_def cond memory_listing.listing_reversed)
  ultimately show ?thesis by (simp add: matching_set) (simp add: matching_memories_def order_rows_sorted)
qed

definition any_selection :: memorySelector where
  "any_selection = \<lparr>sm_timestamp_min = 0, sm_timestamp_max = 0, sm_significance_min = 0, sm_significance_max = 0,
     sm_extremum = SignificanceExtremumNone, sm_group = [], sm_metadata = [], sm_recalled = TriStateUnset, sm_recall_count_min = 0,
     sm_recall_count_max = 0, sm_time_recalled_min = 0, sm_time_recalled_max = 0, sm_is_summary = TriStateUnset,
     sm_is_binary = TriStateUnset, sm_event_id = [], sm_has_event = TriStateUnset\<rparr>"

theorem listing_pages_are_exact_witness:
  "concat (map (\<lambda>k. GetMemories (no_memory_filter\<lparr>mf_timestamp_min := 15, mf_limit := 1, mf_offset := int k * 1\<rparr>) linked_store) [0..<2])
   = [example_memory ''c'' 30 7, example_memory ''b'' 20 12]"
proof -
  let ?f = "no_memory_filter\<lparr>mf_timestamp_min := 15\<rparr>"
  have "CountMemoriesFiltered ?f linked_store \<le> 2 * nat 1" by code_simp
  from listing_pages_are_exact [OF linked_store_keys refl refl _ this]
  have "concat (map (\<lambda>k. GetMemories (?f\<lparr>mf_limit := 1, mf_offset := int k * 1\<rparr>) linked_store) [0..<2]) = matching_memories ?f linked_store"
    by simp
  also have "\<dots> = [example_memory ''c'' 30 7, example_memory ''b'' 20 12]" by code_simp
  finally show ?thesis .
qed

section \<open>Totals\<close>

lemma page_length: "0 < n \<Longrightarrow> 0 \<le> off \<Longrightarrow> int (length (page n off xs)) = min n (max 0 (int (length xs) - off))"
  by (simp add: page_def)

lemma short_page_tells:
  assumes "int got = min lmt (max 0 (int matches - off))" "0 < lmt" "0 \<le> off"
  shows "\<not> lmt \<le> int got \<Longrightarrow> off = 0 \<or> got \<noteq> 0 \<Longrightarrow> nat off + got = matches"
  using assms by linarith

lemma page_size_pos: "0 < page_size n" "page_size n \<le> maxMemoryPageSize"
  by (simp_all add: page_size_def Let_def defaultMemoryPageSize_def maxMemoryPageSize_def)

lemma narrowed:
  assumes "narrow_linked env ctx lt s f = Inr (Some f1)" "narrow_ids ids f1 = Some f2"
  shows "mf_limit f2 = mf_limit f" "mf_offset f2 = mf_offset f" "mf_groups f2 = mf_groups f"
  using assms by (auto simp: narrow_linked_def narrow_ids_def Let_def split: if_splits sum.splits)

text \<open>The cache has no live entry for a filter.\<close>

definition uncached :: "nanos \<Rightarrow> MemoryFilter \<Rightarrow> countCache \<Rightarrow> bool" where
  "uncached now f c \<longleftrightarrow> fst (cache_get now (filterCacheKey ''memories'' f) c) = None"

lemma countMemories_uncached: "uncached now f c \<Longrightarrow> fst (countMemories now f s c) = CountMemoriesFiltered f s"
  by (cases "cache_get now (filterCacheKey ''memories'' f) c") (simp add: uncached_def countMemories_def Let_def)

text \<open>
  A listing answers with one page of what its filter matches and the number of all matches, though
  it counts only when the page does not already tell: a page that came back short, at any offset,
  is counted without a second query. A group-bound caller is shown, and counts, its own groups' memories only.
\<close>

theorem listing_total_is_exact:
  assumes "rpc_GetMemories env ctx q s c = (Inr (ms, tot), c')" and "\<And>f. uncached (rpc_now env) f c"
    and "int (length (memories s)) \<le> max_i32"
  shows "ms = [] \<and> tot = 0 \<or> (\<exists>f. ms = GetMemories f s \<and> tot = int (CountMemoriesFiltered f s) \<and> length ms \<le> nat maxMemoryPageSize
    \<and> (\<forall>groups. GroupsFromContext ctx = Some groups \<longrightarrow> (\<forall>r. memoryFilterConditions f s r \<longrightarrow> m_group r \<in> set groups)))"
proof (cases "ms = [] \<and> tot = 0")
  case False
  with assms(1) obtain f0 f1 f n where
    f: "narrow_linked env ctx (lr_linked_to q) s (list_filter ctx q f0) = Inr (Some f1)" "narrow_ids (lr_ids q) f1 = Some f"
    and ms: "ms = GetMemories f s" and n: "n = fst (listing_total (rpc_now env) f (length ms) s c)" and tot: "tot = i32 (int n)"
    by (auto simp: rpc_GetMemories_def Let_def split_beta split: sum.splits option.splits if_splits)
  have lim: "0 < mf_limit f" "mf_limit f \<le> maxMemoryPageSize" "0 \<le> mf_offset f"
    and grp: "mf_groups f = (case GroupsFromContext ctx of None \<Rightarrow> [] | Some groups \<Rightarrow> groups)"
    using narrowed [OF f] by (simp_all add: list_filter_def page_size_pos)
  have len: "int (length ms) = min (mf_limit f) (max 0 (int (CountMemoriesFiltered f s) - mf_offset f))"
    using page_length [OF lim(1,3), of "matching_memories f s"] by (simp add: ms GetMemories_def matching_length)
  have "n = CountMemoriesFiltered f s"
    using countMemories_uncached [OF assms(2)] short_page_tells [OF len lim(1,3)] lim(3)
    unfolding n listing_total_def by (cases "mf_offset f = 0") (auto simp del: length_greater_0_conv)
  moreover have "CountMemoriesFiltered f s \<le> length (memories s)" by (simp add: CountMemoriesFiltered_def)
  ultimately have "tot = int (CountMemoriesFiltered f s)" using tot assms(3) by (simp add: max_i32_def)
  moreover have "length ms \<le> nat maxMemoryPageSize" using len lim by linarith
  moreover have "m_group r \<in> set groups" if "GroupsFromContext ctx = Some groups" "memoryFilterConditions f s r" for r groups
    using that grp bound_groups [OF that(1)]
    by (simp add: memoryFilterConditions_def memory_where_def groupScopeConditions_def when_set_def)
  ultimately show ?thesis using ms by blast
qed simp

definition plain_listing :: "int \<Rightarrow> int \<Rightarrow> list_request" where
  "plain_listing n off = \<lparr>lr_selection = any_selection, lr_order_by = [], lr_order_dir = SortDirectionNatural, lr_limit = n,
     lr_offset = off, lr_ids = [], lr_linked_to = []\<rparr>"

theorem listing_total_is_exact_witness:
  "\<exists>f. fst (rpc_GetMemories (quiet_rpc 9) sales_ctx (plain_listing 2 0) mixed_store (newCountCache 5))
     = Inr ([(example_memory ''a'' 10 5)\<lparr>m_group := ''sales''\<rparr>], int (CountMemoriesFiltered f mixed_store))"
proof -
  let ?c = "newCountCache 5"
  have u: "uncached 9 f ?c" for f by (simp add: uncached_def newCountCache_def cache_get_def)
  have r: "rpc_GetMemories (quiet_rpc 9) sales_ctx (plain_listing 2 0) mixed_store ?c = (Inr ([(example_memory ''a'' 10 5)\<lparr>m_group := ''sales''\<rparr>], 1), ?c)"
    by code_simp
  have "int (length (memories mixed_store)) \<le> max_i32" by code_simp
  from listing_total_is_exact [OF r _ this] u
  obtain f where "1 = int (CountMemoriesFiltered f mixed_store)" by (auto simp: quiet_rpc_def)
  then show ?thesis using r by (intro exI [of _ f]) simp
qed

text \<open>
  The cache key does not tell a caller bound to one group whose name has a space from a caller bound
  to two: the first one's count answers the second one's listing.
\<close>

lemma cache_key_confuses_scopes:
  "filterCacheKey ''memories'' (f\<lparr>mf_groups := [''red team'']\<rparr>) = filterCacheKey ''memories'' (f\<lparr>mf_groups := [''red'', ''team'']\<rparr>)"
  by (simp add: filterCacheKey_def filter_fields_def show_slice_def)

lemma cached_total_of_another_scope:
  assumes "0 < cc_ttl c" "cc_entries c = []"
  defines "f \<equiv> no_memory_filter\<lparr>mf_groups := [''red team'']\<rparr>" and "g \<equiv> no_memory_filter\<lparr>mf_groups := [''red'', ''team'']\<rparr>"
  shows "fst (countMemories now g s (snd (countMemories now f s c))) = CountMemoriesFiltered f s"
proof -
  have "filterCacheKey ''memories'' g = filterCacheKey ''memories'' f"
    unfolding f_def g_def by (rule cache_key_confuses_scopes [symmetric])
  then show ?thesis using assms(1,2)
    by (simp add: countMemories_def Let_def cache_get_def cache_put_def cache_enabled_def maxCountCacheEntries_def)
qed

section \<open>Substring filters\<close>

lemma lower_fixed:
  assumes "d \<in> {CHR ''#'', CHR ''%'', CHR ''_''}"
  shows "lower c = d \<longleftrightarrow> c = d"
proof (cases "65 \<le> (of_char c :: nat) \<and> (of_char c :: nat) \<le> 90")
  case True
  then have "(of_char (lower c) :: nat) = of_char c + 32" by (simp add: lower_def)
  with True have "97 \<le> (of_char (lower c) :: nat)" "(of_char (lower c) :: nat) \<le> 122" by simp_all
  then show ?thesis using True assms by auto
next
  case False
  then show ?thesis by (auto simp: lower_def)
qed

lemma lower_escaped: "map lower (escapeLikePattern w) = escapeLikePattern (map lower w)"
  using lower_fixed by (induction w) (auto simp: likeEscape_def)

lemma like_escaped: "like (escapeLikePattern w @ ps) t \<longleftrightarrow> (\<exists>u. t = w @ u \<and> like ps u)"
  by (induction w arbitrary: t) (auto simp: likeEscape_def split: list.splits)

lemma like_any: "like (CHR ''%'' # ps) t \<longleftrightarrow> (\<exists>a u. t = a @ u \<and> like ps u)"
proof (induction t)
  case (Cons c t)
  have "(\<exists>a u. c # t = a @ u \<and> like ps u) \<longleftrightarrow> like ps (c # t) \<or> (\<exists>a u. t = a @ u \<and> like ps u)"
    by (metis append_Cons append_Nil list.inject neq_Nil_conv)
  then show ?case using Cons by simp
qed simp

text \<open>
  A substring filter asks for the characters the caller typed: whatever wildcards and escapes the
  text contains, the LIKE pattern built from it matches exactly the values that contain it,
  ignoring case.
\<close>

theorem substring_filter_is_literal:
  "contains_ignoring_case wanted t \<longleftrightarrow> sublist (map lower wanted) (map lower t)"
proof -
  have "map lower (''%'' @ escapeLikePattern wanted @ ''%'') = CHR ''%'' # escapeLikePattern (map lower wanted) @ ''%''"
    using lower_fixed [of "CHR ''%''" "CHR ''%''"] by (simp add: lower_escaped)
  moreover have "like ''%'' u" for u using like_any [of "[]" u] by (metis append_Nil2 like.simps(1))
  ultimately show ?thesis
    by (simp only: contains_ignoring_case_def like_any like_escaped sublist_def) (auto simp del: like.simps)
qed

end
