(* ===== verification/Decay.thy ===== *)
theory Decay
  imports Db_State
begin

text \<open>
  The value model (\<^verbatim>\<open>hippocampus/sleep.go\<close>): effective significance, age, the six decay methods,
  capacity pressure, and the decisions built on them, together with the part of the startup
  validation (\<^verbatim>\<open>configProblems\<close> in \<^verbatim>\<open>cmd/hippocampus/main.go\<close>) they rely on. \<open>float64\<close> is modelled by
  the reals: rounding is not modelled, NaN and infinities are excluded by the guards the code has,
  which are kept as branches. Clock differences are \<open>int64\<close> subtractions. Every function takes
  the clock reading \<open>now\<close> it would obtain from \<^verbatim>\<open>time.Now().UnixNano()\<close>.
\<close>

section \<open>Configuration\<close>

record Consolidation =
  defaultEventSignificanceValue :: int
  defaultEventSignificancePercentile :: real
  minimumAgeInDays :: int
  minimumRetentionInDays :: int
  maximumRetentionInDays :: int
  aggressiveness :: real
  deletionThreshold :: real
  decay_method :: int
  unitsOfAgeInDays :: real
  linkSignificanceWeight :: real
  recallSignificanceWeight :: real
  capacityMemories :: int
  capacityPressureExponent :: real
  capacityBytes :: int
  capacityBytesFloor :: int
  capacityExternalBytes :: int
  capacityExternalBytesFloor :: int
  consolidation_enabled :: bool
  standby :: bool
  standbyPollSeconds :: int
  storage_driver :: string

datatype config_problem =
    UnitsNotPositive | MethodOutOfRange | AggressivenessNotPositive | StandbyNeedsSharedStore
  | StandbyButEnabled | StandbyPollNegative | AggressivenessTooSmallForMethod3
  | NothingForgets | ExternalCapacityNegative | ExternalFloorNegative | MinimumRetentionNegative
  | MaximumRetentionNegative | MaximumNotAboveMinimum

text \<open>
  The checks of \<^verbatim>\<open>configProblems\<close> on the keys the value model and the passes read; the checks on the
  archive, the object store, the listeners and the credentials that follow them are not modelled.
\<close>

definition consolidationProblems :: "Consolidation \<Rightarrow> config_problem list" where
  "consolidationProblems c =
     (if unitsOfAgeInDays c \<le> 0 then [UnitsNotPositive] else []) @
     (if decay_method c < 1 \<or> decay_method c > 6 then [MethodOutOfRange] else []) @
     (if aggressiveness c \<le> 0 then [AggressivenessNotPositive] else []) @
     (if standby c
      then (if storage_driver c = ''postgres'' \<or> storage_driver c = ''mysql'' then [] else [StandbyNeedsSharedStore]) @
           (if consolidation_enabled c then [StandbyButEnabled] else [])
      else []) @
     (if standbyPollSeconds c < 0 then [StandbyPollNegative] else []) @
     (if decay_method c = 3 \<and> aggressiveness c \<le> exp (- 1) then [AggressivenessTooSmallForMethod3] else []) @
     (if deletionThreshold c \<le> 0 \<and> capacityBytes c \<le> 0 \<and> capacityExternalBytes c \<le> 0
      then [NothingForgets] else []) @
     (if capacityExternalBytes c < 0 then [ExternalCapacityNegative] else []) @
     (if capacityExternalBytesFloor c < 0 then [ExternalFloorNegative] else []) @
     (if minimumRetentionInDays c < 0 then [MinimumRetentionNegative] else []) @
     (if maximumRetentionInDays c < 0 then [MaximumRetentionNegative]
      else if maximumRetentionInDays c > 0 \<and> minimumRetentionInDays c > 0 \<and>
              maximumRetentionInDays c \<le> minimumRetentionInDays c then [MaximumNotAboveMinimum]
      else [])"

lemma valid_config:
  assumes "consolidationProblems c = []"
  shows "0 < unitsOfAgeInDays c" "1 \<le> decay_method c" "decay_method c \<le> 6" "0 < aggressiveness c"
    "decay_method c = 3 \<Longrightarrow> exp (- 1) < aggressiveness c"
    "0 \<le> minimumRetentionInDays c" "0 \<le> maximumRetentionInDays c"
    "maximumRetentionInDays c > 0 \<Longrightarrow> minimumRetentionInDays c > 0 \<Longrightarrow> minimumRetentionInDays c < maximumRetentionInDays c"
    "deletionThreshold c \<le> 0 \<Longrightarrow> 0 < capacityBytes c \<or> 0 < capacityExternalBytes c"
  using assms by (auto simp: consolidationProblems_def split: if_splits)

section \<open>Candidates\<close>

record MemoryConsolidationCandidate =
  EventSignificance :: int
  MemorySignificance :: int
  EventLinkSignificance :: int
  MemoryLinkSignificance :: int
  Timestamp :: nanos
  TimeRecalled :: nanos
  RecallCount :: int

record EventConsolidationCandidate =
  Significance :: int
  LinkSignificance :: int
  TimeStart :: nanos
  TimeEnd :: nanos
  MemoriesConsolidated :: bool

definition DAY_IN_NANOSECONDS :: int where
  "DAY_IN_NANOSECONDS = 86400 * 1000000000"

lemma day_pos [simp]: "0 < DAY_IN_NANOSECONDS"
  by (simp add: DAY_IN_NANOSECONDS_def)

definition MaxFloat64 :: real where
  "MaxFloat64 = (2 - 1 / 2 ^ 52) * 2 ^ 1023"

lemma MaxFloat64_pos: "0 < MaxFloat64"
  by (simp add: MaxFloat64_def)

definition memoryDecayTimestamp :: "MemoryConsolidationCandidate \<Rightarrow> nanos" where
  "memoryDecayTimestamp m = (if TimeRecalled m > Timestamp m then TimeRecalled m else Timestamp m)"

text \<open>\<^verbatim>\<open>math.Log1p\<close>; a non-positive sum contributes nothing.\<close>

definition linkContribution :: "real \<Rightarrow> int \<Rightarrow> real" where
  "linkContribution weight sm = (if sm \<le> 0 then 0 else weight * ln (1 + real_of_int sm))"

definition memorySignificanceUnder :: "Consolidation \<Rightarrow> MemoryConsolidationCandidate \<Rightarrow> int \<Rightarrow> real" where
  "memorySignificanceUnder c m defaultEventSignificance =
     (let es = (if EventSignificance m = 0 then defaultEventSignificance else EventSignificance m)
      in real_of_int es + real_of_int (MemorySignificance m) +
         linkContribution (linkSignificanceWeight c) (EventLinkSignificance m) +
         linkContribution (linkSignificanceWeight c) (MemoryLinkSignificance m) +
         recallSignificanceWeight c * real_of_int (RecallCount m))"

section \<open>Value\<close>

definition sigmoidSteepness :: real where
  "sigmoidSteepness = 5"

text \<open>
  The six methods. For methods 3 and 5 the guard \<^verbatim>\<open>math.IsNaN(factor) || factor <= 0\<close> is the
  test that the logarithm's argument is positive (a logarithm of a negative number is NaN, of
  zero is minus infinity) and the factor is positive.
\<close>

definition calculateValue :: "Consolidation \<Rightarrow> real \<Rightarrow> real \<Rightarrow> real" where
  "calculateValue c sg age =
     (if decay_method c = 1 then sg / (age powr aggressiveness c)
      else if decay_method c = 2 then sg / (age * exp (aggressiveness c))
      else if decay_method c = 3 then
        (if aggressiveness c \<le> 0 \<or> 1 + ln (aggressiveness c) \<le> 0 then MaxFloat64
         else sg / (age * (1 + ln (aggressiveness c))))
      else if decay_method c = 4 then sg / exp (age * aggressiveness c)
      else if decay_method c = 5 then
        (if age + exp 1 \<le> 0 \<or> aggressiveness c * ln (age + exp 1) \<le> 0 then MaxFloat64
         else sg / (aggressiveness c * ln (age + exp 1)))
      else if decay_method c = 6 then
        sg / (1 + exp (sigmoidSteepness * (age / aggressiveness c - 1)))
      else MaxFloat64)"

definition ageNanoSeconds :: "nanos \<Rightarrow> nanos \<Rightarrow> int" where
  "ageNanoSeconds now ts = i64 (now - ts)"

definition ageUnits :: "Consolidation \<Rightarrow> nanos \<Rightarrow> nanos \<Rightarrow> real" where
  "ageUnits c now ts =
     (real_of_int (ageNanoSeconds now ts) / real_of_int DAY_IN_NANOSECONDS) / unitsOfAgeInDays c"

definition memoryValueUnder :: "Consolidation \<Rightarrow> nanos \<Rightarrow> MemoryConsolidationCandidate \<Rightarrow> int \<Rightarrow> real" where
  "memoryValueUnder c now m dflt =
     (let u = ageUnits c now (memoryDecayTimestamp m)
      in if u \<le> 0 then MaxFloat64 else calculateValue c (memorySignificanceUnder c m dflt) u)"

section \<open>Decisions\<close>

definition retained :: "Consolidation \<Rightarrow> nanos \<Rightarrow> nanos \<Rightarrow> bool" where
  "retained c now ts =
     (if minimumRetentionInDays c \<le> 0 then False
      else go_div (ageNanoSeconds now ts) DAY_IN_NANOSECONDS < minimumRetentionInDays c)"

definition deletionThresholdUnder :: "Consolidation \<Rightarrow> real \<Rightarrow> real" where
  "deletionThresholdUnder c pressure =
     deletionThreshold c * (if pressure \<le> 0 then 1 else pressure)"

definition shouldConsolidateUnder :: "Consolidation \<Rightarrow> nanos \<Rightarrow> real \<Rightarrow> nanos \<Rightarrow> real \<Rightarrow> bool" where
  "shouldConsolidateUnder c now significance ts pressure =
     (if retained c now ts then False
      else if go_div (ageNanoSeconds now ts) DAY_IN_NANOSECONDS < minimumAgeInDays c then False
      else if ageUnits c now ts \<le> 0 then False
      else calculateValue c significance (ageUnits c now ts) < deletionThresholdUnder c pressure)"

definition shouldConsolidateMemoryUnder :: "Consolidation \<Rightarrow> nanos \<Rightarrow> real \<Rightarrow> int
    \<Rightarrow> MemoryConsolidationCandidate \<Rightarrow> bool" where
  "shouldConsolidateMemoryUnder c now pressure dflt m =
     shouldConsolidateUnder c now (memorySignificanceUnder c m dflt) (memoryDecayTimestamp m) pressure"

definition MemoryRetained :: "Consolidation \<Rightarrow> nanos \<Rightarrow> MemoryConsolidationCandidate \<Rightarrow> bool" where
  "MemoryRetained c now m = retained c now (memoryDecayTimestamp m)"

definition sweepEmptyEvent :: "Consolidation \<Rightarrow> EventConsolidationCandidate \<Rightarrow> bool" where
  "sweepEmptyEvent c e \<longleftrightarrow> MemoriesConsolidated e \<or> deletionThreshold c \<le> 0"

definition shouldConsolidateEventUnder :: "Consolidation \<Rightarrow> nanos \<Rightarrow> EventConsolidationCandidate \<Rightarrow> real \<Rightarrow> bool" where
  "shouldConsolidateEventUnder c now e pressure =
     (let ts = (if TimeEnd e > TimeStart e then TimeEnd e else TimeStart e)
      in if sweepEmptyEvent c e then \<not> retained c now ts
         else shouldConsolidateUnder c now
                (real_of_int (Significance e) + linkContribution (linkSignificanceWeight c) (LinkSignificance e))
                ts pressure)"

definition calculateCapacityPressure :: "Consolidation \<Rightarrow> int \<Rightarrow> int \<Rightarrow> int \<Rightarrow> real" where
  "calculateCapacityPressure c memoryCount usedBytes externalBytes =
     (let u0 = (if capacityMemories c > 0 then real_of_int memoryCount / real_of_int (capacityMemories c) else 0);
          u1 = (if capacityBytes c > 0
                then (let b = real_of_int usedBytes / real_of_int (capacityBytes c) in if b > u0 then b else u0)
                else u0);
          u2 = (if capacityExternalBytes c > 0
                then (let x = real_of_int externalBytes / real_of_int (capacityExternalBytes c) in if x > u1 then x else u1)
                else u1)
      in if u2 = 0 then 1 else 1 + u2 powr capacityPressureExponent c)"

definition evictionFloorFor :: "int \<Rightarrow> int \<Rightarrow> int" where
  "evictionFloorFor capacity flr = (if flr \<le> 0 \<or> flr > capacity then capacity else flr)"

definition evictionExcess :: "int \<Rightarrow> int \<Rightarrow> int \<Rightarrow> int" where
  "evictionExcess used capacity flr = (if capacity \<le> 0 \<or> used \<le> capacity then 0 else used - flr)"

definition expiryCutoff :: "Consolidation \<Rightarrow> nanos \<Rightarrow> nanos" where
  "expiryCutoff c now =
     (if maximumRetentionInDays c \<le> 0 then 0
      else i64 (now - i64 (maximumRetentionInDays c * DAY_IN_NANOSECONDS)))"


section \<open>The shape of the curves\<close>

text \<open>
  Under a configuration the startup validation accepts, every method divides the significance by a
  positive denominator that grows with age.
\<close>

definition decay_denominator :: "Consolidation \<Rightarrow> real \<Rightarrow> real" where
  "decay_denominator c age =
     (if decay_method c = 1 then age powr aggressiveness c
      else if decay_method c = 2 then age * exp (aggressiveness c)
      else if decay_method c = 3 then age * (1 + ln (aggressiveness c))
      else if decay_method c = 4 then exp (age * aggressiveness c)
      else if decay_method c = 5 then aggressiveness c * ln (age + exp 1)
      else 1 + exp (sigmoidSteepness * (age / aggressiveness c - 1)))"

lemma method3_factor_pos: "exp (- 1) < a \<Longrightarrow> 0 < 1 + ln (a::real)"
proof -
  assume a: "exp (- 1) < a"
  then have "0 < a" using exp_gt_zero [of "- 1 :: real"] by linarith
  with a have "ln (exp (- 1)) < ln a" using ln_less_cancel_iff [of "exp (- 1)" a] by simp
  then show "0 < 1 + ln a" by simp
qed

lemma ln_age_pos: "0 < (age::real) \<Longrightarrow> 1 < ln (age + exp 1)"
  using ln_less_cancel_iff [of "exp 1" "age + exp 1"] by (simp add: add_pos_pos)

lemma decay_denominator_pos:
  assumes "consolidationProblems c = []" "0 < age"
  shows "0 < decay_denominator c age"
proof -
  note V = valid_config [OF assms(1)]
  have "0 < aggressiveness c * ln (age + exp 1)" using V(4) ln_age_pos [OF assms(2)] by simp
  moreover have "decay_method c = 3 \<Longrightarrow> 0 < 1 + ln (aggressiveness c)" using V(5) method3_factor_pos by blast
  ultimately show ?thesis using assms(2) by (simp add: decay_denominator_def add_pos_pos)
qed

lemma calculateValue_quotient:
  assumes "consolidationProblems c = []" "0 < age"
  shows "calculateValue c sg age = sg / decay_denominator c age"
proof -
  note V = valid_config [OF assms(1)]
  have "0 < age + exp 1" using assms(2) by (simp add: add_pos_pos)
  moreover have "0 < aggressiveness c * ln (age + exp 1)" using V(4) ln_age_pos [OF assms(2)] by simp
  moreover have "decay_method c = 3 \<Longrightarrow> 0 < 1 + ln (aggressiveness c)" using V(5) method3_factor_pos by blast
  moreover have "decay_method c \<in> {1, 2, 3, 4, 5, 6}" using V(2,3) by auto
  ultimately show ?thesis using V(4)
    by (auto simp: calculateValue_def decay_denominator_def)
qed

lemma decay_denominator_strict_mono:
  assumes "consolidationProblems c = []" "0 < a" "a < b"
  shows "decay_denominator c a < decay_denominator c b"
proof -
  note V = valid_config [OF assms(1)]
  have "a powr aggressiveness c < b powr aggressiveness c"
    using assms V(4) by (simp add: powr_less_mono2)
  moreover have "a * exp (aggressiveness c) < b * exp (aggressiveness c)" using assms by simp
  moreover have "decay_method c = 3 \<Longrightarrow> a * (1 + ln (aggressiveness c)) < b * (1 + ln (aggressiveness c))"
    using assms method3_factor_pos [OF V(5)] by simp
  moreover have "exp (a * aggressiveness c) < exp (b * aggressiveness c)" using assms V(4) by simp
  moreover have "aggressiveness c * ln (a + exp 1) < aggressiveness c * ln (b + exp 1)"
    using assms V(4) by (simp add: add_pos_pos)
  moreover have "exp (sigmoidSteepness * (a / aggressiveness c - 1))
      < exp (sigmoidSteepness * (b / aggressiveness c - 1))"
    using assms V(4) by (simp add: sigmoidSteepness_def divide_strict_right_mono)
  ultimately show ?thesis by (simp add: decay_denominator_def)
qed

lemma decay_denominator_mono:
  assumes "consolidationProblems c = []" "0 < a" "a \<le> b"
  shows "decay_denominator c a \<le> decay_denominator c b"
  using decay_denominator_strict_mono [OF assms(1,2), of b] assms(3) by (cases "a = b") auto

lemma calculateValue_antimono:
  assumes "consolidationProblems c = []" "0 \<le> sg" "0 < a" "a \<le> b"
  shows "calculateValue c sg b \<le> calculateValue c sg a"
proof -
  have "0 < decay_denominator c a" "decay_denominator c a \<le> decay_denominator c b"
    using assms decay_denominator_pos decay_denominator_mono by auto
  then show ?thesis using assms by (simp add: calculateValue_quotient frac_le)
qed

lemma calculateValue_mono_sig:
  assumes "consolidationProblems c = []" "0 < age" "s1 \<le> s2"
  shows "calculateValue c s1 age \<le> calculateValue c s2 age"
  using assms decay_denominator_pos [OF assms(1,2)] by (simp add: calculateValue_quotient divide_right_mono)

text \<open>
  Under every configuration the startup validation accepts, and for all six methods, a memory
  of positive significance strictly loses value as it ages, never gains value by being less
  significant, and never reaches zero: value is positive at every age.
\<close>

theorem value_decays_strictly:
  assumes "consolidationProblems c = []" "0 < sg" "0 < a" "a < b" "sg \<le> sg'"
  shows "calculateValue c sg b < calculateValue c sg a
    \<and> calculateValue c sg a \<le> calculateValue c sg' a
    \<and> 0 < calculateValue c sg b"
proof -
  have "0 < decay_denominator c a" "decay_denominator c a < decay_denominator c b"
    using assms decay_denominator_pos decay_denominator_strict_mono by auto
  moreover have "0 < b" using assms by simp
  ultimately show ?thesis
    using assms calculateValue_mono_sig [OF assms(1,3,5)]
    by (simp add: calculateValue_quotient frac_less2)
qed

definition sample_config :: "int \<Rightarrow> Consolidation" where
  "sample_config mth = \<lparr>defaultEventSignificanceValue = 0, defaultEventSignificancePercentile = 0,
     minimumAgeInDays = 0, minimumRetentionInDays = 0, maximumRetentionInDays = 0, aggressiveness = 1,
     deletionThreshold = 10, decay_method = mth, unitsOfAgeInDays = 1, linkSignificanceWeight = 1,
     recallSignificanceWeight = 1, capacityMemories = 100, capacityPressureExponent = 2, capacityBytes = 1000,
     capacityBytesFloor = 900, capacityExternalBytes = 0, capacityExternalBytesFloor = 0, consolidation_enabled = True,
     standby = False, standbyPollSeconds = 0, storage_driver = ''sqlite''\<rparr>"

lemma sample_config_valid: "1 \<le> mth \<Longrightarrow> mth \<le> 6 \<Longrightarrow> consolidationProblems (sample_config mth) = []"
  by (simp add: consolidationProblems_def sample_config_def)

theorem value_decays_strictly_witness:
  "calculateValue (sample_config 6) 5 3 < calculateValue (sample_config 6) 5 2"
  using value_decays_strictly [OF sample_config_valid [of 6], of 5 2 3 5] by simp


section \<open>Significance and links\<close>

lemma linkContribution_nonneg: "0 \<le> w \<Longrightarrow> 0 \<le> linkContribution w n"
  by (simp add: linkContribution_def)

lemma linkContribution_mono: "0 \<le> w \<Longrightarrow> m \<le> n \<Longrightarrow> linkContribution w m \<le> linkContribution w n"
  by (auto simp: linkContribution_def intro!: mult_left_mono)

lemma exp_lower: "(1 + x / 10) ^ 10 \<le> exp x" if "0 \<le> x" for x :: real
proof -
  have "(1 + x / 10) ^ 10 \<le> exp (x / 10) ^ 10"
    using that by (intro power_mono exp_ge_add_one_self) auto
  also have "exp (x / 10) ^ 10 = exp x"
    by (simp add: exp_of_nat_mult [symmetric])
  finally show ?thesis .
qed

text \<open>
  Link damping: however many links point at an item, what they add grows with the summed
  significance but each doubling of the sum adds at most the weight times \<open>ln 2\<close>, so the largest sum
  the link bounds admit (128 links of 1,000,000) adds less than 46 times the weight.
\<close>

theorem link_contribution_damped:
  assumes "0 \<le> w" "0 \<le> n"
  shows "linkContribution w (2 * n) \<le> linkContribution w n + w * ln 2
    \<and> linkContribution w n \<le> linkContribution w (2 * n)
    \<and> linkContribution w (128 * 1000000) \<le> 46 * w"
proof -
  have "linkContribution w (2 * n) \<le> linkContribution w n + w * ln 2"
  proof (cases "n = 0")
    case True
    then show ?thesis using assms(1) by (simp add: linkContribution_def)
  next
    case False
    then have pos: "0 < real_of_int n" using assms(2) by simp
    have "ln (1 + 2 * real_of_int n) \<le> ln (2 * (1 + real_of_int n))" using pos by simp
    also have "\<dots> = ln 2 + ln (1 + real_of_int n)" using pos by (intro ln_mult_pos) auto
    finally have "w * ln (1 + 2 * real_of_int n) \<le> w * (ln 2 + ln (1 + real_of_int n))"
      using assms(1) by (rule mult_left_mono)
    then show ?thesis using False assms by (simp add: linkContribution_def algebra_simps)
  qed
  moreover have "linkContribution w n \<le> linkContribution w (2 * n)"
    using assms by (intro linkContribution_mono) auto
  moreover have "linkContribution w (128 * 1000000) \<le> 46 * w"
  proof -
    have "(1 + 128 * 1000000 :: real) \<le> (1 + (46 - 4) / 10) ^ 10 * (1 + (46 - 4) / 10) ^ 2"
      by (simp add: power_divide)
    also have "\<dots> \<le> exp (46 - 4) * exp 4"
    proof (rule mult_mono)
      show "(1 + (46 - 4) / 10 :: real) ^ 10 \<le> exp (46 - 4)" by (rule exp_lower) simp
      have "(1 + (46 - 4) / 10 :: real) ^ 2 \<le> (1 + 4 / 10) ^ 10" by (simp add: power_divide)
      also have "\<dots> \<le> exp (4::real)" by (rule exp_lower) simp
      finally show "(1 + (46 - 4) / 10 :: real) ^ 2 \<le> exp 4" .
    qed auto
    also have "\<dots> = exp (46::real)" by (simp add: exp_add [symmetric])
    finally have "(1 + 128 * 1000000 :: real) \<le> exp 46" .
    then have "ln (1 + 128 * 1000000 :: real) \<le> ln (exp 46)" by (intro ln_mono) simp_all
    then have "ln (1 + 128 * 1000000 :: real) \<le> 46" by simp
    then have "w * ln (1 + 128 * 1000000) \<le> w * 46" using assms(1) by (rule mult_left_mono)
    then show ?thesis by (simp add: linkContribution_def mult.commute)
  qed
  ultimately show ?thesis by blast
qed

theorem link_contribution_damped_witness:
  "linkContribution 1 (128 * 1000000) \<le> 46 \<and> linkContribution 1 20 \<le> linkContribution 1 10 + ln 2"
  using link_contribution_damped [of 1 10] by simp

section \<open>Decisions\<close>

lemma ageUnits_mono:
  assumes "consolidationProblems c = []" "clock_ok now" "clock_ok t1" "clock_ok t2" "t1 \<le> t2"
  shows "ageUnits c now t2 \<le> ageUnits c now t1"
  unfolding ageUnits_def
proof (rule divide_right_mono, rule divide_right_mono)
  show "real_of_int (ageNanoSeconds now t2) \<le> real_of_int (ageNanoSeconds now t1)"
    using assms(2-) by (simp add: ageNanoSeconds_def)
qed (use valid_config(1) [OF assms(1)] day_pos in \<open>simp_all add: less_imp_le\<close>)

lemma retained_mono:
  assumes "clock_ok now" "clock_ok t1" "clock_ok t2" "t1 \<le> t2" "retained c now t1"
  shows "retained c now t2"
proof -
  have "go_div (now - t2) DAY_IN_NANOSECONDS \<le> go_div (now - t1) DAY_IN_NANOSECONDS"
    using assms(4) by (intro go_div_mono) auto
  then show ?thesis using assms by (auto simp: retained_def ageNanoSeconds_def split: if_splits)
qed

text \<open>
  The decision is monotone: a younger and more significant item under no more pressure is kept
  whenever an older and less significant one is.
\<close>

lemma shouldConsolidateUnder_mono:
  assumes valid: "consolidationProblems c = []" and "0 \<le> deletionThreshold c"
    and clocks: "clock_ok now" "clock_ok t1" "clock_ok t2" "t1 \<le> t2"
    and sig: "0 \<le> s1" "s1 \<le> s2" and pr: "p2 \<le> p1" "0 < p2"
    and del: "shouldConsolidateUnder c now s2 t2 p2"
  shows "shouldConsolidateUnder c now s1 t1 p1"
proof -
  have u2: "0 < ageUnits c now t2" and v2: "calculateValue c s2 (ageUnits c now t2) < deletionThresholdUnder c p2"
    and nr: "\<not> retained c now t2"
    and age: "\<not> go_div (ageNanoSeconds now t2) DAY_IN_NANOSECONDS < minimumAgeInDays c"
    using del by (auto simp: shouldConsolidateUnder_def split: if_splits)
  have u1: "ageUnits c now t2 \<le> ageUnits c now t1" by (rule ageUnits_mono [OF valid clocks])
  have "calculateValue c s1 (ageUnits c now t1) \<le> calculateValue c s1 (ageUnits c now t2)"
    by (rule calculateValue_antimono [OF valid sig(1) u2 u1])
  also have "\<dots> \<le> calculateValue c s2 (ageUnits c now t2)"
    by (rule calculateValue_mono_sig [OF valid u2 sig(2)])
  also have "\<dots> < deletionThresholdUnder c p2" by (rule v2)
  also have "\<dots> \<le> deletionThresholdUnder c p1"
    using pr assms(2) by (auto simp: deletionThresholdUnder_def mult_left_mono)
  finally have "calculateValue c s1 (ageUnits c now t1) < deletionThresholdUnder c p1" .
  moreover have "\<not> retained c now t1" using nr retained_mono [OF clocks] by blast
  moreover have "go_div (ageNanoSeconds now t2) DAY_IN_NANOSECONDS \<le> go_div (ageNanoSeconds now t1) DAY_IN_NANOSECONDS"
    using clocks by (intro go_div_mono) (simp_all add: ageNanoSeconds_def)
  ultimately show ?thesis using u1 u2 age by (auto simp: shouldConsolidateUnder_def)
qed

definition candidate_ok :: "MemoryConsolidationCandidate \<Rightarrow> bool" where
  "candidate_ok m \<longleftrightarrow> 0 \<le> EventSignificance m \<and> 0 \<le> MemorySignificance m \<and> 0 \<le> RecallCount m
     \<and> clock_ok (Timestamp m) \<and> clock_ok (TimeRecalled m)"

lemma memorySignificanceUnder_nonneg:
  assumes "candidate_ok m" "0 \<le> dflt" "0 \<le> linkSignificanceWeight c" "0 \<le> recallSignificanceWeight c"
  shows "0 \<le> memorySignificanceUnder c m dflt"
  using assms linkContribution_nonneg [of "linkSignificanceWeight c"]
  by (simp add: memorySignificanceUnder_def candidate_ok_def Let_def)

lemma memoryDecayTimestamp_clock: "candidate_ok m \<Longrightarrow> clock_ok (memoryDecayTimestamp m)"
  by (simp add: candidate_ok_def memoryDecayTimestamp_def)

text \<open>
  Recall reinforces, and reinforcement never hurts: recalling a memory (a later recall time
  and a higher recall count), raising its significance or linking it more cannot turn a memory
  consolidation would keep into one it deletes; nor can a drop in capacity pressure.
\<close>

theorem reinforcement_protects:
  assumes valid: "consolidationProblems c = []" and "0 \<le> deletionThreshold c"
    and w: "0 \<le> linkSignificanceWeight c" "0 \<le> recallSignificanceWeight c" and "0 \<le> dflt"
    and ok: "candidate_ok m" "candidate_ok m'" "clock_ok now"
    and more: "TimeRecalled m \<le> TimeRecalled m'" "RecallCount m \<le> RecallCount m'"
      "MemorySignificance m \<le> MemorySignificance m'" "MemoryLinkSignificance m \<le> MemoryLinkSignificance m'"
      "EventLinkSignificance m \<le> EventLinkSignificance m'"
      "EventSignificance m = EventSignificance m'" "Timestamp m = Timestamp m'"
    and pr: "p' \<le> p" "0 < p'"
    and kept: "\<not> shouldConsolidateMemoryUnder c now p dflt m"
  shows "\<not> shouldConsolidateMemoryUnder c now p' dflt m'"
proof
  assume del: "shouldConsolidateMemoryUnder c now p' dflt m'"
  have ts: "memoryDecayTimestamp m \<le> memoryDecayTimestamp m'"
    using more by (simp add: memoryDecayTimestamp_def)
  have "linkContribution (linkSignificanceWeight c) (MemoryLinkSignificance m)
      \<le> linkContribution (linkSignificanceWeight c) (MemoryLinkSignificance m')"
    "linkContribution (linkSignificanceWeight c) (EventLinkSignificance m)
      \<le> linkContribution (linkSignificanceWeight c) (EventLinkSignificance m')"
    using more w(1) by (auto intro: linkContribution_mono)
  moreover have "recallSignificanceWeight c * real_of_int (RecallCount m)
      \<le> recallSignificanceWeight c * real_of_int (RecallCount m')"
    using more w(2) by (intro mult_left_mono) auto
  ultimately have sig: "memorySignificanceUnder c m dflt \<le> memorySignificanceUnder c m' dflt"
    using more by (simp add: memorySignificanceUnder_def Let_def)
  have "shouldConsolidateMemoryUnder c now p dflt m"
    unfolding shouldConsolidateMemoryUnder_def
    by (rule shouldConsolidateUnder_mono [OF valid assms(2) ok(3) memoryDecayTimestamp_clock [OF ok(1)]
          memoryDecayTimestamp_clock [OF ok(2)] ts memorySignificanceUnder_nonneg [OF ok(1) \<open>0 \<le> dflt\<close> w] sig pr
          del [unfolded shouldConsolidateMemoryUnder_def]])
  with kept show False by contradiction
qed

definition sample_candidate :: "int \<Rightarrow> nanos \<Rightarrow> MemoryConsolidationCandidate" where
  "sample_candidate rc tr = \<lparr>EventSignificance = 0, MemorySignificance = 40, EventLinkSignificance = 0,
     MemoryLinkSignificance = 0, Timestamp = DAY_IN_NANOSECONDS, TimeRecalled = tr, RecallCount = rc\<rparr>"

theorem reinforcement_protects_witness:
  "\<not> shouldConsolidateMemoryUnder (sample_config 1) (3 * DAY_IN_NANOSECONDS) 1 0
       (sample_candidate 1 (2 * DAY_IN_NANOSECONDS))"
proof -
  have "\<not> shouldConsolidateMemoryUnder (sample_config 1) (3 * DAY_IN_NANOSECONDS) 1 0 (sample_candidate 0 0)"
    by (simp add: shouldConsolidateMemoryUnder_def shouldConsolidateUnder_def retained_def sample_config_def
        sample_candidate_def ageUnits_def ageNanoSeconds_def calculateValue_def deletionThresholdUnder_def
        memorySignificanceUnder_def memoryDecayTimestamp_def linkContribution_def DAY_IN_NANOSECONDS_def i64_def)
  then show ?thesis
    using reinforcement_protects [OF sample_config_valid [of 1], of 0 "sample_candidate 0 0"
        "sample_candidate 1 (2 * DAY_IN_NANOSECONDS)" "3 * DAY_IN_NANOSECONDS" 1 1]
    by (simp add: sample_config_def sample_candidate_def candidate_ok_def clock_ok_def DAY_IN_NANOSECONDS_def)
qed

end
