(* ===== verification/Passes.thy ===== *)
theory Passes
  imports Delete_Chokepoint Decay "HOL-Library.Sublist"
begin

text \<open>
  The forgetting passes of the storage layer: \<^verbatim>\<open>ConsolidateMemories\<close>, \<^verbatim>\<open>ConsolidateEventMemories\<close>
  and \<^verbatim>\<open>EvictMemories\<close> (\<^verbatim>\<open>db/memory.go\<close>), \<^verbatim>\<open>ConsolidateEvents\<close> and \<^verbatim>\<open>DeleteEventIfEmpty\<close>
  (\<^verbatim>\<open>db/event.go\<close>), and \<^verbatim>\<open>ExpireMemories\<close> (\<^verbatim>\<open>db/expiry.go\<close>). A pass scans, then deletes through the
  chokepoint; between the two, other clients may commit (\<open>other_writers\<close>), and every statement may fail.
  Go iterates its maps in an unspecified order; the event clean-up loops run in the order the scan
  met the events.
\<close>

section \<open>The interface to the server\<close>

text \<open>The storage layer's \<^verbatim>\<open>Server\<close> interface (\<^verbatim>\<open>db/db.go\<close>): the decisions it asks for.\<close>

record Server =
  srv_should_memory :: "MemoryConsolidationCandidate \<Rightarrow> bool"
  srv_value :: "MemoryConsolidationCandidate \<Rightarrow> real"
  srv_retained :: "MemoryConsolidationCandidate \<Rightarrow> bool"
  srv_should_event :: "EventConsolidationCandidate \<Rightarrow> bool"
  srv_threshold :: real

text \<open>
  The environment of one pass: the clock, what other writers commit between the scan and the
  delete, and which statements fail. \<open>sort_slice\<close> is \<^verbatim>\<open>sort.Slice\<close>, which is not stable.
\<close>

record evictionCandidate =
  ec_id :: ident
  ec_event_id :: ident
  ec_size :: int
  ec_indexed_bytes :: int
  ec_external_bytes :: int
  ec_value :: real
  ec_time_recalled :: nanos
  ec_recall_count :: int

record pass_env =
  env_now :: nanos
  other_writers :: "db_state \<Rightarrow> db_state"
  scan_fails :: bool
  tx_fault :: "nat \<Rightarrow> write_error option"
  tx_ctx_done :: "nat \<Rightarrow> bool"
  event_delete_fails :: "ident \<Rightarrow> bool"
  event_flag_fails :: "ident \<Rightarrow> bool"
  sort_slice :: "evictionCandidate list \<Rightarrow> evictionCandidate list"

section \<open>Events\<close>

definition captureEvents :: "ident list \<Rightarrow> db_state \<Rightarrow> CallbackItem list" where
  "captureEvents ids s =
     map (\<lambda>e. \<lparr>ci_id = e_id e, ci_event_id = [], ci_group = e_group e, ci_significance = joined_rank (levels s) (e_level e),
                ci_bytes = 0, ci_value = 0, ci_body = [], ci_body_omitted = False\<rparr>)
       (filter (\<lambda>e. e_id e \<in> set ids) (events s))"

definition captureEventCallback :: "db_config \<Rightarrow> ident list \<Rightarrow> DeleteCause \<Rightarrow> db_state \<Rightarrow> CallbackItem list" where
  "captureEventCallback cfg ids c s = (if \<not> wantsEventCallbacks cfg c \<or> ids = [] then [] else captureEvents ids s)"

definition queueEventCallbacks :: "db_config \<Rightarrow> nanos \<Rightarrow> CallbackItem list \<Rightarrow> DeleteCause \<Rightarrow> int \<Rightarrow> db_state \<Rightarrow> db_state" where
  "queueEventCallbacks cfg now items c cyc s =
     (if \<not> wantsEventCallbacks cfg c \<or> items = [] then s
      else queueCallbacks cfg now [new_delivery CallbackKindEventForgotten c cyc items] s)"

definition eventItemIds :: "CallbackItem list \<Rightarrow> ident list" where
  "eventItemIds items = map ci_id items"

text \<open>The transaction's failure leaves the store as it was.\<close>

definition DeleteEventIfEmpty :: "db_config \<Rightarrow> pass_env \<Rightarrow> ident \<Rightarrow> DeleteCause \<Rightarrow> db_state \<Rightarrow> (write_error + bool) \<times> db_state" where
  "DeleteEventIfEmpty cfg env i c s =
     (if event_delete_fails env i then (Inl ErrOther, s)
      else let captured = captureEventCallback cfg [i] c s;
               empty = (\<not> list_ex (\<lambda>r. m_event_id r = i) (memories s));
               n = length (filter (\<lambda>e. e_id e = i \<and> empty) (events s));
               s1 = s\<lparr>events := filter (\<lambda>e. \<not> (e_id e = i \<and> empty)) (events s)\<rparr>
           in if n > 0
              then let s2 = pruneEventLinks [i] s1;
                       s3 = queueEventCallbacks cfg (env_now env) captured c (cycleId s c) s2
                   in (Inr True, collectForgotten c [] (eventItemIds captured) s3)
              else (Inr False, s1))"

definition setEventConsolidated :: "pass_env \<Rightarrow> ident \<Rightarrow> db_state \<Rightarrow> write_error option \<times> db_state" where
  "setEventConsolidated env i s =
     (if event_flag_fails env i then (Some ErrOther, s)
      else (None, s\<lparr>events := map (\<lambda>e. if e_id e = i then e\<lparr>e_memories_consolidated := True\<rparr> else e) (events s)\<rparr>))"

definition first_error :: "write_error option \<Rightarrow> write_error option \<Rightarrow> write_error option" where
  "first_error retErr e = (case retErr of None \<Rightarrow> e | Some _ \<Rightarrow> retErr)"

text \<open>
  The clean-up each pass runs for an event that lost memories: delete it when \<open>try_delete\<close> (the
  scan saw nothing left), otherwise, or when the live check spares it or the delete fails, set the
  flag where \<open>flag\<close> asks for it. Failures are collected and do not stop the loop.
\<close>

type_synonym cleanup_state = "db_state \<times> nat \<times> write_error option"

definition cleanup_event :: "db_config \<Rightarrow> pass_env \<Rightarrow> DeleteCause \<Rightarrow> (ident \<Rightarrow> bool) \<Rightarrow> (ident \<Rightarrow> bool)
    \<Rightarrow> ident \<Rightarrow> cleanup_state \<Rightarrow> cleanup_state" where
  "cleanup_event cfg env c try_delete flag i st =
     (let (s, n, err) = st;
          (deleted, err1, s1) =
            (if try_delete i
             then (case DeleteEventIfEmpty cfg env i c s of
                     (Inl e, s') \<Rightarrow> (False, first_error err (Some e), s')
                   | (Inr b, s') \<Rightarrow> (b, err, s'))
             else (False, err, s))
      in if deleted then (s1, n + 1, err1)
         else if flag i
         then (let (e2, s2) = setEventConsolidated env i s1 in (s2, n, first_error err1 e2))
         else (s1, n, err1))"

section \<open>Scanning\<close>

definition joined_event :: "db_state \<Rightarrow> ident \<Rightarrow> event_row option" where
  "joined_event s i = find_row e_id i (events s)"

text \<open>\<^verbatim>\<open>memories m LEFT JOIN events e ON e.id = m.event_id\<close>, ranks through the registry snapshot.\<close>

definition scan_candidate :: "db_state \<Rightarrow> memory_row \<Rightarrow> MemoryConsolidationCandidate" where
  "scan_candidate s r =
     (let e = joined_event s (m_event_id r)
      in \<lparr>EventSignificance = (case e of None \<Rightarrow> 0 | Some v \<Rightarrow> joined_rank (levels s) (e_level v)),
          MemorySignificance = joined_rank (levels s) (m_level r),
          EventLinkSignificance = (case e of None \<Rightarrow> 0 | Some v \<Rightarrow> e_link_significance v),
          MemoryLinkSignificance = m_link_significance r,
          Timestamp = m_timestamp r, TimeRecalled = m_time_recalled r, RecallCount = m_recall_count r\<rparr>)"

text \<open>The scan of the event-less memories does not join, so the event columns are zero.\<close>

definition eventless_candidate :: "db_state \<Rightarrow> memory_row \<Rightarrow> MemoryConsolidationCandidate" where
  "eventless_candidate s r =
     \<lparr>EventSignificance = 0, MemorySignificance = joined_rank (levels s) (m_level r), EventLinkSignificance = 0,
      MemoryLinkSignificance = m_link_significance r, Timestamp = m_timestamp r, TimeRecalled = m_time_recalled r,
      RecallCount = m_recall_count r\<rparr>"

definition consolidation_snapshot :: "Server \<Rightarrow> forgetReason \<Rightarrow> MemoryConsolidationCandidate \<Rightarrow> memory_row \<Rightarrow> memoryRecallSnapshot" where
  "consolidation_snapshot srv reason c r =
     \<lparr>ms_id = m_id r, ms_time_recalled = TimeRecalled c, ms_recall_count = RecallCount c,
      ms_value = (if recording reason then srv_value srv c else 0)\<rparr>"

section \<open>Consolidation\<close>

definition chokepoint :: "db_config \<Rightarrow> pass_env \<Rightarrow> memoryRecallSnapshot list \<Rightarrow> forgetReason \<Rightarrow> db_state
    \<Rightarrow> (write_error + ident list) \<times> db_state" where
  "chokepoint cfg env items reason s =
     deleteMemoriesIfUnrecalled cfg (tx_fault env) (tx_ctx_done env) (\<lambda>_. id) (env_now env) items reason (other_writers env s)"

definition ConsolidateMemories :: "db_config \<Rightarrow> pass_env \<Rightarrow> Server \<Rightarrow> db_state \<Rightarrow> (nat \<times> write_error option) \<times> db_state" where
  "ConsolidateMemories cfg env srv s =
     (if scan_fails env then ((0, Some ErrOther), s)
      else let reason = forgetReasonFor cfg ForgetRuleConsolidation CauseConsolidation (srv_threshold srv);
               rows = filter (\<lambda>r. m_event_id r = []) (memories s);
               deletions = map (\<lambda>r. consolidation_snapshot srv reason (eventless_candidate s r) r)
                             (filter (\<lambda>r. srv_should_memory srv (eventless_candidate s r)) rows)
           in case chokepoint cfg env deletions reason s of
                (Inl e, s') \<Rightarrow> ((0, Some e), s')
              | (Inr deletedIds, s') \<Rightarrow> ((length deletedIds, None), s'))"

definition ConsolidateEventMemories :: "db_config \<Rightarrow> pass_env \<Rightarrow> Server \<Rightarrow> db_state
    \<Rightarrow> (nat \<times> nat \<times> nat \<times> write_error option) \<times> db_state" where
  "ConsolidateEventMemories cfg env srv s =
     (if scan_fails env then ((0, 0, 0, Some ErrOther), s)
      else let reason = forgetReasonFor cfg ForgetRuleConsolidation CauseConsolidation (srv_threshold srv);
               rows = filter (\<lambda>r. m_event_id r \<noteq> []) (memories s);
               exists_event = (\<lambda>r. joined_event s (m_event_id r) \<noteq> None);
               doomed_rows = filter (\<lambda>r. srv_should_memory srv (scan_candidate s r)) rows;
               seen = remdups (map m_event_id (filter exists_event rows));
               consolidated = (\<lambda>i. case joined_event s i of None \<Rightarrow> False | Some e \<Rightarrow> e_memories_consolidated e);
               undeleted = (\<lambda>i. list_ex (\<lambda>r. m_event_id r = i \<and> \<not> srv_should_memory srv (scan_candidate s r)) rows);
               deletions = map (\<lambda>r. consolidation_snapshot srv reason (scan_candidate s r) r) doomed_rows;
               (res, s1) = chokepoint cfg env deletions reason s;
               deletedIds = (case res of Inl e \<Rightarrow> [] | Inr ids \<Rightarrow> ids);
               err = (case res of Inl e \<Rightarrow> Some e | Inr ids \<Rightarrow> None);
               lostAMemory = (\<lambda>i. list_ex (\<lambda>r. m_id r \<in> set deletedIds \<and> exists_event r \<and> m_event_id r = i) doomed_rows);
               (s2, n, err2) = fold (cleanup_event cfg env CauseConsolidation (\<lambda>i. \<not> undeleted i)
                                       (\<lambda>i. lostAMemory i \<and> \<not> consolidated i)) seen (s1, 0, err)
           in ((length deletedIds, length seen, n, err2), s2))"

text \<open>Events with no memories: the candidates of the bare-event pass.\<close>

definition event_candidate :: "db_state \<Rightarrow> event_row \<Rightarrow> EventConsolidationCandidate" where
  "event_candidate s e =
     \<lparr>Significance = joined_rank (levels s) (e_level e), LinkSignificance = e_link_significance e,
      TimeStart = e_time_start e, TimeEnd = e_time_end e, MemoriesConsolidated = e_memories_consolidated e\<rparr>"

definition consolidate_event :: "db_config \<Rightarrow> pass_env \<Rightarrow> ident \<Rightarrow> cleanup_state \<Rightarrow> cleanup_state" where
  "consolidate_event cfg env i st =
     (let (s, n, err) = st
      in case DeleteEventIfEmpty cfg env i CauseConsolidation s of
           (Inl e, s') \<Rightarrow> (s', n, first_error err (Some e))
         | (Inr b, s') \<Rightarrow> (s', if b then n + 1 else n, err))"

definition ConsolidateEvents :: "db_config \<Rightarrow> pass_env \<Rightarrow> Server \<Rightarrow> db_state \<Rightarrow> (nat \<times> write_error option) \<times> db_state" where
  "ConsolidateEvents cfg env srv s =
     (if scan_fails env then ((0, Some ErrOther), s)
      else let bare = filter (\<lambda>e. e_id e \<notin> set (filter (\<lambda>i. i \<noteq> []) (map m_event_id (memories s)))) (events s);
               deletions = map e_id (filter (\<lambda>e. srv_should_event srv (event_candidate s e)) bare);
               (s1, n, err) = fold (consolidate_event cfg env) deletions (other_writers env s, 0, None)
           in ((n, err), s1))"

section \<open>Expiry\<close>

definition ExpireMemories :: "db_config \<Rightarrow> pass_env \<Rightarrow> nanos \<Rightarrow> db_state \<Rightarrow> (nat \<times> nat \<times> write_error option) \<times> db_state" where
  "ExpireMemories cfg env createdBefore s =
     (if scan_fails env then ((0, 0, Some ErrOther), s)
      else let rows = filter (\<lambda>r. m_timestamp r < createdBefore) (memories s);
               deletions = map (\<lambda>r. \<lparr>ms_id = m_id r, ms_time_recalled = m_time_recalled r,
                                      ms_recall_count = m_recall_count r, ms_value = 0\<rparr>) rows;
               reason = \<lparr>rule = (if tombstones_enabled cfg \<and> tombstone_table cfg then ForgetRuleExpiry else ForgetRuleNone),
                         cause = CauseExpiry, threshold = 0\<rparr>
           in if deletions = [] then ((0, 0, None), s)
              else case chokepoint cfg env deletions reason s of
                     (Inl e, s1) \<Rightarrow> ((0, 0, Some e), s1)
                   | (Inr deletedIds, s1) \<Rightarrow>
                       (let touched = remdups (map m_event_id (filter (\<lambda>r. m_id r \<in> set deletedIds \<and> m_event_id r \<noteq> []) rows));
                            (s2, n, err) = fold (cleanup_event cfg env CauseExpiry (\<lambda>_. True) (\<lambda>_. True)) touched (s1, 0, None)
                        in ((length deletedIds, n, err), s2)))"

section \<open>Eviction\<close>

record EvictionTarget =
  target_bytes :: int
  target_external :: int

definition satisfied :: "EvictionTarget \<Rightarrow> int \<Rightarrow> int \<Rightarrow> bool" where
  "satisfied t b x \<longleftrightarrow> b \<ge> target_bytes t \<and> x \<ge> target_external t"

definition target_empty :: "EvictionTarget \<Rightarrow> bool" where
  "target_empty t \<longleftrightarrow> target_bytes t \<le> 0 \<and> target_external t \<le> 0"

record EvictionResult =
  er_memories :: nat
  er_events :: nat
  er_bytes :: int
  er_external :: int

definition memoriesFootprint :: "db_config \<Rightarrow> int \<Rightarrow> int \<Rightarrow> int \<Rightarrow> int" where
  "memoriesFootprint cfg rows payloadBytes indexedBytes =
     (let footprint = payloadBytes + rows * memory_row_overhead cfg
      in if content_indexed cfg
         then footprint + rows * content_index_row_overhead cfg + go_div (indexedBytes * content_index_per_mille cfg) 1000
         else footprint)"

definition memoryFootprint :: "db_config \<Rightarrow> int \<Rightarrow> int \<Rightarrow> int" where
  "memoryFootprint cfg payloadBytes indexedBytes = memoriesFootprint cfg 1 payloadBytes indexedBytes"

definition eviction_candidate :: "Server \<Rightarrow> db_state \<Rightarrow> memory_row \<Rightarrow> evictionCandidate" where
  "eviction_candidate srv s r =
     \<lparr>ec_id = m_id r, ec_event_id = m_event_id r, ec_size = int (length (m_body r)) + m_metadata_bytes r,
      ec_indexed_bytes = (case m_indexed_bytes r of None \<Rightarrow> int (length (m_body r)) | Some n \<Rightarrow> n),
      ec_external_bytes = m_external_bytes r, ec_value = srv_value srv (scan_candidate s r),
      ec_time_recalled = m_time_recalled r, ec_recall_count = m_recall_count r\<rparr>"

fun select_evictions :: "db_config \<Rightarrow> EvictionTarget \<Rightarrow> int \<Rightarrow> int \<Rightarrow> evictionCandidate list \<Rightarrow> evictionCandidate list" where
  "select_evictions cfg t b x [] = []"
| "select_evictions cfg t b x (c # cs) =
     (if satisfied t b x then []
      else c # select_evictions cfg t (b + memoryFootprint cfg (ec_size c) (ec_indexed_bytes c)) (x + ec_external_bytes c) cs)"

definition eviction_snapshot :: "evictionCandidate \<Rightarrow> memoryRecallSnapshot" where
  "eviction_snapshot c = \<lparr>ms_id = ec_id c, ms_time_recalled = ec_time_recalled c, ms_recall_count = ec_recall_count c,
     ms_value = ec_value c\<rparr>"

definition EvictMemories :: "db_config \<Rightarrow> pass_env \<Rightarrow> Server \<Rightarrow> EvictionTarget \<Rightarrow> db_state
    \<Rightarrow> (EvictionResult \<times> write_error option) \<times> db_state" where
  "EvictMemories cfg env srv t s =
     (let nothing = \<lparr>er_memories = 0, er_events = 0, er_bytes = 0, er_external = 0\<rparr>
      in if target_empty t then ((nothing, None), s)
         else if scan_fails env then ((nothing, Some ErrOther), s)
         else let memoriesPerEvent = (\<lambda>i. length (filter (\<lambda>r. m_event_id r = i) (memories s)));
                  consolidatedEvents = (\<lambda>i. case joined_event s i of None \<Rightarrow> False | Some e \<Rightarrow> e_memories_consolidated e);
                  pool = map (eviction_candidate srv s) (filter (\<lambda>r. \<not> srv_retained srv (scan_candidate s r)) (memories s));
                  selected = select_evictions cfg t 0 0 (sort_slice env pool);
                  reason = forgetReasonFor cfg ForgetRuleEviction CauseEviction (srv_threshold srv)
              in case chokepoint cfg env (map eviction_snapshot selected) reason s of
                   (Inl e, s1) \<Rightarrow> ((nothing, Some e), s1)
                 | (Inr deletedIds, s1) \<Rightarrow>
                     (let gone = filter (\<lambda>c. ec_id c \<in> set deletedIds) selected;
                          evictedPerEvent = (\<lambda>i. length (filter (\<lambda>c. ec_event_id c = i) gone));
                          evs = remdups (map ec_event_id (filter (\<lambda>c. ec_event_id c \<noteq> []) gone));
                          (s2, n, err) = fold (cleanup_event cfg env CauseEviction
                              (\<lambda>i. evictedPerEvent i = memoriesPerEvent i) (\<lambda>i. \<not> consolidatedEvents i)) evs (s1, 0, None)
                      in ((\<lparr>er_memories = length deletedIds, er_events = n,
                            er_bytes = sum_list (map (\<lambda>c. memoryFootprint cfg (ec_size c) (ec_indexed_bytes c)) gone),
                            er_external = sum_list (map ec_external_bytes gone)\<rparr>, err), s2)))"

section \<open>Event clean-up\<close>

text \<open>The event a memory belongs to exists.\<close>

definition has_event :: "db_state \<Rightarrow> memory_row \<Rightarrow> bool" where
  "has_event s r \<longleftrightarrow> m_event_id r \<in> e_id ` set (events s)"

text \<open>
  What the clean-up may do to a store: it leaves memories and their links alone, keeps the store
  well-formed, deletes only events no memory belongs to, and invents none.
\<close>

definition events_only :: "db_state \<Rightarrow> db_state \<Rightarrow> bool" where
  "events_only s s' \<longleftrightarrow> memories s' = memories s \<and> memory_links s' = memory_links s \<and> tombstones s' = tombstones s
     \<and> (store_ok s \<longrightarrow> store_ok s')
     \<and> set (map e_id (events s')) \<subseteq> set (map e_id (events s))
     \<and> (\<forall>r \<in> set (memories s). has_event s r \<longrightarrow> has_event s' r)
     \<and> subseq (map e_payload_bytes (events s')) (map e_payload_bytes (events s))
     \<and> length (event_links s') \<le> length (event_links s)"

lemma events_only_refl: "events_only s s"
  by (simp add: events_only_def)

lemma events_only_trans: "events_only s s1 \<Longrightarrow> events_only s1 s2 \<Longrightarrow> events_only s s2"
proof -
  assume A: "events_only s s1" and B: "events_only s1 s2"
  have "set (map e_id (events s2)) \<subseteq> set (map e_id (events s))" using A B unfolding events_only_def by (meson subset_trans)
  moreover have "subseq (map e_payload_bytes (events s2)) (map e_payload_bytes (events s))"
    using A B unfolding events_only_def by (meson subseq_order.order_trans)
  ultimately show "events_only s s2" using A B unfolding events_only_def by simp
qed

lemma queueEventCallbacks_frame [frame_simps]:
  "memories (queueEventCallbacks cfg now items c cyc s) = memories s"
  "events (queueEventCallbacks cfg now items c cyc s) = events s"
  "memory_links (queueEventCallbacks cfg now items c cyc s) = memory_links s"
  "event_links (queueEventCallbacks cfg now items c cyc s) = event_links s"
  "tombstones (queueEventCallbacks cfg now items c cyc s) = tombstones s"
  by (simp_all add: queueEventCallbacks_def frame_simps)

lemma queueEventCallbacks_queues: "queues_ok s \<Longrightarrow> queues_ok (queueEventCallbacks cfg now items c cyc s)"
  by (simp add: queueEventCallbacks_def queueCallbacks_queues)

lemma pruneEventLinks_store:
  "events (pruneEventLinks ids s) = snd (pruneLinks eventGraph ids (event_links s, events s))"
  "event_links (pruneEventLinks ids s) = filter (\<lambda>l. \<not> ends_in ids l) (event_links s)"
  "memories (pruneEventLinks ids s) = memories s" "memory_links (pruneEventLinks ids s) = memory_links s"
  "tombstones (pruneEventLinks ids s) = tombstones s" "queues_ok (pruneEventLinks ids s) = queues_ok s"
  by (simp_all add: pruneEventLinks_def store_link_defs ev_graph.pruneLinks_links queues_ok_def)

lemma DeleteEventIfEmpty_deleted:
  assumes "DeleteEventIfEmpty cfg env i c s = (Inr True, s')"
  shows "\<not> list_ex (\<lambda>r. m_event_id r = i) (memories s)"
    "memories s' = memories s" "memory_links s' = memory_links s" "tombstones s' = tombstones s"
    "event_links s' = filter (\<lambda>l. \<not> ends_in [i] l) (event_links s)"
    "events s' = snd (pruneLinks eventGraph [i] (event_links s, filter (\<lambda>e. e_id e \<noteq> i) (events s)))"
    "queues_ok s \<Longrightarrow> queues_ok s'"
proof -
  let ?empty = "\<not> list_ex (\<lambda>r. m_event_id r = i) (memories s)"
  let ?s1 = "s\<lparr>events := filter (\<lambda>e. \<not> (e_id e = i \<and> ?empty)) (events s)\<rparr>"
  let ?cap = "captureEventCallback cfg [i] c s"
  let ?s3 = "queueEventCallbacks cfg (env_now env) ?cap c (cycleId s c) (pruneEventLinks [i] ?s1)"
  have n: "0 < length (filter (\<lambda>e. e_id e = i \<and> ?empty) (events s))"
    and s': "s' = collectForgotten c [] (eventItemIds ?cap) ?s3"
    using assms by (auto simp: DeleteEventIfEmpty_def Let_def split: if_splits)
  then show e: ?empty by auto
  obtain c' where "s' = ?s3\<lparr>cycle := c'\<rparr>" using collectForgotten_frame s' by metis
  then show "memories s' = memories s" "memory_links s' = memory_links s" "tombstones s' = tombstones s"
    "event_links s' = filter (\<lambda>l. \<not> ends_in [i] l) (event_links s)"
    "events s' = snd (pruneLinks eventGraph [i] (event_links s, filter (\<lambda>e. e_id e \<noteq> i) (events s)))"
    using e by (simp_all add: frame_simps pruneEventLinks_store)
  have "queues_ok s \<Longrightarrow> queues_ok ?s3"
    by (rule queueEventCallbacks_queues) (simp only: pruneEventLinks_store(6), simp add: queues_ok_def)
  with \<open>s' = ?s3\<lparr>cycle := c'\<rparr>\<close> show "queues_ok s \<Longrightarrow> queues_ok s'" by (simp add: queues_ok_def)
qed

lemma DeleteEventIfEmpty_spared:
  "DeleteEventIfEmpty cfg env i c s = (Inr False, s') \<Longrightarrow> s' = s"
  "DeleteEventIfEmpty cfg env i c s = (Inl e, s') \<Longrightarrow> s' = s"
proof -
  have "length (filter P xs) = 0 \<Longrightarrow> filter (\<lambda>x. \<not> P x) xs = xs" for P and xs :: "event_row list"
    by (auto simp: filter_empty_conv intro: filter_True)
  from this [of "\<lambda>e. e_id e = i \<and> \<not> list_ex (\<lambda>r. m_event_id r = i) (memories s)" "events s"]
  show "DeleteEventIfEmpty cfg env i c s = (Inr False, s') \<Longrightarrow> s' = s"
    by (auto simp: DeleteEventIfEmpty_def Let_def split: if_splits)
  show "DeleteEventIfEmpty cfg env i c s = (Inl e, s') \<Longrightarrow> s' = s"
    by (auto simp: DeleteEventIfEmpty_def Let_def split: if_splits)
qed

lemma DeleteEventIfEmpty_events_only: "events_only s (snd (DeleteEventIfEmpty cfg env i c s))"
proof (cases "DeleteEventIfEmpty cfg env i c s")
  case (Pair res s')
  consider "res = Inr True" | "s' = s" using Pair DeleteEventIfEmpty_spared by (cases res) (auto, metis (full_types))
  then show ?thesis
  proof cases
    case 1
    note D = DeleteEventIfEmpty_deleted [OF Pair [unfolded 1]]
    have ids: "map e_id (events s') = filter (\<lambda>j. j \<noteq> i) (map e_id (events s))"
      using ev_graph.pruneLinks_keys [of "[i]" "(event_links s, filter (\<lambda>e. e_id e \<noteq> i) (events s))"]
      by (simp add: D(6) filter_map comp_def)
    have "store_ok s'" if "store_ok s"
    proof -
      have S: "rows_agg_ok eventGraph (event_links s) (events s)" "one_row_per_pair (event_links s)"
        "links_closed (event_links s) (map e_id (events s))"
        using that by (simp_all add: store_ok_def aggregates_ok_def ev_rows_agg)
      have "e_id e \<noteq> i \<longleftrightarrow> e_id e \<notin> set [i]" for e by simp
      note R = ev_graph.remove_and_prune [OF S(1) _ S(2), of "\<lambda>e. e_id e \<noteq> i" "[i]", unfolded graph_keys,
          OF S(3) this D(5,6)]
      show ?thesis
        using R that D(7) ids by (auto simp: store_ok_def keys_ok_def aggregates_ok_def ev_rows_agg D(2,3))
    qed
    moreover have "has_event s' r" if "r \<in> set (memories s)" "has_event s r" for r
      using that D(1) arg_cong [OF ids, of set] by (auto simp: has_event_def list_ex_iff)
    moreover have "map e_payload_bytes (events s') = map e_payload_bytes (filter (\<lambda>e. e_id e \<noteq> i) (events s))"
      by (simp add: D(6) ev_graph.pruneLinks_rows) (simp add: eventGraph_def)
    then have "subseq (map e_payload_bytes (events s')) (map e_payload_bytes (events s))" by (simp add: subseq_map)
    moreover have "length (event_links s') \<le> length (event_links s)" by (simp add: D(5))
    ultimately show ?thesis using D arg_cong [OF ids, of set] by (simp add: events_only_def Pair)
  next
    case 2
    then show ?thesis by (simp add: Pair events_only_refl)
  qed
qed

lemma store_ok_events_cong:
  assumes "map e_id es = map e_id (events s)"
    "agg_ok e_id e_link_significance (event_links s) es = agg_ok e_id e_link_significance (event_links s) (events s)"
  shows "store_ok (s\<lparr>events := es\<rparr>) = store_ok s"
  using assms by (simp add: store_ok_def keys_ok_def aggregates_ok_def queues_ok_def)

lemma setEventConsolidated_events_only: "events_only s (snd (setEventConsolidated env i s))"
proof -
  let ?f = "\<lambda>e. if e_id e = i then e\<lparr>e_memories_consolidated := True\<rparr> else e"
  have ids: "map e_id (map ?f (events s)) = map e_id (events s)" by simp
  have "agg_ok e_id e_link_significance (event_links s) (map ?f es)
      = agg_ok e_id e_link_significance (event_links s) es" for es
    by (induction es) (simp_all add: agg_ok_def)
  then have "store_ok (s\<lparr>events := map ?f (events s)\<rparr>) = store_ok s" by (intro store_ok_events_cong ids)
  moreover have "e_id ` set (map ?f (events s)) = e_id ` set (events s)"
    using arg_cong [OF ids, of set] by (simp only: set_map)
  moreover have "snd (setEventConsolidated env i s) = (if event_flag_fails env i then s else s\<lparr>events := map ?f (events s)\<rparr>)"
    by (simp add: setEventConsolidated_def)
  moreover have "map e_payload_bytes (map ?f (events s)) = map e_payload_bytes (events s)" by simp
  ultimately show ?thesis
    unfolding events_only_def has_event_def by (simp del: list.set_map map_map)
qed

lemma cleanup_event_events_only: "events_only (fst st) (fst (cleanup_event cfg env c td fl i st))"
proof -
  obtain s n err where st: "st = (s, n, err)" by (cases st)
  define mid where "mid = (if td i
    then (case DeleteEventIfEmpty cfg env i c s of (Inl e, s') \<Rightarrow> (False, first_error err (Some e), s') | (Inr b, s') \<Rightarrow> (b, err, s'))
    else (False, err, s))"
  have 1: "events_only s (snd (snd mid))"
    using DeleteEventIfEmpty_events_only [of s cfg env i c]
    by (auto simp: mid_def events_only_refl split: prod.splits sum.splits)
  have "events_only (snd (snd mid)) (fst (cleanup_event cfg env c td fl i st))"
    using setEventConsolidated_events_only [of "snd (snd mid)" env i]
    unfolding cleanup_event_def st Let_def prod.case mid_def [symmetric] by (auto simp: split_beta events_only_refl)
  with 1 show ?thesis using events_only_trans by (simp add: st)
qed

lemma cleanup_fold_events_only: "events_only (fst st) (fst (fold (cleanup_event cfg env c td fl) ids st))"
proof (induction ids arbitrary: st)
  case (Cons i ids)
  have "events_only (fst st) (fst (cleanup_event cfg env c td fl i st))" by (rule cleanup_event_events_only)
  from events_only_trans [OF this Cons.IH] show ?case by simp
qed (simp add: events_only_refl)

lemma consolidate_event_events_only: "events_only (fst st) (fst (fold (consolidate_event cfg env) ids st))"
proof (induction ids arbitrary: st)
  case (Cons i ids)
  have "events_only (fst st) (fst (consolidate_event cfg env i st))"
    using DeleteEventIfEmpty_events_only [of "fst st" cfg env i CauseConsolidation]
    by (cases st) (auto simp: consolidate_event_def split: prod.splits sum.splits)
  from events_only_trans [OF this Cons.IH] show ?case by simp
qed (simp add: events_only_refl)

section \<open>What a pass may do\<close>

text \<open>
  From the store \<open>t\<close> the delete ran on, the memories \<open>D\<close> are gone in \<open>s'\<close>; the others are as they
  were but for their link aggregate, the store is well-formed and no memory has lost its event.
\<close>

definition forgets :: "db_state \<Rightarrow> ident set \<Rightarrow> db_state \<Rightarrow> bool" where
  "forgets t D s' \<longleftrightarrow> D \<subseteq> m_id ` set (memories t)
     \<and> map sans_links (memories s') = map sans_links (filter (\<lambda>r. m_id r \<notin> D) (memories t))
     \<and> store_ok s'
     \<and> (\<forall>r \<in> set (memories s'). has_event t r \<longrightarrow> has_event s' r)"

definition same_recall :: "memory_row \<Rightarrow> memory_row \<Rightarrow> bool" where
  "same_recall r q \<longleftrightarrow> m_id q = m_id r \<and> m_time_recalled q = m_time_recalled r \<and> m_recall_count q = m_recall_count r"

text \<open>
  A pass that scanned \<open>s\<close> for the memories with \<open>P\<close> and deleted on \<open>t\<close>: whatever it forgot, it had
  selected, and nobody had recalled it in between.
\<close>

definition pass_ok :: "(memory_row \<Rightarrow> bool) \<Rightarrow> db_state \<Rightarrow> db_state \<Rightarrow> db_state \<Rightarrow> bool" where
  "pass_ok P s t s' \<longleftrightarrow> (\<exists>D. forgets t D s'
     \<and> (\<forall>i \<in> D. \<exists>r \<in> set (memories s). m_id r = i \<and> P r \<and> (\<exists>q \<in> set (memories t). same_recall r q)))"

lemma forgets_none: "store_ok t \<Longrightarrow> forgets t {} t"
  by (simp add: forgets_def)

lemma has_event_sans_links: "has_event s (sans_links r) = has_event s r"
  by (simp add: has_event_def sans_links_def)

lemma forgets_events_only:
  assumes "forgets t D s1" "events_only s1 s2"
  shows "forgets t D s2"
  using assms by (auto simp: forgets_def events_only_def)

lemma delete_effect_forgets:
  assumes "store_ok t" "delete_effect cfg items reason t deleted s1"
  shows "forgets t (set deleted) s1"
proof -
  note D = delete_effectD [OF assms(2)]
  have kept: "\<not> guard items r \<longleftrightarrow> m_id r \<notin> set deleted" if "r \<in> set (memories t)" for r
    using assms(1) that by (auto simp: D(2) deletable_def store_ok_def keys_ok_def distinct_map dest: inj_onD)
  then have "filter (\<lambda>r. \<not> guard items r) (memories t) = filter (\<lambda>r. m_id r \<notin> set deleted) (memories t)"
    by (intro filter_cong) auto
  then show ?thesis
    using delete_effect_store_ok [OF assms] D(2) unfolding forgets_def D(3)
    by (auto simp: deletable_def has_event_def D(9))
qed

lemma chokepoint_cases:
  assumes "store_ok (other_writers env s)" "distinct (map ms_id items)"
    and "chokepoint cfg env items reason s = (res, s1)"
  shows "case res of Inl e \<Rightarrow> s1 = other_writers env s
    | Inr deleted \<Rightarrow> delete_effect cfg items reason (other_writers env s) deleted s1"
proof -
  let ?t = "other_writers env s"
  have k: "keys_ok ?t" using assms(1) by (simp add: store_ok_def)
  show ?thesis
  proof (cases res)
    case (Inl e)
    have "s1 = ?t"
      by (rule chokepoint_failed [where I = "\<lambda>u. u = ?t", OF refl _ assms(3) [unfolded chokepoint_def Inl]]) simp
    with Inl show ?thesis by simp
  next
    case (Inr deleted)
    show ?thesis
    proof (cases "items = []")
      case True
      then have "deleted = [] \<and> s1 = ?t" using assms(3) Inr by (simp add: chokepoint_def deleteMemoriesIfUnrecalled_def)
      then show ?thesis using Inr True
        by (simp add: delete_effect_def deletable_def guard_def mem_graph.pruneLinks_rows ends_in_def)
    next
      case False
      have "\<exists>u. u = ?t \<and> delete_effect cfg items reason u deleted s1"
        by (rule chokepoint_result [OF _ _ _ assms(2) False]) (use assms(3) Inr k in \<open>auto simp: chokepoint_def\<close>)
      with Inr show ?thesis by simp
    qed
  qed
qed

lemma pass_core:
  assumes "store_ok (other_writers env s)" "distinct (map ms_id items)"
    and items: "\<And>x. x \<in> set items \<Longrightarrow> \<exists>r \<in> set (memories s). P r \<and> ms_id x = m_id r
        \<and> ms_time_recalled x = m_time_recalled r \<and> ms_recall_count x = m_recall_count r"
    and "chokepoint cfg env items reason s = (res, s1)" "events_only s1 s2"
  shows "pass_ok P s (other_writers env s) s2"
proof (cases res)
  case (Inl e)
  then have "forgets (other_writers env s) {} s1"
    using chokepoint_cases [OF assms(1,2,4)] forgets_none [OF assms(1)] by simp
  with assms(5) show ?thesis unfolding pass_ok_def using forgets_events_only by blast
next
  case (Inr deleted)
  then have E: "delete_effect cfg items reason (other_writers env s) deleted s1"
    using chokepoint_cases [OF assms(1,2,4)] by simp
  have "\<exists>r \<in> set (memories s). m_id r = i \<and> P r \<and> (\<exists>q \<in> set (memories (other_writers env s)). same_recall r q)"
    if "i \<in> set deleted" for i
  proof -
    from that obtain q x where "q \<in> set (memories (other_writers env s))" "m_id q = i" "x \<in> set items" "still_as_scanned x q"
      by (auto simp: delete_effectD(2) [OF E] deletable_def guard_def list_ex_iff)
    with items [of x] show ?thesis by (force simp: still_as_scanned_def same_recall_def)
  qed
  then show ?thesis
    unfolding pass_ok_def
    using forgets_events_only [OF delete_effect_forgets [OF assms(1) E] assms(5)] by blast
qed

text \<open>The four passes over memories, each with its selection rule.\<close>

definition snapshots :: "(memory_row \<Rightarrow> memoryRecallSnapshot) \<Rightarrow> bool" where
  "snapshots f \<longleftrightarrow> (\<forall>r. ms_id (f r) = m_id r \<and> ms_time_recalled (f r) = m_time_recalled r \<and> ms_recall_count (f r) = m_recall_count r)"

lemma scan_snapshots:
  "snapshots (\<lambda>r. consolidation_snapshot srv reason (eventless_candidate s r) r)"
  "snapshots (\<lambda>r. consolidation_snapshot srv reason (scan_candidate s r) r)"
  "snapshots (\<lambda>r. \<lparr>ms_id = m_id r, ms_time_recalled = m_time_recalled r, ms_recall_count = m_recall_count r, ms_value = v\<rparr>)"
  "snapshots (\<lambda>r. eviction_snapshot (eviction_candidate srv s r))"
  by (simp_all add: snapshots_def consolidation_snapshot_def eventless_candidate_def scan_candidate_def Let_def
      eviction_snapshot_def eviction_candidate_def)

lemma pass_core_map:
  assumes "keys_ok s" "store_ok (other_writers env s)" "snapshots f"
    and "chokepoint cfg env (map f (filter P (memories s))) reason s = (res, s1)" "events_only s1 s2"
  shows "pass_ok P s (other_writers env s) s2"
proof (rule pass_core [OF assms(2) _ _ assms(4,5)])
  have "ms_id \<circ> f = m_id" using assms(3) by (auto simp: snapshots_def)
  then show "distinct (map ms_id (map f (filter P (memories s))))"
    using assms(1) by (simp add: keys_ok_def distinct_map_filter_key)
qed (use assms(3) in \<open>auto simp: snapshots_def\<close>)

lemma ConsolidateMemories_pass:
  assumes "keys_ok s" "store_ok (other_writers env s)" "\<not> scan_fails env"
  shows "pass_ok (\<lambda>r. m_event_id r = [] \<and> srv_should_memory srv (eventless_candidate s r)) s (other_writers env s)
    (snd (ConsolidateMemories cfg env srv s))"
proof -
  define reason where "reason = forgetReasonFor cfg ForgetRuleConsolidation CauseConsolidation (srv_threshold srv)"
  let ?snap = "\<lambda>r. consolidation_snapshot srv reason (eventless_candidate s r) r"
  let ?items = "map ?snap (filter (\<lambda>r. m_event_id r = [] \<and> srv_should_memory srv (eventless_candidate s r)) (memories s))"
  obtain res s1 where C: "chokepoint cfg env ?items reason s = (res, s1)" by fastforce
  then have "snd (ConsolidateMemories cfg env srv s) = s1"
    using assms(3) by (simp add: ConsolidateMemories_def Let_def reason_def [symmetric] conj_commute split: sum.splits)
  with pass_core_map [OF assms(1,2) scan_snapshots(1) C events_only_refl] show ?thesis by simp
qed

lemma ConsolidateEventMemories_pass:
  assumes "keys_ok s" "store_ok (other_writers env s)" "\<not> scan_fails env"
  shows "pass_ok (\<lambda>r. m_event_id r \<noteq> [] \<and> srv_should_memory srv (scan_candidate s r)) s (other_writers env s)
    (snd (ConsolidateEventMemories cfg env srv s))"
proof -
  define reason where "reason = forgetReasonFor cfg ForgetRuleConsolidation CauseConsolidation (srv_threshold srv)"
  let ?snap = "\<lambda>r. consolidation_snapshot srv reason (scan_candidate s r) r"
  let ?items = "map ?snap (filter (\<lambda>r. m_event_id r \<noteq> [] \<and> srv_should_memory srv (scan_candidate s r)) (memories s))"
  obtain res s1 where C: "chokepoint cfg env ?items reason s = (res, s1)" by fastforce
  then have "\<exists>td fl seen err. snd (ConsolidateEventMemories cfg env srv s)
      = fst (fold (cleanup_event cfg env CauseConsolidation td fl) seen (s1, 0, err))"
    using assms(3)
    by (simp add: ConsolidateEventMemories_def Let_def reason_def [symmetric] conj_commute split_beta) blast
  then have "events_only s1 (snd (ConsolidateEventMemories cfg env srv s))"
    using cleanup_fold_events_only by (metis fst_conv)
  with pass_core_map [OF assms(1,2) scan_snapshots(2) C] show ?thesis by simp
qed

lemma ExpireMemories_pass:
  assumes "keys_ok s" "store_ok (other_writers env s)" "\<not> scan_fails env"
  shows "pass_ok (\<lambda>r. m_timestamp r < cutoff) s (other_writers env s) (snd (ExpireMemories cfg env cutoff s))
    \<or> snd (ExpireMemories cfg env cutoff s) = s"
proof (cases "filter (\<lambda>r. m_timestamp r < cutoff) (memories s) = []")
  case True
  then show ?thesis using assms(3) by (simp add: ExpireMemories_def Let_def)
next
  case False
  let ?snap = "\<lambda>r. \<lparr>ms_id = m_id r, ms_time_recalled = m_time_recalled r, ms_recall_count = m_recall_count r, ms_value = 0\<rparr>"
  let ?items = "map ?snap (filter (\<lambda>r. m_timestamp r < cutoff) (memories s))"
  let ?reason = "\<lparr>rule = (if tombstones_enabled cfg \<and> tombstone_table cfg then ForgetRuleExpiry else ForgetRuleNone),
                   cause = CauseExpiry, threshold = 0\<rparr>"
  obtain res s1 where C: "chokepoint cfg env ?items ?reason s = (res, s1)" by fastforce
  then have "snd (ExpireMemories cfg env cutoff s) = s1 \<or>
      (\<exists>touched. snd (ExpireMemories cfg env cutoff s) = fst (fold (cleanup_event cfg env CauseExpiry (\<lambda>_. True) (\<lambda>_. True)) touched (s1, 0, None)))"
    using assms(3) False by (auto simp: ExpireMemories_def Let_def split_beta split: sum.splits)
  then have "events_only s1 (snd (ExpireMemories cfg env cutoff s))"
    using cleanup_fold_events_only events_only_refl by (metis fst_conv)
  with pass_core_map [OF assms(1,2) scan_snapshots(3) C] show ?thesis by simp
qed

lemma ConsolidateEvents_pass:
  assumes "store_ok (other_writers env s)" "\<not> scan_fails env"
  shows "events_only (other_writers env s) (snd (ConsolidateEvents cfg env srv s))"
proof -
  have "\<exists>ids. snd (ConsolidateEvents cfg env srv s) = fst (fold (consolidate_event cfg env) ids (other_writers env s, 0, None))"
    using assms(2) by (auto simp: ConsolidateEvents_def Let_def split_beta)
  then show ?thesis using consolidate_event_events_only by (metis fst_conv)
qed

section \<open>Eviction\<close>

text \<open>\<^verbatim>\<open>sort.Slice\<close> by value: some ascending rearrangement, not a particular one.\<close>

definition sorter_ok :: "(evictionCandidate list \<Rightarrow> evictionCandidate list) \<Rightarrow> bool" where
  "sorter_ok f \<longleftrightarrow> (\<forall>xs. mset (f xs) = mset xs \<and> sorted (map ec_value (f xs)))"

definition freed :: "db_config \<Rightarrow> evictionCandidate list \<Rightarrow> int" where
  "freed cfg cs = sum_list (map (\<lambda>c. memoryFootprint cfg (ec_size c) (ec_indexed_bytes c)) cs)"

definition released :: "evictionCandidate list \<Rightarrow> int" where
  "released cs = sum_list (map ec_external_bytes cs)"

text \<open>The selection is the shortest prefix of the ranking that meets both targets, or all of it.\<close>

lemma select_evictions_prefix:
  "\<exists>k. select_evictions cfg t b x cs = take k cs
     \<and> (satisfied t (b + freed cfg (take k cs)) (x + released (take k cs)) \<or> take k cs = cs)
     \<and> (\<forall>j < k. j < length cs \<longrightarrow> \<not> satisfied t (b + freed cfg (take j cs)) (x + released (take j cs)))"
proof (induction cs arbitrary: b x)
  case (Cons c cs)
  show ?case
  proof (cases "satisfied t b x")
    case True
    then show ?thesis by (intro exI [of _ 0]) (simp add: freed_def released_def)
  next
    case False
    obtain k where k: "select_evictions cfg t (b + memoryFootprint cfg (ec_size c) (ec_indexed_bytes c)) (x + ec_external_bytes c) cs = take k cs"
      "satisfied t (b + memoryFootprint cfg (ec_size c) (ec_indexed_bytes c) + freed cfg (take k cs)) (x + ec_external_bytes c + released (take k cs))
        \<or> take k cs = cs"
      "\<forall>j < k. j < length cs \<longrightarrow> \<not> satisfied t (b + memoryFootprint cfg (ec_size c) (ec_indexed_bytes c) + freed cfg (take j cs))
        (x + ec_external_bytes c + released (take j cs))"
      using Cons.IH by blast
    have "\<not> satisfied t (b + freed cfg (take j (c # cs))) (x + released (take j (c # cs)))"
      if "j < Suc k" "j < length (c # cs)" for j
      using that k(3) False by (cases j) (auto simp: freed_def released_def add.assoc)
    with False k(1,2) show ?thesis
      by (intro exI [of _ "Suc k"]) (auto simp: freed_def released_def add.assoc)
  qed
qed simp

lemma memories_pool:
  assumes "keys_ok s" "sorter_ok (sort_slice env)"
    and pool: "pool = map (eviction_candidate srv s) (filter P (memories s))"
  shows "distinct (map ec_id (sort_slice env pool))" "set (sort_slice env pool) = set pool"
    "sorted (map ec_value (sort_slice env pool))"
proof -
  have m: "mset (sort_slice env pool) = mset pool" using assms(2) by (simp add: sorter_ok_def)
  then show "set (sort_slice env pool) = set pool" using mset_eq_setD by blast
  have "ec_id \<circ> eviction_candidate srv s = m_id" by (auto simp: eviction_candidate_def)
  then have "distinct (map ec_id pool)" using assms(1) by (simp add: pool keys_ok_def distinct_map_filter_key)
  moreover have "mset (map ec_id (sort_slice env pool)) = mset (map ec_id pool)" using m by simp
  ultimately show "distinct (map ec_id (sort_slice env pool))" using mset_eq_imp_distinct_iff by blast
  show "sorted (map ec_value (sort_slice env pool))" using assms(2) by (simp add: sorter_ok_def)
qed

definition eviction_pool :: "Server \<Rightarrow> db_state \<Rightarrow> evictionCandidate list" where
  "eviction_pool srv s = map (eviction_candidate srv s) (filter (\<lambda>r. \<not> srv_retained srv (scan_candidate s r)) (memories s))"

definition evictions :: "db_config \<Rightarrow> pass_env \<Rightarrow> Server \<Rightarrow> EvictionTarget \<Rightarrow> db_state \<Rightarrow> evictionCandidate list" where
  "evictions cfg env srv t s = select_evictions cfg t 0 0 (sort_slice env (eviction_pool srv s))"

lemma EvictMemories_state:
  assumes "\<not> target_empty t" "\<not> scan_fails env"
    and C: "chokepoint cfg env (map eviction_snapshot (evictions cfg env srv t s))
      (forgetReasonFor cfg ForgetRuleEviction CauseEviction (srv_threshold srv)) s = (res, s1)"
  shows "events_only s1 (snd (EvictMemories cfg env srv t s))"
proof -
  have "snd (EvictMemories cfg env srv t s) = s1 \<or>
      (\<exists>td fl evs. snd (EvictMemories cfg env srv t s) = fst (fold (cleanup_event cfg env CauseEviction td fl) evs (s1, 0, None)))"
    using assms(1,2) C [unfolded evictions_def eviction_pool_def]
    by (simp add: EvictMemories_def Let_def split_beta split: sum.splits) blast
  then show ?thesis using cleanup_fold_events_only events_only_refl by (metis fst_conv)
qed

lemma evictions_snapshots:
  assumes "keys_ok s" "sorter_ok (sort_slice env)"
  shows "distinct (map ms_id (map eviction_snapshot (evictions cfg env srv t s)))"
    and "\<And>x. x \<in> set (map eviction_snapshot (evictions cfg env srv t s)) \<Longrightarrow>
      \<exists>r \<in> set (memories s). \<not> srv_retained srv (scan_candidate s r) \<and> ms_id x = m_id r
        \<and> ms_time_recalled x = m_time_recalled r \<and> ms_recall_count x = m_recall_count r"
proof -
  note P = memories_pool [OF assms eviction_pool_def [of srv s]]
  obtain k where k: "evictions cfg env srv t s = take k (sort_slice env (eviction_pool srv s))"
    unfolding evictions_def using select_evictions_prefix by blast
  have "ms_id \<circ> eviction_snapshot = ec_id" by (auto simp: eviction_snapshot_def)
  then show "distinct (map ms_id (map eviction_snapshot (evictions cfg env srv t s)))"
    using distinct_take [OF P(1), of k] by (simp add: k take_map)
  fix x assume "x \<in> set (map eviction_snapshot (evictions cfg env srv t s))"
  then obtain c where "c \<in> set (eviction_pool srv s)" "x = eviction_snapshot c"
    using P(2) by (auto simp: k dest: in_set_takeD)
  then show "\<exists>r \<in> set (memories s). \<not> srv_retained srv (scan_candidate s r) \<and> ms_id x = m_id r
        \<and> ms_time_recalled x = m_time_recalled r \<and> ms_recall_count x = m_recall_count r"
    by (auto simp: eviction_pool_def eviction_snapshot_def eviction_candidate_def)
qed

lemma EvictMemories_pass:
  assumes "keys_ok s" "store_ok (other_writers env s)" "\<not> scan_fails env" "\<not> target_empty t" "sorter_ok (sort_slice env)"
  shows "pass_ok (\<lambda>r. \<not> srv_retained srv (scan_candidate s r)) s (other_writers env s) (snd (EvictMemories cfg env srv t s))"
proof -
  obtain res s1 where C: "chokepoint cfg env (map eviction_snapshot (evictions cfg env srv t s))
      (forgetReasonFor cfg ForgetRuleEviction CauseEviction (srv_threshold srv)) s = (res, s1)" by fastforce
  show ?thesis
    by (rule pass_core [OF assms(2) evictions_snapshots(1) _ C EvictMemories_state [OF assms(4,3) C]])
      (use evictions_snapshots(2) assms in blast)+
qed

section \<open>Properties of the passes\<close>

lemma pass_ok_store:
  assumes "pass_ok P s t s'"
  shows "store_ok s'" "\<And>r. r \<in> set (memories s') \<Longrightarrow> has_event t r \<Longrightarrow> has_event s' r"
  using assms by (auto simp: pass_ok_def forgets_def)

lemma m_id_sans: "m_id (sans_links r) = m_id r"
  by (simp add: sans_links_def)

text \<open>A memory survives a pass that could not have selected it in the state it was in.\<close>

lemma pass_ok_survives:
  assumes "pass_ok P s t s'" "q \<in> set (memories t)"
    and "\<And>r. r \<in> set (memories s) \<Longrightarrow> m_id r = m_id q \<Longrightarrow> P r \<Longrightarrow> (\<exists>q' \<in> set (memories t). same_recall r q') \<Longrightarrow> False"
  shows "m_id q \<in> m_id ` set (memories s')"
proof -
  obtain D where D: "forgets t D s'" "\<forall>i \<in> D. \<exists>r \<in> set (memories s). m_id r = i \<and> P r \<and> (\<exists>q \<in> set (memories t). same_recall r q)"
    using assms(1) by (auto simp: pass_ok_def)
  have "m_id q \<notin> D" using D(2) assms(3) by blast
  then have "q \<in> set (filter (\<lambda>r. m_id r \<notin> D) (memories t))" using assms(2) by simp
  moreover have "map sans_links (memories s') = map sans_links (filter (\<lambda>r. m_id r \<notin> D) (memories t))"
    using D(1) by (simp add: forgets_def)
  ultimately have "sans_links q \<in> set (map sans_links (memories s'))" by (simp only: set_map imageI)
  then obtain q' where "q' \<in> set (memories s')" "sans_links q = sans_links q'" by auto
  then show ?thesis by (metis image_eqI m_id_sans)
qed

text \<open>
  C8. Forgetting leaves a well-formed store and orphans no memory: after the consolidation of
  memories, of event memories and of bare events, and after eviction, whatever well-formed writes
  raced with the pass and whichever statements failed, the store is well-formed, and a memory whose
  event existed when the delete ran still has it.
\<close>

theorem passes_keep_store_well_formed:
  assumes "store_ok s" "store_ok (other_writers env s)" "sorter_ok (sort_slice env)" "\<not> scan_fails env" "\<not> target_empty t"
    and "s' \<in> {snd (ConsolidateMemories cfg env srv s), snd (ConsolidateEventMemories cfg env srv s),
              snd (ConsolidateEvents cfg env srv s), snd (EvictMemories cfg env srv t s)}"
  shows "store_ok s' \<and> (\<forall>r \<in> set (memories s'). has_event (other_writers env s) r \<longrightarrow> has_event s' r)"
proof -
  have k: "keys_ok s" using assms(1) by (simp add: store_ok_def)
  note P = ConsolidateMemories_pass [OF k assms(2,4)] ConsolidateEventMemories_pass [OF k assms(2,4)]
    EvictMemories_pass [OF k assms(2,4,5,3)]
  have "events_only (other_writers env s) (snd (ConsolidateEvents cfg env srv s))"
    by (rule ConsolidateEvents_pass [OF assms(2,4)])
  with assms(2) have bare: "store_ok (snd (ConsolidateEvents cfg env srv s))
      \<and> (\<forall>r \<in> set (memories (snd (ConsolidateEvents cfg env srv s))). has_event (other_writers env s) r
          \<longrightarrow> has_event (snd (ConsolidateEvents cfg env srv s)) r)"
    by (simp add: events_only_def)
  have key: "store_ok u \<and> (\<forall>r \<in> set (memories u). has_event (other_writers env s) r \<longrightarrow> has_event u r)"
    if "pass_ok Q s (other_writers env s) u" for Q u
    using that by (auto dest: pass_ok_store)
  show ?thesis
    using assms(6) bare key [OF P(1) [where srv = srv and cfg = cfg]] key [OF P(2) [where srv = srv and cfg = cfg]]
      key [OF P(3) [where srv = srv and cfg = cfg]] by auto
qed

definition quiet_env :: "nanos \<Rightarrow> pass_env" where
  "quiet_env now = \<lparr>env_now = now, other_writers = id, scan_fails = False, tx_fault = (\<lambda>_. None), tx_ctx_done = (\<lambda>_. False),
     event_delete_fails = (\<lambda>_. False), event_flag_fails = (\<lambda>_. False), sort_slice = sort_key ec_value\<rparr>"

lemma quiet_env_simps [simp]:
  "other_writers (quiet_env now) = id" "scan_fails (quiet_env now) = False" "tx_fault (quiet_env now) = (\<lambda>_. None)"
  "sort_slice (quiet_env now) = sort_key ec_value" "env_now (quiet_env now) = now"
  by (simp_all add: quiet_env_def)

lemma stable_sort_ok: "sorter_ok (sort_key ec_value)"
  by (simp add: sorter_ok_def)

definition example_server :: Server where
  "example_server = \<lparr>srv_should_memory = (\<lambda>c. MemoryLinkSignificance c < 6), srv_value = (\<lambda>c. real_of_int (MemoryLinkSignificance c)),
     srv_retained = (\<lambda>c. Timestamp c \<ge> 30), srv_should_event = (\<lambda>c. False), srv_threshold = 6\<rparr>"

theorem passes_keep_store_well_formed_witness:
  "store_ok (snd (EvictMemories example_cfg (quiet_env 100) example_server \<lparr>target_bytes = 1, target_external = 0\<rparr> linked_store))"
  using passes_keep_store_well_formed [OF linked_store_store_ok, of "quiet_env 100" "\<lparr>target_bytes = 1, target_external = 0\<rparr>"
      "snd (EvictMemories example_cfg (quiet_env 100) example_server \<lparr>target_bytes = 1, target_external = 0\<rparr> linked_store)"
      example_cfg example_server]
  by (simp add: linked_store_store_ok stable_sort_ok target_empty_def)

text \<open>
  The recall-race guard holds for every pass: a memory whose recall state has changed between
  the scan and the delete, because a client recalled it, is still in the store when the pass returns.
\<close>

theorem recalled_mid_pass_survives:
  assumes "store_ok s" "store_ok (other_writers env s)" "sorter_ok (sort_slice env)" "\<not> scan_fails env" "\<not> target_empty t"
    and q: "q \<in> set (memories (other_writers env s))"
    and recalled: "\<forall>r \<in> set (memories s). m_id r = m_id q \<longrightarrow> m_recall_count r \<noteq> m_recall_count q"
    and "s' \<in> {snd (ConsolidateMemories cfg env srv s), snd (ConsolidateEventMemories cfg env srv s),
              snd (EvictMemories cfg env srv t s)}"
  shows "m_id q \<in> m_id ` set (memories s')"
proof -
  have k: "keys_ok s" using assms(1) by (simp add: store_ok_def)
  have inj: "inj_on m_id (set (memories (other_writers env s)))"
    using assms(2) by (simp add: store_ok_def keys_ok_def distinct_map)
  have no: "False" if "r \<in> set (memories s)" "m_id r = m_id q" "\<exists>q' \<in> set (memories (other_writers env s)). same_recall r q'" for r
    using that recalled q inj unfolding same_recall_def by (metis inj_onD)
  have "m_id q \<in> m_id ` set (memories s')" if "pass_ok P s (other_writers env s) s'" for P
    by (rule pass_ok_survives [OF that q]) (rule no)
  with assms(8) ConsolidateMemories_pass [OF k assms(2,4)] ConsolidateEventMemories_pass [OF k assms(2,4)]
    EvictMemories_pass [OF k assms(2,4,5,3)] show ?thesis by blast
qed

definition recalling_env :: pass_env where
  "recalling_env = (quiet_env 100)\<lparr>other_writers := (\<lambda>s. snd (RecallMemories 60 [''a''] s))\<rparr>"

theorem recalled_mid_pass_survives_witness:
  "''a'' \<in> m_id ` set (memories (snd (ConsolidateMemories example_cfg recalling_env example_server linked_store)))"
proof -
  let ?s1 = "snd (RecallMemories 60 [''a''] linked_store)"
  have m: "memories ?s1 = [recall_row 60 (example_memory ''a'' 10 5), example_memory ''b'' 20 12, example_memory ''c'' 30 7]"
    unfolding RecallMemories_rows(1) by (simp add: linked_store_def) (simp add: example_memory_def)
  have "?s1 = linked_store\<lparr>memories := memories ?s1\<rparr>" by (rule RecallMemories_rows(2))
  then have s1: "?s1 = linked_store\<lparr>memories := [recall_row 60 (example_memory ''a'' 10 5), example_memory ''b'' 20 12, example_memory ''c'' 30 7]\<rparr>"
    unfolding m .
  have ok: "store_ok ?s1" unfolding s1
    by (simp add: store_ok_def keys_ok_def aggregates_ok_def agg_ok_def link_sum_def touches_def queues_ok_def seqs_ok_def
        links_closed_def one_row_per_pair_def link_key_def recall_row_def example_defs)
  have env: "other_writers recalling_env linked_store = ?s1" "sorter_ok (sort_slice recalling_env)" "\<not> scan_fails recalling_env"
    by (simp_all add: recalling_env_def stable_sort_ok)
  let ?q = "recall_row 60 (example_memory ''a'' 10 5)"
  have "m_id ?q \<in> m_id ` set (memories (snd (ConsolidateMemories example_cfg recalling_env example_server linked_store)))"
    by (rule recalled_mid_pass_survives [OF linked_store_store_ok ok [folded env(1)] env(2,3),
          where t = "\<lparr>target_bytes = 1, target_external = 0\<rparr>" and cfg = example_cfg and srv = example_server])
      (simp_all add: env(1) m target_empty_def, simp add: recall_row_def example_defs)
  then show ?thesis by (simp add: recall_row_def example_memory_def)
qed

section \<open>The retention floor\<close>

text \<open>
  What the storage layer relies on from the server it asks: a retained memory is never one to
  consolidate. The floor of the passes follows once and for all; the server of \<open>Decay\<close> provides it.
\<close>

locale forgetting_server =
  fixes srv :: Server
  assumes retained_kept: "srv_retained srv c \<Longrightarrow> \<not> srv_should_memory srv c"
begin

lemma retained_survives:
  assumes "store_ok s" "store_ok (other_writers env s)" "sorter_ok (sort_slice env)" "\<not> scan_fails env" "\<not> target_empty t"
    and "r \<in> set (memories s)" "srv_retained srv (scan_candidate s r)"
    and ev: "m_event_id r = [] \<Longrightarrow> eventless_candidate s r = scan_candidate s r"
    and q: "q \<in> set (memories (other_writers env s))" "m_id q = m_id r"
    and s': "s' \<in> {snd (ConsolidateMemories cfg env srv s), snd (ConsolidateEventMemories cfg env srv s),
              snd (EvictMemories cfg env srv t s)}"
  shows "m_id r \<in> m_id ` set (memories s')"
proof -
  have k: "keys_ok s" using assms(1) by (simp add: store_ok_def)
  have same: "x = r" if "x \<in> set (memories s)" "m_id x = m_id q" for x
    using k that q(2) assms(6) by (auto simp: keys_ok_def distinct_map dest: inj_onD)
  have keep: "m_id r \<in> m_id ` set (memories u)" if "pass_ok P s (other_writers env s) u" "\<not> P r" for P u
    unfolding q(2) [symmetric] by (rule pass_ok_survives [OF that(1) q(1)]) (use same that(2) in blast)
  have no: "\<not> srv_should_memory srv (scan_candidate s r)" using retained_kept assms(7) by blast
  show ?thesis
    using s' keep [OF ConsolidateMemories_pass [OF k assms(2,4), where srv = srv and cfg = cfg]] no ev
      keep [OF ConsolidateEventMemories_pass [OF k assms(2,4), where srv = srv and cfg = cfg]]
      keep [OF EvictMemories_pass [OF k assms(2,4,5,3), where srv = srv and cfg = cfg]] assms(7)
    by auto
qed

end

text \<open>The server: the decisions of the value model, at one reading of the clock.\<close>

definition decision_server :: "Consolidation \<Rightarrow> nanos \<Rightarrow> real \<Rightarrow> int \<Rightarrow> Server" where
  "decision_server c now pressure dflt = \<lparr>srv_should_memory = shouldConsolidateMemoryUnder c now pressure dflt,
     srv_value = (\<lambda>m. memoryValueUnder c now m dflt), srv_retained = MemoryRetained c now,
     srv_should_event = (\<lambda>e. shouldConsolidateEventUnder c now e pressure),
     srv_threshold = deletionThresholdUnder c pressure\<rparr>"

interpretation decision: forgetting_server "decision_server c now pressure dflt" for c now pressure dflt
  by unfold_locales
    (simp add: decision_server_def MemoryRetained_def shouldConsolidateMemoryUnder_def shouldConsolidateUnder_def)

lemma eventless_is_scan: "keys_ok s \<Longrightarrow> [] \<notin> e_id ` set (events s) \<Longrightarrow> m_event_id r = [] \<Longrightarrow> eventless_candidate s r = scan_candidate s r"
  by (simp add: eventless_candidate_def scan_candidate_def joined_event_def find_row_None [THEN iffD2])

text \<open>
  C3. The retention floor overrides every judgement and the capacity target: a memory recalled or
  stored within the minimum retention window survives consolidation at any pressure and any
  threshold, and eviction whatever its value and whatever the target.
\<close>

theorem retention_floor_holds:
  assumes "store_ok s" "store_ok (other_writers env s)" "sorter_ok (sort_slice env)" "\<not> scan_fails env" "\<not> target_empty t"
    and "[] \<notin> e_id ` set (events s)" "clock_ok now" "clock_ok (m_timestamp r)" "clock_ok (m_time_recalled r)"
    and r: "r \<in> set (memories s)" "now - max (m_timestamp r) (m_time_recalled r) < minimumRetentionInDays c * DAY_IN_NANOSECONDS"
      "0 < minimumRetentionInDays c"
    and "m_id r \<in> m_id ` set (memories (other_writers env s))"
    and "srv = decision_server c now pressure dflt"
    and "s' \<in> {snd (ConsolidateMemories cfg env srv s), snd (ConsolidateEventMemories cfg env srv s),
              snd (EvictMemories cfg env srv t s)}"
  shows "m_id r \<in> m_id ` set (memories s')"
proof -
  have "memoryDecayTimestamp (scan_candidate s r) = max (m_timestamp r) (m_time_recalled r)"
    by (simp add: memoryDecayTimestamp_def scan_candidate_def Let_def)
  moreover have "clock_ok (max (m_timestamp r) (m_time_recalled r))" using assms(8,9) by (simp add: max_def)
  ultimately have "srv_retained srv (scan_candidate s r)"
    using r(2,3) assms(7)
    by (simp add: assms(14) decision_server_def MemoryRetained_def retained_def ageNanoSeconds_def go_div_less_iff)
  moreover obtain q where "q \<in> set (memories (other_writers env s))" "m_id q = m_id r" using assms(13) by auto
  moreover have "keys_ok s" using assms(1) by (simp add: store_ok_def)
  ultimately show ?thesis
    using decision.retained_survives [OF assms(1-5) r(1), where c = c and now = now and pressure = pressure
        and dflt = dflt and q = q and cfg = cfg and s' = s'] assms(6,14,15) eventless_is_scan by blast
qed

theorem retention_floor_holds_witness:
  "''c'' \<in> m_id ` set (memories (snd (EvictMemories example_cfg (quiet_env 100)
      (decision_server ((sample_config 1)\<lparr>minimumRetentionInDays := 7\<rparr>) 100 1 0) \<lparr>target_bytes = 1000000, target_external = 0\<rparr> linked_store)))"
proof -
  let ?srv = "decision_server ((sample_config 1)\<lparr>minimumRetentionInDays := 7\<rparr>) 100 1 0"
  let ?t = "\<lparr>target_bytes = 1000000, target_external = 0\<rparr>"
  have c: "example_memory ''c'' 30 7 \<in> set (memories linked_store)" by (simp add: linked_store_def)
  have "m_id (example_memory ''c'' 30 7) \<in> m_id ` set (memories (snd (EvictMemories example_cfg (quiet_env 100) ?srv ?t linked_store)))"
    by (rule retention_floor_holds [OF linked_store_store_ok _ _ _ _ _ _ _ _ c _ _ _ refl, where t = ?t
          and env = "quiet_env 100" and cfg = example_cfg and now = 100 and c = "(sample_config 1)\<lparr>minimumRetentionInDays := 7\<rparr>"
          and pressure = 1 and dflt = 0])
      (use c linked_store_store_ok in \<open>simp_all add: stable_sort_ok target_empty_def clock_ok_def DAY_IN_NANOSECONDS_def
         example_memory_def linked_store_def empty_store_def\<close>)
  then show ?thesis by (simp add: example_memory_def)
qed

section \<open>Undisturbed passes\<close>

text \<open>Nobody else writes and the first attempt at the transaction goes through.\<close>

definition undisturbed :: "pass_env \<Rightarrow> bool" where
  "undisturbed env \<longleftrightarrow> other_writers env = id \<and> tx_fault env 0 = None \<and> \<not> scan_fails env"

lemma quiet_undisturbed: "undisturbed (quiet_env now)"
  by (simp add: undisturbed_def)

lemma chokepoint_undisturbed:
  assumes "undisturbed env" "store_ok s" "distinct (map ms_id items)"
  obtains deleted s1 where "chokepoint cfg env items reason s = (Inr deleted, s1)"
    "delete_effect cfg items reason s deleted s1"
proof -
  obtain res s1 where C: "chokepoint cfg env items reason s = (res, s1)" by fastforce
  have "\<exists>deleted. res = Inr deleted"
  proof (cases "items = []")
    case True
    then show ?thesis using C by (auto simp: chokepoint_def deleteMemoriesIfUnrecalled_def)
  next
    case False
    then show ?thesis using C assms(1)
      by (auto simp: chokepoint_def deleteMemoriesIfUnrecalled_def withTxRetry_def undisturbed_def run_tx_def
          writeRetryMaxAttempts_def eval_nat_numeral split: prod.splits if_splits)
  qed
  then obtain deleted where "res = Inr deleted" by blast
  with chokepoint_cases [of env s items cfg reason res s1] C assms show thesis
    by (intro that) (auto simp: undisturbed_def)
qed

lemma guard_map:
  assumes "keys_ok s" "snapshots f" "r \<in> set (memories s)"
  shows "guard (map f (filter P (memories s))) r \<longleftrightarrow> P r"
proof
  assume "guard (map f (filter P (memories s))) r"
  then obtain x where x: "x \<in> set (memories s)" "P x" "still_as_scanned (f x) r" by (auto simp: guard_def list_ex_iff)
  then have "m_id x = m_id r" using assms(2) by (simp add: still_as_scanned_def snapshots_def)
  then have "x = r" using assms(1,3) x(1) by (auto simp: keys_ok_def distinct_map dest: inj_onD)
  with x show "P r" by simp
next
  assume "P r"
  then show "guard (map f (filter P (memories s))) r"
    using assms(2,3) by (auto simp: guard_def list_ex_iff still_as_scanned_def snapshots_def)
qed

lemma deletable_map:
  assumes "keys_ok s" "snapshots f"
  shows "deletable (map f (filter P (memories s))) s = m_id ` {r \<in> set (memories s). P r}"
  using guard_map [OF assms] by (auto simp: deletable_def)

lemma events_only_ids: "events_only s s' \<Longrightarrow> memories s' = memories s"
  by (simp add: events_only_def)

lemma delete_effect_gone:
  assumes "store_ok s" "delete_effect cfg items reason s deleted s1"
  shows "m_id ` set (memories s1) = m_id ` set (memories s) - set deleted"
proof -
  note D = delete_effectD [OF assms(2)]
  have "inj_on m_id (set (memories s))" using assms(1) by (simp add: store_ok_def keys_ok_def distinct_map)
  then show ?thesis
    using arg_cong [OF delete_effect_ids [OF assms(2)], of set] by (auto simp: D(2) deletable_def dest: inj_onD)
qed

lemma undisturbed_run:
  assumes "store_ok s" "undisturbed env" "snapshots f"
    and "\<And>deleted s1. chokepoint cfg env (map f (filter P (memories s))) why s = (Inr deleted, s1) \<Longrightarrow> memories s2 = memories s1"
  shows "m_id ` set (memories s2) = m_id ` {r \<in> set (memories s). \<not> P r}"
proof -
  have k: "keys_ok s" using assms(1) by (simp add: store_ok_def)
  have inj: "inj_on m_id (set (memories s))" using k by (simp add: keys_ok_def distinct_map)
  have minus: "m_id ` set (memories s) - m_id ` {r \<in> set (memories s). P r} = m_id ` {r \<in> set (memories s). \<not> P r}"
    using inj by (auto dest: inj_onD)
  have "ms_id \<circ> f = m_id" using assms(3) by (auto simp: snapshots_def)
  then have "distinct (map ms_id (map f (filter P (memories s))))" using k by (simp add: keys_ok_def distinct_map_filter_key)
  then obtain deleted s1 where C: "chokepoint cfg env (map f (filter P (memories s))) why s = (Inr deleted, s1)"
    and E: "delete_effect cfg (map f (filter P (memories s))) why s deleted s1"
    using chokepoint_undisturbed [OF assms(2,1)] by metis
  then show ?thesis
    using assms(4) [OF C] delete_effect_gone [OF assms(1) E] delete_effectD(2) [OF E] deletable_map [OF k assms(3)] minus by simp
qed

lemma expire_undisturbed:
  assumes "store_ok s" "undisturbed env"
  shows "m_id ` set (memories (snd (ExpireMemories cfg env cutoff s))) = m_id ` {r \<in> set (memories s). \<not> m_timestamp r < cutoff}"
proof (cases "filter (\<lambda>r. m_timestamp r < cutoff) (memories s) = []")
  case True
  then have "{r \<in> set (memories s). \<not> m_timestamp r < cutoff} = set (memories s)" by (auto simp: filter_empty_conv)
  with True assms(2) show ?thesis by (simp add: ExpireMemories_def Let_def undisturbed_def)
next
  case False
  have sf: "\<not> scan_fails env" using assms(2) by (simp add: undisturbed_def)
  show ?thesis
    by (rule undisturbed_run [OF assms, where why = "\<lparr>rule = (if tombstones_enabled cfg \<and> tombstone_table cfg
          then ForgetRuleExpiry else ForgetRuleNone), cause = CauseExpiry, threshold = 0\<rparr>" and cfg = cfg, OF scan_snapshots(3) [of 0]])
      (use False sf in \<open>simp add: ExpireMemories_def Let_def split_beta events_only_ids [OF cleanup_fold_events_only]\<close>)
qed

text \<open>
  C9. An undisturbed consolidation forgets everything it should and nothing else: of the memories
  with no event exactly those the server decides against are gone, of those with one likewise, and
  an undisturbed expiry leaves no memory stored before its cutoff and touches no other.
\<close>

theorem undisturbed_passes_are_exact:
  assumes "store_ok s" "undisturbed env"
  shows "m_id ` set (memories (snd (ConsolidateMemories cfg env srv s)))
      = m_id ` {r \<in> set (memories s). \<not> (m_event_id r = [] \<and> srv_should_memory srv (eventless_candidate s r))}
    \<and> m_id ` set (memories (snd (ConsolidateEventMemories cfg env srv s)))
      = m_id ` {r \<in> set (memories s). \<not> (m_event_id r \<noteq> [] \<and> srv_should_memory srv (scan_candidate s r))}
    \<and> m_id ` set (memories (snd (ExpireMemories cfg env cutoff s)))
      = m_id ` {r \<in> set (memories s). \<not> m_timestamp r < cutoff}"
proof -
  have k: "keys_ok s" using assms(1) by (simp add: store_ok_def)
  have sf: "\<not> scan_fails env" using assms(2) by (simp add: undisturbed_def)
  note run = undisturbed_run [OF assms]
  let ?r = "forgetReasonFor cfg ForgetRuleConsolidation CauseConsolidation (srv_threshold srv)"
  have 1: "m_id ` set (memories (snd (ConsolidateMemories cfg env srv s)))
      = m_id ` {r \<in> set (memories s). \<not> (m_event_id r = [] \<and> srv_should_memory srv (eventless_candidate s r))}"
    by (rule run [where why = ?r and cfg = cfg, OF scan_snapshots(1) [of srv ?r s]])
      (simp add: ConsolidateMemories_def Let_def sf conj_commute)
  have 2: "m_id ` set (memories (snd (ConsolidateEventMemories cfg env srv s)))
      = m_id ` {r \<in> set (memories s). \<not> (m_event_id r \<noteq> [] \<and> srv_should_memory srv (scan_candidate s r))}"
    by (rule run [where why = ?r and cfg = cfg, OF scan_snapshots(2) [of srv ?r s]])
      (simp add: ConsolidateEventMemories_def Let_def sf conj_commute split_beta events_only_ids [OF cleanup_fold_events_only])
  from 1 2 expire_undisturbed [OF assms, of cfg cutoff] show ?thesis by blast
qed

theorem undisturbed_passes_are_exact_witness:
  "m_id ` set (memories (snd (ConsolidateMemories example_cfg (quiet_env 100) example_server linked_store))) = {''b'', ''c''}
   \<and> m_id ` set (memories (snd (ExpireMemories example_cfg (quiet_env 100) 25 linked_store))) = {''c''}"
proof -
  have f: "{r \<in> set xs. P r} = set (filter P xs)" for P and xs :: "memory_row list" by simp
  show ?thesis
    using undisturbed_passes_are_exact [OF linked_store_store_ok quiet_undisturbed, of example_cfg 100 example_server 25]
    unfolding f by (simp add: example_server_def eventless_candidate_def linked_store_def del: set_filter)
      (simp add: example_memory_def)
qed

section \<open>Eviction in value order\<close>

lemma EvictMemories_effect:
  assumes "store_ok s" "undisturbed env" "sorter_ok (sort_slice env)" "\<not> target_empty t"
  obtains deleted s1 where
    "chokepoint cfg env (map eviction_snapshot (evictions cfg env srv t s))
       (forgetReasonFor cfg ForgetRuleEviction CauseEviction (srv_threshold srv)) s = (Inr deleted, s1)"
    "delete_effect cfg (map eviction_snapshot (evictions cfg env srv t s))
       (forgetReasonFor cfg ForgetRuleEviction CauseEviction (srv_threshold srv)) s deleted s1"
    "events_only s1 (snd (EvictMemories cfg env srv t s))"
    "set deleted = ec_id ` set (evictions cfg env srv t s)" "length deleted = length (evictions cfg env srv t s)"
proof -
  let ?E = "evictions cfg env srv t s" and ?items = "map eviction_snapshot (evictions cfg env srv t s)"
  have k: "keys_ok s" using assms(1) by (simp add: store_ok_def)
  have sf: "\<not> scan_fails env" using assms(2) by (simp add: undisturbed_def)
  note snap = evictions_snapshots [OF k assms(3), where cfg = cfg and srv = srv and t = t]
  obtain deleted s1 where C: "chokepoint cfg env ?items (forgetReasonFor cfg ForgetRuleEviction CauseEviction (srv_threshold srv)) s = (Inr deleted, s1)"
    and E: "delete_effect cfg ?items (forgetReasonFor cfg ForgetRuleEviction CauseEviction (srv_threshold srv)) s deleted s1"
    using chokepoint_undisturbed [OF assms(2,1) snap(1)] by metis
  have "deletable ?items s = ms_id ` set ?items"
  proof (intro equalityI subsetI)
    fix i assume "i \<in> ms_id ` set ?items"
    then obtain x where x: "x \<in> set ?items" "i = ms_id x" by blast
    obtain r where "r \<in> set (memories s)" "ms_id x = m_id r" "still_as_scanned x r"
      using snap(2) [OF x(1)] by (auto simp: still_as_scanned_def)
    with x show "i \<in> deletable ?items s" by (auto simp: deletable_def guard_def list_ex_iff simp del: set_map)
  qed (auto simp: deletable_def guard_def list_ex_iff still_as_scanned_def)
  then have del: "set deleted = ec_id ` set ?E"
    using delete_effectD(2) [OF E] by (simp add: image_image eviction_snapshot_def)
  have "distinct (map ec_id ?E)" using snap(1) by (simp add: eviction_snapshot_def comp_def)
  with del have "length deleted = length ?E"
    using delete_effectD(1) [OF E] by (metis distinct_card image_set length_map)
  with C E EvictMemories_state [OF assms(4) sf C] del show thesis by (rule that)
qed

lemma EvictMemories_undisturbed:
  assumes "store_ok s" "undisturbed env" "sorter_ok (sort_slice env)" "\<not> target_empty t"
  shows "m_id ` set (memories (snd (EvictMemories cfg env srv t s))) = m_id ` set (memories s) - ec_id ` set (evictions cfg env srv t s)"
    and "er_memories (fst (fst (EvictMemories cfg env srv t s))) = length (evictions cfg env srv t s)"
    and "er_bytes (fst (fst (EvictMemories cfg env srv t s))) = freed cfg (evictions cfg env srv t s)"
    and "er_external (fst (fst (EvictMemories cfg env srv t s))) = released (evictions cfg env srv t s)"
proof -
  let ?E = "evictions cfg env srv t s"
  have sf: "\<not> scan_fails env" using assms(2) by (simp add: undisturbed_def)
  obtain deleted s1 where X: "chokepoint cfg env (map eviction_snapshot ?E)
       (forgetReasonFor cfg ForgetRuleEviction CauseEviction (srv_threshold srv)) s = (Inr deleted, s1)"
    "delete_effect cfg (map eviction_snapshot ?E)
       (forgetReasonFor cfg ForgetRuleEviction CauseEviction (srv_threshold srv)) s deleted s1"
    "events_only s1 (snd (EvictMemories cfg env srv t s))"
    "set deleted = ec_id ` set ?E" "length deleted = length ?E"
    by (rule EvictMemories_effect [OF assms])
  have all: "filter (\<lambda>c. ec_id c \<in> set deleted) ?E = ?E" by (simp add: filter_id_conv X(4))
  show "er_memories (fst (fst (EvictMemories cfg env srv t s))) = length ?E"
    "er_bytes (fst (fst (EvictMemories cfg env srv t s))) = freed cfg ?E"
    "er_external (fst (fst (EvictMemories cfg env srv t s))) = released ?E"
    using assms(4) sf X(1) [unfolded evictions_def eviction_pool_def] all [unfolded evictions_def eviction_pool_def]
      X(5) [unfolded evictions_def eviction_pool_def]
    by (simp_all add: EvictMemories_def Let_def split_beta evictions_def eviction_pool_def freed_def released_def)
  show "m_id ` set (memories (snd (EvictMemories cfg env srv t s))) = m_id ` set (memories s) - ec_id ` set ?E"
    using events_only_ids [OF X(3)] delete_effect_gone [OF assms(1) X(2)] X(4) by simp
qed

text \<open>The selection, as a set of rows of the scanned store.\<close>

lemma evictions_rows:
  assumes "keys_ok s" "sorter_ok (sort_slice env)"
    and gone: "gone = {r \<in> set (memories s). m_id r \<in> ec_id ` set (evictions cfg env srv t s)}"
  shows "set (evictions cfg env srv t s) = eviction_candidate srv s ` gone"
    and "inj_on (eviction_candidate srv s) gone" and "distinct (evictions cfg env srv t s)"
    and "\<forall>r \<in> gone. \<not> srv_retained srv (scan_candidate s r)"
proof -
  let ?E = "evictions cfg env srv t s" and ?f = "eviction_candidate srv s"
  note P = memories_pool [OF assms(1,2) eviction_pool_def [of srv s]]
  obtain k where k: "?E = take k (sort_slice env (eviction_pool srv s))"
    unfolding evictions_def using select_evictions_prefix by blast
  have id: "ec_id (?f r) = m_id r" for r by (simp add: eviction_candidate_def)
  have inj: "inj_on m_id (set (memories s))" using assms(1) by (simp add: keys_ok_def distinct_map)
  have from_row: "\<exists>r \<in> set (memories s). \<not> srv_retained srv (scan_candidate s r) \<and> c = ?f r" if "c \<in> set ?E" for c
  proof -
    have "c \<in> set (eviction_pool srv s)" using that P(2) by (auto simp: k dest: in_set_takeD)
    then show ?thesis by (auto simp: eviction_pool_def)
  qed
  have to_row: "?f r \<in> set ?E \<and> \<not> srv_retained srv (scan_candidate s r)" if "r \<in> gone" for r
  proof -
    have "m_id r \<in> ec_id ` set ?E" using that by (simp add: gone)
    then obtain c where c: "c \<in> set ?E" "ec_id c = m_id r" by fastforce
    from from_row [OF c(1)] obtain q where "q \<in> set (memories s)" "\<not> srv_retained srv (scan_candidate s q)" "c = ?f q" by blast
    with c id inj that show ?thesis by (auto simp: gone dest: inj_onD)
  qed
  then show "\<forall>r \<in> gone. \<not> srv_retained srv (scan_candidate s r)" by blast
  have "c \<in> ?f ` gone" if c: "c \<in> set ?E" for c
  proof -
    obtain r where "r \<in> set (memories s)" "c = ?f r" using from_row [OF c] by blast
    with c id show ?thesis unfolding gone by (metis (mono_tags, lifting) image_eqI mem_Collect_eq)
  qed
  with to_row show "set ?E = ?f ` gone" by blast
  have "inj_on (ec_id \<circ> ?f) (set (memories s))" using inj id by (simp add: comp_def)
  then show "inj_on ?f gone" unfolding gone by (rule inj_on_subset [OF inj_on_imageI2]) blast
  show "distinct ?E" using distinct_take [OF P(1), of k] unfolding k take_map by (simp add: distinct_map)
qed

lemma evictions_sums:
  assumes "keys_ok s" "sorter_ok (sort_slice env)"
    and gone: "gone = {r \<in> set (memories s). m_id r \<in> ec_id ` set (evictions cfg env srv t s)}"
  shows "sum_list (map h (evictions cfg env srv t s)) = (\<Sum>r \<in> gone. h (eviction_candidate srv s r) :: int)"
    "length (evictions cfg env srv t s) = card gone"
proof -
  note R = evictions_rows [OF assms]
  show "sum_list (map h (evictions cfg env srv t s)) = (\<Sum>r \<in> gone. h (eviction_candidate srv s r))"
    using R(2,3) by (simp add: sum_list_distinct_conv_sum_set R(1) sum.reindex)
  show "length (evictions cfg env srv t s) = card gone"
    using distinct_card [OF R(3)] R(1,2) by (simp add: card_image)
qed

text \<open>Ranking, sufficiency and necessity of the selection.\<close>

lemma evictions_least:
  assumes "keys_ok s" "sorter_ok (sort_slice env)"
    and "c \<in> set (evictions cfg env srv t s)" "d \<in> set (eviction_pool srv s)" "d \<notin> set (evictions cfg env srv t s)"
  shows "ec_value c \<le> ec_value d"
proof -
  note P = memories_pool [OF assms(1,2) eviction_pool_def [of srv s]]
  let ?L = "sort_slice env (eviction_pool srv s)"
  obtain k where k: "evictions cfg env srv t s = take k ?L"
    unfolding evictions_def using select_evictions_prefix by blast
  have "d \<in> set (take k ?L @ drop k ?L)" using assms(4) P(2) by simp
  then have "d \<in> set (drop k ?L)" using assms(5) unfolding k set_append by blast
  moreover have "sorted (map ec_value (take k ?L) @ map ec_value (drop k ?L))"
    using P(3) by (simp flip: map_append)
  ultimately show ?thesis using assms(3) unfolding k by (auto simp: sorted_append)
qed

lemma evictions_enough:
  assumes "keys_ok s" "sorter_ok (sort_slice env)"
  shows "satisfied t (freed cfg (evictions cfg env srv t s)) (released (evictions cfg env srv t s))
    \<or> set (evictions cfg env srv t s) = set (eviction_pool srv s)"
  using select_evictions_prefix [of cfg t 0 0 "sort_slice env (eviction_pool srv s)"]
    memories_pool(2) [OF assms eviction_pool_def [of srv s]] unfolding evictions_def by auto

lemma evictions_needed:
  assumes "evictions cfg env srv t s \<noteq> []"
  shows "\<exists>c \<in> set (evictions cfg env srv t s). \<not> satisfied t
    (freed cfg (evictions cfg env srv t s) - memoryFootprint cfg (ec_size c) (ec_indexed_bytes c))
    (released (evictions cfg env srv t s) - ec_external_bytes c)"
proof -
  let ?E = "evictions cfg env srv t s" and ?L = "sort_slice env (eviction_pool srv s)"
  obtain k where k: "?E = take k ?L" "\<forall>j < k. j < length ?L \<longrightarrow> \<not> satisfied t (freed cfg (take j ?L)) (released (take j ?L))"
    using select_evictions_prefix [of cfg t 0 0 ?L] unfolding evictions_def by auto
  obtain xs c where E: "?E = xs @ [c]" using assms by (metis rev_exhaust)
  have "length xs < k" "length xs < length ?L" using arg_cong [OF E, of length] by (simp_all add: k(1) min_def split: if_splits)
  moreover have "take (length xs) ?L = xs"
    using E \<open>length xs < k\<close> unfolding k(1) by (metis append_eq_conv_conj min.absorb1 less_imp_le take_take)
  ultimately have "\<not> satisfied t (freed cfg xs) (released xs)" using k(2) by metis
  then show ?thesis by (intro bexI [of _ c]) (simp_all add: E freed_def released_def)
qed

text \<open>
  C4. Undisturbed eviction takes the least valuable memories and no more than it must: a memory it
  removed is worth no more than any unretained memory it left; it met both targets or left only
  retained memories; the figures it reports are the count, the summed footprint and the summed
  external bytes of what went; and without the last memory it took a target would have been missed.
\<close>

theorem eviction_takes_least_valuable:
  assumes "store_ok s" "undisturbed env" "sorter_ok (sort_slice env)" "\<not> target_empty t"
    and ran: "EvictMemories cfg env srv t s = ((res, err), s')"
    and gone: "gone = {r \<in> set (memories s). m_id r \<notin> m_id ` set (memories s')}"
    and cost: "cost = (\<lambda>r. memoryFootprint cfg (ec_size (eviction_candidate srv s r)) (ec_indexed_bytes (eviction_candidate srv s r)))"
  shows "(\<forall>r \<in> gone. \<forall>q \<in> set (memories s) - gone. \<not> srv_retained srv (scan_candidate s q)
        \<longrightarrow> srv_value srv (scan_candidate s r) \<le> srv_value srv (scan_candidate s q))
    \<and> (satisfied t (er_bytes res) (er_external res) \<or> (\<forall>q \<in> set (memories s) - gone. srv_retained srv (scan_candidate s q)))
    \<and> er_memories res = card gone \<and> er_bytes res = (\<Sum>r \<in> gone. cost r) \<and> er_external res = (\<Sum>r \<in> gone. m_external_bytes r)
    \<and> (gone \<noteq> {} \<longrightarrow> (\<exists>r \<in> gone. \<not> satisfied t (er_bytes res - cost r) (er_external res - m_external_bytes r)))"
proof -
  let ?E = "evictions cfg env srv t s" and ?f = "eviction_candidate srv s"
  have k: "keys_ok s" using assms(1) by (simp add: store_ok_def)
  note U = EvictMemories_undisturbed [OF assms(1-4), where cfg = cfg and srv = srv, unfolded ran, simplified]
  have g: "gone = {r \<in> set (memories s). m_id r \<in> ec_id ` set ?E}" using U(1) by (auto simp: gone)
  note R = evictions_rows [OF k assms(3) g] and S = evictions_sums [OF k assms(3) g]
  have v: "ec_value (?f r) = srv_value srv (scan_candidate s r)" "ec_external_bytes (?f r) = m_external_bytes r" for r
    by (simp_all add: eviction_candidate_def)
  have other: "?f q \<in> set (eviction_pool srv s) \<and> ?f q \<notin> set ?E"
    if "q \<in> set (memories s) - gone" "\<not> srv_retained srv (scan_candidate s q)" for q
  proof -
    have "ec_id (?f q) = m_id q" by (simp add: eviction_candidate_def)
    with that show ?thesis unfolding g eviction_pool_def by (auto intro: rev_image_eqI)
  qed
  have 1: "\<forall>r \<in> gone. \<forall>q \<in> set (memories s) - gone. \<not> srv_retained srv (scan_candidate s q)
        \<longrightarrow> srv_value srv (scan_candidate s r) \<le> srv_value srv (scan_candidate s q)"
    using evictions_least [OF k assms(3)] other R(1) unfolding v(1) [symmetric] by blast
  have 2: "satisfied t (er_bytes res) (er_external res) \<or> (\<forall>q \<in> set (memories s) - gone. srv_retained srv (scan_candidate s q))"
    using evictions_enough [OF k assms(3), of t cfg srv] other unfolding U(3,4) by blast
  have 3: "er_bytes res = (\<Sum>r \<in> gone. cost r)" "er_external res = (\<Sum>r \<in> gone. m_external_bytes r)"
    by (simp_all add: U(3,4) freed_def released_def S(1) cost v(2))
  have 4: "gone \<noteq> {} \<longrightarrow> (\<exists>r \<in> gone. \<not> satisfied t (er_bytes res - cost r) (er_external res - m_external_bytes r))"
    using evictions_needed [of cfg env srv t s] R(1) unfolding U(3,4) cost v(2) [symmetric] by force
  from 1 2 3 4 show ?thesis using U(2) S(2) by simp
qed

theorem eviction_takes_least_valuable_witness:
  "let X = EvictMemories example_cfg (quiet_env 100) example_server \<lparr>target_bytes = 1, target_external = 0\<rparr> linked_store;
       gone = {r \<in> set (memories linked_store). m_id r \<notin> m_id ` set (memories (snd X))}
   in er_memories (fst (fst X)) = card gone
      \<and> (\<forall>r \<in> gone. \<forall>q \<in> set (memories linked_store) - gone. \<not> srv_retained example_server (scan_candidate linked_store q)
          \<longrightarrow> srv_value example_server (scan_candidate linked_store r) \<le> srv_value example_server (scan_candidate linked_store q))"
proof -
  let ?t = "\<lparr>target_bytes = 1, target_external = 0\<rparr>"
  let ?X = "EvictMemories example_cfg (quiet_env 100) example_server ?t linked_store"
  have "?X = ((fst (fst ?X), snd (fst ?X)), snd ?X)" by simp
  from eviction_takes_least_valuable [OF linked_store_store_ok quiet_undisturbed _ _ this refl refl]
  show ?thesis unfolding Let_def by (simp add: stable_sort_ok target_empty_def)
qed

text \<open>Where nobody else writes, a pass removes exactly as many memories as it reports, failures included.\<close>

lemma delete_effect_count:
  assumes "store_ok s" "delete_effect cfg items reason s deleted s1"
  shows "length (memories s1) + length deleted = length (memories s)"
proof -
  note D = delete_effectD [OF assms(2)]
  have inj: "inj_on m_id (set (memories s))" and d: "distinct (memories s)"
    using assms(1) by (simp_all add: store_ok_def keys_ok_def distinct_map)
  have "length (memories s1) = length (filter (\<lambda>r. \<not> guard items r) (memories s))"
    using arg_cong [OF D(3), of length] by simp
  moreover have "length deleted = card (m_id ` {r \<in> set (memories s). guard items r})"
    using D(1,2) distinct_card by (fastforce simp: deletable_def)
  moreover have "\<dots> = length (filter (guard items) (memories s))"
    using d inj_on_subset [OF inj, of "{r \<in> set (memories s). guard items r}"]
    by (subst card_image) (auto simp: distinct_length_filter Int_def conj_commute)
  ultimately show ?thesis using sum_length_filter_compl [of "guard items" "memories s"] by simp
qed

lemma chokepoint_count:
  assumes "store_ok s" "other_writers env = id" "distinct (map ms_id items)"
  shows "fst (chokepoint cfg env items reason s) = Inl e \<Longrightarrow> length (memories (snd (chokepoint cfg env items reason s))) = length (memories s)"
    and "fst (chokepoint cfg env items reason s) = Inr del \<Longrightarrow>
      length (memories (snd (chokepoint cfg env items reason s))) + length del = length (memories s)"
  using chokepoint_cases [of env s items cfg reason _ _, OF _ assms(3) surjective_pairing] assms(1,2) delete_effect_count
  by (auto split: sum.splits)

lemma snapshots_distinct: "keys_ok s \<Longrightarrow> snapshots f \<Longrightarrow> distinct (map ms_id (map f (filter P (memories s))))"
proof -
  assume "keys_ok s" "snapshots f"
  moreover from this have "ms_id \<circ> f = m_id" by (auto simp: snapshots_def)
  ultimately show ?thesis by (simp add: keys_ok_def distinct_map_filter_key)
qed

lemma passes_count:
  assumes "store_ok s" "other_writers env = id" "sorter_ok (sort_slice env)"
  shows "length (memories (snd (ConsolidateMemories cfg env srv s))) + fst (fst (ConsolidateMemories cfg env srv s)) = length (memories s)"
    "length (memories (snd (ConsolidateEventMemories cfg env srv s))) + fst (fst (ConsolidateEventMemories cfg env srv s)) = length (memories s)"
    "memories (snd (ConsolidateEvents cfg env srv s)) = memories s"
    "length (memories (snd (ExpireMemories cfg env cutoff s))) + fst (fst (ExpireMemories cfg env cutoff s)) = length (memories s)"
    "length (memories (snd (EvictMemories cfg env srv t s))) + er_memories (fst (fst (EvictMemories cfg env srv t s))) = length (memories s)"
proof -
  have k: "keys_ok s" using assms(1) by (simp add: store_ok_def)
  note N = chokepoint_count [OF assms(1,2) snapshots_distinct [OF k scan_snapshots(1)]]
    chokepoint_count [OF assms(1,2) snapshots_distinct [OF k scan_snapshots(2)]]
    chokepoint_count [OF assms(1,2) snapshots_distinct [OF k scan_snapshots(3)]]
    chokepoint_count [OF assms(1,2) evictions_snapshots(1) [OF k assms(3)]]
  note ev = events_only_ids [OF cleanup_fold_events_only]
  show "length (memories (snd (ConsolidateMemories cfg env srv s))) + fst (fst (ConsolidateMemories cfg env srv s)) = length (memories s)"
    by (simp add: ConsolidateMemories_def Let_def split_beta N split: sum.splits)
  show "memories (snd (ConsolidateEvents cfg env srv s)) = memories s"
    using ConsolidateEvents_pass [of env s cfg srv] assms by (cases "scan_fails env") (auto simp: events_only_def ConsolidateEvents_def)
  show "length (memories (snd (ConsolidateEventMemories cfg env srv s))) + fst (fst (ConsolidateEventMemories cfg env srv s)) = length (memories s)"
    by (simp add: ConsolidateEventMemories_def Let_def split_beta ev N split: sum.splits)
  show "length (memories (snd (ExpireMemories cfg env cutoff s))) + fst (fst (ExpireMemories cfg env cutoff s)) = length (memories s)"
    by (simp add: ExpireMemories_def Let_def split_beta ev N split: sum.splits)
  show "length (memories (snd (EvictMemories cfg env srv t s))) + er_memories (fst (fst (EvictMemories cfg env srv t s))) = length (memories s)"
    by (simp add: EvictMemories_def Let_def split_beta ev N [unfolded evictions_def eviction_pool_def] split: sum.splits)
qed

text \<open>The tables after an undisturbed eviction.\<close>

lemma EvictMemories_tables:
  assumes "store_ok s" "undisturbed env" "sorter_ok (sort_slice env)" "\<not> target_empty t"
  shows "map sans_links (memories (snd (EvictMemories cfg env srv t s)))
      = map sans_links (filter (\<lambda>r. m_id r \<notin> ec_id ` set (evictions cfg env srv t s)) (memories s))"
    and "length (memory_links (snd (EvictMemories cfg env srv t s))) \<le> length (memory_links s)"
    and "length (event_links (snd (EvictMemories cfg env srv t s))) \<le> length (event_links s)"
    and "subseq (map e_payload_bytes (events (snd (EvictMemories cfg env srv t s)))) (map e_payload_bytes (events s))"
proof -
  let ?E = "evictions cfg env srv t s" and ?s' = "snd (EvictMemories cfg env srv t s)"
  obtain deleted s1 where X: "delete_effect cfg (map eviction_snapshot ?E)
       (forgetReasonFor cfg ForgetRuleEviction CauseEviction (srv_threshold srv)) s deleted s1"
    "events_only s1 ?s'" "set deleted = ec_id ` set ?E"
    by (rule EvictMemories_effect [OF assms])
  note D = delete_effectD [OF X(1)]
  have "inj_on m_id (set (memories s))" using assms(1) by (simp add: store_ok_def keys_ok_def distinct_map)
  then have "r \<in> set (memories s) \<Longrightarrow> guard (map eviction_snapshot ?E) r \<longleftrightarrow> m_id r \<in> ec_id ` set ?E" for r
    using D(2) unfolding X(3) by (auto simp: deletable_def dest: inj_onD)
  then have "filter (\<lambda>r. \<not> guard (map eviction_snapshot ?E) r) (memories s) = filter (\<lambda>r. m_id r \<notin> ec_id ` set ?E) (memories s)"
    by (intro filter_cong) auto
  then show "map sans_links (memories ?s') = map sans_links (filter (\<lambda>r. m_id r \<notin> ec_id ` set ?E) (memories s))"
    using D(3) X(2) by (simp add: events_only_def)
  show "length (memory_links ?s') \<le> length (memory_links s)" "length (event_links ?s') \<le> length (event_links s)"
    "subseq (map e_payload_bytes (events ?s')) (map e_payload_bytes (events s))"
    using D(5,9,10) X(2) by (simp_all add: events_only_def)
qed

end
