(* ===== verification/Delete_By_Filter.thy ===== *)
theory Delete_By_Filter
  imports Selection Passes
begin

text \<open>
  Deletion by predicate (\<^verbatim>\<open>hippocampus/predicate.go\<close>, \<^verbatim>\<open>db/predicate.go\<close>) and the event cascades
  (\<^verbatim>\<open>db/event.go\<close>, \<^verbatim>\<open>db/memory.go\<close>). Both loops select the first matching ids, delete them, and select
  again; other connections may commit before and between the two steps of a round, so a loop need
  not end, and is a partial function whose \<open>None\<close> is a loop that never returns. The calls that keep a
  separate search index in step are left out.
\<close>

section \<open>The environment of a sweep\<close>

record sweep_env =
  sw_now :: nanos
  sw_pin_fails :: bool
  sw_pin_world :: "db_state \<Rightarrow> db_state"
  sw_before :: "nat \<Rightarrow> db_state \<Rightarrow> db_state"
  sw_select_fails :: "nat \<Rightarrow> bool"
  sw_events_fails :: "nat \<Rightarrow> bool"
  sw_between :: "nat \<Rightarrow> db_state \<Rightarrow> db_state"
  sw_fault :: "nat \<Rightarrow> nat \<Rightarrow> write_error option"
  sw_ctx_done :: "nat \<Rightarrow> nat \<Rightarrow> bool"
  sw_retry_world :: "nat \<Rightarrow> nat \<Rightarrow> db_state \<Rightarrow> db_state"
  sw_clear_fails :: "nat \<Rightarrow> ident \<Rightarrow> nat \<Rightarrow> bool"
  sw_pass :: pass_env

definition deleteByFilterBatch :: int where "deleteByFilterBatch = 500"

text \<open>How many records the next round may take; none, and the loop stops.\<close>

definition next_batch :: "int \<Rightarrow> int \<Rightarrow> int option" where
  "next_batch maxDeletions deleted =
     (if maxDeletions > 0
      then let remaining = maxDeletions - deleted
           in if remaining \<le> 0 then None else if remaining < deleteByFilterBatch then Some remaining else Some deleteByFilterBatch
      else Some deleteByFilterBatch)"

section \<open>Memories\<close>

definition EventIdsForMemories :: "ident list \<Rightarrow> db_state \<Rightarrow> ident list" where
  "EventIdsForMemories ids s =
     fold (\<lambda>chunk out. fold (\<lambda>i out. if i \<in> set out then out else out @ [i])
         (remdups (map m_event_id (filter (\<lambda>r. m_id r \<in> set chunk \<and> m_event_id r \<noteq> []) (memories s)))) out)
       (chunks deleteChunkSize ids) []"

definition delete_emptied :: "db_config \<Rightarrow> pass_env \<Rightarrow> ident \<Rightarrow> nat \<times> db_state \<Rightarrow> nat \<times> db_state" where
  "delete_emptied cfg env i st =
     (case DeleteEventIfEmpty cfg env i CauseClient (snd st) of
        (Inr True, s') \<Rightarrow> (fst st + 1, s')
      | (_, s') \<Rightarrow> (fst st, s'))"

definition deleteEmptiedEvents :: "db_config \<Rightarrow> pass_env \<Rightarrow> ident list \<Rightarrow> db_state \<Rightarrow> nat \<times> db_state" where
  "deleteEmptiedEvents cfg env eventIds s = fold (delete_emptied cfg env) eventIds (0, s)"

definition pinMemoryExtremum :: "sweep_env \<Rightarrow> MemoryFilter \<Rightarrow> db_state \<Rightarrow> (rpc_error + MemoryFilter \<times> bool) \<times> db_state" where
  "pinMemoryExtremum env f s =
     (if mf_extremum f = SignificanceExtremumNone then (Inr (f, True), s)
      else if sw_pin_fails env then (Inl Internal, s)
      else let ids = MemoryIdsMatching (f\<lparr>mf_limit := 1\<rparr>) s
           in if ids = [] then (Inr (f, False), s)
              else let s1 = sw_pin_world env s
                   in (case GetMemoriesByIds ids s1 of
                         [] \<Rightarrow> (Inl Aborted, s1)
                       | m # _ \<Rightarrow> (Inr (f\<lparr>mf_extremum := SignificanceExtremumNone, mf_significance_equals := Some (memory_significance s1 m)\<rparr>, True), s1)))"

record sweep_answer =
  sa_error :: "rpc_error option"
  sa_deleted :: int
  sa_events :: int
  sa_complete :: bool

partial_function (option) memory_rounds :: "db_config \<Rightarrow> sweep_env \<Rightarrow> MemoryFilter \<Rightarrow> int \<Rightarrow> bool \<Rightarrow> nat \<Rightarrow> int \<Rightarrow> int \<Rightarrow> db_state
    \<Rightarrow> (sweep_answer \<times> db_state) option" where
  "memory_rounds cfg env f maxDeletions emptyEvents n deleted evs s =
     (case next_batch maxDeletions deleted of
        None \<Rightarrow> Some (\<lparr>sa_error = None, sa_deleted = deleted, sa_events = evs, sa_complete = False\<rparr>, s)
      | Some batch \<Rightarrow>
          let s1 = sw_before env n s; ids = MemoryIdsMatching (f\<lparr>mf_limit := batch\<rparr>) s1
          in if sw_select_fails env n
             then Some (\<lparr>sa_error = Some Internal, sa_deleted = deleted, sa_events = evs, sa_complete = False\<rparr>, s1)
             else if ids = []
             then Some (\<lparr>sa_error = None, sa_deleted = deleted, sa_events = evs, sa_complete = True\<rparr>, s1)
             else if emptyEvents \<and> sw_events_fails env n
             then Some (\<lparr>sa_error = Some Internal, sa_deleted = deleted, sa_events = evs, sa_complete = False\<rparr>, s1)
             else let eventIds = (if emptyEvents then EventIdsForMemories ids s1 else []);
                      r = deleteMemoriesByIds cfg (sw_fault env n) (sw_ctx_done env n) (sw_retry_world env n) (sw_now env) ids (sw_between env n s1)
                  in (case fst r of
                        Inl e \<Rightarrow> Some (\<lparr>sa_error = Some (mapError e), sa_deleted = deleted, sa_events = evs, sa_complete = False\<rparr>, snd r)
                      | Inr cnt \<Rightarrow>
                          let g = deleteEmptiedEvents cfg (sw_pass env) eventIds (snd r)
                          in if cnt = 0
                             then Some (\<lparr>sa_error = None, sa_deleted = deleted, sa_events = evs + int (fst g), sa_complete = False\<rparr>, snd g)
                             else memory_rounds cfg env f maxDeletions emptyEvents (Suc n) (deleted + int cnt) (evs + int (fst g)) (snd g)))"

declare memory_rounds.simps [code]

text \<open>A filter is empty when it is the zero value of its type.\<close>

definition isZeroFilter :: "MemoryFilter \<Rightarrow> bool" where
  "isZeroFilter f \<longleftrightarrow> f = no_memory_filter"

definition scoped_to :: "request_ctx \<Rightarrow> MemoryFilter \<Rightarrow> MemoryFilter" where
  "scoped_to ctx f = f\<lparr>mf_groups := (case GroupsFromContext ctx of None \<Rightarrow> [] | Some groups \<Rightarrow> groups)\<rparr>"

definition refused :: "rpc_error \<Rightarrow> sweep_answer" where
  "refused e = \<lparr>sa_error = Some e, sa_deleted = 0, sa_events = 0, sa_complete = False\<rparr>"

definition DeleteMemoriesByFilter :: "db_config \<Rightarrow> sweep_env \<Rightarrow> request_ctx \<Rightarrow> memorySelector \<Rightarrow> int \<Rightarrow> bool \<Rightarrow> db_state \<times> countCache
    \<Rightarrow> (sweep_answer \<times> db_state \<times> countCache) option" where
  "DeleteMemoriesByFilter cfg env ctx q maxDeletions emptyEvents st =
     (case memorySelectionFilter q of
        Inl e \<Rightarrow> Some (refused e, st)
      | Inr f0 \<Rightarrow>
          if isZeroFilter f0 then Some (refused InvalidArgument, st)
          else let p = pinMemoryExtremum env (scoped_to ctx f0) (fst st)
               in (case fst p of
                     Inl e \<Rightarrow> Some (refused e, snd p, snd st)
                   | Inr (f, found) \<Rightarrow>
                       if \<not> found then Some (\<lparr>sa_error = None, sa_deleted = 0, sa_events = 0, sa_complete = True\<rparr>, snd p, snd st)
                       else (case memory_rounds cfg env f maxDeletions emptyEvents 0 0 0 (snd p) of
                               None \<Rightarrow> None
                             | Some (a, s') \<Rightarrow>
                                 Some (a, s', if sa_error a = None \<and> (sa_deleted a > 0 \<or> sa_events a > 0) then cache_reset (snd st) else snd st))))"

section \<open>Events\<close>

definition memoryIdsForEvent :: "ident \<Rightarrow> string list \<Rightarrow> db_state \<Rightarrow> ident list" where
  "memoryIdsForEvent i groups s = map m_id (filter (\<lambda>r. m_event_id r = i \<and> groupScopeConditions groups (m_group r)) (memories s))"

definition queue_delivery :: "db_config \<Rightarrow> nanos \<Rightarrow> CallbackDelivery option \<Rightarrow> db_state \<Rightarrow> db_state" where
  "queue_delivery cfg now d s = (case d of None \<Rightarrow> s | Some v \<Rightarrow> queueCallbacks cfg now [v] s)"

definition DeleteEventMemories :: "db_config \<Rightarrow> nanos \<Rightarrow> ident \<Rightarrow> string list \<Rightarrow> db_state \<Rightarrow> nat \<times> db_state" where
  "DeleteEventMemories cfg now i groups s =
     (let ids = memoryIdsForEvent i groups s;
          delivery = captureMemoryCallback cfg ids CauseCascade s;
          rows = filter (\<lambda>r. \<not> (m_event_id r = i \<and> groupScopeConditions groups (m_group r))) (memories s);
          s1 = queue_delivery cfg now delivery (s\<lparr>memories := rows\<rparr>);
          s2 = pruneMemoryLinks ids s1
      in (length (memories s) - length rows, queueSearchDeletes cfg now ids s2))"

definition detach_memory :: "ident \<Rightarrow> memory_row \<Rightarrow> memory_row" where
  "detach_memory i r = (if m_event_id r = i then r\<lparr>m_event_id := []\<rparr> else r)"

definition UnsetMemoriesEventId :: "ident \<Rightarrow> db_state \<Rightarrow> nat \<times> db_state" where
  "UnsetMemoriesEventId i s =
     (length (filter (\<lambda>r. m_event_id r = i) (memories s)), s\<lparr>memories := map (detach_memory i) (memories s)\<rparr>)"

definition clearAllEventMemories :: "db_config \<Rightarrow> sweep_env \<Rightarrow> nat \<Rightarrow> ident \<Rightarrow> bool \<Rightarrow> db_state \<Rightarrow> (rpc_error + nat) \<times> db_state" where
  "clearAllEventMemories cfg env n i deleteMems s =
     (if sw_clear_fails env n i 1 then (Inl Internal, s)
      else if deleteMems then (let (cnt, s') = DeleteEventMemories cfg (sw_now env) i [] s in (Inr cnt, s'))
      else (let (cnt, s') = UnsetMemoriesEventId i s in (Inr cnt, s')))"

definition clearEventMemories :: "db_config \<Rightarrow> sweep_env \<Rightarrow> request_ctx \<Rightarrow> nat \<Rightarrow> ident \<Rightarrow> bool \<Rightarrow> db_state \<Rightarrow> (rpc_error + nat) \<times> db_state" where
  "clearEventMemories cfg env ctx n i deleteMems s =
     (case GroupsFromContext ctx of
        None \<Rightarrow> clearAllEventMemories cfg env n i deleteMems s
      | Some groups \<Rightarrow>
          let inScope = MemoryIdsMatching (no_memory_filter\<lparr>mf_event_id := i, mf_groups := groups\<rparr>) s
          in if sw_clear_fails env n i 0 \<or> deleteMems \<and> sw_clear_fails env n i 1 then (Inl Internal, s)
             else let (cnt, s1) = (if deleteMems then DeleteEventMemories cfg (sw_now env) i groups s else (0, s))
                  in if sw_clear_fails env n i 2 then (Inl Internal, s1)
                     else (Inr (if deleteMems then cnt else length inScope), snd (UnsetMemoriesEventId i s1)))"

definition deleteEventsOnce :: "db_config \<Rightarrow> nanos \<Rightarrow> ident list \<Rightarrow> db_state \<Rightarrow> nat \<times> db_state" where
  "deleteEventsOnce cfg now ids0 s =
     (if ids0 = [] then (0, s)
      else let ids = lockOrderedIDs ids0;
               captured = captureEventCallback cfg ids CauseClient s;
               es = fold (\<lambda>chunk es. filter (\<lambda>e. \<not> (e_id e \<in> set chunk \<and> \<not> list_ex (\<lambda>r. m_event_id r = e_id e) (memories s))) es)
                      (chunks deleteChunkSize ids) (events s);
               cnt = length (events s) - length es;
               s1 = pruneEventLinks ids (s\<lparr>events := es\<rparr>)
           in (cnt, if cnt > 0 then queueEventCallbacks cfg now captured CauseClient 0 s1 else s1))"

definition DeleteEvents :: "db_config \<Rightarrow> (nat \<Rightarrow> write_error option) \<Rightarrow> (nat \<Rightarrow> bool)
    \<Rightarrow> (nat \<Rightarrow> db_state \<Rightarrow> db_state) \<Rightarrow> nanos \<Rightarrow> ident list \<Rightarrow> db_state \<Rightarrow> (write_error + nat) \<times> db_state" where
  "DeleteEvents cfg fault ctx_done world now ids s =
     withTxRetry (single_writer cfg) ctx_done world (run_tx fault (deleteEventsOnce cfg now ids)) s"

text \<open>The loop over one batch's events; a failure ends it with what was moved so far.\<close>

fun clear_events :: "db_config \<Rightarrow> sweep_env \<Rightarrow> request_ctx \<Rightarrow> nat \<Rightarrow> bool \<Rightarrow> ident list \<Rightarrow> nat \<Rightarrow> db_state \<Rightarrow> rpc_error option \<times> nat \<times> db_state" where
  "clear_events cfg env ctx n deleteMems [] moved s = (None, moved, s)"
| "clear_events cfg env ctx n deleteMems (i # is) moved s =
     (case clearEventMemories cfg env ctx n i deleteMems s of
        (Inl e, s') \<Rightarrow> (Some e, moved, s')
      | (Inr k, s') \<Rightarrow> clear_events cfg env ctx n deleteMems is (moved + k) s')"

definition pinEventExtremum :: "sweep_env \<Rightarrow> EventFilter \<Rightarrow> db_state \<Rightarrow> (rpc_error + EventFilter \<times> bool) \<times> db_state" where
  "pinEventExtremum env f s =
     (if ef_extremum f = SignificanceExtremumNone then (Inr (f, True), s)
      else if sw_pin_fails env then (Inl Internal, s)
      else (case EventIdsMatching (f\<lparr>ef_limit := 1\<rparr>) s of
              [] \<Rightarrow> (Inr (f, False), s)
            | i # _ \<Rightarrow>
                let s1 = sw_pin_world env s
                in (case find_row e_id i (events s1) of
                      None \<Rightarrow> (Inl Aborted, s1)
                    | Some e \<Rightarrow> (Inr (f\<lparr>ef_extremum := SignificanceExtremumNone, ef_significance_equals := Some (event_significance s1 e)\<rparr>, True), s1))))"

record event_answer =
  ea_error :: "rpc_error option"
  ea_deleted :: int
  ea_moved :: int
  ea_complete :: bool

text \<open>\<open>ea_moved\<close> is the memories deleted or, when they are kept, the memories left without an event.\<close>

partial_function (option) event_rounds :: "db_config \<Rightarrow> sweep_env \<Rightarrow> request_ctx \<Rightarrow> EventFilter \<Rightarrow> int \<Rightarrow> bool \<Rightarrow> nat \<Rightarrow> int \<Rightarrow> int \<Rightarrow> db_state
    \<Rightarrow> (event_answer \<times> db_state) option" where
  "event_rounds cfg env ctx f maxDeletions deleteMems n deleted moved s =
     (case next_batch maxDeletions deleted of
        None \<Rightarrow> Some (\<lparr>ea_error = None, ea_deleted = deleted, ea_moved = moved, ea_complete = False\<rparr>, s)
      | Some batch \<Rightarrow>
          let s1 = sw_before env n s; ids = EventIdsMatching (f\<lparr>ef_limit := batch\<rparr>) s1
          in if sw_select_fails env n
             then Some (\<lparr>ea_error = Some Internal, ea_deleted = deleted, ea_moved = moved, ea_complete = False\<rparr>, s1)
             else if ids = []
             then Some (\<lparr>ea_error = None, ea_deleted = deleted, ea_moved = moved, ea_complete = True\<rparr>, s1)
             else let c = clear_events cfg env ctx n deleteMems ids 0 s1; moved' = moved + int (fst (snd c)); s2 = snd (snd c)
                  in (case fst c of
                        Some e \<Rightarrow> Some (\<lparr>ea_error = Some e, ea_deleted = deleted, ea_moved = moved', ea_complete = False\<rparr>, s2)
                      | None \<Rightarrow>
                          let r = DeleteEvents cfg (sw_fault env n) (sw_ctx_done env n) (sw_retry_world env n) (sw_now env) ids (sw_between env n s2)
                          in (case fst r of
                                Inl e \<Rightarrow> Some (\<lparr>ea_error = Some (mapError e), ea_deleted = deleted, ea_moved = moved', ea_complete = False\<rparr>, snd r)
                              | Inr cnt \<Rightarrow>
                                  if cnt = 0
                                  then Some (\<lparr>ea_error = None, ea_deleted = deleted, ea_moved = moved', ea_complete = False\<rparr>, snd r)
                                  else event_rounds cfg env ctx f maxDeletions deleteMems (Suc n) (deleted + int cnt) moved' (snd r))))"

declare event_rounds.simps [code]

definition DeleteEventsByFilter :: "db_config \<Rightarrow> sweep_env \<Rightarrow> request_ctx \<Rightarrow> eventSelector \<Rightarrow> int \<Rightarrow> bool \<Rightarrow> db_state \<times> countCache
    \<Rightarrow> (event_answer \<times> db_state \<times> countCache) option" where
  "DeleteEventsByFilter cfg env ctx q maxDeletions deleteMems st =
     (let refuse = (\<lambda>e. \<lparr>ea_error = Some e, ea_deleted = 0, ea_moved = 0, ea_complete = False\<rparr>)
      in case eventSelectionFilter q of
           Inl e \<Rightarrow> Some (refuse e, st)
         | Inr f0 \<Rightarrow>
             if f0 = no_event_filter then Some (refuse InvalidArgument, st)
             else let p = pinEventExtremum env (f0\<lparr>ef_groups := (case GroupsFromContext ctx of None \<Rightarrow> [] | Some groups \<Rightarrow> groups)\<rparr>) (fst st)
                  in (case fst p of
                        Inl e \<Rightarrow> Some (refuse e, snd p, snd st)
                      | Inr (f, found) \<Rightarrow>
                          if \<not> found then Some (\<lparr>ea_error = None, ea_deleted = 0, ea_moved = 0, ea_complete = True\<rparr>, snd p, snd st)
                          else (case event_rounds cfg env ctx f maxDeletions deleteMems 0 0 0 (snd p) of
                                  None \<Rightarrow> None
                                | Some (a, s') \<Rightarrow>
                                    Some (a, s', if ea_error a = None \<and> (ea_deleted a > 0 \<or> ea_moved a > 0) then cache_reset (snd st) else snd st))))"

section \<open>One event with its memories\<close>

record EventCascade =
  ecs_delete_memories :: bool
  ecs_only_if_empty :: bool
  ecs_groups :: "string list"

record EventDeletion =
  ed_deleted :: bool
  ed_held_memories :: bool
  ed_memory_ids :: "ident list"
  ed_detached :: nat

definition no_event_deletion :: EventDeletion where
  "no_event_deletion = \<lparr>ed_deleted = False, ed_held_memories = False, ed_memory_ids = [], ed_detached = 0\<rparr>"

definition deleteEventMemoriesById :: "db_config \<Rightarrow> nanos \<Rightarrow> ident list \<Rightarrow> db_state \<Rightarrow> db_state" where
  "deleteEventMemoriesById cfg now ids0 s =
     (let ids = lockOrderedIDs ids0;
          delivery = captureMemoryCallback cfg ids CauseCascade s;
          rows = fold (\<lambda>chunk rows. filter (\<lambda>r. m_id r \<notin> set chunk) rows) (chunks deleteChunkSize ids) (memories s)
      in queueSearchDeletes cfg now ids (pruneMemoryLinks ids (queue_delivery cfg now delivery (s\<lparr>memories := rows\<rparr>))))"

definition deleteEventCascadeOnce :: "db_config \<Rightarrow> nanos \<Rightarrow> ident \<Rightarrow> EventCascade \<Rightarrow> db_state \<Rightarrow> EventDeletion \<times> db_state" where
  "deleteEventCascadeOnce cfg now i opts s =
     (let inScope = memoryIdsForEvent i (ecs_groups opts) s
      in if ecs_only_if_empty opts \<and> inScope \<noteq> [] then (no_event_deletion\<lparr>ed_held_memories := True\<rparr>, s)
         else let captured = captureEventCallback cfg [i] CauseClient s;
                  s1 = s\<lparr>events := filter (\<lambda>e. e_id e \<noteq> i) (events s)\<rparr>
              in if length (events s1) = length (events s) then (no_event_deletion, s)
                 else let s2 = (if ecs_delete_memories opts \<and> inScope \<noteq> [] then deleteEventMemoriesById cfg now inScope s1 else s1);
                          (detached, s3) = UnsetMemoriesEventId i s2;
                          s4 = queueEventCallbacks cfg now captured CauseClient 0 s3
                      in (\<lparr>ed_deleted = True, ed_held_memories = False, ed_memory_ids = inScope, ed_detached = detached\<rparr>, pruneEventLinks [i] s4))"

definition DeleteEventCascade :: "db_config \<Rightarrow> (nat \<Rightarrow> write_error option) \<Rightarrow> (nat \<Rightarrow> bool)
    \<Rightarrow> (nat \<Rightarrow> db_state \<Rightarrow> db_state) \<Rightarrow> nanos \<Rightarrow> ident \<Rightarrow> EventCascade \<Rightarrow> db_state \<Rightarrow> (write_error + EventDeletion) \<times> db_state" where
  "DeleteEventCascade cfg fault ctx_done world now i opts s =
     withTxRetry (single_writer cfg) ctx_done world (run_tx fault (deleteEventCascadeOnce cfg now i opts)) s"

section \<open>A filter with its extremum resolved\<close>

text \<open>What such a filter asks of a row depends on the registry alone, not on the other rows.\<close>

definition selects :: "MemoryFilter \<Rightarrow> sig_level list \<Rightarrow> memory_row \<Rightarrow> bool" where
  "selects f lv r \<longleftrightarrow> memory_where f r
     \<and> significance_range (mf_significance_equals f) (mf_significance_min f) (mf_significance_max f) (joined_rank lv (m_level r))"

lemma selects_conditions: "mf_extremum f = SignificanceExtremumNone \<Longrightarrow> memoryFilterConditions f s r = selects f (levels s) r"
  by (simp add: memoryFilterConditions_def selects_def memory_significance_def)

lemma memory_where_update [simp]:
  "memory_where (f\<lparr>mf_limit := a\<rparr>) = memory_where f" "memory_where (f\<lparr>mf_extremum := x\<rparr>) = memory_where f"
  "memory_where (f\<lparr>mf_significance_equals := v\<rparr>) = memory_where f"
  "memory_where (f\<lparr>mf_significance_min := a\<rparr>) = memory_where f" "memory_where (f\<lparr>mf_significance_max := a\<rparr>) = memory_where f"
  by (simp_all add: memory_where_def fun_eq_iff)

lemma selects_frame [simp]: "selects (f\<lparr>mf_limit := a\<rparr>) lv r = selects f lv r" "selects f lv (sans_links r) = selects f lv r"
  by (simp_all add: selects_def memory_where_def sans_links_def split: TriState.splits)

lemma selected_ids:
  assumes "mf_extremum f = SignificanceExtremumNone" "0 < b"
  shows "MemoryIdsMatching (f\<lparr>mf_limit := b\<rparr>) s = take (nat b) (sort (map m_id (filter (selects f (levels s)) (memories s))))"
  using assms by (simp add: MemoryIdsMatching_def limited_def selects_conditions cong: filter_cong)

lemma next_batch_pos: "next_batch m d = Some b \<Longrightarrow> 0 < b"
  by (auto simp: next_batch_def Let_def deleteByFilterBatch_def split: if_splits)

lemma undisturbed_tx: "fault 0 = None \<Longrightarrow> withTxRetry sw ctx_done world (run_tx fault body) s = (Inr (fst (body s)), snd (body s))"
  by (auto simp: withTxRetry_def writeRetryMaxAttempts_def eval_nat_numeral run_tx_def split: prod.splits)

section \<open>Deleting by memory filter\<close>

definition quiet_sweep :: "sweep_env \<Rightarrow> bool" where
  "quiet_sweep env \<longleftrightarrow> sw_pin_world env = id \<and> \<not> sw_pin_fails env \<and> (\<forall>n. sw_before env n = id \<and> sw_between env n = id
     \<and> \<not> sw_select_fails env n \<and> \<not> sw_events_fails env n \<and> sw_fault env n 0 = None \<and> (\<forall>i k. \<not> sw_clear_fails env n i k))"

lemma pruneMemoryLinks_sans: "map sans_links (snd (pruneLinks memoryGraph ids t)) = map sans_links (snd t)"
  by (rule pruneLinks_sans)

lemma deleted_round:
  assumes "store_ok s" "ids \<noteq> []" "deleteMemoriesByIdsOnce cfg now ids s = (cnt, s')"
  shows "store_ok s'" "levels s' = levels s" "events s' = events s"
    "map sans_links (memories s') = map sans_links (filter (\<lambda>r. m_id r \<notin> set ids) (memories s))"
    "cnt = length (filter (\<lambda>r. m_id r \<in> set ids) (memories s))"
proof -
  note E = deleteMemoriesByIdsOnce_effect [OF assms(2,3)]
  show "levels s' = levels s" "events s' = events s" "cnt = length (filter (\<lambda>r. m_id r \<in> set ids) (memories s))" by (rule E)+
  show "store_ok s'" using delete_by_ids_exact [OF assms(1,2,3)] by simp
  show "map sans_links (memories s') = map sans_links (filter (\<lambda>r. m_id r \<notin> set ids) (memories s))"
    by (simp add: E(1) pruneLinks_sans)
qed

lemma DeleteEventIfEmpty_levels: "levels (snd (DeleteEventIfEmpty cfg env i c s)) = levels s"
proof -
  have "levels (collectForgotten c a b t) = levels t" for c a b t using collectForgotten_frame [of c a b t] by auto
  then show ?thesis by (simp add: DeleteEventIfEmpty_def Let_def queueEventCallbacks_def frame_simps pruneEventLinks_def store_link_defs)
qed

lemma deleteEmptiedEvents_frame:
  "events_only s (snd (deleteEmptiedEvents cfg env is s)) \<and> levels (snd (deleteEmptiedEvents cfg env is s)) = levels s"
proof -
  have step: "snd (delete_emptied cfg env i st) = snd (DeleteEventIfEmpty cfg env i CauseClient (snd st))" for i st
    by (auto simp: delete_emptied_def split: prod.splits sum.splits bool.splits)
  have "events_only (snd st) (snd (fold (delete_emptied cfg env) is st)) \<and> levels (snd (fold (delete_emptied cfg env) is st)) = levels (snd st)" for st
  proof (induction "is" arbitrary: st)
    case (Cons i "is")
    have "events_only (snd st) (snd (delete_emptied cfg env i st))" by (simp add: step DeleteEventIfEmpty_events_only)
    with Cons [of "delete_emptied cfg env i st"] show ?case by (auto simp: step DeleteEventIfEmpty_levels intro: events_only_trans)
  qed (simp add: events_only_refl)
  from this [of "(0, s)"] show ?thesis by (simp add: deleteEmptiedEvents_def)
qed

lemma selected_gone:
  assumes "distinct (map m_id rows)" "ids = take k (sort (map m_id (filter P rows)))" "\<And>r. P (sans_links r) = P r"
    and "map sans_links rows' = map sans_links (filter (\<lambda>r. m_id r \<notin> set ids) rows)"
  shows "map sans_links (filter (\<lambda>r. \<not> P r) rows') = map sans_links (filter (\<lambda>r. \<not> P r) rows)"
    "length (filter (\<lambda>r. m_id r \<in> set ids) rows) = length ids"
    "length (filter P rows) = length (filter P rows') + length ids"
proof -
  have sub: "set ids \<subseteq> m_id ` set (filter P rows)" using assms(2) set_take_subset by fastforce
  have di: "distinct ids" using assms(1,2) by (simp add: distinct_map_filter_key)
  have inP: "r \<in> set rows \<Longrightarrow> m_id r \<in> set ids \<Longrightarrow> P r" for r
    using sub assms(1) by (auto simp: distinct_map dest: inj_onD)
  have F: "map sans_links (filter Q rows') = map sans_links (filter Q (filter (\<lambda>r. m_id r \<notin> set ids) rows))" if "\<And>r. Q (sans_links r) = Q r" for Q
  proof -
    have "map sans_links (filter Q xs) = filter Q (map sans_links xs)" for xs by (simp add: filter_map comp_def that)
    then show ?thesis using assms(4) by metis
  qed
  have "filter (\<lambda>r. \<not> P r) (filter (\<lambda>r. m_id r \<notin> set ids) rows) = filter (\<lambda>r. \<not> P r) rows"
    using inP by (auto intro!: filter_cong)
  then show "map sans_links (filter (\<lambda>r. \<not> P r) rows') = map sans_links (filter (\<lambda>r. \<not> P r) rows)"
    using F [of "\<lambda>r. \<not> P r"] assms(3) by simp
  have "distinct (map m_id (filter (\<lambda>r. m_id r \<in> set ids) rows))" using assms(1) by (rule distinct_map_filter_key)
  moreover have "m_id ` set (filter (\<lambda>r. m_id r \<in> set ids) rows) = set ids" using sub by auto
  ultimately show len: "length (filter (\<lambda>r. m_id r \<in> set ids) rows) = length ids"
    using distinct_card [OF di] distinct_card [of "map m_id (filter (\<lambda>r. m_id r \<in> set ids) rows)"] by simp
  have "length (filter P rows') = length (filter P (filter (\<lambda>r. m_id r \<notin> set ids) rows))"
    using arg_cong [OF F [of P, OF assms(3)], of length] by simp
  also have "length (filter P rows) = length (filter (\<lambda>r. m_id r \<notin> set ids) (filter P rows)) + length (filter (\<lambda>r. m_id r \<in> set ids) (filter P rows))"
    using sum_length_filter_compl [of "\<lambda>r. m_id r \<in> set ids" "filter P rows"] by simp
  then have "length (filter P (filter (\<lambda>r. m_id r \<notin> set ids) rows)) + length (filter (\<lambda>r. m_id r \<in> set ids) rows) = length (filter P rows)"
    using inP by (simp add: conj_commute cong: filter_cong conj_cong) (metis (no_types, lifting) filter_cong)
  finally show "length (filter P rows) = length (filter P rows') + length ids" using len by simp
qed

lemma memory_rounds_exact:
  assumes "quiet_sweep env" "mf_extremum f = SignificanceExtremumNone" "maxDeletions \<le> 0" "store_ok s"
  shows "\<exists>evs' s'. memory_rounds cfg env f maxDeletions ee n deleted evs s
      = Some (\<lparr>sa_error = None, sa_deleted = deleted + int (length (filter (selects f (levels s)) (memories s))), sa_events = evs', sa_complete = True\<rparr>, s')
    \<and> store_ok s' \<and> map sans_links (memories s') = map sans_links (filter (\<lambda>r. \<not> selects f (levels s) r) (memories s))"
  using assms(4)
proof (induction "length (filter (selects f (levels s)) (memories s))" arbitrary: n deleted evs s rule: less_induct)
  case less
  let ?P = "selects f (levels s)" and ?b = deleteByFilterBatch
  let ?ids = "MemoryIdsMatching (f\<lparr>mf_limit := ?b\<rparr>) s"
  have b: "next_batch maxDeletions deleted = Some ?b" "0 < ?b" using assms(3) by (simp_all add: next_batch_def deleteByFilterBatch_def)
  note ids = selected_ids [OF assms(2) b(2), of s]
  have d: "distinct (map m_id (memories s))" using less.prems by (simp add: store_ok_def keys_ok_def)
  show ?case
  proof (cases "?ids = []")
    case True
    then have "set (sort (map m_id (filter ?P (memories s)))) = {}" using ids b(2) by simp
    then have "filter ?P (memories s) = []" by (simp only: set_sort set_map image_is_empty set_empty)
    then have "filter (\<lambda>r. \<not> ?P r) (memories s) = memories s" by (auto simp: filter_empty_conv)
    then show ?thesis using True assms(1) \<open>filter ?P (memories s) = []\<close> less.prems
      by (subst memory_rounds.simps) (simp add: b quiet_sweep_def Let_def)
  next
    case False
    obtain cnt s3 where D: "deleteMemoriesByIdsOnce cfg (sw_now env) ?ids s = (cnt, s3)" by fastforce
    note R = deleted_round [OF less.prems False D]
    note G = selected_gone [OF d ids _ R(4), simplified]
    define evIds where "evIds = (if ee then EventIdsForMemories ?ids s else [])"
    obtain g s4 where E: "deleteEmptiedEvents cfg (sw_pass env) evIds s3 = (g, s4)" by fastforce
    then have F: "events_only s3 s4" "levels s4 = levels s3" using deleteEmptiedEvents_frame [of s3 cfg "sw_pass env" evIds] by auto
    have s4: "memories s4 = memories s3" "store_ok s4" "levels s4 = levels s" using F R(1,2) by (simp_all add: events_only_def)
    have cnt: "cnt = length ?ids" "cnt \<noteq> 0" using G(2) R(5) False by simp_all
    have step: "memory_rounds cfg env f maxDeletions ee n deleted evs s
        = memory_rounds cfg env f maxDeletions ee (Suc n) (deleted + int cnt) (evs + int g) s4"
      using assms(1) False D E cnt(2)
      by (subst memory_rounds.simps) (simp add: b quiet_sweep_def Let_def deleteMemoriesByIds_def undisturbed_tx evIds_def)
    have "length (filter (selects f (levels s4)) (memories s4)) < length (filter ?P (memories s))"
      using G(3) cnt by (simp add: s4)
    from less.hyps [OF this s4(2), of "Suc n" "deleted + int cnt" "evs + int g"]
    show ?thesis unfolding step using G(1,3) cnt(1) by (auto simp: s4)
  qed
qed

lemma GetMemoriesByIds_one:
  assumes "keys_ok s" "r \<in> set (memories s)"
  shows "GetMemoriesByIds [m_id r] s = [r]"
proof -
  obtain xs ys where m: "memories s = xs @ r # ys" using split_list [OF assms(2)] by blast
  then have "m_id r \<notin> m_id ` set xs" "m_id r \<notin> m_id ` set ys" using assms(1) by (auto simp: keys_ok_def)
  then have "filter (\<lambda>q. m_id q = m_id r) xs = []" "filter (\<lambda>q. m_id q = m_id r) ys = []" by (auto simp: filter_empty_conv image_iff)
  then have "filter (\<lambda>q. m_id q = m_id r) (memories s) = [r]" by (simp add: m)
  then show ?thesis by (simp add: GetMemoriesByIds_def chunks_short deleteChunkSize_def)
qed

text \<open>Resolving the extremum once keeps the selection what the listing showed.\<close>

lemma pinned_selection:
  assumes "store_ok s" "quiet_sweep env" "memorySelectionFilter q = Inr f0"
    and "pinMemoryExtremum env (scoped_to ctx f0) s = (res, s1)"
  shows "s1 = s \<and> (\<exists>f found. res = Inr (f, found) \<and> (if found
      then mf_extremum f = SignificanceExtremumNone \<and> selects f (levels s) = memoryFilterConditions (scoped_to ctx f0) s
      else CountMemoriesFiltered (scoped_to ctx f0) s = 0))"
proof (cases "mf_extremum f0 = SignificanceExtremumNone")
  case True
  then have x: "mf_extremum (scoped_to ctx f0) = SignificanceExtremumNone" by (simp add: scoped_to_def)
  then have "selects (scoped_to ctx f0) (levels s) = memoryFilterConditions (scoped_to ctx f0) s" by (simp add: selects_conditions fun_eq_iff)
  moreover have "res = Inr (scoped_to ctx f0, True)" "s1 = s" using assms(4) x by (simp_all add: pinMemoryExtremum_def)
  ultimately show ?thesis using x by auto
next
  case False
  let ?f = "scoped_to ctx f0"
  have f0: "mf_significance_min f0 \<le> 0" "mf_significance_max f0 \<le> 0" "mf_significance_equals f0 = None"
    using assms(3) False by (auto simp: memorySelectionFilter_def no_memory_filter_def not_less split: if_splits sum.splits)
  have ids: "MemoryIdsMatching (?f\<lparr>mf_limit := 1\<rparr>) s = take 1 (sort (map m_id (filter (memoryFilterConditions ?f s) (memories s))))"
  proof -
    have "memoryFilterConditions (?f\<lparr>mf_limit := 1\<rparr>) s = memoryFilterConditions ?f s"
      by (simp add: memoryFilterConditions_def Let_def fun_eq_iff memory_where_def)
    then show ?thesis by (simp add: MemoryIdsMatching_def limited_def)
  qed
  show ?thesis
  proof (cases "MemoryIdsMatching (?f\<lparr>mf_limit := 1\<rparr>) s")
    case Nil
    then have "set (sort (map m_id (filter (memoryFilterConditions ?f s) (memories s)))) = {}" using ids by simp
    then have "filter (memoryFilterConditions ?f s) (memories s) = []" by (simp only: set_sort set_map image_is_empty set_empty)
    then show ?thesis using assms(2,4) False Nil
      by (auto simp: pinMemoryExtremum_def quiet_sweep_def scoped_to_def CountMemoriesFiltered_def)
  next
    case (Cons i rest)
    then have "i \<in> set (sort (map m_id (filter (memoryFilterConditions ?f s) (memories s))))" "rest = []"
      using ids by (metis in_set_takeD list.set_intros(1)) (use ids Cons in \<open>cases "sort (map m_id (filter (memoryFilterConditions ?f s) (memories s)))"; simp\<close>)
    then obtain r where r: "r \<in> set (memories s)" "memoryFilterConditions ?f s r" "i = m_id r" by auto
    have "GetMemoriesByIds [i] s = [r]" using GetMemoriesByIds_one [of s r] assms(1) r by (simp add: store_ok_def)
    moreover have "selects (?f\<lparr>mf_extremum := SignificanceExtremumNone, mf_significance_equals := Some (memory_significance s r)\<rparr>) (levels s)
        = memoryFilterConditions ?f s"
      using r(2) False f0
      by (auto simp: fun_eq_iff selects_def memoryFilterConditions_def Let_def scoped_to_def significance_range_def when_set_def memory_significance_def)
    moreover have "res = Inr (?f\<lparr>mf_extremum := SignificanceExtremumNone, mf_significance_equals := Some (memory_significance s r)\<rparr>, True)" "s1 = s"
      using assms(2,4) False Cons \<open>rest = []\<close> \<open>GetMemoriesByIds [i] s = [r]\<close>
      by (auto simp: pinMemoryExtremum_def quiet_sweep_def Let_def scoped_to_def)
    ultimately show ?thesis by auto
  qed
qed

lemma listing_same_predicate: "memoryFilterConditions (list_filter ctx lq f) s = memoryFilterConditions (scoped_to ctx f) s"
  by (simp add: memoryFilterConditions_def Let_def fun_eq_iff memory_where_def list_filter_def scoped_to_def)


definition lone_sweep :: "nanos \<Rightarrow> sweep_env" where
  "lone_sweep now = \<lparr>sw_now = now, sw_pin_fails = False, sw_pin_world = id, sw_before = (\<lambda>_. id), sw_select_fails = (\<lambda>_. False),
     sw_events_fails = (\<lambda>_. False), sw_between = (\<lambda>_. id), sw_fault = (\<lambda>_ _. None), sw_ctx_done = (\<lambda>_ _. False),
     sw_retry_world = (\<lambda>_ _. id), sw_clear_fails = (\<lambda>_ _ _. False), sw_pass = quiet_env now\<rparr>"

lemma lone_sweep_quiet: "quiet_sweep (lone_sweep now)"
  by (simp add: quiet_sweep_def lone_sweep_def)


section \<open>Bounded deletion\<close>

lemma deleteMemoriesByIds_bound:
  assumes "store_ok s" "\<And>n t. store_ok t \<Longrightarrow> store_ok (world n t)" "ids \<noteq> []"
    and "deleteMemoriesByIds cfg fault ctx_done world now ids s = (Inr cnt, s')"
  shows "store_ok s' \<and> cnt \<le> length ids"
proof -
  from rtx.withTxRetry_result [of store_ok, OF assms(1,2) assms(4) [unfolded deleteMemoriesByIds_def]]
  obtain t where t: "store_ok t" "deleteMemoriesByIdsOnce cfg now ids t = (cnt, s')" by (auto simp: run_once)
  note D = delete_by_ids_exact [OF t(1) assms(3) t(2)]
  have "card (m_id ` set (memories t) \<inter> set ids) \<le> card (set ids)" by (rule card_mono) auto
  then show ?thesis using D card_length [of ids] by simp
qed

text \<open>The other connections keep the store well-formed.\<close>

definition decent_world :: "sweep_env \<Rightarrow> bool" where
  "decent_world env \<longleftrightarrow> (\<forall>n s. store_ok s \<longrightarrow> store_ok (sw_before env n s) \<and> store_ok (sw_between env n s) \<and> (\<forall>k. store_ok (sw_retry_world env n k s)))"

text \<open>
  C24. A bounded deletion always returns, whatever other connections do to the store while it runs and
  whichever statements fail, and never deletes more memories than it was allowed.
\<close>

theorem bounded_delete_returns:
  assumes "0 < maxDeletions" "0 \<le> deleted" "deleted \<le> maxDeletions" "decent_world env" "store_ok s"
  shows "\<exists>a s'. memory_rounds cfg env f maxDeletions ee n deleted evs s = Some (a, s') \<and> deleted \<le> sa_deleted a \<and> sa_deleted a \<le> maxDeletions
    \<and> (sa_complete a \<longrightarrow> sa_error a = None)"
  using assms(2,3,5)
proof (induction "nat (maxDeletions - deleted)" arbitrary: n deleted evs s rule: less_induct)
  case less
  show ?case
  proof (cases "next_batch maxDeletions deleted")
    case None
    then show ?thesis using less.prems by (subst memory_rounds.simps) simp
  next
    case (Some b)
    have b: "0 < b" "b \<le> maxDeletions - deleted" using Some assms(1) by (auto simp: next_batch_def Let_def deleteByFilterBatch_def split: if_splits)
    let ?s1 = "sw_before env n s"
    let ?ids = "MemoryIdsMatching (f\<lparr>mf_limit := b\<rparr>) ?s1"
    obtain res s3 where D: "deleteMemoriesByIds cfg (sw_fault env n) (sw_ctx_done env n) (sw_retry_world env n) (sw_now env) ?ids (sw_between env n ?s1) = (res, s3)"
      by fastforce
    have ids: "length ?ids \<le> nat b" using b(1) by (simp add: MemoryIdsMatching_def limited_def)
    show ?thesis
    proof (cases "sw_select_fails env n \<or> ?ids = [] \<or> ee \<and> sw_events_fails env n \<or> (\<exists>e. res = Inl e) \<or> res = Inr 0")
      case True
      then show ?thesis using less.prems by (subst memory_rounds.simps) (auto simp: Some Let_def D)
    next
      case False
      then obtain cnt where cnt: "res = Inr cnt" "0 < cnt" "?ids \<noteq> []" by (cases res) auto
      have "store_ok (sw_between env n ?s1)" using assms(4) less.prems(3) by (simp add: decent_world_def)
      then have B: "store_ok s3" "cnt \<le> length ?ids"
        using deleteMemoriesByIds_bound [OF _ _ cnt(3) D [unfolded cnt(1)]] assms(4) by (auto simp: decent_world_def)
      define evIds where "evIds = (if ee then EventIdsForMemories ?ids ?s1 else [])"
      obtain g s4 where E: "deleteEmptiedEvents cfg (sw_pass env) evIds s3 = (g, s4)" by fastforce
      then have s4: "store_ok s4" using deleteEmptiedEvents_frame [of s3 cfg "sw_pass env" evIds] B(1) by (simp add: events_only_def)
      have step: "memory_rounds cfg env f maxDeletions ee n deleted evs s
          = memory_rounds cfg env f maxDeletions ee (Suc n) (deleted + int cnt) (evs + int g) s4"
        using False cnt E by (subst memory_rounds.simps) (auto simp: Some Let_def D evIds_def)
      have "\<exists>a s'. memory_rounds cfg env f maxDeletions ee (Suc n) (deleted + int cnt) (evs + int g) s4 = Some (a, s')
          \<and> deleted + int cnt \<le> sa_deleted a \<and> sa_deleted a \<le> maxDeletions \<and> (sa_complete a \<longrightarrow> sa_error a = None)"
        by (rule less.hyps) (use less.prems cnt(2) B(2) ids b s4 in auto)
      then show ?thesis unfolding step by auto
    qed
  qed
qed

lemma lone_sweep_decent: "decent_world (lone_sweep now)"
  by (simp add: decent_world_def lone_sweep_def)

theorem bounded_delete_returns_witness:
  "\<exists>a s'. memory_rounds example_cfg (lone_sweep 9) (no_memory_filter\<lparr>mf_timestamp_max := 25\<rparr>) 1 False 0 0 0 linked_store = Some (a, s') \<and> sa_deleted a \<le> 1"
  using bounded_delete_returns [OF _ _ _ lone_sweep_decent [of 9] linked_store_store_ok, where maxDeletions = 1 and deleted = 0 and cfg = example_cfg
      and f = "no_memory_filter\<lparr>mf_timestamp_max := 25\<rparr>" and ee = False and n = 0 and evs = 0]
  by auto

section \<open>Events and their memories\<close>

text \<open>No memory names an event that is not there.\<close>

definition refs_ok :: "db_state \<Rightarrow> bool" where
  "refs_ok s \<longleftrightarrow> (\<forall>r \<in> set (memories s). m_event_id r = [] \<or> has_event s r)"

lemma refs_ok_alt: "refs_ok s \<longleftrightarrow> set (map m_event_id (memories s)) \<subseteq> insert [] (e_id ` set (events s))"
  by (auto simp: refs_ok_def has_event_def)

lemma sans_event_ids: "map sans_links xs = map sans_links ys \<Longrightarrow> map m_event_id xs = map m_event_id ys"
proof -
  have "map m_event_id zs = map m_event_id (map sans_links zs)" for zs by (simp add: sans_links_def)
  then show "map sans_links xs = map sans_links ys \<Longrightarrow> ?thesis" by metis
qed

lemma queue_delivery_frame [frame_simps]:
  "memories (queue_delivery cfg now d s) = memories s" "events (queue_delivery cfg now d s) = events s"
  "memory_links (queue_delivery cfg now d s) = memory_links s" "event_links (queue_delivery cfg now d s) = event_links s"
  by (simp_all add: queue_delivery_def frame_simps split: option.splits)

lemma DeleteEventMemories_rows:
  "map sans_links (memories (snd (DeleteEventMemories cfg now i groups s)))
    = map sans_links (filter (\<lambda>r. \<not> (m_event_id r = i \<and> groupScopeConditions groups (m_group r))) (memories s))"
  "events (snd (DeleteEventMemories cfg now i groups s)) = events s"
  by (simp_all add: DeleteEventMemories_def Let_def frame_simps pruneMemoryLinks_store(1) pruneLinks_sans pruneMemoryLinks_def store_link_defs)

lemma DeleteEventMemories_refs: "refs_ok s \<Longrightarrow> refs_ok (snd (DeleteEventMemories cfg now i groups s))"
  using sans_event_ids [OF DeleteEventMemories_rows(1), of cfg now i groups s] by (auto simp: refs_ok_alt DeleteEventMemories_rows(2))

lemma Unset_refs: "refs_ok s \<Longrightarrow> refs_ok (snd (UnsetMemoriesEventId i s))"
  by (auto simp: refs_ok_def has_event_def UnsetMemoriesEventId_def detach_memory_def)

lemma clearEventMemories_refs: "refs_ok s \<Longrightarrow> refs_ok (snd (clearEventMemories cfg env ctx n i dm s))"
  using DeleteEventMemories_refs [of s cfg "sw_now env" i] Unset_refs
  by (auto simp: clearEventMemories_def clearAllEventMemories_def Let_def split_beta split: option.splits)

lemma clear_events_refs: "refs_ok s \<Longrightarrow> refs_ok (snd (snd (clear_events cfg env ctx n dm is moved s)))"
proof (induction "is" arbitrary: moved s)
  case (Cons i "is")
  obtain res s' where c: "clearEventMemories cfg env ctx n i dm s = (res, s')" by fastforce
  then have "refs_ok s'" using clearEventMemories_refs [OF Cons.prems, of cfg env ctx n i dm] by simp
  with Cons.IH c show ?case by (cases res) simp_all
qed simp

lemma delete_empty_chunks:
  "fold (\<lambda>chunk es. filter (\<lambda>e. \<not> (e_id e \<in> set chunk \<and> Q e)) es) cs es = filter (\<lambda>e. \<not> (e_id e \<in> set (concat cs) \<and> Q e)) es"
  by (induction cs arbitrary: es) (auto intro!: filter_cong)

definition emptied :: "ident list \<Rightarrow> db_state \<Rightarrow> event_row \<Rightarrow> bool" where
  "emptied ids s e \<longleftrightarrow> e_id e \<in> set ids \<and> \<not> list_ex (\<lambda>r. m_event_id r = e_id e) (memories s)"

lemma deleteEventsOnce_effect:
  assumes "ids \<noteq> []" "deleteEventsOnce cfg now ids s = (cnt, s')"
  shows "memories s' = memories s" "event_links s' = filter (\<lambda>l. \<not> ends_in (sort ids) l) (event_links s)"
    "events s' = snd (pruneLinks eventGraph (sort ids) (event_links s, filter (\<lambda>e. \<not> emptied ids s e) (events s)))"
    "cnt = length (filter (emptied ids s) (events s))"
proof -
  let ?es = "filter (\<lambda>e. \<not> emptied ids s e) (events s)"
  have es: "fold (\<lambda>chunk es. filter (\<lambda>e. \<not> (e_id e \<in> set chunk \<and> \<not> list_ex (\<lambda>r. m_event_id r = e_id e) (memories s))) es)
      (chunks deleteChunkSize (sort ids)) (events s) = ?es"
    using delete_empty_chunks [of "\<lambda>e. \<not> list_ex (\<lambda>r. m_event_id r = e_id e) (memories s)" "chunks deleteChunkSize (sort ids)" "events s"]
    by (simp del: set_concat add: emptied_def)
  have cnt: "cnt = length (events s) - length ?es"
    and s': "s' = (if cnt > 0 then queueEventCallbacks cfg now (captureEventCallback cfg (sort ids) CauseClient s) CauseClient 0 (pruneEventLinks (sort ids) (s\<lparr>events := ?es\<rparr>))
      else pruneEventLinks (sort ids) (s\<lparr>events := ?es\<rparr>))"
    using assms unfolding deleteEventsOnce_def lockOrderedIDs_def Let_def es by auto
  show "memories s' = memories s" "event_links s' = filter (\<lambda>l. \<not> ends_in (sort ids) l) (event_links s)"
    "events s' = snd (pruneLinks eventGraph (sort ids) (event_links s, ?es))"
    by (simp_all add: s' frame_simps pruneEventLinks_store)
  have "length (events s) = length (filter (emptied ids s) (events s)) + length ?es" by (rule sum_length_filter_compl [symmetric])
  then show "cnt = length (filter (emptied ids s) (events s))" using cnt by simp
qed

lemma deleteEventsOnce_ids:
  assumes "ids \<noteq> []" "deleteEventsOnce cfg now ids s = (cnt, s')"
  shows "map e_id (events s') = map e_id (filter (\<lambda>e. \<not> emptied ids s e) (events s))"
  using ev_graph.pruneLinks_keys [of "sort ids" "(event_links s, filter (\<lambda>e. \<not> emptied ids s e) (events s))"]
  by (simp add: deleteEventsOnce_effect [OF assms])

lemma deleteEventsOnce_refs:
  assumes "refs_ok s" "deleteEventsOnce cfg now ids s = (cnt, s')"
  shows "refs_ok s'"
proof (cases "ids = []")
  case False
  have "e_id ` set (events s') = e_id ` {e \<in> set (events s). \<not> emptied ids s e}"
    using arg_cong [OF deleteEventsOnce_ids [OF False assms(2)], of set] by simp
  moreover have "m_event_id r \<in> e_id ` {e \<in> set (events s). \<not> emptied ids s e}" if "r \<in> set (memories s)" "has_event s r" for r
    using that by (force simp: has_event_def emptied_def list_ex_iff)
  ultimately show ?thesis using assms(1) deleteEventsOnce_effect(1) [OF False assms(2)]
    unfolding refs_ok_def has_event_def by metis
qed (use assms in \<open>simp add: deleteEventsOnce_def\<close>)

lemma DeleteEvents_refs:
  assumes "refs_ok s" "\<And>n t. refs_ok t \<Longrightarrow> refs_ok (world n t)"
  shows "refs_ok (snd (DeleteEvents cfg fault ctx_done world now ids s))"
  unfolding DeleteEvents_def
  by (rule rtx.withTxRetry_invariant [of refs_ok, OF assms]) (auto simp: run_once dest: deleteEventsOnce_refs)

text \<open>The other connections leave no memory dangling.\<close>

definition careful_world :: "sweep_env \<Rightarrow> bool" where
  "careful_world env \<longleftrightarrow> (\<forall>n t. refs_ok t \<longrightarrow> refs_ok (sw_before env n t) \<and> refs_ok (sw_between env n t) \<and> (\<forall>k. refs_ok (sw_retry_world env n k t)))"

lemma event_rounds_refs:
  assumes "event_rounds cfg env ctx f maxDeletions dm n deleted moved s = Some y" "careful_world env" "refs_ok s"
  shows "refs_ok (snd y)"
  using assms
proof (induction cfg env ctx f maxDeletions dm n deleted moved s y rule: event_rounds.raw_induct [rotated, consumes 1])
  case (1 rounds cfg env ctx f maxDeletions dm n deleted moved s y)
  let ?s1 = "sw_before env n s"
  show ?case
  proof (cases "next_batch maxDeletions deleted")
    case None
    then show ?thesis using 1 by auto
  next
    case (Some b)
    let ?ids = "EventIdsMatching (f\<lparr>ef_limit := b\<rparr>) ?s1"
    obtain e k s2 where c: "clear_events cfg env ctx n dm ?ids 0 ?s1 = (e, k, s2)" by (cases "clear_events cfg env ctx n dm ?ids 0 ?s1") auto
    have s1: "refs_ok ?s1" using 1(3,4) by (simp add: careful_world_def)
    then have s2: "refs_ok s2" using clear_events_refs [OF s1, of cfg env ctx n dm ?ids 0] c by simp
    obtain res s3 where d: "DeleteEvents cfg (sw_fault env n) (sw_ctx_done env n) (sw_retry_world env n) (sw_now env) ?ids (sw_between env n s2) = (res, s3)" by fastforce
    have "refs_ok (snd (DeleteEvents cfg (sw_fault env n) (sw_ctx_done env n) (sw_retry_world env n) (sw_now env) ?ids (sw_between env n s2)))"
      by (rule DeleteEvents_refs) (use 1(3) s2 in \<open>auto simp: careful_world_def\<close>)
    then have s3: "refs_ok s3" by (simp add: d)
    show ?thesis using 1(2) 1(1) [OF _ 1(3) s3] s1 s2 s3 by (auto simp: Some Let_def c d split: if_splits option.splits sum.splits)
  qed
qed

text \<open>
  C26. Deleting events by filter leaves no memory naming an event that is gone, at whichever step it stops
  or fails and whatever other connections that keep this themselves do in the meantime, memories
  written into a selected event included.
\<close>

theorem event_sweep_never_dangles:
  assumes "DeleteEventsByFilter cfg env ctx q maxDeletions dm (s, c) = Some (a, s', c')" "refs_ok s"
    and "careful_world env" "refs_ok (sw_pin_world env s)"
  shows "refs_ok s'"
proof -
  have pin: "refs_ok (snd (pinEventExtremum env f s))" for f
    using assms(2,4) by (auto simp: pinEventExtremum_def Let_def split: list.splits option.splits)
  show ?thesis
    using assms(1,2) pin
    by (auto simp: DeleteEventsByFilter_def Let_def split: sum.splits if_splits option.splits prod.splits dest!: event_rounds_refs [OF _ assms(3)])
qed

definition eventful_store :: db_state where
  "eventful_store = linked_store\<lparr>
     memories := map (\<lambda>r. r\<lparr>m_event_id := if m_id r = ''c'' then [] else ''trip''\<rparr>) (memories linked_store),
     events := [\<lparr>e_id = ''trip'', e_group = [], e_time_start = 5, e_time_end = 0, e_level = None, e_link_significance = 4,
       e_memories_consolidated = False, e_name = ''trip'', e_description = [], e_metadata = [], e_payload_bytes = 4\<rparr>,
       \<lparr>e_id = ''visit'', e_group = [], e_time_start = 6, e_time_end = 0, e_level = None, e_link_significance = 4,
       e_memories_consolidated = False, e_name = ''visit'', e_description = [], e_metadata = [], e_payload_bytes = 5\<rparr>],
     event_links := [example_link ''trip'' ''visit'' 4]\<rparr>"

definition any_events :: eventSelector where
  "any_events = \<lparr>se_time_start_min = 0, se_time_start_max = 0, se_time_end_min = 0, se_time_end_max = 0, se_significance_min = 0,
     se_significance_max = 0, se_extremum = SignificanceExtremumNone, se_group = [], se_metadata = [], se_ended = TriStateUnset,
     se_name_contains = [], se_description_contains = []\<rparr>"

lemma eventful_refs: "refs_ok eventful_store"
  by (simp add: refs_ok_def has_event_def eventful_store_def example_defs)

theorem event_sweep_never_dangles_witness:
  "\<exists>a s' c'. DeleteEventsByFilter example_cfg (lone_sweep 9) \<lparr>ctx_claims = None, ctx_tier = None\<rparr> (any_events\<lparr>se_name_contains := ''TRI''\<rparr>) 0 False
       (eventful_store, newCountCache 0) = Some (a, s', c') \<and> ea_deleted a = 1 \<and> ea_moved a = 2 \<and> refs_ok s'"
proof -
  obtain a s' c' where R: "DeleteEventsByFilter example_cfg (lone_sweep 9) \<lparr>ctx_claims = None, ctx_tier = None\<rparr> (any_events\<lparr>se_name_contains := ''TRI''\<rparr>) 0 False
       (eventful_store, newCountCache 0) = Some (a, s', c')" "ea_deleted a = 1 \<and> ea_moved a = 2"
  proof -
    have "(case DeleteEventsByFilter example_cfg (lone_sweep 9) \<lparr>ctx_claims = None, ctx_tier = None\<rparr> (any_events\<lparr>se_name_contains := ''TRI''\<rparr>) 0 False
       (eventful_store, newCountCache 0) of None \<Rightarrow> False | Some (a, _) \<Rightarrow> ea_deleted a = 1 \<and> ea_moved a = 2)" by code_simp
    then show thesis by (auto intro: that split: option.splits prod.splits)
  qed
  have "careful_world (lone_sweep 9)" "refs_ok (sw_pin_world (lone_sweep 9) eventful_store)"
    using eventful_refs by (simp_all add: careful_world_def lone_sweep_def)
  from event_sweep_never_dangles [OF R(1) eventful_refs this] R show ?thesis by blast
qed

text \<open>
  A batch prunes the links of every event it selected, the ones a memory written since keeps
  included: such an event loses its links, while the aggregate its value is computed from still
  counts them, which no other operation of the store allows.
\<close>

lemma surviving_event_loses_links:
  assumes "i \<in> set ids" "e \<in> set (events s)" "e_id e = i" "r \<in> set (memories s)" "m_event_id r = i"
    and "deleteEventsOnce cfg now ids s = (cnt, s')"
  shows "e \<in> set (events s') \<and> (\<forall>l \<in> set (event_links s'). \<not> touches i l)"
proof -
  have ne: "ids \<noteq> []" using assms(1) by auto
  note E = deleteEventsOnce_effect [OF ne assms(6)]
  have "\<not> emptied ids s e" using assms by (auto simp: emptied_def list_ex_iff)
  then have "e \<in> set (events s')"
    unfolding E(3) ev_graph.pruneLinks_rows using assms(1-3)
    by (simp add: image_iff eventGraph_def)
  moreover have "\<not> touches i l" if "l \<in> set (event_links s')" for l
    using that assms(1) by (auto simp: E(2) ends_in_def touches_def)
  ultimately show ?thesis by blast
qed

lemma surviving_event_miscounted:
  "\<not> aggregates_ok (snd (deleteEventsOnce example_cfg 9 [''trip''] eventful_store)) \<and> aggregates_ok eventful_store"
  by code_simp

section \<open>Deleting one event\<close>

definition mem_ok :: "db_state \<Rightarrow> bool" where
  "mem_ok s \<longleftrightarrow> distinct (map m_id (memories s)) \<and> agg_ok m_id m_link_significance (memory_links s) (memories s)
     \<and> links_closed (memory_links s) (map m_id (memories s)) \<and> one_row_per_pair (memory_links s)"

definition ev_ok :: "db_state \<Rightarrow> bool" where
  "ev_ok s \<longleftrightarrow> distinct (map e_id (events s)) \<and> agg_ok e_id e_link_significance (event_links s) (events s)
     \<and> links_closed (event_links s) (map e_id (events s)) \<and> one_row_per_pair (event_links s)"

lemma store_ok_parts: "store_ok s \<longleftrightarrow> mem_ok s \<and> ev_ok s \<and> queues_ok s"
  by (auto simp: store_ok_def mem_ok_def ev_ok_def keys_ok_def aggregates_ok_def)

lemma mem_ok_cong: "memories s' = memories s \<Longrightarrow> memory_links s' = memory_links s \<Longrightarrow> mem_ok s' = mem_ok s"
  by (simp add: mem_ok_def)

lemma ev_ok_cong: "events s' = events s \<Longrightarrow> event_links s' = event_links s \<Longrightarrow> ev_ok s' = ev_ok s"
  by (simp add: ev_ok_def)

lemma mem_ok_removed:
  assumes "mem_ok s" "\<And>r. r \<in> set (memories s) \<Longrightarrow> P r \<longleftrightarrow> m_id r \<notin> set gone"
    and "memory_links s' = filter (\<lambda>l. \<not> ends_in gone l) (memory_links s)"
    and "memories s' = snd (pruneLinks memoryGraph gone (memory_links s, filter P (memories s)))"
  shows "mem_ok s'" "map m_id (memories s') = filter (\<lambda>i. i \<notin> set gone) (map m_id (memories s))"
proof -
  have S: "rows_agg_ok memoryGraph (memory_links s) (memories s)" "links_closed (memory_links s) (map m_id (memories s))" "one_row_per_pair (memory_links s)"
    using assms(1) by (simp_all add: mem_ok_def mem_rows_agg)
  note R = mem_graph.remove_and_prune [OF S(1) _ S(3), of P gone, unfolded graph_keys, OF S(2) assms(2) assms(3,4)]
  then show "map m_id (memories s') = filter (\<lambda>i. i \<notin> set gone) (map m_id (memories s))" by blast
  then show "mem_ok s'" using R assms(1) by (simp add: mem_ok_def mem_rows_agg)
qed

lemma ev_ok_removed:
  assumes "ev_ok s" "event_links s' = filter (\<lambda>l. \<not> ends_in [i] l) (event_links s)"
    and "events s' = snd (pruneLinks eventGraph [i] (event_links s, filter (\<lambda>e. e_id e \<noteq> i) (events s)))"
  shows "ev_ok s'" "map e_id (events s') = filter (\<lambda>j. j \<noteq> i) (map e_id (events s))"
proof -
  have S: "rows_agg_ok eventGraph (event_links s) (events s)" "links_closed (event_links s) (map e_id (events s))" "one_row_per_pair (event_links s)"
    using assms(1) by (simp_all add: ev_ok_def ev_rows_agg)
  have kept: "e_id e \<noteq> i \<longleftrightarrow> e_id e \<notin> set [i]" for e by simp
  note R = ev_graph.remove_and_prune [OF S(1) _ S(3), of "\<lambda>e. e_id e \<noteq> i" "[i]", unfolded graph_keys, OF S(2) kept assms(2,3)]
  then show "map e_id (events s') = filter (\<lambda>j. j \<noteq> i) (map e_id (events s))" by simp
  then show "ev_ok s'" using R assms(1) by (simp add: ev_ok_def ev_rows_agg)
qed

lemma queue_delivery_queues: "queues_ok s \<Longrightarrow> queues_ok (queue_delivery cfg now d s)"
  by (simp add: queue_delivery_def queueCallbacks_queues split: option.splits)

lemma pruneMemoryLinks_queues: "queues_ok (pruneMemoryLinks ids s) = queues_ok s"
  by (simp add: pruneMemoryLinks_def store_link_defs queues_ok_def)

lemma deleteEventMemoriesById_effect:
  assumes "mem_ok s"
  shows "mem_ok (deleteEventMemoriesById cfg now ids s)"
    "map sans_links (memories (deleteEventMemoriesById cfg now ids s)) = map sans_links (filter (\<lambda>r. m_id r \<notin> set ids) (memories s))"
    "events (deleteEventMemoriesById cfg now ids s) = events s" "event_links (deleteEventMemoriesById cfg now ids s) = event_links s"
    "queues_ok s \<Longrightarrow> queues_ok (deleteEventMemoriesById cfg now ids s)"
proof -
  let ?s' = "deleteEventMemoriesById cfg now ids s" and ?rows = "filter (\<lambda>r. m_id r \<notin> set ids) (memories s)"
  have "fold (\<lambda>chunk rows. filter (\<lambda>r. m_id r \<notin> set chunk) rows) (chunks deleteChunkSize (sort ids)) (memories s) = ?rows"
    using delete_by_ids_rows [of "chunks deleteChunkSize (sort ids)" "memories s"] by (simp del: set_concat)
  then have s': "?s' = queueSearchDeletes cfg now (sort ids) (pruneMemoryLinks (sort ids)
      (queue_delivery cfg now (captureMemoryCallback cfg (sort ids) CauseCascade s) (s\<lparr>memories := ?rows\<rparr>)))"
    by (simp add: deleteEventMemoriesById_def Let_def lockOrderedIDs_def)
  have M: "memories ?s' = snd (pruneLinks memoryGraph (sort ids) (memory_links s, ?rows))"
    "memory_links ?s' = filter (\<lambda>l. \<not> ends_in (sort ids) l) (memory_links s)"
    by (simp_all add: s' frame_simps pruneMemoryLinks_store(1,2))
  show "mem_ok ?s'" by (rule mem_ok_removed(1) [OF assms _ M(2,1)]) simp
  show "map sans_links (memories ?s') = map sans_links ?rows" by (simp add: M(1) pruneLinks_sans)
  show "events ?s' = events s" "event_links ?s' = event_links s"
    by (simp_all add: s' frame_simps pruneMemoryLinks_def store_link_defs)
  have "queues_ok (s\<lparr>memories := ?rows\<rparr>) = queues_ok s" by (simp add: queues_ok_def)
  then show "queues_ok s \<Longrightarrow> queues_ok ?s'"
    by (simp add: s' queueSearchDeletes_queues pruneMemoryLinks_queues queue_delivery_queues)
qed

lemma detach_fields [simp]:
  "m_id (detach_memory i r) = m_id r" "m_group (detach_memory i r) = m_group r"
  "m_link_significance (detach_memory i r) = m_link_significance r"
  by (simp_all add: detach_memory_def)

lemma detach_agg: "agg_ok m_id m_link_significance ls (map (detach_memory i) rows) = agg_ok m_id m_link_significance ls rows"
  by (simp add: agg_ok_def list_all_iff)

lemma Unset_mem_ok: "mem_ok (snd (UnsetMemoriesEventId i s)) = mem_ok s"
  by (simp add: mem_ok_def UnsetMemoriesEventId_def detach_agg comp_def)

lemma Unset_frame:
  "events (snd (UnsetMemoriesEventId i s)) = events s" "event_links (snd (UnsetMemoriesEventId i s)) = event_links s"
  "memory_links (snd (UnsetMemoriesEventId i s)) = memory_links s" "queues_ok (snd (UnsetMemoriesEventId i s)) = queues_ok s"
  "memories (snd (UnsetMemoriesEventId i s)) = map (detach_memory i) (memories s)"
  by (simp_all add: UnsetMemoriesEventId_def queues_ok_def)

text \<open>The rows the cascade leaves: the caller's gone when asked for, the rest of the event's detached.\<close>

definition cascade_rows :: "ident \<Rightarrow> EventCascade \<Rightarrow> db_state \<Rightarrow> memory_row list" where
  "cascade_rows i opts s = map (detach_memory i)
     (filter (\<lambda>r. \<not> (ecs_delete_memories opts \<and> m_event_id r = i \<and> groupScopeConditions (ecs_groups opts) (m_group r))) (memories s))"

lemma cascade_memories:
  assumes "mem_ok s"
  shows "map sans_links (map (detach_memory i) (memories (if ecs_delete_memories opts \<and> memoryIdsForEvent i (ecs_groups opts) s \<noteq> []
      then deleteEventMemoriesById cfg now (memoryIdsForEvent i (ecs_groups opts) s) (s\<lparr>events := es\<rparr>) else s\<lparr>events := es\<rparr>)))
    = map sans_links (cascade_rows i opts s)"
proof -
  let ?ids = "memoryIdsForEvent i (ecs_groups opts) s" and ?Q = "\<lambda>r. m_event_id r = i \<and> groupScopeConditions (ecs_groups opts) (m_group r)"
  have detach_sans: "map sans_links (map (detach_memory i) xs) = map (detach_memory i) (map sans_links xs)" for xs
    by (simp add: detach_memory_def sans_links_def)
  have in_ids: "m_id r \<in> set ?ids \<longleftrightarrow> ?Q r" if "r \<in> set (memories s)" for r
    using that assms by (auto simp: memoryIdsForEvent_def mem_ok_def distinct_map dest: inj_onD)
  have "mem_ok (s\<lparr>events := es\<rparr>)" using assms by (simp add: mem_ok_def)
  note D = deleteEventMemoriesById_effect(2) [OF this, of cfg now ?ids]
  have "filter (\<lambda>r. m_id r \<notin> set ?ids) (memories s) = filter (\<lambda>r. \<not> ?Q r) (memories s)" using in_ids by (auto intro!: filter_cong)
  moreover have "filter (\<lambda>r. \<not> ?Q r) (memories s) = memories s" if "?ids = []" using that by (auto simp: memoryIdsForEvent_def filter_empty_conv)
  ultimately have "map sans_links (memories (if ecs_delete_memories opts \<and> ?ids \<noteq> []
      then deleteEventMemoriesById cfg now ?ids (s\<lparr>events := es\<rparr>) else s\<lparr>events := es\<rparr>))
    = map sans_links (filter (\<lambda>r. \<not> (ecs_delete_memories opts \<and> ?Q r)) (memories s))"
    using D by (cases "ecs_delete_memories opts"; cases "?ids = []") simp_all
  then show ?thesis by (simp only: detach_sans cascade_rows_def)
qed

lemma cascade_outcome:
  assumes "store_ok s" "refs_ok s" and run: "deleteEventCascadeOnce cfg now i opts s = (out, s')"
  shows "if ed_deleted out
    then store_ok s' \<and> refs_ok s' \<and> map e_id (events s') = filter (\<lambda>j. j \<noteq> i) (map e_id (events s)) \<and> i \<in> e_id ` set (events s)
      \<and> map sans_links (memories s') = map sans_links (cascade_rows i opts s) \<and> (\<forall>l \<in> set (event_links s'). \<not> touches i l)
    else s' = s \<and> (ed_held_memories out \<or> i \<notin> e_id ` set (events s))"
proof -
  let ?ids = "memoryIdsForEvent i (ecs_groups opts) s" and ?es = "filter (\<lambda>e. e_id e \<noteq> i) (events s)"
  let ?s1 = "s\<lparr>events := ?es\<rparr>"
  let ?s2 = "if ecs_delete_memories opts \<and> ?ids \<noteq> [] then deleteEventMemoriesById cfg now ?ids ?s1 else ?s1"
  let ?s3 = "snd (UnsetMemoriesEventId i ?s2)"
  let ?s4 = "queueEventCallbacks cfg now (captureEventCallback cfg [i] CauseClient s) CauseClient 0 ?s3"
  have S: "mem_ok s" "ev_ok s" "queues_ok s" using assms(1) by (simp_all add: store_ok_parts)
  show ?thesis
  proof (cases "ecs_only_if_empty opts \<and> ?ids \<noteq> [] \<or> length ?es = length (events s)")
    case True
    have "length ?es = length (events s) \<Longrightarrow> i \<notin> e_id ` set (events s)"
      using length_filter_less [of _ "events s" "\<lambda>e. e_id e \<noteq> i"] by fastforce
    then show ?thesis using run True by (auto simp: deleteEventCascadeOnce_def Let_def no_event_deletion_def split: if_splits)
  next
    case False
    then have out: "ed_deleted out" and s': "s' = pruneEventLinks [i] ?s4"
      using run by (auto simp: deleteEventCascadeOnce_def Let_def split_beta)
    have "mem_ok ?s1" "queues_ok ?s1" using S by (simp_all add: mem_ok_def queues_ok_def)
    note D = deleteEventMemoriesById_effect [OF this(1), of cfg now ?ids]
    have s2: "mem_ok ?s2" "queues_ok ?s2" "events ?s2 = ?es" "event_links ?s2 = event_links s"
      using D \<open>mem_ok ?s1\<close> \<open>queues_ok ?s1\<close> by simp_all
    have E: "event_links s' = filter (\<lambda>l. \<not> ends_in [i] l) (event_links s)" "events s' = snd (pruneLinks eventGraph [i] (event_links s, ?es))"
      using s2 by (simp_all add: s' pruneEventLinks_store frame_simps Unset_frame)
    note R = ev_ok_removed [OF S(2) E]
    have m: "memories s' = map (detach_memory i) (memories ?s2)" "memory_links s' = memory_links ?s3"
      by (simp_all add: s' pruneEventLinks_store frame_simps Unset_frame)
    have "mem_ok s'" using s2(1) Unset_mem_ok [of i ?s2] mem_ok_cong [of s' ?s3] by (simp add: m Unset_frame)
    moreover have "queues_ok s'" using s2(2) by (simp add: s' pruneEventLinks_store(6) queueEventCallbacks_queues Unset_frame)
    ultimately have "store_ok s'" using R(1) by (simp add: store_ok_parts)
    moreover have rows: "map sans_links (memories s') = map sans_links (cascade_rows i opts s)"
      unfolding m by (rule cascade_memories [OF S(1)])
    moreover have "refs_ok s'"
    proof -
      have "set (map m_event_id (memories s')) \<subseteq> insert [] (set (map m_event_id (memories s)) - {i})"
      proof
        fix j assume "j \<in> set (map m_event_id (memories s'))"
        then obtain r where "r \<in> set (memories s)" "j = m_event_id (detach_memory i r)"
          unfolding sans_event_ids [OF rows] by (auto simp: cascade_rows_def)
        then show "j \<in> insert [] (set (map m_event_id (memories s)) - {i})" by (auto simp: detach_memory_def split: if_splits)
      qed
      then show ?thesis using assms(2) arg_cong [OF R(2), of set] by (auto simp: refs_ok_alt)
    qed
    moreover have "i \<in> e_id ` set (events s)"
    proof (rule ccontr)
      assume "i \<notin> e_id ` set (events s)"
      then have "?es = events s" by (auto intro!: filter_True)
      then show False using False by simp
    qed
    moreover have "\<forall>l \<in> set (event_links s'). \<not> touches i l" by (auto simp: E(1) ends_in_def touches_def)
    ultimately show ?thesis using out R(2) by simp
  qed
qed

lemma queue_registry: "levels (queueCallbacks cfg now ds s) = levels s" "next_level_id (queueCallbacks cfg now ds s) = next_level_id s"
proof -
  have "levels (fold (insert_delivery cfg now) ds s) = levels s \<and> next_level_id (fold (insert_delivery cfg now) ds s) = next_level_id s"
    by (induction ds arbitrary: s) (simp_all add: insert_delivery_def Let_def)
  then show "levels (queueCallbacks cfg now ds s) = levels s" "next_level_id (queueCallbacks cfg now ds s) = next_level_id s"
    by (simp_all add: queueCallbacks_fold)
qed

lemma delivery_registry: "levels (queue_delivery cfg now d s) = levels s" "next_level_id (queue_delivery cfg now d s) = next_level_id s"
  by (simp_all add: queue_delivery_def queue_registry split: option.splits)

lemma outbox_registry: "levels (queueSearchDeletes cfg now ids s) = levels s" "next_level_id (queueSearchDeletes cfg now ids s) = next_level_id s"
proof -
  have "levels (fold (insert_outbox now) ids s) = levels s \<and> next_level_id (fold (insert_outbox now) ids s) = next_level_id s"
    by (induction ids arbitrary: s) (simp_all add: insert_outbox_def)
  then show "levels (queueSearchDeletes cfg now ids s) = levels s" "next_level_id (queueSearchDeletes cfg now ids s) = next_level_id s"
    by (simp_all add: queueSearchDeletes_fold)
qed

lemma cascade_registry:
  "levels (snd (deleteEventCascadeOnce cfg now i opts s)) = levels s" "next_level_id (snd (deleteEventCascadeOnce cfg now i opts s)) = next_level_id s"
proof -
  have d: "levels (deleteEventMemoriesById cfg now ids t) = levels t" "next_level_id (deleteEventMemoriesById cfg now ids t) = next_level_id t" for ids t
    by (simp_all add: deleteEventMemoriesById_def Let_def outbox_registry delivery_registry pruneMemoryLinks_def store_link_defs)
  show "levels (snd (deleteEventCascadeOnce cfg now i opts s)) = levels s" "next_level_id (snd (deleteEventCascadeOnce cfg now i opts s)) = next_level_id s"
    by (simp_all add: deleteEventCascadeOnce_def Let_def split_beta pruneEventLinks_def store_link_defs queueEventCallbacks_def queue_registry UnsetMemoriesEventId_def d)
qed

text \<open>
  C25. Deleting one event is all or nothing. Refused or unknown, it changes nothing; otherwise the event and
  its links are gone, the caller's memories of it are deleted exactly when asked for, every other
  memory of it, another group's included, stays without an event, and the store is well-formed with no
  memory naming a missing event.
\<close>

theorem event_cascade_is_atomic:
  assumes "store_ok s" "refs_ok s" and run: "deleteEventCascadeOnce cfg now i opts s = (out, s')"
  shows "if ed_deleted out
    then store_ok s' \<and> refs_ok s' \<and> map e_id (events s') = filter (\<lambda>j. j \<noteq> i) (map e_id (events s)) \<and> i \<in> e_id ` set (events s)
      \<and> map sans_links (memories s') = map sans_links (cascade_rows i opts s) \<and> (\<forall>l \<in> set (event_links s'). \<not> touches i l)
    else s' = s \<and> (ed_held_memories out \<or> i \<notin> e_id ` set (events s))"
  by (rule cascade_outcome [OF assms(1,2) run])

theorem event_cascade_is_atomic_witness:
  "\<exists>out s'. deleteEventCascadeOnce example_cfg 9 ''trip'' \<lparr>ecs_delete_memories = True, ecs_only_if_empty = False, ecs_groups = []\<rparr> eventful_store
      = (out, s') \<and> ed_deleted out \<and> store_ok s' \<and> refs_ok s'"
proof -
  let ?opts = "\<lparr>ecs_delete_memories = True, ecs_only_if_empty = False, ecs_groups = []\<rparr>"
  have "ed_deleted (fst (deleteEventCascadeOnce example_cfg 9 ''trip'' ?opts eventful_store))" by code_simp
  then obtain out s' where R: "deleteEventCascadeOnce example_cfg 9 ''trip'' ?opts eventful_store = (out, s')" "ed_deleted out"
    by (cases "deleteEventCascadeOnce example_cfg 9 ''trip'' ?opts eventful_store") simp
  have "store_ok eventful_store" by code_simp
  from event_cascade_is_atomic [OF this eventful_refs R(1)] R show ?thesis by auto
qed

end
