(* ===== verification/Significance_Registry.thy ===== *)
theory Significance_Registry
  imports Db_State
begin

text \<open>
  The significance registry (\<^verbatim>\<open>db/significance.go\<close>): visible significances are ranks of levels,
  items point at levels by id, and a relative placement opens a gap by renumbering levels only.
  UPDATE statements are modelled row by row with the UNIQUE check the engine applies to each
  row, so that "the constraint is never transiently violated" is a theorem and not an assumption.
\<close>

section \<open>Errors and specifications\<close>

datatype placement_fault =
    AnchorNotPositive
  | AnchorNotFound
  | AnchorUnranked
  | UpperNotAbove int int

datatype registry_error =
    ErrInvalidPlacement placement_fault
  | ErrUnique
  | ErrOutOfRange

datatype SignificancePlacement = PlacementNone | PlacementAbove | PlacementBelow | PlacementBetween

datatype AnchorKind = AnchorMemory | AnchorEvent

record SignificanceSpec =
  Placement :: SignificancePlacement
  Value :: int
  Anchor :: int
  AnchorID :: ident
  Upper :: int
  UpperID :: ident
  AnchorKindOf :: AnchorKind
  UpperKindOf :: AnchorKind

section \<open>Updates under a UNIQUE column\<close>

text \<open>
  \<open>update_ranks P f mx done todo\<close> runs \<^verbatim>\<open>UPDATE significance_levels SET level_rank = f(level_rank)
  WHERE P(level_rank)\<close> over the rows \<open>todo\<close>, \<open>done\<close> being the rows already visited: each row
  written must fit the column and must not collide with any other row as it then stands.
\<close>

fun update_ranks :: "(int \<Rightarrow> bool) \<Rightarrow> (int \<Rightarrow> int) \<Rightarrow> int \<Rightarrow> sig_level list \<Rightarrow> sig_level list
    \<Rightarrow> registry_error + sig_level list" where
  "update_ranks P f mx ds [] = Inr ds"
| "update_ranks P f mx ds (l # ls) =
     (if P (level_rank l) then
        let r = f (level_rank l) in
        if r > mx \<or> r < - mx - 1 then Inl ErrOutOfRange
        else if r \<in> set (map level_rank (ds @ ls)) then Inl ErrUnique
        else update_ranks P f mx (ds @ [l\<lparr>level_rank := r\<rparr>]) ls
      else update_ranks P f mx (ds @ [l]) ls)"

definition set_rank :: "(int \<Rightarrow> bool) \<Rightarrow> (int \<Rightarrow> int) \<Rightarrow> sig_level \<Rightarrow> sig_level" where
  "set_rank P f l = (if P (level_rank l) then l\<lparr>level_rank := f (level_rank l)\<rparr> else l)"

text \<open>
  The general no-collision lemma: an update that is injective on the rows it selects and moves
  them outside every rank in use cannot collide, whatever order the rows are visited in.
\<close>

lemma update_ranks_ok:
  assumes "distinct (map level_rank ls)"
    and "inj_on f {r \<in> level_rank ` set ls. P r}"
    and "\<And>l. l \<in> set ls \<Longrightarrow> P (level_rank l) \<Longrightarrow> f (level_rank l) \<notin> level_rank ` set ds"
    and "\<And>l. l \<in> set ls \<Longrightarrow> P (level_rank l) \<Longrightarrow> f (level_rank l) \<notin> level_rank ` set ls"
    and "\<And>l. l \<in> set ls \<Longrightarrow> P (level_rank l) \<Longrightarrow> f (level_rank l) \<le> mx \<and> - mx - 1 \<le> f (level_rank l)"
  shows "update_ranks P f mx ds ls = Inr (ds @ map (set_rank P f) ls)"
  using assms
proof (induction ls arbitrary: ds)
  case (Cons l ls)
  have dist: "distinct (map level_rank ls)" and new: "level_rank l \<notin> level_rank ` set ls"
    using Cons.prems(1) by auto
  have inj: "inj_on f {r \<in> level_rank ` set ls. P r}"
    using Cons.prems(2) by (rule inj_on_subset) auto
  show ?case
  proof (cases "P (level_rank l)")
    case True
    let ?l = "l\<lparr>level_rank := f (level_rank l)\<rparr>"
    have free: "f (level_rank l) \<notin> level_rank ` set (ds @ ls)"
      using Cons.prems(3,4) [of l] True by auto
    have "update_ranks P f mx (ds @ [?l]) ls = Inr ((ds @ [?l]) @ map (set_rank P f) ls)"
    proof (rule Cons.IH [OF dist inj])
      fix l' assume l': "l' \<in> set ls" "P (level_rank l')"
      then have "level_rank l' \<noteq> level_rank l" using new by (metis image_eqI)
      then have "f (level_rank l') \<noteq> f (level_rank l)"
        using inj_on_contraD [OF Cons.prems(2)] l' True by simp
      then show "f (level_rank l') \<notin> level_rank ` set (ds @ [?l])"
        using Cons.prems(3) [of l'] l' by auto
    next
      fix l' assume "l' \<in> set ls" "P (level_rank l')"
      then show "f (level_rank l') \<notin> level_rank ` set ls"
        using Cons.prems(4) [of l'] by auto
    next
      fix l' assume "l' \<in> set ls" "P (level_rank l')"
      then show "f (level_rank l') \<le> mx \<and> - mx - 1 \<le> f (level_rank l')"
        using Cons.prems(5) [of l'] by auto
    qed
    with True free Cons.prems(5) [of l] show ?thesis
      by (auto simp: set_rank_def Let_def)
  next
    case False
    have "update_ranks P f mx (ds @ [l]) ls = Inr ((ds @ [l]) @ map (set_rank P f) ls)"
    proof (rule Cons.IH [OF dist inj])
      fix l' assume l': "l' \<in> set ls" "P (level_rank l')"
      then show "f (level_rank l') \<notin> level_rank ` set (ds @ [l])"
        using Cons.prems(3) [of l'] Cons.prems(4) [of l'] by auto
    next
      fix l' assume "l' \<in> set ls" "P (level_rank l')"
      then show "f (level_rank l') \<notin> level_rank ` set ls"
        using Cons.prems(4) [of l'] by auto
    next
      fix l' assume "l' \<in> set ls" "P (level_rank l')"
      then show "f (level_rank l') \<le> mx \<and> - mx - 1 \<le> f (level_rank l')"
        using Cons.prems(5) [of l'] by auto
    qed
    with False show ?thesis by (simp add: set_rank_def)
  qed
qed simp

section \<open>Levels\<close>

definition rankTaken :: "int \<Rightarrow> sig_level list \<Rightarrow> bool" where
  "rankTaken rank lv = list_ex (\<lambda>l. level_rank l = rank) lv"

text \<open>\<open>openGapAt\<close>: two statements, through negative ranks.\<close>

definition openGapAt :: "int \<Rightarrow> int \<Rightarrow> sig_level list \<Rightarrow> registry_error + sig_level list" where
  "openGapAt mx rank lv =
     (case update_ranks (\<lambda>r. r \<ge> rank) (\<lambda>r. - (r + 1)) mx [] lv of
        Inl e \<Rightarrow> Inl e
      | Inr lv1 \<Rightarrow> update_ranks (\<lambda>r. r < 0) (\<lambda>r. - r) mx [] lv1)"

text \<open>
  \<open>createLevelTx\<close>: the INSERT (a fresh id, no unused mark) and the id read back by rank.
  \<open>findOrCreateLevelTx\<close> clears the unused mark of a level it finds.
\<close>

definition createLevelTx :: "int \<Rightarrow> int \<Rightarrow> sig_level list \<Rightarrow> int
    \<Rightarrow> registry_error + (int \<times> sig_level list \<times> int)" where
  "createLevelTx mx rank lv nxt =
     (if rank > mx then Inl ErrOutOfRange
      else if rankTaken rank lv then Inl ErrUnique
      else Inr (nxt, lv @ [\<lparr>level_id = nxt, level_rank = rank, unused_since = None\<rparr>], nxt + 1))"

definition clear_mark :: "int \<Rightarrow> sig_level list \<Rightarrow> sig_level list" where
  "clear_mark i lv = map (\<lambda>l. if level_id l = i then l\<lparr>unused_since := None\<rparr> else l) lv"

definition findOrCreateLevelTx :: "int \<Rightarrow> int \<Rightarrow> sig_level list \<Rightarrow> int
    \<Rightarrow> registry_error + (int \<times> sig_level list \<times> int)" where
  "findOrCreateLevelTx mx rank lv nxt =
     (case find_row level_rank rank lv of
        Some l \<Rightarrow> (if unused_since l = None then Inr (level_id l, lv, nxt)
                   else Inr (level_id l, clear_mark (level_id l) lv, nxt))
      | None \<Rightarrow> createLevelTx mx rank lv nxt)"

section \<open>Resolving a specification\<close>

text \<open>
  \<open>anchorRank\<close> looks an id up in its table (\<open>items\<close> gives the level id column, \<open>None\<close> for no such
  row) or takes the literal value. The level is joined by id; a missing or NULL level is unranked.
\<close>

definition anchorRank :: "(AnchorKind \<Rightarrow> ident \<Rightarrow> int option option) \<Rightarrow> sig_level list \<Rightarrow> int \<Rightarrow> ident
    \<Rightarrow> AnchorKind \<Rightarrow> registry_error + int" where
  "anchorRank items lv v i kind =
     (if i = [] then
        (if v < 1 then Inl (ErrInvalidPlacement AnchorNotPositive) else Inr v)
      else case items kind i of
          None \<Rightarrow> Inl (ErrInvalidPlacement AnchorNotFound)
        | Some lid \<Rightarrow>
            (case Option.bind lid (\<lambda>k. find_row level_id k lv) of
               None \<Rightarrow> Inl (ErrInvalidPlacement AnchorUnranked)
             | Some l \<Rightarrow> Inr (i32 (level_rank l))))"

text \<open>
  The target rank. \<^verbatim>\<open>anchor + 1\<close> is \<open>int32\<close> arithmetic, and a target below 1 is raised to 1.
\<close>

definition placementTarget :: "(AnchorKind \<Rightarrow> ident \<Rightarrow> int option option) \<Rightarrow> sig_level list
    \<Rightarrow> SignificanceSpec \<Rightarrow> registry_error + int" where
  "placementTarget items lv spec =
     (case anchorRank items lv (Anchor spec) (AnchorID spec) (AnchorKindOf spec) of
        Inl e \<Rightarrow> Inl e
      | Inr anchor \<Rightarrow>
          (case Placement spec of
             PlacementAbove \<Rightarrow> Inr (max 1 (i32 (anchor + 1)))
           | PlacementBelow \<Rightarrow> Inr (max 1 anchor)
           | PlacementBetween \<Rightarrow>
               (case anchorRank items lv (Upper spec) (UpperID spec) (UpperKindOf spec) of
                  Inl e \<Rightarrow> Inl e
                | Inr upper \<Rightarrow>
                    if upper \<le> anchor then Inl (ErrInvalidPlacement (UpperNotAbove upper anchor))
                    else Inr (max 1 (i32 (anchor + 1))))
           | PlacementNone \<Rightarrow> Inr 1))"

definition resolveLevelTx :: "(AnchorKind \<Rightarrow> ident \<Rightarrow> int option option) \<Rightarrow> int \<Rightarrow> SignificanceSpec
    \<Rightarrow> sig_level list \<Rightarrow> int \<Rightarrow> registry_error + (int \<times> int \<times> sig_level list \<times> int)" where
  "resolveLevelTx items mx spec lv nxt =
     (if Placement spec = PlacementNone then
        (case findOrCreateLevelTx mx (Value spec) lv nxt of
           Inl e \<Rightarrow> Inl e
         | Inr (i, lv', nxt') \<Rightarrow> Inr (i, Value spec, lv', nxt'))
      else case placementTarget items lv spec of
          Inl e \<Rightarrow> Inl e
        | Inr target \<Rightarrow>
            (case (if rankTaken target lv then openGapAt mx target lv else Inr lv) of
               Inl e \<Rightarrow> Inl e
             | Inr lv1 \<Rightarrow>
                 (case createLevelTx mx target lv1 nxt of
                    Inl e \<Rightarrow> Inl e
                  | Inr (i, lv2, nxt') \<Rightarrow> Inr (i, target, lv2, nxt'))))"


section \<open>Opening a gap\<close>

definition bump :: "int \<Rightarrow> sig_level \<Rightarrow> sig_level" where
  "bump rank l = (if level_rank l \<ge> rank then l\<lparr>level_rank := level_rank l + 1\<rparr> else l)"

lemma bump_id [simp]: "level_id (bump rank l) = level_id l"
  by (simp add: bump_def)

lemma bump_mark [simp]: "unused_since (bump rank l) = unused_since l"
  by (simp add: bump_def)

lemma level_rank_bump: "level_rank (bump rank l) = level_rank l + (if level_rank l \<ge> rank then 1 else 0)"
  by (simp add: bump_def)

lemma bump_less_iff: "level_rank (bump r a) < level_rank (bump r b) \<longleftrightarrow> level_rank a < level_rank b"
  by (auto simp: level_rank_bump)

lemma bump_frees: "level_rank (bump r l) \<noteq> r"
  by (auto simp: level_rank_bump)

text \<open>
  The two statements together are the shift the comment on \<open>openGapAt\<close> describes, and no row
  visit in either collides: the first sends the selected ranks to distinct negatives while every
  other rank is positive, the second sends those negatives above everything the first left.
\<close>

lemma openGapAt_eq:
  assumes dist: "distinct (map level_rank lv)"
    and pos: "list_all (\<lambda>l. 1 \<le> level_rank l) lv"
    and room: "list_all (\<lambda>l. rank \<le> level_rank l \<longrightarrow> level_rank l < mx) lv"
  shows "openGapAt mx rank lv = Inr (map (bump rank) lv)"
proof -
  let ?P = "\<lambda>r. r \<ge> rank" and ?f = "\<lambda>r::int. - (r + 1)"
  let ?lv1 = "map (set_rank ?P ?f) lv"
  have pos': "1 \<le> level_rank l" if "l \<in> set lv" for l
    using pos that by (simp add: list_all_iff)
  have room': "level_rank l < mx" if "l \<in> set lv" "rank \<le> level_rank l" for l
    using room that by (simp add: list_all_iff)
  have one: "update_ranks ?P ?f mx [] lv = Inr ([] @ ?lv1)"
  proof (rule update_ranks_ok [OF dist])
    show "inj_on ?f {r \<in> level_rank ` set lv. ?P r}"
      by (auto simp: inj_on_def)
  next
    fix l assume l: "l \<in> set lv" "?P (level_rank l)"
    show "?f (level_rank l) \<notin> level_rank ` set lv"
    proof
      assume "?f (level_rank l) \<in> level_rank ` set lv"
      then obtain k where "k \<in> set lv" "level_rank k = ?f (level_rank l)" by auto
      then show False using pos' [of k] pos' [of l] l by linarith
    qed
    show "?f (level_rank l) \<le> mx \<and> - mx - 1 \<le> ?f (level_rank l)"
      using pos' [of l] room' [of l] l by linarith
  qed simp
  have dist1: "distinct (map level_rank ?lv1)"
  proof -
    have "inj_on (\<lambda>l. level_rank (set_rank ?P ?f l)) (set lv)"
    proof (rule inj_onI)
      fix a b assume ab: "a \<in> set lv" "b \<in> set lv"
        and "level_rank (set_rank ?P ?f a) = level_rank (set_rank ?P ?f b)"
      then have "level_rank a = level_rank b"
        using pos' [of a] pos' [of b] by (auto simp: set_rank_def split: if_splits)
      then show "a = b" using dist ab by (metis distinct_map inj_onD)
    qed
    moreover have "distinct lv" using dist by (simp add: distinct_map)
    ultimately show ?thesis by (simp add: distinct_map comp_def)
  qed
  have two: "update_ranks (\<lambda>r. r < 0) uminus mx [] ?lv1 = Inr ([] @ map (set_rank (\<lambda>r. r < 0) uminus) ?lv1)"
  proof (rule update_ranks_ok [OF dist1])
    fix l assume "l \<in> set ?lv1" "level_rank l < 0"
    then obtain k where k: "k \<in> set lv" "l = set_rank ?P ?f k" by auto
    with \<open>level_rank l < 0\<close> have kr: "rank \<le> level_rank k" "level_rank l = - (level_rank k + 1)"
      using pos' [of k] by (auto simp: set_rank_def split: if_splits)
    then show "- level_rank l \<le> mx \<and> - mx - 1 \<le> - level_rank l"
      using room' [of k] pos' [of k] k by auto
    show "- level_rank l \<notin> level_rank ` set ?lv1"
    proof
      assume "- level_rank l \<in> level_rank ` set ?lv1"
      then obtain j where "j \<in> set lv" "level_rank (set_rank ?P ?f j) = level_rank k + 1"
        using kr by auto
      then show False using kr pos' [of j] pos' [of k] k by (auto simp: set_rank_def split: if_splits)
    qed
  qed (auto simp: inj_on_def)
  have "set_rank (\<lambda>r. r < 0) uminus (set_rank ?P ?f l) = bump rank l" if "l \<in> set lv" for l
    using pos' [OF that] by (auto simp: set_rank_def bump_def)
  then have "map (set_rank (\<lambda>r. r < 0) uminus) ?lv1 = map (bump rank) lv" by simp
  with one two show ?thesis by (simp add: openGapAt_def)
qed

text \<open>The registry invariant through the gap and through the insert.\<close>

lemma registry_okD:
  assumes "registry_ok mx lv nxt"
  shows "distinct (map level_id lv)" "distinct (map level_rank lv)"
    "l \<in> set lv \<Longrightarrow> 1 \<le> level_rank l" "l \<in> set lv \<Longrightarrow> level_rank l \<le> mx"
    "l \<in> set lv \<Longrightarrow> level_id l < nxt"
  using assms by (auto simp: registry_ok_def list_all_iff)

lemma registry_ok_map:
  assumes "\<And>l. level_id (g l) = level_id l" "\<And>l. level_rank (g l) = level_rank l"
  shows "registry_ok mx (map g lv) nxt = registry_ok mx lv nxt"
  by (simp add: registry_ok_def list_all_iff comp_def assms)

lemma registry_ok_filter: "registry_ok mx lv nxt \<Longrightarrow> registry_ok mx (filter P lv) nxt"
  by (auto simp: registry_ok_def list_all_iff intro: distinct_map_filter_key)

lemma registry_ok_bump:
  assumes ok: "registry_ok mx lv nxt"
    and room: "list_all (\<lambda>l. rank \<le> level_rank l \<longrightarrow> level_rank l < mx) lv"
  shows "registry_ok mx (map (bump rank) lv) nxt"
proof -
  have "inj_on (\<lambda>l. level_rank (bump rank l)) (set lv)"
  proof (rule inj_onI)
    fix a b assume ab: "a \<in> set lv" "b \<in> set lv" and eq: "level_rank (bump rank a) = level_rank (bump rank b)"
    have "level_rank a = level_rank b"
      using eq bump_less_iff [of rank a b] bump_less_iff [of rank b a] by linarith
    then show "a = b" using registry_okD(2) [OF ok] ab by (metis distinct_map inj_onD)
  qed
  moreover have "distinct lv" using registry_okD(1) [OF ok] by (simp add: distinct_map)
  ultimately have "distinct (map level_rank (map (bump rank) lv))" by (simp add: distinct_map comp_def)
  moreover have "map level_id (map (bump rank) lv) = map level_id lv" by simp
  then have "distinct (map level_id (map (bump rank) lv))" using registry_okD(1) [OF ok] by (simp only:)
  ultimately show ?thesis
    using ok room unfolding registry_ok_def list_all_iff by (fastforce simp: level_rank_bump)
qed

lemma createLevelTx_ok:
  assumes ok: "registry_ok mx lv nxt" and "1 \<le> rank"
    and cr: "createLevelTx mx rank lv nxt = Inr (i, lv', nxt')"
  shows "registry_ok mx lv' nxt'" and "i = nxt"
    and "lv' = lv @ [\<lparr>level_id = nxt, level_rank = rank, unused_since = None\<rparr>]"
  using assms
  by (fastforce simp: createLevelTx_def registry_ok_def rankTaken_def list_all_iff list_ex_iff
        split: if_splits)+


section \<open>Placements\<close>

text \<open>
  The rank an id shows after an operation, and the abstract effect of a placement: a new level
  at \<open>t\<close>, every other level kept, in the same relative order.
\<close>

definition rank_in :: "sig_level list \<Rightarrow> int \<Rightarrow> int" where
  "rank_in lv i = joined_rank lv (Some i)"

definition place_level :: "int \<Rightarrow> int \<Rightarrow> sig_level list \<Rightarrow> sig_level list" where
  "place_level t i lv =
     (if rankTaken t lv then map (bump t) lv else lv) @
     [\<lparr>level_id = i, level_rank = t, unused_since = None\<rparr>]"

lemma rank_in_eq:
  "distinct (map level_id lv) \<Longrightarrow> l \<in> set lv \<Longrightarrow> rank_in lv (level_id l) = level_rank l"
  by (simp add: rank_in_def joined_rank_def find_row_distinct)

lemma find_row_append:
  "find_row key k (xs @ ys) = (case find_row key k xs of None \<Rightarrow> find_row key k ys | Some r \<Rightarrow> Some r)"
  by (induction xs) auto

lemma rank_in_place_new:
  assumes "list_all (\<lambda>l. level_id l < i) lv"
  shows "rank_in (place_level t i lv) i = t"
proof -
  have "find_row level_id i (if rankTaken t lv then map (bump t) lv else lv) = None"
    using assms by (auto simp: find_row_None list_all_iff)
  then show ?thesis by (simp add: rank_in_def joined_rank_def place_level_def find_row_append)
qed

lemma rank_in_place_old:
  assumes "distinct (map level_id lv)" "l \<in> set lv"
  shows "rank_in (place_level t i lv) (level_id l) = level_rank (if rankTaken t lv then bump t l else l)"
proof -
  have "find_row level_id (level_id l) lv = Some l" using assms by (rule find_row_distinct)
  then have "find_row level_id (level_id l) (map (bump t) lv) = Some (bump t l)"
    by (simp add: find_row_map)
  with \<open>find_row level_id (level_id l) lv = Some l\<close> show ?thesis
    by (simp add: rank_in_def joined_rank_def place_level_def find_row_append)
qed

lemma place_level_splits:
  assumes "distinct (map level_id lv)" "l \<in> set lv"
  shows "level_rank l < t \<Longrightarrow> rank_in (place_level t i lv) (level_id l) = level_rank l"
    and "t \<le> level_rank l \<Longrightarrow> t < rank_in (place_level t i lv) (level_id l)"
  using assms(2)
  by (auto simp: rank_in_place_old [OF assms] level_rank_bump rankTaken_def list_ex_iff order_le_less)

lemma place_level_order:
  assumes "distinct (map level_id lv)" "a \<in> set lv" "b \<in> set lv"
  shows "rank_in (place_level t i lv) (level_id a) < rank_in (place_level t i lv) (level_id b)
    \<longleftrightarrow> level_rank a < level_rank b"
  using assms by (simp add: rank_in_place_old bump_less_iff)

lemma place_level_keeps_ids: "set (map level_id (place_level t i lv)) = insert i (set (map level_id lv))"
  by (auto simp: place_level_def image_image)

lemma placementTarget_pos: "placementTarget items lv spec = Inr t \<Longrightarrow> 1 \<le> t"
  by (auto simp: placementTarget_def split: sum.splits SignificancePlacement.splits if_splits)

text \<open>
  A placement that the column has room for succeeds once its target is known, and its effect is
  \<open>place_level\<close>: the level returned is new, and the invariant is kept.
\<close>

lemma resolveLevelTx_placement:
  assumes ok: "registry_ok mx lv nxt"
    and room: "list_all (\<lambda>l. level_rank l < mx) lv"
    and pl: "Placement spec \<noteq> PlacementNone"
    and tgt: "placementTarget items lv spec = Inr t" and "t \<le> mx"
  shows "resolveLevelTx items mx spec lv nxt = Inr (nxt, t, place_level t nxt lv, nxt + 1)"
    and "registry_ok mx (place_level t nxt lv) (nxt + 1)"
proof -
  note D = registry_okD [OF ok]
  have t1: "1 \<le> t" using tgt by (rule placementTarget_pos)
  have room': "list_all (\<lambda>l. t \<le> level_rank l \<longrightarrow> level_rank l < mx) lv"
    using room by (simp add: list_all_iff)
  have pos: "list_all (\<lambda>l. 1 \<le> level_rank l) lv" using D(3) by (simp add: list_all_iff)
  let ?lv1 = "if rankTaken t lv then map (bump t) lv else lv"
  have gap: "(if rankTaken t lv then openGapAt mx t lv else Inr lv) = Inr ?lv1"
    using openGapAt_eq [OF D(2) pos room'] by simp
  have ok1: "registry_ok mx ?lv1 nxt"
    using ok registry_ok_bump [OF ok room'] by simp
  have free: "\<not> rankTaken t ?lv1"
    using bump_frees [of t] by (auto simp: rankTaken_def list_ex_iff)
  have create: "createLevelTx mx t ?lv1 nxt = Inr (nxt, place_level t nxt lv, nxt + 1)"
    using free \<open>t \<le> mx\<close> by (simp add: createLevelTx_def place_level_def)
  show "resolveLevelTx items mx spec lv nxt = Inr (nxt, t, place_level t nxt lv, nxt + 1)"
    using pl tgt gap create by (simp add: resolveLevelTx_def)
  show "registry_ok mx (place_level t nxt lv) (nxt + 1)"
    by (rule createLevelTx_ok(1) [OF ok1 t1 create])
qed

text \<open>
  C39. A relative placement puts a new level exactly where its mode says, for every registry with
  room in the column and an anchor below the int32 ceiling: above the anchor means above every
  level at or below it and below every level beyond it, below the anchor likewise, between means
  above the lower and below the upper bound; every level present keeps its id, and no two of
  them change their relative order.
\<close>

theorem placement_positions:
  assumes ok: "registry_ok mx lv nxt"
    and room: "list_all (\<lambda>l. level_rank l < mx) lv"
    and anc: "anchorRank items lv (Anchor spec) (AnchorID spec) (AnchorKindOf spec) = Inr a"
    and a: "a < mx" "a < max_i32" "1 \<le> a"
    and upp: "Placement spec = PlacementBetween \<Longrightarrow>
        anchorRank items lv (Upper spec) (UpperID spec) (UpperKindOf spec) = Inr u \<and> a < u"
    and pl: "Placement spec \<noteq> PlacementNone"
  shows "\<exists>t lv'. resolveLevelTx items mx spec lv nxt = Inr (nxt, t, lv', nxt + 1)
     \<and> registry_ok mx lv' (nxt + 1) \<and> rank_in lv' nxt = t
     \<and> set (map level_id lv') = insert nxt (set (map level_id lv))
     \<and> (\<forall>l \<in> set lv. \<forall>k \<in> set lv.
          rank_in lv' (level_id l) < rank_in lv' (level_id k) \<longleftrightarrow> level_rank l < level_rank k)
     \<and> (\<forall>l \<in> set lv.
          (if level_rank l < a \<or> level_rank l = a \<and> Placement spec \<noteq> PlacementBelow
           then rank_in lv' (level_id l) < t else t < rank_in lv' (level_id l)))
     \<and> (Placement spec = PlacementBetween \<longrightarrow>
          (\<forall>l \<in> set lv. u \<le> level_rank l \<longrightarrow> t < rank_in lv' (level_id l)))"
proof -
  define t where "t = (if Placement spec = PlacementBelow then a else a + 1)"
  have "i32 (a + 1) = a + 1" using a by (intro i32_id) auto
  then have tgt: "placementTarget items lv spec = Inr t"
    using anc a upp pl by (cases "Placement spec") (auto simp: placementTarget_def t_def)
  have tmx: "t \<le> mx" using a by (simp add: t_def)
  note R = resolveLevelTx_placement [OF ok room pl tgt tmx]
  note D = registry_okD [OF ok]
  have fresh: "list_all (\<lambda>l. level_id l < nxt) lv" using D(5) by (simp add: list_all_iff)
  have split: "if level_rank l < a \<or> level_rank l = a \<and> Placement spec \<noteq> PlacementBelow
      then rank_in (place_level t nxt lv) (level_id l) < t
      else t < rank_in (place_level t nxt lv) (level_id l)" if l: "l \<in> set lv" for l
  proof (cases "level_rank l < t")
    case True
    then show ?thesis using place_level_splits(1) [OF D(1) l] by (auto simp: t_def split: if_splits)
  next
    case False
    then show ?thesis using place_level_splits(2) [OF D(1) l, of t nxt] by (auto simp: t_def split: if_splits)
  qed
  have above: "t < rank_in (place_level t nxt lv) (level_id l)"
    if "l \<in> set lv" "u \<le> level_rank l" "Placement spec = PlacementBetween" for l
    using place_level_splits(2) [OF D(1) that(1), of t nxt] that upp by (auto simp: t_def)
  show ?thesis
    using R rank_in_place_new [OF fresh] place_level_keeps_ids [of t nxt lv]
      place_level_order [OF D(1)] split above
    by (intro exI [of _ t] exI [of _ "place_level t nxt lv"]) blast
qed

text \<open>
  The registry of levels 3, 5 and 6 (ids 1, 2, 3) used by the witnesses, and the item tables
  that point at them.
\<close>

definition sample_levels :: "sig_level list" where
  "sample_levels =
     [\<lparr>level_id = 1, level_rank = 5, unused_since = None\<rparr>,
      \<lparr>level_id = 2, level_rank = 3, unused_since = None\<rparr>,
      \<lparr>level_id = 3, level_rank = 6, unused_since = None\<rparr>]"

definition sample_items :: "AnchorKind \<Rightarrow> ident \<Rightarrow> int option option" where
  "sample_items k i = (if k = AnchorMemory \<and> i = ''m'' then Some (Some 1) else None)"

definition sample_spec :: "SignificancePlacement \<Rightarrow> int \<Rightarrow> int \<Rightarrow> SignificanceSpec" where
  "sample_spec p a u = \<lparr>Placement = p, Value = 0, Anchor = a, AnchorID = [], Upper = u, UpperID = [],
     AnchorKindOf = AnchorMemory, UpperKindOf = AnchorMemory\<rparr>"

lemma sample_levels_ok: "registry_ok max_i32 sample_levels 4"
  by (simp add: registry_ok_def sample_levels_def max_i32_def)

lemmas sample_defs = sample_levels_def sample_items_def sample_spec_def

theorem placement_positions_witness:
  "\<exists>t lv'. resolveLevelTx sample_items max_i32 (sample_spec PlacementBetween 5 6) sample_levels 4
       = Inr (4, t, lv', 5) \<and> rank_in lv' 1 < t \<and> t < rank_in lv' 3"
proof -
  have "anchorRank sample_items sample_levels (Anchor (sample_spec PlacementBetween 5 6))
      (AnchorID (sample_spec PlacementBetween 5 6)) (AnchorKindOf (sample_spec PlacementBetween 5 6)) = Inr 5"
    by (simp add: anchorRank_def sample_spec_def)
  moreover have "anchorRank sample_items sample_levels (Upper (sample_spec PlacementBetween 5 6))
      (UpperID (sample_spec PlacementBetween 5 6)) (UpperKindOf (sample_spec PlacementBetween 5 6)) = Inr 6"
    by (simp add: anchorRank_def sample_spec_def)
  moreover have "list_all (\<lambda>l. level_rank l < max_i32) sample_levels"
    by (simp add: sample_levels_def max_i32_def)
  ultimately show ?thesis
    using placement_positions [OF sample_levels_ok, of sample_items "sample_spec PlacementBetween 5 6" 5 6]
    by (fastforce simp: sample_spec_def sample_levels_def max_i32_def)
qed


text \<open>
  Opening a gap never fails on the UNIQUE rank column, whatever order the engine visits the
  rows in: with room at the top of the column both statements succeed and shift exactly the
  levels at or above the target up by one. (A single \<^verbatim>\<open>level_rank + 1\<close> update does fail, on the
  sample registry, which is what the two phases are for.)
\<close>

theorem openGapAt_never_collides:
  assumes "registry_ok mx lv nxt" and "list_all (\<lambda>l. rank \<le> level_rank l \<longrightarrow> level_rank l < mx) lv"
  shows "openGapAt mx rank lv = Inr (map (bump rank) lv)
    \<and> registry_ok mx (map (bump rank) lv) nxt \<and> \<not> rankTaken rank (map (bump rank) lv)
    \<and> update_ranks (\<lambda>r. r \<ge> 5) (\<lambda>r. r + 1) max_i32 [] sample_levels = Inl ErrUnique"
proof -
  have "list_all (\<lambda>l. 1 \<le> level_rank l) lv"
    using registry_okD(3) [OF assms(1)] by (simp add: list_all_iff)
  then have "openGapAt mx rank lv = Inr (map (bump rank) lv)"
    using openGapAt_eq registry_okD(2) [OF assms(1)] assms(2) by blast
  moreover have "\<not> rankTaken rank (map (bump rank) lv)"
    using bump_frees by (auto simp: rankTaken_def list_ex_iff)
  ultimately show ?thesis
    using registry_ok_bump [OF assms] by (simp add: sample_levels_def max_i32_def)
qed

theorem openGapAt_never_collides_witness:
  "openGapAt max_i32 5 sample_levels = Inr (map (bump 5) sample_levels)"
  using openGapAt_never_collides [OF sample_levels_ok, of 5]
  by (simp add: sample_levels_def max_i32_def)

text \<open>
  At the int32 ceiling the arithmetic wraps: a placement ABOVE the anchor 2147483647 is
  resolved to rank 1, below every level in the registry, instead of above the anchor.
\<close>

theorem above_ceiling_wraps_to_bottom:
  assumes ok: "registry_ok mx lv nxt" and room: "list_all (\<lambda>l. level_rank l < mx) lv" and "1 \<le> mx"
    and spec: "Placement spec = PlacementAbove" "AnchorID spec = []" "Anchor spec = max_i32"
  shows "resolveLevelTx items mx spec lv nxt = Inr (nxt, 1, place_level 1 nxt lv, nxt + 1)
    \<and> (\<forall>l \<in> set lv. 1 < rank_in (place_level 1 nxt lv) (level_id l))"
proof -
  have "placementTarget items lv spec = Inr 1"
    using spec by (simp add: placementTarget_def anchorRank_def max_i32_def i32_def)
  then have "resolveLevelTx items mx spec lv nxt = Inr (nxt, 1, place_level 1 nxt lv, nxt + 1)"
    using resolveLevelTx_placement(1) [OF ok room _ _ \<open>1 \<le> mx\<close>] spec by simp
  moreover have "1 < rank_in (place_level 1 nxt lv) (level_id l)" if "l \<in> set lv" for l
    using place_level_splits(2) [OF registry_okD(1) [OF ok] that, of 1 nxt] registry_okD(3) [OF ok that]
    by simp
  ultimately show ?thesis by blast
qed

theorem above_ceiling_wraps_to_bottom_witness:
  "resolveLevelTx sample_items max_i32 (sample_spec PlacementAbove max_i32 0) sample_levels 4
     = Inr (4, 1, place_level 1 4 sample_levels, 5)"
  using above_ceiling_wraps_to_bottom
    [OF sample_levels_ok, of "sample_spec PlacementAbove max_i32 0" sample_items]
  by (simp add: sample_spec_def sample_levels_def max_i32_def)

section \<open>Handing a level out\<close>

text \<open>
  \<open>findLevel\<close> reads a row without a lock; a marked row is claimed, and between the read and the
  claim other connections may commit anything: \<open>interf\<close> is the registry's change in that gap.
  \<open>claimSignificanceLevel\<close> reports whether a marked row with the id was still there.
\<close>

definition claimSignificanceLevel :: "int \<Rightarrow> sig_level list \<Rightarrow> bool \<times> sig_level list" where
  "claimSignificanceLevel i lv =
     (list_ex (\<lambda>l. level_id l = i \<and> unused_since l \<noteq> None) lv,
      map (\<lambda>l. if level_id l = i \<and> unused_since l \<noteq> None then l\<lparr>unused_since := None\<rparr> else l) lv)"

definition findLevel :: "(sig_level list \<Rightarrow> sig_level list) \<Rightarrow> int \<Rightarrow> sig_level list
    \<Rightarrow> int option \<times> sig_level list" where
  "findLevel interf rank lv =
     (case find_row level_rank rank lv of
        None \<Rightarrow> (None, lv)
      | Some l \<Rightarrow>
          (if unused_since l = None then (Some (level_id l), lv)
           else let (claimed, lv') = claimSignificanceLevel (level_id l) (interf lv)
                in (if claimed then Some (level_id l) else None, lv')))"

definition ResolveSignificanceLevel :: "(AnchorKind \<Rightarrow> ident \<Rightarrow> int option option) \<Rightarrow> int
    \<Rightarrow> (sig_level list \<Rightarrow> sig_level list) \<Rightarrow> SignificanceSpec \<Rightarrow> sig_level list \<Rightarrow> int
    \<Rightarrow> registry_error + (int option \<times> int \<times> sig_level list \<times> int)" where
  "ResolveSignificanceLevel items mx interf spec lv nxt =
     (if Placement spec = PlacementNone \<and> Value spec \<le> 0 then Inr (None, 0, lv, nxt)
      else
        case (if Placement spec = PlacementNone then findLevel interf (Value spec) lv else (None, lv)) of
          (Some i, lv') \<Rightarrow> Inr (Some i, Value spec, lv', nxt)
        | (None, lv') \<Rightarrow>
            (case resolveLevelTx items mx spec lv' nxt of
               Inl e \<Rightarrow> Inl e
             | Inr (i, rank, lv'', nxt') \<Rightarrow> Inr (Some i, rank, lv'', nxt')))"

lemma clear_mark_find:
  "find_row level_id i lv = Some l \<Longrightarrow> \<exists>k \<in> set (clear_mark i lv). level_id k = i \<and> unused_since k = None
     \<and> level_rank k = level_rank l"
  by (induction lv) (auto simp: clear_mark_def split: if_splits)

definition handed_out :: "int \<Rightarrow> sig_level list \<Rightarrow> bool" where
  "handed_out i lv \<longleftrightarrow> list_ex (\<lambda>l. level_id l = i \<and> unused_since l = None) lv"

lemma claim_handed_out:
  "fst (claimSignificanceLevel i lv) \<Longrightarrow> handed_out i (snd (claimSignificanceLevel i lv))"
  by (induction lv) (auto simp: claimSignificanceLevel_def handed_out_def)

lemma findLevel_handed_out:
  assumes "findLevel interf rank lv = (Some i, lv')"
  shows "handed_out i lv'"
proof -
  from assms obtain l where l: "find_row level_rank rank lv = Some l"
    by (auto simp: findLevel_def split: option.splits)
  show ?thesis
  proof (cases "unused_since l")
    case None
    with l assms find_row_Some [OF l] show ?thesis
      by (auto simp: findLevel_def handed_out_def list_ex_iff)
  next
    case (Some t)
    with l assms have "fst (claimSignificanceLevel (level_id l) (interf lv))"
      and "i = level_id l" and "lv' = snd (claimSignificanceLevel (level_id l) (interf lv))"
      by (auto simp: findLevel_def split: prod.splits if_splits)
    then show ?thesis by (simp add: claim_handed_out)
  qed
qed

lemma findLevel_registry_ok:
  assumes "registry_ok mx lv nxt" and "registry_ok mx (interf lv) nxt"
  shows "registry_ok mx (snd (findLevel interf rank lv)) nxt"
proof -
  have "registry_ok mx (snd (claimSignificanceLevel k (interf lv))) nxt" for k
    using assms(2) by (simp add: claimSignificanceLevel_def registry_ok_map)
  then show ?thesis
    using assms(1) by (auto simp: findLevel_def split: option.splits prod.splits) (metis snd_conv)
qed

lemma findOrCreateLevelTx_handed_out:
  assumes ok: "registry_ok mx lv nxt" and "findOrCreateLevelTx mx rank lv nxt = Inr (i, lv', nxt')"
  shows "handed_out i lv'"
proof (cases "find_row level_rank rank lv")
  case None
  with assms(2) show ?thesis
    by (auto simp: findOrCreateLevelTx_def createLevelTx_def handed_out_def split: if_splits)
next
  case (Some l)
  then have "l \<in> set lv" by (auto dest: find_row_Some)
  then have "find_row level_id (level_id l) lv = Some l"
    using registry_okD(1) [OF ok] by (simp add: find_row_distinct)
  from clear_mark_find [OF this] \<open>l \<in> set lv\<close> Some assms(2) show ?thesis
    by (auto simp: findOrCreateLevelTx_def handed_out_def list_ex_iff split: if_splits)
qed

lemma resolveLevelTx_handed_out:
  assumes ok: "registry_ok mx lv nxt" and "resolveLevelTx items mx spec lv nxt = Inr (i, r, lv', nxt')"
  shows "handed_out i lv'"
proof (cases "Placement spec = PlacementNone")
  case True
  with assms show ?thesis
    by (auto simp: resolveLevelTx_def intro: findOrCreateLevelTx_handed_out split: sum.splits)
next
  case False
  with assms(2) show ?thesis
    by (auto simp: resolveLevelTx_def createLevelTx_def handed_out_def split: sum.splits if_splits)
qed

text \<open>
  However a significance is resolved, and whatever other connections commit between the
  lock-free read and the claim (as long as the registry stays well formed), the level id handed
  to the write exists in the resulting registry and carries no unused mark, so no reap has a
  clock running on it.
\<close>

theorem resolved_level_exists_unmarked:
  assumes ok: "registry_ok mx lv nxt" and int: "registry_ok mx (interf lv) nxt"
    and res: "ResolveSignificanceLevel items mx interf spec lv nxt = Inr (Some i, r, lv', nxt')"
  shows "handed_out i lv'"
proof -
  obtain f lv1 where f: "(if Placement spec = PlacementNone then findLevel interf (Value spec) lv else (None, lv)) = (f, lv1)"
    by fastforce
  have ok1: "registry_ok mx lv1 nxt"
    using f ok findLevel_registry_ok [of mx lv nxt interf "Value spec"] int by (auto split: if_splits)
  show ?thesis
  proof (cases f)
    case (Some k)
    then show ?thesis
      using f res findLevel_handed_out [of interf "Value spec" lv k lv1]
      by (auto simp: ResolveSignificanceLevel_def split: if_splits)
  next
    case None
    then show ?thesis
      using f res resolveLevelTx_handed_out [OF ok1]
      by (auto simp: ResolveSignificanceLevel_def split: if_splits sum.splits)
  qed
qed

definition marked_levels :: "sig_level list" where
  "marked_levels = [\<lparr>level_id = 7, level_rank = 5, unused_since = Some 100\<rparr>]"

theorem resolved_level_exists_unmarked_witness:
  "ResolveSignificanceLevel sample_items max_i32 (\<lambda>_. []) ((sample_spec PlacementNone 0 0)\<lparr>Value := 5\<rparr>)
      marked_levels 8 = Inr (Some 8, 5, [\<lparr>level_id = 8, level_rank = 5, unused_since = None\<rparr>], 9)
   \<and> handed_out 8 [\<lparr>level_id = 8, level_rank = 5, unused_since = None\<rparr>]"
proof -
  have run: "ResolveSignificanceLevel sample_items max_i32 (\<lambda>_. []) ((sample_spec PlacementNone 0 0)\<lparr>Value := 5\<rparr>)
      marked_levels 8 = Inr (Some 8, 5, [\<lparr>level_id = 8, level_rank = 5, unused_since = None\<rparr>], 9)"
    by (simp add: ResolveSignificanceLevel_def findLevel_def claimSignificanceLevel_def marked_levels_def
        sample_spec_def resolveLevelTx_def findOrCreateLevelTx_def createLevelTx_def rankTaken_def max_i32_def)
  have ok: "registry_ok max_i32 marked_levels 8" "registry_ok max_i32 ((\<lambda>_. []) marked_levels) 8"
    by (simp_all add: registry_ok_def marked_levels_def max_i32_def)
  show ?thesis
    using run resolved_level_exists_unmarked [OF ok run] by blast
qed

end
