(* ===== verification/Record_Writes.thy ===== *)
theory Record_Writes
  imports Delete_By_Filter Significance_Registry
begin

text \<open>
  Writing memories and events: the records and their validation (\<^verbatim>\<open>types/memory.go\<close>, \<^verbatim>\<open>types/event.go\<close>), body
  compression (\<^verbatim>\<open>db/compress.go\<close>), and the storage operations that create, update, merge and replace them
  (\<^verbatim>\<open>db/memory.go\<close>, \<^verbatim>\<open>db/event.go\<close>, \<^verbatim>\<open>db/callbacks.go\<close>, \<^verbatim>\<open>db/search.go\<close>). The gzip library, the clock, fresh ids, the
  failures of statements and what other connections commit between two statements are parameters;
  the content index tables are not modelled.
\<close>

section \<open>Records\<close>

record Memory =
  Mem_Id :: ident
  Mem_TimeStamp :: nanos
  Mem_Significance :: int
  Mem_EventId :: ident
  Mem_Body :: string
  Mem_IsBinary :: bool
  Mem_TimeRecalled :: nanos
  Mem_RecallCount :: int
  Mem_IsSummary :: bool
  Mem_Group :: string
  Mem_Metadata :: metadata
  Mem_ClearMetadata :: bool
  Mem_ClearGroup :: bool
  Mem_Links :: "Link list"
  Mem_LinkSignificance :: int
  Mem_ExternalBytes :: int
  Mem_SignificanceLevelID :: "int option"

record Event =
  Ev_Id :: ident
  Ev_TimeStart :: nanos
  Ev_TimeEnd :: nanos
  Ev_Significance :: int
  Ev_Name :: string
  Ev_Description :: string
  Ev_Links :: "Link list"
  Ev_Group :: string
  Ev_Metadata :: metadata
  Ev_ClearMetadata :: bool
  Ev_ClearGroup :: bool
  Ev_SignificanceLevelID :: "int option"

definition maxClockSkew :: nanos where "maxClockSkew = 5 * 60 * 1000000000"

definition MaxIdBytes :: nat where "MaxIdBytes = 128"

datatype invalid_record = IdMissing | SignificanceNegative | IdTooLong | NoBody | BodyTooLong | GroupTooLong
  | TimestampNegative | ExternalBytesNegative | TimestampInFuture | NoName | NameTooLong | DescriptionTooLong
  | TimeStartNotPositive | TimeStartNegative | TimeEndNegative | EndsBeforeStart | BadMetadata metadata_error | BadLinks

text \<open>The checks common to both records, after their own.\<close>

definition validate_tail :: "metadata \<Rightarrow> Link list \<Rightarrow> ident \<Rightarrow> invalid_record option" where
  "validate_tail md links i =
     (case ValidateMetadata md of Some e \<Rightarrow> Some (BadMetadata e) | None \<Rightarrow> if ValidateLinks links i then None else Some BadLinks)"

definition ValidateInsert :: "nanos \<Rightarrow> int \<Rightarrow> bool \<Rightarrow> Memory \<Rightarrow> invalid_record option" where
  "ValidateInsert now maxMemoryBodyLength update m =
     (if update \<and> Mem_Id m = [] then Some IdMissing
      else if Mem_Significance m < 0 then Some SignificanceNegative
      else if length (Mem_Id m) > MaxIdBytes then Some IdTooLong
      else if \<not> update \<and> Mem_Body m = [] then Some NoBody
      else if maxMemoryBodyLength > 0 \<and> int (length (Mem_Body m) + MetadataSerialisedLen (Mem_Metadata m)) > maxMemoryBodyLength then Some BodyTooLong
      else if length (Mem_Group m) > 128 then Some GroupTooLong
      else if Mem_TimeStamp m < 0 then Some TimestampNegative
      else if Mem_ExternalBytes m < 0 then Some ExternalBytesNegative
      else if Mem_TimeStamp m > now + maxClockSkew then Some TimestampInFuture
      else validate_tail (Mem_Metadata m) (Mem_Links m) (Mem_Id m))"

definition memory_SetDefaults :: "ident \<Rightarrow> nanos \<Rightarrow> Memory \<Rightarrow> Memory" where
  "memory_SetDefaults uuid now m =
     (let m1 = (if Mem_Id m = [] then m\<lparr>Mem_Id := uuid\<rparr> else m) in if Mem_TimeStamp m1 = 0 then m1\<lparr>Mem_TimeStamp := now\<rparr> else m1)"

definition Validate :: "bool \<Rightarrow> Event \<Rightarrow> invalid_record option" where
  "Validate update e =
     (if update \<and> Ev_Id e = [] then Some IdMissing
      else if Ev_Significance e < 0 then Some SignificanceNegative
      else if length (Ev_Id e) > MaxIdBytes then Some IdTooLong
      else if \<not> update \<and> Ev_Name e = [] then Some NoName
      else if length (Ev_Name e) > 256 then Some NameTooLong
      else if length (Ev_Description e) > 1024 then Some DescriptionTooLong
      else if length (Ev_Group e) > 128 then Some GroupTooLong
      else if \<not> update \<and> Ev_TimeStart e \<le> 0 then Some TimeStartNotPositive
      else if update \<and> Ev_TimeStart e < 0 then Some TimeStartNegative
      else if Ev_TimeEnd e < 0 then Some TimeEndNegative
      else if Ev_TimeStart e > 0 \<and> Ev_TimeEnd e > 0 \<and> Ev_TimeEnd e < Ev_TimeStart e then Some EndsBeforeStart
      else validate_tail (Ev_Metadata e) (Ev_Links e) (Ev_Id e))"

definition event_SetDefaults :: "ident \<Rightarrow> nanos \<Rightarrow> Event \<Rightarrow> Event" where
  "event_SetDefaults uuid now e =
     (let e1 = (if Ev_Id e = [] then e\<lparr>Ev_Id := uuid\<rparr> else e) in if Ev_TimeStart e1 = 0 then e1\<lparr>Ev_TimeStart := now\<rparr> else e1)"

section \<open>Bodies at rest\<close>

text \<open>
  What a write is configured with beside the storage settings: the compression policy, the gzip
  library (\<open>None\<close> a failure), how long the engine's metadata column is, how long an event's texts are,
  whether the engine counts changed instead of matched rows, and the limits of the service.
\<close>

record compression =
  cmp_enabled :: bool
  cmp_min_bytes :: int

record write_config =
  wc_db :: db_config
  wc_compression :: compression
  wc_gzip :: "string \<Rightarrow> string option"
  wc_metadata_len :: "metadata \<Rightarrow> int"
  wc_event_len :: "string \<Rightarrow> string \<Rightarrow> metadata \<Rightarrow> int"
  wc_counts_changed :: bool
  wc_max_body :: int
  wc_min_memory :: int
  wc_min_event :: int

definition compressionMinBytesFloor :: int where "compressionMinBytesFloor = 64"

definition defaultCompressionMinBytes :: int where "defaultCompressionMinBytes = 512"

definition SetCompression :: "bool \<Rightarrow> int \<Rightarrow> compression" where
  "SetCompression enabled minBytes =
     (if \<not> enabled then \<lparr>cmp_enabled = False, cmp_min_bytes = 0\<rparr>
      else let m = (if minBytes \<le> 0 then defaultCompressionMinBytes else minBytes)
           in \<lparr>cmp_enabled = True, cmp_min_bytes = (if m < compressionMinBytesFloor then compressionMinBytesFloor else m)\<rparr>)"

definition compressBody :: "write_config \<Rightarrow> string \<Rightarrow> bool \<Rightarrow> string \<times> bool" where
  "compressBody wc raw isBinary =
     (if \<not> cmp_enabled (wc_compression wc) \<or> isBinary \<or> int (length raw) < cmp_min_bytes (wc_compression wc) then (raw, False)
      else case wc_gzip wc raw of
             None \<Rightarrow> (raw, False)
           | Some packed \<Rightarrow> if length packed \<ge> length raw then (raw, False) else (packed, True))"

definition contentIndexMaxBytes :: int where "contentIndexMaxBytes = 524288"

text \<open>\<open>RuneStart\<close> of the standard library: the byte is not a continuation byte.\<close>

definition RuneStart :: "char \<Rightarrow> bool" where
  "RuneStart c \<longleftrightarrow> \<not> cont c"

fun cut_back :: "string \<Rightarrow> nat \<Rightarrow> nat" where
  "cut_back body 0 = 0"
| "cut_back body (Suc n) = (if RuneStart (body ! Suc n) then Suc n else cut_back body n)"

definition truncateForIndex :: "string \<Rightarrow> string" where
  "truncateForIndex body = (if int (length body) \<le> contentIndexMaxBytes then body else take (cut_back body (nat contentIndexMaxBytes)) body)"

definition indexedBodyBytes :: "string \<Rightarrow> bool \<Rightarrow> int" where
  "indexedBodyBytes body isBinary = (if isBinary then 0 else int (length (truncateForIndex body)))"

section \<open>The environment of a write\<close>

text \<open>
  One write: its request environment, the id it would mint, the registry's change between the lock-free
  read of a level and its claim, the failures of its queries and statements, what other connections
  commit before its statement, and the environment of a retried transaction.
\<close>

record write_env =
  we_rpc :: rpc_env
  we_uuid :: ident
  we_interf :: "sig_level list \<Rightarrow> sig_level list"
  we_level_fault :: "write_error option"
  we_exists_fails :: bool
  we_probe_fails :: bool
  we_fault :: "write_error option"
  we_world :: "db_state \<Rightarrow> db_state"
  we_tx_fault :: "nat \<Rightarrow> write_error option"
  we_tx_done :: "nat \<Rightarrow> bool"
  we_tx_world :: "nat \<Rightarrow> db_state \<Rightarrow> db_state"

abbreviation we_now :: "write_env \<Rightarrow> nanos" where "we_now env \<equiv> rpc_now (we_rpc env)"

datatype store_error = Placement_fault placement_fault | Storage write_error | Invalid invalid_record

fun registry_fault :: "registry_error \<Rightarrow> store_error" where
  "registry_fault (ErrInvalidPlacement f) = Placement_fault f"
| "registry_fault ErrUnique = Storage ErrDuplicateKey"
| "registry_fault ErrOutOfRange = Storage ErrOther"

definition level_items :: "db_state \<Rightarrow> AnchorKind \<Rightarrow> ident \<Rightarrow> int option option" where
  "level_items s kind i =
     (case kind of AnchorMemory \<Rightarrow> map_option m_level (find_row m_id i (memories s)) | AnchorEvent \<Rightarrow> map_option e_level (find_row e_id i (events s)))"

text \<open>The registry's part of a write, on the store.\<close>

definition resolve_spec :: "write_config \<Rightarrow> write_env \<Rightarrow> SignificanceSpec \<Rightarrow> db_state \<Rightarrow> (store_error + int option \<times> int) \<times> db_state" where
  "resolve_spec wc env spec s =
     (case we_level_fault env of
        Some e \<Rightarrow> (Inl (Storage e), s)
      | None \<Rightarrow>
          (case ResolveSignificanceLevel (level_items s) (rank_limit (wc_db wc)) (we_interf env) spec (levels s) (next_level_id s) of
             Inl e \<Rightarrow> (Inl (registry_fault e), s)
           | Inr (lid, rank, lv, nxt) \<Rightarrow> (Inr (lid, rank), s\<lparr>levels := lv, next_level_id := nxt\<rparr>)))"

definition absolute_spec :: "int \<Rightarrow> SignificanceSpec" where
  "absolute_spec v = \<lparr>Placement = PlacementNone, Value = v, Anchor = 0, AnchorID = [], Upper = 0, UpperID = [],
     AnchorKindOf = AnchorMemory, UpperKindOf = AnchorMemory\<rparr>"

definition ensureSignificanceLevel :: "write_config \<Rightarrow> write_env \<Rightarrow> int \<Rightarrow> int option \<Rightarrow> db_state \<Rightarrow> (store_error + int option) \<times> db_state" where
  "ensureSignificanceLevel wc env significance levelID s =
     (if levelID \<noteq> None \<or> significance \<le> 0 then (Inr levelID, s)
      else case resolve_spec wc env (absolute_spec significance) s of
             (Inl e, s') \<Rightarrow> (Inl e, s')
           | (Inr (lid, _), s') \<Rightarrow> (Inr lid, s'))"

section \<open>Memories\<close>

text \<open>A statement answers how many rows it affected. With write callbacks on, it and its delivery are one transaction.\<close>

definition write_events_on :: "db_config \<Rightarrow> bool" where
  "write_events_on cfg \<longleftrightarrow> cp_enabled (callbacks cfg) \<and> cp_write_events (callbacks cfg) \<and> callback_table cfg"

definition execMemoryWrite :: "db_config \<Rightarrow> nanos \<Rightarrow> write_error option \<Rightarrow> CallbackKind \<Rightarrow> ident \<Rightarrow> (db_state \<Rightarrow> nat \<times> db_state)
    \<Rightarrow> db_state \<Rightarrow> (write_error + nat) \<times> db_state" where
  "execMemoryWrite cfg now fault kind i stmt s =
     (case fault of
        Some e \<Rightarrow> (Inl e, s)
      | None \<Rightarrow>
          (let (n, s1) = stmt s
           in if \<not> write_events_on cfg then (Inr n, s1)
              else if kind = CallbackKindMemoryStored \<and> n = 0 then (Inr 0, s)
              else let captured = captureMemoryRows cfg [i] (\<lambda>_. 0) (cp_include_bodies (callbacks cfg)) s1
                   in case find_row t_id i captured of
                        None \<Rightarrow> (Inr n, s1)
                      | Some _ \<Rightarrow> (Inr n, queueCallbacks cfg now [new_delivery kind CauseNone 0 [delivery_item captured i]] s1)))"

definition memory_row_of :: "write_config \<Rightarrow> Memory \<Rightarrow> int option \<Rightarrow> memory_row" where
  "memory_row_of wc m lid =
     (let (body, isCompressed) = compressBody wc (Mem_Body m) (Mem_IsBinary m)
      in \<lparr>m_id = Mem_Id m, m_event_id = Mem_EventId m, m_group = Mem_Group m, m_timestamp = Mem_TimeStamp m, m_level = lid,
          m_time_recalled = Mem_TimeRecalled m, m_recall_count = Mem_RecallCount m, m_link_significance = 0, m_body = body,
          m_is_compressed = isCompressed, m_is_binary = Mem_IsBinary m, m_is_summary = Mem_IsSummary m, m_metadata = Mem_Metadata m,
          m_metadata_bytes = wc_metadata_len wc (Mem_Metadata m), m_indexed_bytes = Some (indexedBodyBytes (Mem_Body m) (Mem_IsBinary m)),
          m_external_bytes = Mem_ExternalBytes m\<rparr>)"

definition memoryExists :: "ident \<Rightarrow> db_state \<Rightarrow> bool" where
  "memoryExists i s \<longleftrightarrow> list_ex (\<lambda>r. m_id r = i) (memories s)"

text \<open>The insert skips an id already held.\<close>

definition insert_memory :: "memory_row \<Rightarrow> db_state \<Rightarrow> nat \<times> db_state" where
  "insert_memory row s = (if memoryExists (m_id row) s then (0, s) else (1, s\<lparr>memories := memories s @ [row]\<rparr>))"

definition CreateMemory :: "write_config \<Rightarrow> write_env \<Rightarrow> Memory \<Rightarrow> db_state \<Rightarrow> (store_error + ident) \<times> db_state" where
  "CreateMemory wc env m s =
     (case ensureSignificanceLevel wc env (Mem_Significance m) (Mem_SignificanceLevelID m) s of
        (Inl e, s1) \<Rightarrow> (Inl e, s1)
      | (Inr lid, s1) \<Rightarrow>
          (case execMemoryWrite (wc_db wc) (we_now env) (we_fault env) CallbackKindMemoryStored (Mem_Id m)
                  (insert_memory (memory_row_of wc m lid)) (we_world env s1) of
             (Inl e, s2) \<Rightarrow> (Inl (Storage e), s2)
           | (Inr n, s2) \<Rightarrow> if n = 0 then (Inl (Storage ErrDuplicateKey), s2) else (Inr (Mem_Id m), s2)))"

definition memoryIsBinary :: "ident \<Rightarrow> db_state \<Rightarrow> bool" where
  "memoryIsBinary i s = (case find_row m_id i (memories s) of None \<Rightarrow> False | Some r \<Rightarrow> m_is_binary r)"

definition updatedRowExisted :: "write_config \<Rightarrow> write_env \<Rightarrow> nat \<Rightarrow> bool \<Rightarrow> write_error + bool" where
  "updatedRowExisted wc env n exists =
     (if n > 0 then Inr True
      else if \<not> wc_counts_changed wc then Inr False
      else if we_probe_fails env then Inl ErrOther
      else Inr exists)"

text \<open>The SET list of an update: one assignment per field that carries a value.\<close>

definition memory_sets :: "write_config \<Rightarrow> Memory \<Rightarrow> int option \<Rightarrow> bool \<Rightarrow> (memory_row \<Rightarrow> memory_row) list" where
  "memory_sets wc m lid isBinary =
     (if Mem_TimeStamp m > 0 then [\<lambda>r. r\<lparr>m_timestamp := Mem_TimeStamp m\<rparr>] else [])
     @ (if lid \<noteq> None then [\<lambda>r. r\<lparr>m_level := lid\<rparr>] else [])
     @ (if Mem_EventId m \<noteq> [] then [\<lambda>r. r\<lparr>m_event_id := Mem_EventId m\<rparr>] else [])
     @ (if Mem_Body m \<noteq> []
        then let (body, isCompressed) = compressBody wc (Mem_Body m) isBinary
             in [\<lambda>r. r\<lparr>m_body := body, m_is_compressed := isCompressed, m_indexed_bytes := Some (indexedBodyBytes (Mem_Body m) isBinary)\<rparr>]
        else [])
     @ (if Mem_ClearGroup m then [\<lambda>r. r\<lparr>m_group := []\<rparr>] else if Mem_Group m \<noteq> [] then [\<lambda>r. r\<lparr>m_group := Mem_Group m\<rparr>] else [])
     @ (if Mem_ExternalBytes m > 0 then [\<lambda>r. r\<lparr>m_external_bytes := Mem_ExternalBytes m\<rparr>] else [])
     @ (if Mem_ClearMetadata m then [\<lambda>r. r\<lparr>m_metadata := [], m_metadata_bytes := 0\<rparr>]
        else if Mem_Metadata m \<noteq> [] then [\<lambda>r. r\<lparr>m_metadata := Mem_Metadata m, m_metadata_bytes := wc_metadata_len wc (Mem_Metadata m)\<rparr>]
        else [])"

definition affected_rows :: "write_config \<Rightarrow> ('r \<Rightarrow> ident) \<Rightarrow> ident \<Rightarrow> ('r \<Rightarrow> 'r) \<Rightarrow> 'r list \<Rightarrow> nat" where
  "affected_rows wc key i f rows =
     length (filter (\<lambda>r. key r = i \<and> (wc_counts_changed wc \<longrightarrow> f r \<noteq> r)) rows)"

definition update_rows :: "('r \<Rightarrow> ident) \<Rightarrow> ident \<Rightarrow> ('r \<Rightarrow> 'r) \<Rightarrow> 'r list \<Rightarrow> 'r list" where
  "update_rows key i f rows = map (\<lambda>r. if key r = i then f r else r) rows"

definition UpdateMemory :: "write_config \<Rightarrow> write_env \<Rightarrow> Memory \<Rightarrow> db_state \<Rightarrow> (store_error + bool) \<times> db_state" where
  "UpdateMemory wc env m s =
     (case (if Mem_SignificanceLevelID m = None \<and> Mem_Significance m > 0 then ensureSignificanceLevel wc env (Mem_Significance m) None s
            else (Inr (Mem_SignificanceLevelID m), s)) of
        (Inl e, s1) \<Rightarrow> (Inl e, s1)
      | (Inr lid, s1) \<Rightarrow>
          if Mem_Body m \<noteq> [] \<and> we_probe_fails env then (Inl (Storage ErrOther), s1)
          else let sets = memory_sets wc m lid (memoryIsBinary (Mem_Id m) s1); f = fold (\<lambda>g r. g r) sets; s2 = we_world env s1
               in if sets = [] then (if we_probe_fails env then (Inl (Storage ErrOther), s2) else (Inr (memoryExists (Mem_Id m) s2), s2))
                  else case execMemoryWrite (wc_db wc) (we_now env) (we_fault env) CallbackKindMemoryUpdated (Mem_Id m)
                              (\<lambda>s. (affected_rows wc m_id (Mem_Id m) f (memories s), s\<lparr>memories := update_rows m_id (Mem_Id m) f (memories s)\<rparr>)) s2 of
                         (Inl e, s3) \<Rightarrow> (Inl (Storage e), s3)
                       | (Inr n, s3) \<Rightarrow>
                           (case updatedRowExisted wc env n (memoryExists (Mem_Id m) s3) of
                              Inl e \<Rightarrow> (Inl (Storage e), s3)
                            | Inr existed \<Rightarrow> (Inr existed, s3)))"

definition MergeEventMemories :: "ident \<Rightarrow> ident \<Rightarrow> db_state \<Rightarrow> db_state" where
  "MergeEventMemories toEventId fromEventId s =
     s\<lparr>memories := map (\<lambda>r. if m_event_id r = fromEventId then r\<lparr>m_event_id := toEventId\<rparr> else r) (memories s)\<rparr>"

section \<open>Summaries\<close>

fun storage_error :: "store_error \<Rightarrow> write_error" where
  "storage_error (Storage e) = e"
| "storage_error _ = ErrOther"

definition replace_tx :: "write_config \<Rightarrow> nanos \<Rightarrow> ident \<Rightarrow> string list \<Rightarrow> memory_row \<Rightarrow> db_state \<Rightarrow> (write_error + nat) \<times> db_state" where
  "replace_tx wc now eventId groups row s =
     (let cfg = wc_db wc;
          replacedIds = memoryIdsForEvent eventId groups s;
          delivery = captureMemoryCallback cfg replacedIds CauseSummaryReplace s;
          rows = filter (\<lambda>r. \<not> (m_event_id r = eventId \<and> groupScopeConditions groups (m_group r))) (memories s);
          s1 = queue_delivery cfg now delivery (s\<lparr>memories := rows\<rparr>);
          s2 = queueSearchDeletes cfg now replacedIds (pruneMemoryLinks replacedIds s1)
      in if memoryExists (m_id row) s2 then (Inl ErrDuplicateKey, s)
         else (Inr (length (memories s) - length rows), s2\<lparr>memories := memories s2 @ [row]\<rparr>))"

definition replaceMemoriesWithSummaryOnce :: "write_config \<Rightarrow> write_env \<Rightarrow> ident \<Rightarrow> string list \<Rightarrow> Memory \<Rightarrow> nat \<Rightarrow> db_state
    \<Rightarrow> (write_error + nat) \<times> db_state" where
  "replaceMemoriesWithSummaryOnce wc env eventId groups summary n s =
     (case ensureSignificanceLevel wc env (Mem_Significance summary) (Mem_SignificanceLevelID summary) s of
        (Inl e, s1) \<Rightarrow> (Inl (storage_error e), s1)
      | (Inr lid, s1) \<Rightarrow>
          (case we_tx_fault env n of
             Some e \<Rightarrow> (Inl e, s1)
           | None \<Rightarrow> replace_tx wc (we_now env) eventId groups (memory_row_of wc summary lid) s1))"

definition ReplaceMemoriesWithSummary :: "write_config \<Rightarrow> write_env \<Rightarrow> ident \<Rightarrow> string list \<Rightarrow> Memory \<Rightarrow> db_state \<Rightarrow> (write_error + nat) \<times> db_state" where
  "ReplaceMemoriesWithSummary wc env eventId groups summary s =
     withTxRetry (single_writer (wc_db wc)) (we_tx_done env) (we_tx_world env) (replaceMemoriesWithSummaryOnce wc env eventId groups summary) s"

section \<open>Events\<close>

definition EventExists :: "ident \<Rightarrow> db_state \<Rightarrow> bool" where
  "EventExists i s \<longleftrightarrow> list_ex (\<lambda>e. e_id e = i) (events s)"

definition event_row_of :: "write_config \<Rightarrow> Event \<Rightarrow> int option \<Rightarrow> event_row" where
  "event_row_of wc e lid =
     \<lparr>e_id = Ev_Id e, e_group = Ev_Group e, e_time_start = Ev_TimeStart e, e_time_end = Ev_TimeEnd e, e_level = lid,
      e_link_significance = 0, e_memories_consolidated = False, e_name = Ev_Name e, e_description = Ev_Description e,
      e_metadata = Ev_Metadata e, e_payload_bytes = wc_event_len wc (Ev_Name e) (Ev_Description e) (Ev_Metadata e)\<rparr>"

definition CreateEvent :: "write_config \<Rightarrow> write_env \<Rightarrow> Event \<Rightarrow> db_state \<Rightarrow> (store_error + ident) \<times> db_state" where
  "CreateEvent wc env event s =
     (let e = event_SetDefaults (we_uuid env) (we_now env) event
      in case Validate False e of
           Some bad \<Rightarrow> (Inl (Invalid bad), s)
         | None \<Rightarrow>
             (case ensureSignificanceLevel wc env (Ev_Significance e) (Ev_SignificanceLevelID e) s of
                (Inl er, s1) \<Rightarrow> (Inl er, s1)
              | (Inr lid, s1) \<Rightarrow>
                  (let s2 = we_world env s1
                   in case we_fault env of
                        Some er \<Rightarrow> (Inl (Storage er), s2)
                      | None \<Rightarrow> if EventExists (Ev_Id e) s2 then (Inl (Storage ErrDuplicateKey), s2)
                                else (Inr (Ev_Id e), s2\<lparr>events := events s2 @ [event_row_of wc e lid]\<rparr>))))"

text \<open>The texts whose length an event's payload is.\<close>

definition sized :: "write_config \<Rightarrow> event_row \<Rightarrow> event_row" where
  "sized wc r = r\<lparr>e_payload_bytes := wc_event_len wc (e_name r) (e_description r) (e_metadata r)\<rparr>"

definition event_sets :: "write_config \<Rightarrow> Event \<Rightarrow> int option \<Rightarrow> (event_row \<Rightarrow> event_row) list" where
  "event_sets wc e lid =
     (if Ev_TimeStart e > 0 then [\<lambda>r. r\<lparr>e_time_start := Ev_TimeStart e\<rparr>] else [])
     @ (if Ev_TimeEnd e > 0 then [\<lambda>r. r\<lparr>e_time_end := Ev_TimeEnd e\<rparr>] else [])
     @ (if lid \<noteq> None then [\<lambda>r. r\<lparr>e_level := lid\<rparr>] else [])
     @ (if Ev_Name e \<noteq> [] then [\<lambda>r. sized wc (r\<lparr>e_name := Ev_Name e\<rparr>)] else [])
     @ (if Ev_Description e \<noteq> [] then [\<lambda>r. sized wc (r\<lparr>e_description := Ev_Description e\<rparr>)] else [])
     @ (if Ev_ClearGroup e then [\<lambda>r. r\<lparr>e_group := []\<rparr>] else if Ev_Group e \<noteq> [] then [\<lambda>r. r\<lparr>e_group := Ev_Group e\<rparr>] else [])
     @ (if Ev_ClearMetadata e then [\<lambda>r. sized wc (r\<lparr>e_metadata := []\<rparr>)]
        else if Ev_Metadata e \<noteq> [] then [\<lambda>r. sized wc (r\<lparr>e_metadata := Ev_Metadata e\<rparr>)] else [])"

definition UpdateEvent :: "write_config \<Rightarrow> write_env \<Rightarrow> Event \<Rightarrow> db_state \<Rightarrow> (store_error + bool) \<times> db_state" where
  "UpdateEvent wc env e s =
     (case (if Ev_SignificanceLevelID e = None \<and> Ev_Significance e > 0 then ensureSignificanceLevel wc env (Ev_Significance e) None s
            else (Inr (Ev_SignificanceLevelID e), s)) of
        (Inl er, s1) \<Rightarrow> (Inl er, s1)
      | (Inr lid, s1) \<Rightarrow>
          (let sets = event_sets wc e lid; f = fold (\<lambda>g r. g r) sets; s2 = we_world env s1
           in if sets = [] then (if we_probe_fails env then (Inl (Storage ErrOther), s2) else (Inr (EventExists (Ev_Id e) s2), s2))
              else case we_fault env of
                     Some er \<Rightarrow> (Inl (Storage er), s2)
                   | None \<Rightarrow>
                       (let n = affected_rows wc e_id (Ev_Id e) f (events s2); s3 = s2\<lparr>events := update_rows e_id (Ev_Id e) f (events s2)\<rparr>
                        in case updatedRowExisted wc env n (EventExists (Ev_Id e) s3) of
                             Inl er \<Rightarrow> (Inl (Storage er), s3)
                           | Inr existed \<Rightarrow> (Inr existed, s3))))"

section \<open>The registry through a write\<close>

lemma update_ranks_fits:
  "update_ranks P f mx ds ls = Inr lv' \<Longrightarrow> list_all (\<lambda>l. P (level_rank l) \<longrightarrow> f (level_rank l) \<le> mx) ls \<and> lv' = ds @ map (set_rank P f) ls"
  by (induction P f mx ds ls rule: update_ranks.induct) (auto simp: set_rank_def Let_def split: if_splits)

text \<open>A gap that opened had room, so it is the shift of \<open>openGapAt_eq\<close>.\<close>

lemma openGapAt_room:
  assumes ok: "registry_ok mx lv nxt" and gap: "openGapAt mx rank lv = Inr lv'" and "1 \<le> rank"
  shows "list_all (\<lambda>l. rank \<le> level_rank l \<longrightarrow> level_rank l < mx) lv" "lv' = map (bump rank) lv"
proof -
  from gap obtain lv1 where one: "update_ranks (\<lambda>r. r \<ge> rank) (\<lambda>r. - (r + 1)) mx [] lv = Inr lv1"
    and two: "update_ranks (\<lambda>r. r < 0) (\<lambda>r. - r) mx [] lv1 = Inr lv'"
    by (auto simp: openGapAt_def split: sum.splits)
  from update_ranks_fits [OF one] have lv1: "lv1 = map (set_rank (\<lambda>r. r \<ge> rank) (\<lambda>r. - (r + 1))) lv" by simp
  have "list_all (\<lambda>l. level_rank l < 0 \<longrightarrow> - level_rank l \<le> mx) lv1" using update_ranks_fits [OF two] by simp
  then have fits: "level_rank k < 0 \<Longrightarrow> - level_rank k \<le> mx" if "k \<in> set lv1" for k using that by (simp add: list_all_iff)
  have "level_rank l < mx" if "l \<in> set lv" "rank \<le> level_rank l" for l
    using fits [of "set_rank (\<lambda>r. r \<ge> rank) (\<lambda>r. - (r + 1)) l"] that \<open>1 \<le> rank\<close> by (simp add: lv1 set_rank_def)
  then show room: "list_all (\<lambda>l. rank \<le> level_rank l \<longrightarrow> level_rank l < mx) lv" by (simp add: list_all_iff)
  show "lv' = map (bump rank) lv"
    using openGapAt_eq [OF _ _ room] registry_okD [OF ok] gap by (simp add: list_all_iff)
qed

lemma findOrCreateLevelTx_ok:
  assumes "registry_ok mx lv nxt" "1 \<le> rank" "findOrCreateLevelTx mx rank lv nxt = Inr (i, lv', nxt')"
  shows "registry_ok mx lv' nxt'"
proof -
  have "registry_ok mx (clear_mark k lv) nxt" for k using assms(1) by (simp add: clear_mark_def registry_ok_map)
  then show ?thesis
    using assms createLevelTx_ok(1) [OF assms(1,2)] by (auto simp: findOrCreateLevelTx_def split: option.splits if_splits)
qed

lemma resolveLevelTx_ok:
  assumes ok: "registry_ok mx lv nxt" and "Placement spec = PlacementNone \<Longrightarrow> 1 \<le> Value spec"
    and res: "resolveLevelTx items mx spec lv nxt = Inr (i, r, lv', nxt')"
  shows "registry_ok mx lv' nxt'"
proof (cases "Placement spec = PlacementNone")
  case True
  then show ?thesis using res findOrCreateLevelTx_ok [OF ok assms(2)] by (auto simp: resolveLevelTx_def split: sum.splits)
next
  case False
  with res obtain t lv1 where t: "placementTarget items lv spec = Inr t"
    and gap: "(if rankTaken t lv then openGapAt mx t lv else Inr lv) = Inr lv1"
    and create: "createLevelTx mx t lv1 nxt = Inr (i, lv', nxt')"
    by (auto simp: resolveLevelTx_def split: sum.splits)
  have t1: "1 \<le> t" using t by (rule placementTarget_pos)
  have "registry_ok mx lv1 nxt"
    using gap ok openGapAt_room [OF ok _ t1] registry_ok_bump [OF ok] by (auto split: if_splits)
  then show ?thesis using createLevelTx_ok(1) [OF _ t1 create] by simp
qed

lemma ResolveSignificanceLevel_ok:
  assumes ok: "registry_ok mx lv nxt" and "registry_ok mx (interf lv) nxt"
    and res: "ResolveSignificanceLevel items mx interf spec lv nxt = Inr (lid, r, lv', nxt')"
  shows "registry_ok mx lv' nxt'"
proof -
  obtain f lv1 where f: "(if Placement spec = PlacementNone then findLevel interf (Value spec) lv else (None, lv)) = (f, lv1)"
    by fastforce
  have ok1: "registry_ok mx lv1 nxt"
    using f ok findLevel_registry_ok [of mx lv nxt interf "Value spec", OF assms(1,2)] by (auto split: if_splits)
  have "registry_ok mx lv' nxt'" if "resolveLevelTx items mx spec lv1 nxt = Inr (i, r, lv', nxt')" "\<not> (Placement spec = PlacementNone \<and> Value spec \<le> 0)" for i
    using resolveLevelTx_ok [OF ok1 _ that(1)] that(2) by linarith
  then show ?thesis
    using res f ok ok1 by (auto simp: ResolveSignificanceLevel_def split: if_splits option.splits sum.splits)
qed

section \<open>Sound stores\<close>

text \<open>
  What every write keeps: a well-formed store, no memory naming a missing event, and a well-formed
  registry. A frame lemma per helper says which tables it leaves alone.
\<close>

definition sound :: "write_config \<Rightarrow> db_state \<Rightarrow> bool" where
  "sound wc s \<longleftrightarrow> store_ok s \<and> refs_ok s \<and> registry_ok (rank_limit (wc_db wc)) (levels s) (next_level_id s)"

lemma sound_parts: "sound wc s \<longleftrightarrow> mem_ok s \<and> ev_ok s \<and> queues_ok s \<and> refs_ok s \<and> registry_ok (rank_limit (wc_db wc)) (levels s) (next_level_id s)"
  by (auto simp: sound_def store_ok_parts)

definition record_tables :: "db_state \<Rightarrow> memory_row list \<times> event_row list \<times> link_row list \<times> link_row list" where
  "record_tables s = (memories s, events s, memory_links s, event_links s)"

lemma record_tables_eq: "record_tables s' = record_tables s \<longleftrightarrow> memories s' = memories s \<and> events s' = events s
    \<and> memory_links s' = memory_links s \<and> event_links s' = event_links s"
  by (auto simp: record_tables_def)

lemma queueCallbacks_sound: "sound wc s \<Longrightarrow> sound wc (queueCallbacks cfg now ds s)"
  by (simp add: sound_parts mem_ok_def ev_ok_def refs_ok_def has_event_def queue_registry frame_simps queueCallbacks_queues)

text \<open>Interference that leaves a sound store sound and deletes nothing between a check and the write it is for.\<close>

definition keeps_records :: "(db_state \<Rightarrow> db_state) \<Rightarrow> write_config \<Rightarrow> bool" where
  "keeps_records w wc \<longleftrightarrow> (\<forall>s. sound wc s \<longrightarrow> sound wc (w s) \<and> e_id ` set (events s) \<subseteq> e_id ` set (events (w s))
     \<and> m_id ` set (memories s) \<subseteq> m_id ` set (memories (w s)))"

definition careful_writer :: "write_config \<Rightarrow> write_env \<Rightarrow> bool" where
  "careful_writer wc env \<longleftrightarrow>
     (\<forall>s. sound wc s \<longrightarrow> registry_ok (rank_limit (wc_db wc)) (we_interf env (levels s)) (next_level_id s)) \<and>
     keeps_records (we_world env) wc \<and> (\<forall>n. keeps_records (we_tx_world env n) wc)"

lemma resolve_spec_sound:
  assumes "careful_writer wc env" "sound wc s"
  shows "sound wc (snd (resolve_spec wc env spec s))" "record_tables (snd (resolve_spec wc env spec s)) = record_tables s"
proof -
  have "registry_ok (rank_limit (wc_db wc)) (we_interf env (levels s)) (next_level_id s)" using assms by (auto simp: careful_writer_def)
  then show "sound wc (snd (resolve_spec wc env spec s))"
    using assms(2) ResolveSignificanceLevel_ok [of "rank_limit (wc_db wc)" "levels s" "next_level_id s" "we_interf env"]
    by (auto simp: resolve_spec_def sound_parts mem_ok_def ev_ok_def queues_ok_def refs_ok_def has_event_def split: option.splits sum.splits)
  show "record_tables (snd (resolve_spec wc env spec s)) = record_tables s"
    by (auto simp: resolve_spec_def record_tables_def split: option.splits sum.splits)
qed

lemma ensure_sound:
  assumes "careful_writer wc env" "sound wc s"
  shows "sound wc (snd (ensureSignificanceLevel wc env v lid s))" "record_tables (snd (ensureSignificanceLevel wc env v lid s)) = record_tables s"
  using assms(2) resolve_spec_sound [OF assms, of "absolute_spec v"]
  by (auto simp: ensureSignificanceLevel_def split: sum.splits prod.splits)

lemma fresh_link_sum:
  assumes "links_closed ls ids" "i \<notin> set ids"
  shows "link_sum ls i = 0"
proof -
  have "from_id l \<in> set ids \<and> to_id l \<in> set ids" if "l \<in> set ls" for l
    using that assms(1) by (simp add: links_closed_def list_all_iff)
  then have "filter (touches i) ls = []" using assms(2) unfolding filter_empty_conv touches_def by metis
  then show ?thesis by (simp add: link_sum_def)
qed

lemma links_closed_append: "links_closed ls ids \<Longrightarrow> links_closed ls (ids @ ids')"
  by (auto simp: links_closed_def list_all_iff)

lemma EventExists_iff: "EventExists i s \<longleftrightarrow> i \<in> e_id ` set (events s)"
  by (auto simp: EventExists_def list_ex_iff)

lemma mem_ok_map:
  assumes "\<And>r. m_id (f r) = m_id r" "\<And>r. m_link_significance (f r) = m_link_significance r"
  shows "mem_ok (s\<lparr>memories := map f (memories s)\<rparr>) = mem_ok s"
proof -
  have "map m_id (map f (memories s)) = map m_id (memories s)" using assms(1) by simp
  moreover have "agg_ok m_id m_link_significance ls (map f rows) = agg_ok m_id m_link_significance ls rows" for ls rows
    using assms by (simp add: agg_ok_def list.pred_map comp_def)
  ultimately show ?thesis by (simp add: mem_ok_def del: map_map)
qed

lemma insert_memory_sound:
  assumes "sound wc s" "m_link_significance row = 0" "m_event_id row = [] \<or> m_event_id row \<in> e_id ` set (events s)"
  shows "sound wc (snd (insert_memory row s))"
proof (cases "memoryExists (m_id row) s")
  case True
  then show ?thesis using assms(1) by (simp add: insert_memory_def)
next
  case False
  then have fresh: "m_id row \<notin> set (map m_id (memories s))" by (auto simp: memoryExists_def list_ex_iff)
  have M: "mem_ok s" using assms(1) by (simp add: sound_parts)
  have "link_sum (memory_links s) (m_id row) = 0" using M fresh fresh_link_sum unfolding mem_ok_def by blast
  then have "mem_ok (s\<lparr>memories := memories s @ [row]\<rparr>)"
    using M fresh assms(2) by (simp add: mem_ok_def agg_ok_def links_closed_append)
  moreover have "refs_ok (s\<lparr>memories := memories s @ [row]\<rparr>)" using assms(1,3) by (auto simp: sound_parts refs_ok_alt)
  ultimately show ?thesis
    using False assms(1) by (simp add: insert_memory_def sound_parts ev_ok_def queues_ok_def)
qed

lemma map_rows_sound:
  assumes "sound wc s" "\<And>r. m_id (f r) = m_id r" "\<And>r. m_link_significance (f r) = m_link_significance r"
    and "\<And>r. m_event_id (f r) = m_event_id r \<or> m_event_id (f r) \<in> insert [] (e_id ` set (events s))"
  shows "sound wc (s\<lparr>memories := map f (memories s)\<rparr>)"
proof -
  have "refs_ok (s\<lparr>memories := map f (memories s)\<rparr>)"
    unfolding refs_ok_alt
  proof
    fix j assume "j \<in> set (map m_event_id (memories (s\<lparr>memories := map f (memories s)\<rparr>)))"
    then obtain r where r: "r \<in> set (memories s)" "j = m_event_id (f r)" by auto
    have "m_event_id r \<in> insert [] (e_id ` set (events s))" using r(1) assms(1) by (auto simp: sound_parts refs_ok_alt)
    with r(2) assms(4) [of r] show "j \<in> insert [] (e_id ` set (events (s\<lparr>memories := map f (memories s)\<rparr>)))" by auto
  qed
  then show ?thesis using assms(1) mem_ok_map [of f s, OF assms(2,3)] by (simp add: sound_parts ev_ok_def queues_ok_def)
qed

lemma execMemoryWrite_sound:
  "sound wc s \<Longrightarrow> sound wc (snd (stmt s)) \<Longrightarrow> sound wc (snd (execMemoryWrite cfg now fault kind i stmt s))"
  by (auto simp: execMemoryWrite_def Let_def split_beta queueCallbacks_sound split: option.splits)

lemma careful_world_step:
  assumes "careful_writer wc env" "sound wc s"
  shows "sound wc (we_world env s)" "e_id ` set (events s) \<subseteq> e_id ` set (events (we_world env s))"
    "m_id ` set (memories s) \<subseteq> m_id ` set (memories (we_world env s))"
  using assms unfolding careful_writer_def keeps_records_def by blast+

lemma memory_row_of_fields [simp]:
  "m_id (memory_row_of wc m lid) = Mem_Id m" "m_event_id (memory_row_of wc m lid) = Mem_EventId m" "m_group (memory_row_of wc m lid) = Mem_Group m"
  "m_link_significance (memory_row_of wc m lid) = 0" "m_level (memory_row_of wc m lid) = lid"
  "m_time_recalled (memory_row_of wc m lid) = Mem_TimeRecalled m" "m_recall_count (memory_row_of wc m lid) = Mem_RecallCount m"
  "m_timestamp (memory_row_of wc m lid) = Mem_TimeStamp m" "m_metadata (memory_row_of wc m lid) = Mem_Metadata m"
  "m_is_binary (memory_row_of wc m lid) = Mem_IsBinary m" "m_is_summary (memory_row_of wc m lid) = Mem_IsSummary m"
  "m_body (memory_row_of wc m lid) = fst (compressBody wc (Mem_Body m) (Mem_IsBinary m))"
  "m_is_compressed (memory_row_of wc m lid) = snd (compressBody wc (Mem_Body m) (Mem_IsBinary m))"
  by (simp_all add: memory_row_of_def split_beta)

lemma CreateMemory_effect:
  assumes "CreateMemory wc env m s = (Inr i, s')"
  obtains lid s1 where "ensureSignificanceLevel wc env (Mem_Significance m) (Mem_SignificanceLevelID m) s = (Inr lid, s1)"
    "i = Mem_Id m" "i \<notin> m_id ` set (memories (we_world env s1))" "memories s' = memories (we_world env s1) @ [memory_row_of wc m lid]"
    "events s' = events (we_world env s1)" "levels s' = levels (we_world env s1)"
proof -
  obtain r s1 where E0: "ensureSignificanceLevel wc env (Mem_Significance m) (Mem_SignificanceLevelID m) s = (r, s1)" by fastforce
  with assms obtain lid where r: "r = Inr lid" by (cases r) (simp_all add: CreateMemory_def)
  note E = E0 [unfolded r]
  obtain x s2 where X0: "execMemoryWrite (wc_db wc) (we_now env) (we_fault env) CallbackKindMemoryStored (Mem_Id m)
      (insert_memory (memory_row_of wc m lid)) (we_world env s1) = (x, s2)" by fastforce
  with assms E obtain n where x: "x = Inr n" "n \<noteq> 0" "i = Mem_Id m" "s2 = s'"
    by (cases x) (simp_all add: CreateMemory_def split: if_splits)
  note X = X0 [unfolded x(1,4)] and \<open>n \<noteq> 0\<close>
  have f: "we_fault env = None" using X by (cases "we_fault env") (simp_all add: execMemoryWrite_def)
  have new: "\<not> memoryExists (Mem_Id m) (we_world env s1)"
    using X \<open>n \<noteq> 0\<close> by (cases "write_events_on (wc_db wc)") (auto simp: execMemoryWrite_def insert_memory_def f)
  have frame: "memories (snd (execMemoryWrite cfg now None k j (\<lambda>s. (Suc 0, g s)) t)) = memories (g t)"
    "events (snd (execMemoryWrite cfg now None k j (\<lambda>s. (Suc 0, g s)) t)) = events (g t)"
    "levels (snd (execMemoryWrite cfg now None k j (\<lambda>s. (Suc 0, g s)) t)) = levels (g t)" for cfg now k j g t
    by (simp_all add: execMemoryWrite_def Let_def frame_simps split: option.splits)
  let ?g = "\<lambda>s. s\<lparr>memories := memories s @ [memory_row_of wc m lid]\<rparr>"
  have "execMemoryWrite (wc_db wc) (we_now env) None CallbackKindMemoryStored (Mem_Id m) (insert_memory (memory_row_of wc m lid)) (we_world env s1)
      = execMemoryWrite (wc_db wc) (we_now env) None CallbackKindMemoryStored (Mem_Id m) (\<lambda>s. (Suc 0, ?g s)) (we_world env s1)"
    using new by (simp add: execMemoryWrite_def insert_memory_def)
  then have "s' = snd (execMemoryWrite (wc_db wc) (we_now env) None CallbackKindMemoryStored (Mem_Id m) (\<lambda>s. (Suc 0, ?g s)) (we_world env s1))"
    using X f by simp
  then have "memories s' = memories (we_world env s1) @ [memory_row_of wc m lid]" "events s' = events (we_world env s1)" "levels s' = levels (we_world env s1)"
    by (simp_all add: frame)
  moreover have "i \<notin> m_id ` set (memories (we_world env s1))" using new x(3) by (auto simp: memoryExists_def list_ex_iff)
  ultimately show thesis using that [OF E x(3)] by blast
qed

lemma CreateMemory_sound:
  assumes env: "careful_writer wc env" and s: "sound wc s" and "Mem_EventId m = [] \<or> EventExists (Mem_EventId m) s"
  shows "sound wc (snd (CreateMemory wc env m s))"
proof -
  obtain r s1 where E: "ensureSignificanceLevel wc env (Mem_Significance m) (Mem_SignificanceLevelID m) s = (r, s1)" by fastforce
  have s1: "sound wc s1" "events s1 = events s"
    using ensure_sound [OF env s, of "Mem_Significance m" "Mem_SignificanceLevelID m"] E by (simp_all add: record_tables_def)
  note W = careful_world_step [OF env s1(1)]
  show ?thesis
  proof (cases r)
    case (Inr lid)
    have "sound wc (snd (insert_memory (memory_row_of wc m lid) (we_world env s1)))"
      by (rule insert_memory_sound [OF W(1)]) (use assms(3) W(2) s1(2) in \<open>auto simp: EventExists_iff\<close>)
    from execMemoryWrite_sound [of wc "we_world env s1" "insert_memory (memory_row_of wc m lid)", OF W(1) this] show ?thesis using E Inr s1
      by (auto simp: CreateMemory_def split: prod.splits sum.splits) (metis snd_conv)+
  qed (use E s1 in \<open>simp add: CreateMemory_def\<close>)
qed

lemma fold_sets: "(\<And>g r. g \<in> set gs \<Longrightarrow> p (g r) = p r) \<Longrightarrow> p (fold (\<lambda>g r. g r) gs r) = p r"
  by (induction gs arbitrary: r) simp_all

lemma fold_sets_choice: "(\<And>g r. g \<in> set gs \<Longrightarrow> p (g r) = p r \<or> p (g r) = v) \<Longrightarrow> p (fold (\<lambda>g r. g r) gs r) = p r \<or> p (fold (\<lambda>g r. g r) gs r) = v"
proof (induction gs arbitrary: r)
  case (Cons g gs)
  have "p (g r) = p r \<or> p (g r) = v" by (rule Cons.prems) simp
  moreover have "p (fold (\<lambda>g r. g r) gs (g r)) = p (g r) \<or> p (fold (\<lambda>g r. g r) gs (g r)) = v"
    by (rule Cons.IH) (rule Cons.prems, simp)
  ultimately show ?case by (simp, metis)
qed simp

lemma memory_sets_frame:
  "g \<in> set (memory_sets wc m lid b) \<Longrightarrow> m_id (g r) = m_id r" "g \<in> set (memory_sets wc m lid b) \<Longrightarrow> m_link_significance (g r) = m_link_significance r"
  "g \<in> set (memory_sets wc m lid b) \<Longrightarrow> m_time_recalled (g r) = m_time_recalled r" "g \<in> set (memory_sets wc m lid b) \<Longrightarrow> m_recall_count (g r) = m_recall_count r"
  "g \<in> set (memory_sets wc m lid b) \<Longrightarrow> m_is_binary (g r) = m_is_binary r" "g \<in> set (memory_sets wc m lid b) \<Longrightarrow> m_is_summary (g r) = m_is_summary r"
  "g \<in> set (memory_sets wc m lid b) \<Longrightarrow> m_event_id (g r) = m_event_id r \<or> Mem_EventId m \<noteq> [] \<and> m_event_id (g r) = Mem_EventId m"
  by (auto simp: memory_sets_def split: if_splits prod.splits)

lemma memory_sets_fold:
  fixes r :: memory_row
  defines "r' \<equiv> \<lambda>wc m lid b. fold (\<lambda>g r. g r) (memory_sets wc m lid b) r"
  shows "m_id (r' wc m lid b) = m_id r" "m_link_significance (r' wc m lid b) = m_link_significance r"
    "m_event_id (r' wc m lid b) = m_event_id r \<or> m_event_id (r' wc m lid b) = Mem_EventId m"
  unfolding r'_def
  by (rule fold_sets, rule memory_sets_frame, assumption)+ (rule fold_sets_choice, use memory_sets_frame(7) in blast)

lemma UpdateMemory_sound:
  assumes env: "careful_writer wc env" and s: "sound wc s" and "Mem_EventId m = [] \<or> EventExists (Mem_EventId m) s"
  shows "sound wc (snd (UpdateMemory wc env m s))"
proof -
  let ?e = "if Mem_SignificanceLevelID m = None \<and> Mem_Significance m > 0 then ensureSignificanceLevel wc env (Mem_Significance m) None s
            else (Inr (Mem_SignificanceLevelID m), s)"
  obtain r s1 where E: "?e = (r, s1)" by fastforce
  have s1: "sound wc s1" "events s1 = events s"
    using ensure_sound [OF env s, of "Mem_Significance m" None] E s by (auto simp: record_tables_def split: if_splits)
  note W = careful_world_step [OF env s1(1)]
  have ev: "Mem_EventId m \<in> insert [] (e_id ` set (events (we_world env s1)))"
    using assms(3) W(2) s1(2) by (auto simp: EventExists_iff)
  have U: "sound wc ((we_world env s1)\<lparr>memories := update_rows m_id (Mem_Id m) (fold (\<lambda>g r. g r) (memory_sets wc m lid b)) (memories (we_world env s1))\<rparr>)" for lid b
  proof -
    let ?f = "\<lambda>r. if m_id r = Mem_Id m then fold (\<lambda>g r. g r) (memory_sets wc m lid b) r else r"
    have "m_event_id (?f r) = m_event_id r \<or> m_event_id (?f r) \<in> insert [] (e_id ` set (events (we_world env s1)))" for r
      using memory_sets_fold(3) [of wc m lid b r] ev by metis
    then show ?thesis unfolding update_rows_def by (intro map_rows_sound [OF W(1)]) (simp_all add: memory_sets_fold(1,2))
  qed
  show ?thesis
  proof (cases r)
    case (Inr lid)
    let ?f = "fold (\<lambda>g r. g r) (memory_sets wc m lid (memoryIsBinary (Mem_Id m) s1))"
    let ?w = "execMemoryWrite (wc_db wc) (we_now env) (we_fault env) CallbackKindMemoryUpdated (Mem_Id m)
       (\<lambda>s. (affected_rows wc m_id (Mem_Id m) ?f (memories s), s\<lparr>memories := update_rows m_id (Mem_Id m) ?f (memories s)\<rparr>)) (we_world env s1)"
    have "sound wc (snd ?w)" by (rule execMemoryWrite_sound [OF W(1)]) (use U in simp)
    then have "sound wc s3" if "?w = (x, s3)" for x s3 using that by simp
    then show ?thesis using E Inr s1(1) W(1) unfolding UpdateMemory_def E
      by (auto simp: Let_def split: prod.splits sum.splits)
  qed (use E s1 in \<open>simp add: UpdateMemory_def\<close>)
qed

lemma MergeEventMemories_sound: "sound wc s \<Longrightarrow> EventExists toId s \<Longrightarrow> sound wc (MergeEventMemories toId fromId s)"
  unfolding MergeEventMemories_def by (rule map_rows_sound) (auto simp: EventExists_iff)

text \<open>A retried transaction keeps what every attempt and every interruption keeps.\<close>

lemma retry_keeps:
  assumes "I s" "\<And>n t. I t \<Longrightarrow> I (world n t)" "\<And>n t. I t \<Longrightarrow> I (snd (fn n t))"
  shows "I (snd (retry_from ctx_done world fn left attempt s))"
  using assms(1)
proof (induction left arbitrary: attempt s)
  case (Suc left)
  obtain r s' where f: "fn attempt s = (r, s')" by fastforce
  then have "I s'" using assms(3) [OF Suc.prems, of attempt] by simp
  then show ?case using f Suc.IH [OF assms(2)] by (auto split: sum.splits)
qed simp

lemma withTxRetry_keeps:
  assumes "I s" "\<And>n t. I t \<Longrightarrow> I (world n t)" "\<And>n t. I t \<Longrightarrow> I (snd (fn n t))"
  shows "I (snd (withTxRetry sw ctx_done world fn s))"
  using assms(3) [OF assms(1)] retry_keeps [of I, OF assms] by (simp add: withTxRetry_def)

lemma memoryIdsForEvent_iff:
  "mem_ok s \<Longrightarrow> r \<in> set (memories s) \<Longrightarrow> m_id r \<in> set (memoryIdsForEvent i groups s) \<longleftrightarrow> m_event_id r = i \<and> groupScopeConditions groups (m_group r)"
  by (auto simp: memoryIdsForEvent_def mem_ok_def distinct_map dest: inj_onD)

text \<open>What a summary leaves: everything outside the replaced set, links aside, and then the summary.\<close>

lemma replace_tx_effect:
  assumes s: "sound wc s" and ev: "m_event_id row \<in> insert [] (e_id ` set (events s))" and row: "m_link_significance row = 0"
    and run: "replace_tx wc now eventId groups row s = (res, s')"
  shows "sound wc s'" "events s' = events s" "Inl e = res \<Longrightarrow> s' = s"
    "Inr n = res \<Longrightarrow> map sans_links (memories s')
        = map sans_links (filter (\<lambda>r. \<not> (m_event_id r = eventId \<and> groupScopeConditions groups (m_group r))) (memories s)) @ [sans_links row]"
    "Inr n = res \<Longrightarrow> n = length (memoryIdsForEvent eventId groups s)"
proof -
  let ?ids = "memoryIdsForEvent eventId groups s"
  let ?P = "\<lambda>r. \<not> (m_event_id r = eventId \<and> groupScopeConditions groups (m_group r))"
  define s2 where "s2 = queueSearchDeletes (wc_db wc) now ?ids (pruneMemoryLinks ?ids
     (queue_delivery (wc_db wc) now (captureMemoryCallback (wc_db wc) ?ids CauseSummaryReplace s) (s\<lparr>memories := filter ?P (memories s)\<rparr>)))"
  have M: "mem_ok s" "refs_ok s" using s by (simp_all add: sound_parts)
  have m2: "memory_links s2 = filter (\<lambda>l. \<not> ends_in ?ids l) (memory_links s)"
    "memories s2 = snd (pruneLinks memoryGraph ?ids (memory_links s, filter ?P (memories s)))"
    by (simp_all add: s2_def frame_simps pruneMemoryLinks_store(1,2))
  have sans: "map sans_links (memories s2) = map sans_links (filter ?P (memories s))" by (simp add: m2 pruneLinks_sans)
  have e2: "events s2 = events s" "event_links s2 = event_links s" "levels s2 = levels s" "next_level_id s2 = next_level_id s"
    by (simp_all add: s2_def frame_simps pruneMemoryLinks_def store_link_defs outbox_registry delivery_registry)
  have "mem_ok s2" by (rule mem_ok_removed(1) [OF M(1) _ m2]) (simp add: memoryIdsForEvent_iff [OF M(1)])
  moreover have "queues_ok (s\<lparr>memories := filter ?P (memories s)\<rparr>)" using s by (simp add: sound_parts queues_ok_def)
  then have "queues_ok s2" by (simp add: s2_def queueSearchDeletes_queues pruneMemoryLinks_queues queue_delivery_queues)
  moreover have "refs_ok s2" using sans_event_ids [OF sans] M(2) by (auto simp: refs_ok_alt e2)
  ultimately have sound2: "sound wc s2" using s by (simp add: sound_parts ev_ok_def e2)
  have r: "replace_tx wc now eventId groups row s = (if memoryExists (m_id row) s2 then (Inl ErrDuplicateKey, s)
      else (Inr (length (memories s) - length (filter ?P (memories s))), s2\<lparr>memories := memories s2 @ [row]\<rparr>))"
    by (simp add: replace_tx_def s2_def Let_def)
  have "sound wc (snd (insert_memory row s2))" by (rule insert_memory_sound [OF sound2 row]) (use ev e2 in auto)
  then show "sound wc s'" using run s unfolding r by (auto simp: insert_memory_def split: if_splits)
  show "events s' = events s" "Inl e = res \<Longrightarrow> s' = s" using run e2 unfolding r by (auto split: if_splits)
  show "Inr n = res \<Longrightarrow> map sans_links (memories s') = map sans_links (filter ?P (memories s)) @ [sans_links row]"
    using run sans unfolding r by (auto split: if_splits)
  show "Inr n = res \<Longrightarrow> n = length ?ids"
    using run sum_length_filter_compl [of ?P "memories s"] unfolding r by (auto simp: memoryIdsForEvent_def split: if_splits)
qed

lemma replaceOnce_sound:
  assumes env: "careful_writer wc env" and s: "sound wc s" and ev: "Mem_EventId summary \<in> insert [] (e_id ` set (events s))"
  shows "sound wc (snd (replaceMemoriesWithSummaryOnce wc env eventId groups summary n s))"
    "events (snd (replaceMemoriesWithSummaryOnce wc env eventId groups summary n s)) = events s"
proof -
  obtain r s1 where E: "ensureSignificanceLevel wc env (Mem_Significance summary) (Mem_SignificanceLevelID summary) s = (r, s1)" by fastforce
  have s1: "sound wc s1" "events s1 = events s"
    using ensure_sound [OF env s, of "Mem_Significance summary" "Mem_SignificanceLevelID summary"] E by (simp_all add: record_tables_def)
  have "sound wc (snd (replace_tx wc (we_now env) eventId groups (memory_row_of wc summary lid) s1)) \<and>
     events (snd (replace_tx wc (we_now env) eventId groups (memory_row_of wc summary lid) s1)) = events s" for lid
    using replace_tx_effect(1,2) [OF s1(1), of "memory_row_of wc summary lid", OF _ _ prod.collapse [symmetric], of "we_now env" eventId groups]
      ev s1(2) by simp
  then show "sound wc (snd (replaceMemoriesWithSummaryOnce wc env eventId groups summary n s))"
    "events (snd (replaceMemoriesWithSummaryOnce wc env eventId groups summary n s)) = events s"
    using E s1 by (auto simp: replaceMemoriesWithSummaryOnce_def split: sum.splits option.splits)
qed

lemma Replace_sound:
  assumes env: "careful_writer wc env" and "sound wc s" "Mem_EventId summary \<in> insert [] (e_id ` set (events s))"
  shows "sound wc (snd (ReplaceMemoriesWithSummary wc env eventId groups summary s))"
proof -
  let ?I = "\<lambda>t. sound wc t \<and> Mem_EventId summary \<in> insert [] (e_id ` set (events t))"
  have "?I (snd (ReplaceMemoriesWithSummary wc env eventId groups summary s))"
    unfolding ReplaceMemoriesWithSummary_def
  proof (rule withTxRetry_keeps [where I = ?I])
    fix n t assume "?I t"
    then show "?I (we_tx_world env n t)" using env unfolding careful_writer_def keeps_records_def by blast
  next
    fix n t assume "?I t"
    then show "?I (snd (replaceMemoriesWithSummaryOnce wc env eventId groups summary n t))"
      using replaceOnce_sound [OF env, of t summary eventId groups n] by simp
  qed (use assms in simp)
  then show ?thesis by blast
qed

lemma ev_ok_map:
  assumes "\<And>r. e_id (f r) = e_id r" "\<And>r. e_link_significance (f r) = e_link_significance r"
  shows "ev_ok (s\<lparr>events := map f (events s)\<rparr>) = ev_ok s"
proof -
  have "map e_id (map f (events s)) = map e_id (events s)" using assms(1) by simp
  moreover have "agg_ok e_id e_link_significance ls (map f rows) = agg_ok e_id e_link_significance ls rows" for ls rows
    using assms by (simp add: agg_ok_def list.pred_map comp_def)
  ultimately show ?thesis by (simp add: ev_ok_def del: map_map)
qed

lemma map_events_sound:
  assumes "sound wc s" "\<And>r. e_id (f r) = e_id r" "\<And>r. e_link_significance (f r) = e_link_significance r"
  shows "sound wc (s\<lparr>events := map f (events s)\<rparr>)"
  using assms ev_ok_map [of f s, OF assms(2,3)]
  by (simp add: sound_parts mem_ok_def queues_ok_def refs_ok_alt image_image)

lemma insert_event_sound:
  assumes "sound wc s" "e_link_significance row = 0" "\<not> EventExists (e_id row) s"
  shows "sound wc (s\<lparr>events := events s @ [row]\<rparr>)"
proof -
  have E: "ev_ok s" "e_id row \<notin> set (map e_id (events s))" using assms(1,3) by (auto simp: sound_parts EventExists_iff)
  have "link_sum (event_links s) (e_id row) = 0" using E fresh_link_sum unfolding ev_ok_def by blast
  then have "ev_ok (s\<lparr>events := events s @ [row]\<rparr>)" using E assms(2) by (simp add: ev_ok_def agg_ok_def links_closed_append)
  then show ?thesis using assms(1) by (auto simp: sound_parts mem_ok_def queues_ok_def refs_ok_alt)
qed

lemma CreateEvent_sound:
  assumes env: "careful_writer wc env" and s: "sound wc s"
  shows "sound wc (snd (CreateEvent wc env e s))"
proof -
  let ?e = "event_SetDefaults (we_uuid env) (we_now env) e"
  obtain r s1 where E: "ensureSignificanceLevel wc env (Ev_Significance ?e) (Ev_SignificanceLevelID ?e) s = (r, s1)" by fastforce
  have s1: "sound wc s1" using ensure_sound(1) [OF env s, of "Ev_Significance ?e" "Ev_SignificanceLevelID ?e"] E by simp
  note W = careful_world_step [OF env s1]
  show ?thesis
    using s s1 W(1) E insert_event_sound [OF W(1), of "event_row_of wc ?e lid" for lid]
    by (auto simp: CreateEvent_def Let_def event_row_of_def split: option.splits sum.splits)
qed

lemma event_sets_frame:
  "g \<in> set (event_sets wc e lid) \<Longrightarrow> e_id (g r) = e_id r" "g \<in> set (event_sets wc e lid) \<Longrightarrow> e_link_significance (g r) = e_link_significance r"
  "g \<in> set (event_sets wc e lid) \<Longrightarrow> e_memories_consolidated (g r) = e_memories_consolidated r"
  by (auto simp: event_sets_def sized_def split: if_splits)

lemma event_sets_fold:
  "e_id (fold (\<lambda>g r. g r) (event_sets wc e lid) r) = e_id r"
  "e_link_significance (fold (\<lambda>g r. g r) (event_sets wc e lid) r) = e_link_significance r"
  by (rule fold_sets, rule event_sets_frame, assumption)+

lemma UpdateEvent_sound:
  assumes env: "careful_writer wc env" and s: "sound wc s"
  shows "sound wc (snd (UpdateEvent wc env e s))"
proof -
  let ?e = "if Ev_SignificanceLevelID e = None \<and> Ev_Significance e > 0 then ensureSignificanceLevel wc env (Ev_Significance e) None s
            else (Inr (Ev_SignificanceLevelID e), s)"
  obtain r s1 where E: "?e = (r, s1)" by fastforce
  have s1: "sound wc s1" using ensure_sound(1) [OF env s, of "Ev_Significance e" None] E s by (auto split: if_splits)
  note W = careful_world_step [OF env s1]
  have "sound wc ((we_world env s1)\<lparr>events := update_rows e_id (Ev_Id e) (fold (\<lambda>g r. g r) (event_sets wc e lid)) (events (we_world env s1))\<rparr>)" for lid
    unfolding update_rows_def by (rule map_events_sound [OF W(1)]) (simp_all add: event_sets_fold)
  then show ?thesis using s1 W(1) unfolding UpdateEvent_def E
    by (auto simp: Let_def split: sum.splits option.splits)
qed

section \<open>Partial updates\<close>

text \<open>The row a partial update means: each field the request carries, and every other field as it was.\<close>

definition patched :: "write_config \<Rightarrow> Memory \<Rightarrow> int option \<Rightarrow> memory_row \<Rightarrow> memory_row" where
  "patched wc m lid r =
     r\<lparr>m_timestamp := (if Mem_TimeStamp m > 0 then Mem_TimeStamp m else m_timestamp r),
       m_level := (if lid \<noteq> None then lid else m_level r),
       m_event_id := (if Mem_EventId m \<noteq> [] then Mem_EventId m else m_event_id r),
       m_body := (if Mem_Body m \<noteq> [] then fst (compressBody wc (Mem_Body m) (m_is_binary r)) else m_body r),
       m_is_compressed := (if Mem_Body m \<noteq> [] then snd (compressBody wc (Mem_Body m) (m_is_binary r)) else m_is_compressed r),
       m_indexed_bytes := (if Mem_Body m \<noteq> [] then Some (indexedBodyBytes (Mem_Body m) (m_is_binary r)) else m_indexed_bytes r),
       m_group := (if Mem_ClearGroup m then [] else if Mem_Group m \<noteq> [] then Mem_Group m else m_group r),
       m_external_bytes := (if Mem_ExternalBytes m > 0 then Mem_ExternalBytes m else m_external_bytes r),
       m_metadata := (if Mem_ClearMetadata m then [] else if Mem_Metadata m \<noteq> [] then Mem_Metadata m else m_metadata r),
       m_metadata_bytes := (if Mem_ClearMetadata m then 0 else if Mem_Metadata m \<noteq> [] then wc_metadata_len wc (Mem_Metadata m) else m_metadata_bytes r)\<rparr>"

lemma memory_sets_patched: "fold (\<lambda>g r. g r) (memory_sets wc m lid (m_is_binary r)) r = patched wc m lid r"
  by (simp add: memory_sets_def patched_def split_beta)

text \<open>An engine that counts changed rows and one that counts matched rows give the same answer.\<close>

lemma affected_rows_existed:
  assumes "\<not> we_probe_fails env" "\<And>r. key (f r) = key r"
  shows "updatedRowExisted wc env (affected_rows wc key i f rows) (list_ex (\<lambda>r. key r = i) (update_rows key i f rows))
    = Inr (list_ex (\<lambda>r. key r = i) rows)"
proof -
  have "key (if key r = i then f r else r) = key r" for r using assms(2) by simp
  then have "list_ex (\<lambda>r. key r = i) (update_rows key i f rows) = list_ex (\<lambda>r. key r = i) rows"
    by (simp only: update_rows_def list_ex_iff set_map bex_simps)
  then show ?thesis using assms(1) by (auto simp: updatedRowExisted_def affected_rows_def list_ex_iff filter_empty_conv)
qed

definition updated_store :: "db_config \<Rightarrow> nanos \<Rightarrow> ident \<Rightarrow> (db_state \<Rightarrow> db_state) \<Rightarrow> db_state \<Rightarrow> db_state" where
  "updated_store cfg now i g s = snd (execMemoryWrite cfg now None CallbackKindMemoryUpdated i (\<lambda>s. (0, g s)) s)"

lemma exec_update:
  "execMemoryWrite cfg now fault CallbackKindMemoryUpdated i (\<lambda>s. (n s, g s)) s =
     (case fault of Some e \<Rightarrow> (Inl e, s) | None \<Rightarrow> (Inr (n s), updated_store cfg now i g s))"
  by (simp add: execMemoryWrite_def updated_store_def Let_def split: option.splits)

lemma updated_store_memories: "memories (updated_store cfg now i g s) = memories (g s)"
  by (simp add: execMemoryWrite_def updated_store_def Let_def frame_simps split: option.splits)

lemma compressBody_dialect: "compressBody (wc\<lparr>wc_counts_changed := b\<rparr>) = compressBody wc"
  by (intro ext) (simp add: compressBody_def)

lemma ensure_dialect: "ensureSignificanceLevel (wc\<lparr>wc_counts_changed := b\<rparr>) = ensureSignificanceLevel wc"
proof -
  have "wc_db (wc\<lparr>wc_counts_changed := b\<rparr>) = wc_db wc" by simp
  then show ?thesis by (intro ext) (simp only: ensureSignificanceLevel_def resolve_spec_def)
qed

lemma sets_dialect:
  "memory_sets (wc\<lparr>wc_counts_changed := b\<rparr>) = memory_sets wc" "event_sets (wc\<lparr>wc_counts_changed := b\<rparr>) = event_sets wc"
  by (intro ext; simp add: memory_sets_def compressBody_dialect event_sets_def sized_def)+

lemma UpdateMemory_existed:
  assumes "\<not> we_probe_fails env"
  shows "UpdateMemory wc env m s =
     (case (if Mem_SignificanceLevelID m = None \<and> Mem_Significance m > 0 then ensureSignificanceLevel wc env (Mem_Significance m) None s
            else (Inr (Mem_SignificanceLevelID m), s)) of
        (Inl e, s1) \<Rightarrow> (Inl e, s1)
      | (Inr lid, s1) \<Rightarrow>
          (let sets = memory_sets wc m lid (memoryIsBinary (Mem_Id m) s1); f = fold (\<lambda>g r. g r) sets; s2 = we_world env s1
           in if sets = [] then (Inr (memoryExists (Mem_Id m) s2), s2)
              else case we_fault env of
                     Some e \<Rightarrow> (Inl (Storage e), s2)
                   | None \<Rightarrow> (Inr (memoryExists (Mem_Id m) s2),
                       updated_store (wc_db wc) (we_now env) (Mem_Id m) (\<lambda>s. s\<lparr>memories := update_rows m_id (Mem_Id m) f (memories s)\<rparr>) s2)))"
proof -
  have "updatedRowExisted wc env (affected_rows wc m_id (Mem_Id m) (fold (\<lambda>g r. g r) (memory_sets wc m lid b)) (memories t))
      (memoryExists (Mem_Id m) (updated_store (wc_db wc) (we_now env) (Mem_Id m)
         (\<lambda>s. s\<lparr>memories := update_rows m_id (Mem_Id m) (fold (\<lambda>g r. g r) (memory_sets wc m lid b)) (memories s)\<rparr>) t)) = Inr (memoryExists (Mem_Id m) t)" for lid b t
    using affected_rows_existed [OF assms, of m_id "fold (\<lambda>g r. g r) (memory_sets wc m lid b)" wc "Mem_Id m" "memories t"]
    by (simp add: memoryExists_def updated_store_memories memory_sets_fold)
  then show ?thesis
    unfolding UpdateMemory_def Let_def exec_update using assms by (auto split: sum.splits prod.splits option.splits)
qed

lemma UpdateEvent_existed:
  assumes "\<not> we_probe_fails env"
  shows "UpdateEvent wc env e s =
     (case (if Ev_SignificanceLevelID e = None \<and> Ev_Significance e > 0 then ensureSignificanceLevel wc env (Ev_Significance e) None s
            else (Inr (Ev_SignificanceLevelID e), s)) of
        (Inl er, s1) \<Rightarrow> (Inl er, s1)
      | (Inr lid, s1) \<Rightarrow>
          (let sets = event_sets wc e lid; f = fold (\<lambda>g r. g r) sets; s2 = we_world env s1
           in if sets = [] then (Inr (EventExists (Ev_Id e) s2), s2)
              else case we_fault env of
                     Some er \<Rightarrow> (Inl (Storage er), s2)
                   | None \<Rightarrow> (Inr (EventExists (Ev_Id e) s2), s2\<lparr>events := update_rows e_id (Ev_Id e) f (events s2)\<rparr>)))"
proof -
  have "updatedRowExisted wc env (affected_rows wc e_id (Ev_Id e) (fold (\<lambda>g r. g r) (event_sets wc e lid)) (events t))
      (EventExists (Ev_Id e) (t\<lparr>events := update_rows e_id (Ev_Id e) (fold (\<lambda>g r. g r) (event_sets wc e lid)) (events t)\<rparr>)) = Inr (EventExists (Ev_Id e) t)" for lid t
    using affected_rows_existed [OF assms, of e_id "fold (\<lambda>g r. g r) (event_sets wc e lid)" wc "Ev_Id e" "events t"]
    by (simp add: EventExists_def event_sets_fold)
  then show ?thesis
    unfolding UpdateEvent_def Let_def using assms by (auto split: sum.splits prod.splits option.splits)
qed

end
