(* ===== verification/Write_Handlers.thy ===== *)
theory Write_Handlers
  imports Record_Writes
begin

text \<open>
  The handlers that write records (\<^verbatim>\<open>hippocampus/memory.go\<close>, \<^verbatim>\<open>hippocampus/event.go\<close>, \<^verbatim>\<open>hippocampus/significance.go\<close>,
  \<^verbatim>\<open>hippocampus/link.go\<close>): storing one memory or a batch, updating, summarising an event's memories, and
  storing, updating, ending, ranking, merging and deleting events. A handler answers with an error or a
  response, the store, and the calls it made to the separate search index, in order. Telemetry and the
  cached list of summarisation candidates are left out.
\<close>

section \<open>Messages\<close>

record placement_request =
  pl_mode :: SignificancePlacement
  pl_anchor :: int
  pl_anchor_id :: ident
  pl_upper :: int
  pl_upper_id :: ident

record proto_memory =
  pm_id :: ident
  pm_time_stamp :: nanos
  pm_significance :: int
  pm_event_id :: ident
  pm_body :: string
  pm_is_binary :: TriState
  pm_time_recalled :: nanos
  pm_recall_count :: int
  pm_is_summary :: bool
  pm_group :: string
  pm_links :: "Link list"
  pm_link_significance :: int
  pm_external_bytes :: int
  pm_metadata :: metadata
  pm_clear_metadata :: bool
  pm_clear_group :: bool
  pm_placement :: "placement_request option"

record proto_event =
  pe_id :: ident
  pe_time_start :: nanos
  pe_time_end :: nanos
  pe_significance :: int
  pe_name :: string
  pe_description :: string
  pe_links :: "Link list"
  pe_group :: string
  pe_metadata :: metadata
  pe_clear_metadata :: bool
  pe_clear_group :: bool
  pe_placement :: "placement_request option"
  pe_memories :: "proto_memory list"

definition MemoryFromProto :: "proto_memory \<Rightarrow> Memory" where
  "MemoryFromProto p = \<lparr>Mem_Id = pm_id p, Mem_TimeStamp = pm_time_stamp p, Mem_Significance = pm_significance p, Mem_EventId = pm_event_id p,
     Mem_Body = pm_body p, Mem_IsBinary = (pm_is_binary p = TriStateTrue), Mem_TimeRecalled = pm_time_recalled p, Mem_RecallCount = pm_recall_count p,
     Mem_IsSummary = pm_is_summary p, Mem_Group = pm_group p, Mem_Metadata = pm_metadata p, Mem_ClearMetadata = pm_clear_metadata p,
     Mem_ClearGroup = pm_clear_group p, Mem_Links = pm_links p, Mem_LinkSignificance = 0, Mem_ExternalBytes = pm_external_bytes p,
     Mem_SignificanceLevelID = None\<rparr>"

definition EventFromProto :: "proto_event \<Rightarrow> Event" where
  "EventFromProto p = \<lparr>Ev_Id = pe_id p, Ev_TimeStart = pe_time_start p, Ev_TimeEnd = pe_time_end p, Ev_Significance = pe_significance p,
     Ev_Name = pe_name p, Ev_Description = pe_description p, Ev_Links = pe_links p, Ev_Group = pe_group p, Ev_Metadata = pe_metadata p,
     Ev_ClearMetadata = pe_clear_metadata p, Ev_ClearGroup = pe_clear_group p, Ev_SignificanceLevelID = None\<rparr>"

text \<open>What a handler asks of the search index.\<close>

datatype search_op = IndexMemory ident | DropMemories "ident list" | DropByEventId ident | SetEventId ident ident

type_synonym 'a handled = "(rpc_error + 'a) \<times> db_state \<times> search_op list"

definition on_ok :: "rpc_error + 'a \<Rightarrow> db_state \<Rightarrow> ('a \<Rightarrow> 'b handled) \<Rightarrow> 'b handled" where
  "on_ok r s k = (case r of Inl e \<Rightarrow> (Inl e, s, []) | Inr v \<Rightarrow> k v)"

section \<open>Significance\<close>

declare on_ok_def [code_unfold]

definition hasPlacement :: "placement_request option \<Rightarrow> bool" where
  "hasPlacement p \<longleftrightarrow> (case p of None \<Rightarrow> False | Some q \<Rightarrow> pl_mode q \<noteq> PlacementNone)"

definition significanceSpecFromProto :: "int \<Rightarrow> placement_request option \<Rightarrow> AnchorKind \<Rightarrow> SignificanceSpec" where
  "significanceSpecFromProto v p kind =
     (let spec = \<lparr>Placement = PlacementNone, Value = v, Anchor = 0, AnchorID = [], Upper = 0, UpperID = [], AnchorKindOf = kind, UpperKindOf = kind\<rparr>
      in case p of
           None \<Rightarrow> spec
         | Some q \<Rightarrow> if pl_mode q = PlacementNone then spec
                     else spec\<lparr>Placement := pl_mode q, Anchor := pl_anchor q, AnchorID := pl_anchor_id q, Upper := pl_upper q, UpperID := pl_upper_id q\<rparr>)"

text \<open>The level and rank a placement resolves to; \<open>None\<close> when there is nothing to resolve here.\<close>

definition resolveSignificance :: "write_config \<Rightarrow> write_env \<Rightarrow> int \<Rightarrow> placement_request option \<Rightarrow> AnchorKind \<Rightarrow> db_state
    \<Rightarrow> (store_error + (int option \<times> int) option) \<times> db_state" where
  "resolveSignificance wc env v p kind s =
     (if \<not> hasPlacement p then (Inr None, s)
      else case resolve_spec wc env (significanceSpecFromProto v p kind) s of
             (Inl e, s') \<Rightarrow> (Inl e, s')
           | (Inr lr, s') \<Rightarrow> (Inr (Some lr), s'))"

definition resolveMemorySignificance :: "write_config \<Rightarrow> write_env \<Rightarrow> proto_memory \<Rightarrow> Memory \<Rightarrow> db_state \<Rightarrow> (store_error + Memory) \<times> db_state" where
  "resolveMemorySignificance wc env p m s =
     (case resolveSignificance wc env (pm_significance p) (pm_placement p) AnchorMemory s of
        (Inl e, s') \<Rightarrow> (Inl e, s')
      | (Inr None, s') \<Rightarrow> (Inr m, s')
      | (Inr (Some (lid, rank)), s') \<Rightarrow>
          (Inr (m\<lparr>Mem_SignificanceLevelID := (if lid \<noteq> None then lid else Mem_SignificanceLevelID m), Mem_Significance := rank\<rparr>), s'))"

definition resolveEventSignificance :: "write_config \<Rightarrow> write_env \<Rightarrow> int \<Rightarrow> placement_request option \<Rightarrow> Event \<Rightarrow> db_state \<Rightarrow> (store_error + Event) \<times> db_state" where
  "resolveEventSignificance wc env v p e s =
     (case resolveSignificance wc env v p AnchorEvent s of
        (Inl er, s') \<Rightarrow> (Inl er, s')
      | (Inr None, s') \<Rightarrow> (Inr e, s')
      | (Inr (Some (lid, rank)), s') \<Rightarrow>
          (Inr (e\<lparr>Ev_SignificanceLevelID := (if lid \<noteq> None then lid else Ev_SignificanceLevelID e), Ev_Significance := rank\<rparr>), s'))"

text \<open>A bad placement is the caller's fault; any other failure goes through \<open>mapError\<close>.\<close>

fun placement_status :: "store_error \<Rightarrow> rpc_error" where
  "placement_status (Placement_fault f) = InvalidArgument"
| "placement_status e = mapError (storage_error e)"

definition store_status :: "store_error \<Rightarrow> rpc_error" where
  "store_status e = mapError (storage_error e)"

definition below_minimum :: "placement_request option \<Rightarrow> int \<Rightarrow> int \<Rightarrow> bool" where
  "below_minimum p significance minimum \<longleftrightarrow> \<not> hasPlacement p \<and> significance > 0 \<and> significance < minimum"

section \<open>Links of a new record\<close>

definition checkLinkTargets :: "'r linkKind \<Rightarrow> rpc_env \<Rightarrow> request_ctx \<Rightarrow> ident \<Rightarrow> Link list \<Rightarrow> db_state \<Rightarrow> rpc_error + unit" where
  "checkLinkTargets k env ctx i links s =
     (if links = [] then Inr ()
      else if \<not> ValidateLinks links i then Inl InvalidArgument
      else case scopeIds k env ctx (map Id links) s of
             Inl e \<Rightarrow> Inl e
           | Inr _ \<Rightarrow>
               (case missingIds k env (map Id links) s of
                  Inl e \<Rightarrow> Inl (mapError e)
                | Inr missing \<Rightarrow> if missing \<noteq> [] then Inl (NotFound missing) else Inr ()))"

text \<open>The links are written after the record, and a failure is only logged.\<close>

definition storeMemoryLinks :: "write_config \<Rightarrow> write_env \<Rightarrow> ident \<Rightarrow> Link list \<Rightarrow> db_state \<Rightarrow> db_state" where
  "storeMemoryLinks wc env i links s =
     (if links = [] then s else snd (LinkMemories (wc_db wc) (we_tx_fault env) (we_tx_done env) (we_now env) i links s))"

definition storeEventLinks :: "write_config \<Rightarrow> write_env \<Rightarrow> ident \<Rightarrow> Link list \<Rightarrow> db_state \<Rightarrow> db_state" where
  "storeEventLinks wc env i links s =
     (if links = [] then s else snd (LinkEvents (wc_db wc) (we_tx_fault env) (we_tx_done env) (we_now env) i links s))"

section \<open>Storing memories\<close>

datatype store_response = Stored ident | Rejected

text \<open>An event a memory names must be in the caller's scope and exist.\<close>

definition check_event :: "write_env \<Rightarrow> request_ctx \<Rightarrow> ident \<Rightarrow> db_state \<Rightarrow> rpc_error + unit" where
  "check_event env ctx i s =
     (if i = [] then Inr ()
      else case scopeIds eventKind (we_rpc env) ctx [i] s of
             Inl e \<Rightarrow> Inl e
           | Inr _ \<Rightarrow>
               if we_exists_fails env then Inl (mapError ErrOther)
               else if \<not> EventExists i s then Inl FailedPrecondition
               else Inr ())"

definition storeMemory :: "write_config \<Rightarrow> write_env \<Rightarrow> request_ctx \<Rightarrow> proto_memory \<Rightarrow> db_state \<Rightarrow> store_response handled" where
  "storeMemory wc env ctx p s =
     (let m0 = MemoryFromProto p
      in if ValidateInsert (we_now env) (wc_max_body wc) False m0 \<noteq> None then (Inl InvalidArgument, s, [])
         else if below_minimum (pm_placement p) (pm_significance p) (wc_min_memory wc) then (Inr Rejected, s, [])
         else on_ok (writeGroup ctx (Mem_Group m0)) s (\<lambda>group.
              on_ok (check_event env ctx (Mem_EventId m0) s) s (\<lambda>_.
                case resolveMemorySignificance wc env p (m0\<lparr>Mem_Group := group, Mem_TimeRecalled := 0, Mem_RecallCount := 0\<rparr>) s of
                  (Inl e, s1) \<Rightarrow> (Inl (placement_status e), s1, [])
                | (Inr m1, s1) \<Rightarrow>
                    (let m = memory_SetDefaults (we_uuid env) (we_now env) m1
                     in on_ok (checkLinkTargets memoryKind (we_rpc env) ctx (Mem_Id m) (Mem_Links m) s1) s1 (\<lambda>_.
                          case CreateMemory wc env m s1 of
                            (Inl e, s2) \<Rightarrow> (Inl (store_status e), s2, [])
                          | (Inr i, s2) \<Rightarrow> (Inr (Stored i), storeMemoryLinks wc env (Mem_Id m) (Mem_Links m) s2,
                                            if Mem_IsBinary m then [] else [IndexMemory (Mem_Id m)]))))))"

definition maxStoreMemoriesBatch :: nat where "maxStoreMemoriesBatch = 500"

record batch_response =
  br_results :: "(rpc_error + store_response) list"
  br_stored :: nat
  br_rejected :: nat
  br_failed :: nat

definition tally :: "rpc_error + store_response \<Rightarrow> batch_response \<Rightarrow> batch_response" where
  "tally r b = (case r of
       Inl _ \<Rightarrow> b\<lparr>br_failed := br_failed b + 1, br_results := br_results b @ [r]\<rparr>
     | Inr Rejected \<Rightarrow> b\<lparr>br_rejected := br_rejected b + 1, br_results := br_results b @ [r]\<rparr>
     | Inr (Stored _) \<Rightarrow> b\<lparr>br_stored := br_stored b + 1, br_results := br_results b @ [r]\<rparr>)"

text \<open>Each memory of a batch has its own environment; the caller may be gone before any of them.\<close>

fun store_each :: "write_config \<Rightarrow> request_ctx \<Rightarrow> (nat \<Rightarrow> write_env) \<Rightarrow> (nat \<Rightarrow> write_error option) \<Rightarrow> nat \<Rightarrow> proto_memory list
    \<Rightarrow> batch_response \<Rightarrow> db_state \<Rightarrow> search_op list \<Rightarrow> batch_response handled" where
  "store_each wc ctx envs gone n [] b s ops = (Inr b, s, ops)"
| "store_each wc ctx envs gone n (p # ps) b s ops =
     (case gone n of
        Some e \<Rightarrow> (Inl (mapError e), s, ops)
      | None \<Rightarrow> (let (r, s', more) = storeMemory wc (envs n) ctx p s
                 in store_each wc ctx envs gone (Suc n) ps (tally r b) s' (ops @ more)))"

definition no_results :: batch_response where
  "no_results = \<lparr>br_results = [], br_stored = 0, br_rejected = 0, br_failed = 0\<rparr>"

definition StoreMemories :: "write_config \<Rightarrow> request_ctx \<Rightarrow> (nat \<Rightarrow> write_env) \<Rightarrow> (nat \<Rightarrow> write_error option) \<Rightarrow> proto_memory list
    \<Rightarrow> db_state \<Rightarrow> batch_response handled" where
  "StoreMemories wc ctx envs gone ps s =
     (if ps = [] \<or> length ps > maxStoreMemoriesBatch then (Inl InvalidArgument, s, [])
      else store_each wc ctx envs gone 0 ps no_results s [])"

section \<open>Updating a memory\<close>

text \<open>A bound caller may move a record within its groups only, and may not clear the group.\<close>

definition check_move :: "request_ctx \<Rightarrow> string \<Rightarrow> bool \<Rightarrow> rpc_error + unit" where
  "check_move ctx grp clear =
     (case GroupsFromContext ctx of
        None \<Rightarrow> Inr ()
      | Some groups \<Rightarrow> if grp \<noteq> [] \<and> \<not> GroupInScope groups grp \<or> clear then Inl PermissionDenied else Inr ())"

definition rpc_UpdateMemory :: "write_config \<Rightarrow> write_env \<Rightarrow> request_ctx \<Rightarrow> proto_memory \<Rightarrow> db_state \<Rightarrow> unit handled" where
  "rpc_UpdateMemory wc env ctx p s =
     (let m0 = MemoryFromProto p
      in if pm_id p = [] \<or> ValidateInsert (we_now env) (wc_max_body wc) True m0 \<noteq> None then (Inl InvalidArgument, s, [])
         else on_ok (scopeIds memoryKind (we_rpc env) ctx [pm_id p] s) s (\<lambda>_.
              on_ok (check_move ctx (Mem_Group m0) (Mem_ClearGroup m0)) s (\<lambda>_.
              on_ok (check_event env ctx (Mem_EventId m0) s) s (\<lambda>_.
                case resolveMemorySignificance wc env p m0 s of
                  (Inl e, s1) \<Rightarrow> (Inl (placement_status e), s1, [])
                | (Inr m, s1) \<Rightarrow>
                    (case UpdateMemory wc env m s1 of
                       (Inl e, s2) \<Rightarrow> (Inl (store_status e), s2, [])
                     | (Inr ok, s2) \<Rightarrow>
                         if \<not> ok then (Inl (NotFound [pm_id p]), s2, [])
                         else (Inr (), s2,
                           case GetMemoriesByIds [pm_id p] s2 of
                             [r] \<Rightarrow> if read_fails (we_rpc env) \<or> m_is_binary r then [] else [IndexMemory (pm_id p)]
                           | _ \<Rightarrow> []))))))"

section \<open>Summaries\<close>

definition event_in_groups :: "ident \<Rightarrow> string list \<Rightarrow> MemoryFilter" where
  "event_in_groups i groups = no_memory_filter\<lparr>mf_event_id := i, mf_groups := groups\<rparr>"

definition insertSummary :: "write_config \<Rightarrow> write_env \<Rightarrow> request_ctx \<Rightarrow> ident \<Rightarrow> proto_memory \<Rightarrow> db_state \<Rightarrow> (ident \<times> nat) handled" where
  "insertSummary wc env ctx eventId p s =
     (let m0 = (MemoryFromProto p)\<lparr>Mem_EventId := eventId, Mem_IsSummary := True\<rparr>
      in on_ok (writeGroup ctx (Mem_Group m0)) s (\<lambda>group.
         let m1 = m0\<lparr>Mem_Group := group, Mem_TimeRecalled := 0, Mem_RecallCount := 0\<rparr>
         in if ValidateInsert (we_now env) (wc_max_body wc) False m1 \<noteq> None then (Inl InvalidArgument, s, [])
            else if below_minimum (pm_placement p) (Mem_Significance m1) (wc_min_memory wc) then (Inl InvalidArgument, s, [])
            else case resolveMemorySignificance wc env p m1 s of
                   (Inl e, s1) \<Rightarrow> (Inl (placement_status e), s1, [])
                 | (Inr m2, s1) \<Rightarrow>
                     (let m = memory_SetDefaults (we_uuid env) (we_now env) m2;
                          groups = GroupsFromContext ctx
                      in if groups \<noteq> None \<and> read_fails (we_rpc env) then (Inl (mapError ErrOther), s1, [])
                         else let inScope = MemoryIdsMatching (event_in_groups eventId (case groups of None \<Rightarrow> [] | Some gs \<Rightarrow> gs)) s1
                              in case ReplaceMemoriesWithSummary wc env eventId (case groups of None \<Rightarrow> [] | Some gs \<Rightarrow> gs) m (we_world env s1) of
                                   (Inl e, s2) \<Rightarrow> (Inl (mapError e), s2, [])
                                 | (Inr replaced, s2) \<Rightarrow>
                                     (Inr (Mem_Id m, replaced), s2,
                                      [if groups \<noteq> None then DropMemories inScope else DropByEventId eventId, IndexMemory (Mem_Id m)]))))"

definition rpc_ReplaceMemoriesWithSummary :: "write_config \<Rightarrow> write_env \<Rightarrow> request_ctx \<Rightarrow> ident \<Rightarrow> proto_memory \<Rightarrow> db_state \<Rightarrow> (ident \<times> nat) handled" where
  "rpc_ReplaceMemoriesWithSummary wc env ctx eventId p s =
     (if eventId = [] then (Inl Unknown, s, [])
      else on_ok (scopeIds eventKind (we_rpc env) ctx [eventId] s) s (\<lambda>_.
           if we_exists_fails env then (Inl (mapError ErrOther), s, [])
           else if \<not> EventExists eventId s then (Inl (NotFound [eventId]), s, [])
           else insertSummary wc env ctx eventId p s))"

section \<open>Events\<close>

record event_response =
  er_id :: ident
  er_rejected :: bool
  er_memory_count :: nat

text \<open>Nested memories are best effort: the count says how many were retained.\<close>

fun store_nested :: "write_config \<Rightarrow> request_ctx \<Rightarrow> (nat \<Rightarrow> write_env) \<Rightarrow> ident \<Rightarrow> nat \<Rightarrow> proto_memory list \<Rightarrow> nat \<Rightarrow> db_state \<Rightarrow> search_op list
    \<Rightarrow> nat \<times> db_state \<times> search_op list" where
  "store_nested wc ctx envs eid n [] c s ops = (c, s, ops)"
| "store_nested wc ctx envs eid n (p # ps) c s ops =
     (let (r, s', more) = storeMemory wc (envs n) ctx (if pm_event_id p = [] then p\<lparr>pm_event_id := eid\<rparr> else p) s;
          kept = (case r of Inl _ \<Rightarrow> False | Inr Rejected \<Rightarrow> False | Inr (Stored i) \<Rightarrow> i \<noteq> [])
      in store_nested wc ctx envs eid (Suc n) ps (if kept then c + 1 else c) s' (ops @ more))"

definition rpc_StoreEvent :: "write_config \<Rightarrow> write_env \<Rightarrow> (nat \<Rightarrow> write_env) \<Rightarrow> request_ctx \<Rightarrow> proto_event \<Rightarrow> db_state \<Rightarrow> event_response handled" where
  "rpc_StoreEvent wc env envs ctx p s =
     (let e0 = event_SetDefaults (we_uuid env) (we_now env) (EventFromProto p)
      in if Validate False e0 \<noteq> None then (Inl (mapError ErrOther), s, [])
         else on_ok (writeGroup ctx (Ev_Group e0)) s (\<lambda>group.
              if below_minimum (pe_placement p) (pe_significance p) (wc_min_event wc)
              then (Inr \<lparr>er_id = [], er_rejected = True, er_memory_count = 0\<rparr>, s, [])
              else case resolveEventSignificance wc env (pe_significance p) (pe_placement p) (e0\<lparr>Ev_Group := group\<rparr>) s of
                     (Inl er, s1) \<Rightarrow> (Inl (placement_status er), s1, [])
                   | (Inr e, s1) \<Rightarrow>
                       on_ok (checkLinkTargets eventKind (we_rpc env) ctx (Ev_Id e) (Ev_Links e) s1) s1 (\<lambda>_.
                         case CreateEvent wc env e s1 of
                           (Inl er, s2) \<Rightarrow> (Inl (store_status er), s2, [])
                         | (Inr i, s2) \<Rightarrow>
                             (let (c, s3, ops) = store_nested wc ctx envs i 0 (pe_memories p) 0 (storeEventLinks wc env i (Ev_Links e) s2) []
                              in (Inr \<lparr>er_id = i, er_rejected = False, er_memory_count = c\<rparr>, s3, ops)))))"

text \<open>The tail the three event updates share.\<close>

definition update_event :: "write_config \<Rightarrow> write_env \<Rightarrow> Event \<Rightarrow> db_state \<Rightarrow> unit handled" where
  "update_event wc env e s =
     (case UpdateEvent wc env e s of
        (Inl er, s') \<Rightarrow> (Inl (store_status er), s', [])
      | (Inr ok, s') \<Rightarrow> (if ok then Inr () else Inl (NotFound [Ev_Id e]), s', []))"

definition rpc_UpdateEvent :: "write_config \<Rightarrow> write_env \<Rightarrow> request_ctx \<Rightarrow> proto_event \<Rightarrow> db_state \<Rightarrow> unit handled" where
  "rpc_UpdateEvent wc env ctx p s =
     (let e0 = EventFromProto p
      in if pe_id p = [] \<or> Validate True e0 \<noteq> None then (Inl InvalidArgument, s, [])
         else on_ok (scopeIds eventKind (we_rpc env) ctx [pe_id p] s) s (\<lambda>_.
              on_ok (check_move ctx (Ev_Group e0) (Ev_ClearGroup e0)) s (\<lambda>_.
                case resolveEventSignificance wc env (pe_significance p) (pe_placement p) e0 s of
                  (Inl er, s1) \<Rightarrow> (Inl (placement_status er), s1, [])
                | (Inr e, s1) \<Rightarrow> update_event wc env e s1)))"

definition bare_event :: "ident \<Rightarrow> Event" where
  "bare_event i = \<lparr>Ev_Id = i, Ev_TimeStart = 0, Ev_TimeEnd = 0, Ev_Significance = 0, Ev_Name = [], Ev_Description = [], Ev_Links = [],
     Ev_Group = [], Ev_Metadata = [], Ev_ClearMetadata = False, Ev_ClearGroup = False, Ev_SignificanceLevelID = None\<rparr>"

definition rpc_EndEvent :: "write_config \<Rightarrow> write_env \<Rightarrow> request_ctx \<Rightarrow> ident \<Rightarrow> nanos \<Rightarrow> db_state \<Rightarrow> unit handled" where
  "rpc_EndEvent wc env ctx i timeEnd s =
     (if i = [] then (Inl InvalidArgument, s, [])
      else on_ok (scopeIds eventKind (we_rpc env) ctx [i] s) s (\<lambda>_.
           update_event wc env ((bare_event i)\<lparr>Ev_TimeEnd := (if timeEnd = 0 then we_now env else timeEnd)\<rparr>) s))"

definition rpc_UpdateEventSignificance :: "write_config \<Rightarrow> write_env \<Rightarrow> request_ctx \<Rightarrow> ident \<Rightarrow> int \<Rightarrow> placement_request option \<Rightarrow> db_state \<Rightarrow> unit handled" where
  "rpc_UpdateEventSignificance wc env ctx i v p s =
     (if i = [] then (Inl InvalidArgument, s, [])
      else on_ok (scopeIds eventKind (we_rpc env) ctx [i] s) s (\<lambda>_.
           case resolveEventSignificance wc env v p ((bare_event i)\<lparr>Ev_Significance := v\<rparr>) s of
             (Inl er, s1) \<Rightarrow> (Inl (placement_status er), s1, [])
           | (Inr e, s1) \<Rightarrow> update_event wc env e s1))"

definition rpc_MergeEvents :: "write_config \<Rightarrow> write_env \<Rightarrow> request_ctx \<Rightarrow> ident \<Rightarrow> ident \<Rightarrow> db_state \<Rightarrow> unit handled" where
  "rpc_MergeEvents wc env ctx tid fid s =
     (if tid = [] \<or> fid = [] then (Inl Unknown, s, [])
      else on_ok (scopeIds eventKind (we_rpc env) ctx [tid, fid] s) s (\<lambda>_.
           if we_exists_fails env then (Inl (mapError ErrOther), s, [])
           else if \<not> EventExists tid s then (Inl FailedPrecondition, s, [])
           else let s1 = we_world env s
                in case we_fault env of
                     Some e \<Rightarrow> (Inl (mapError e), s1, [])
                   | None \<Rightarrow> (Inr (), MergeEventMemories tid fid s1, [SetEventId fid tid])))"

definition rpc_DeleteEvent :: "write_config \<Rightarrow> write_env \<Rightarrow> request_ctx \<Rightarrow> ident \<Rightarrow> bool \<Rightarrow> bool \<Rightarrow> db_state \<Rightarrow> unit handled" where
  "rpc_DeleteEvent wc env ctx i withMemories ifEmpty s =
     (if i = [] \<or> ifEmpty \<and> withMemories then (Inl InvalidArgument, s, [])
      else on_ok (scopeIds eventKind (we_rpc env) ctx [i] s) s (\<lambda>_.
           case DeleteEventCascade (wc_db wc) (we_tx_fault env) (we_tx_done env) (we_tx_world env) (we_now env) i
                  \<lparr>ecs_delete_memories = withMemories, ecs_only_if_empty = ifEmpty,
                   ecs_groups = (case GroupsFromContext ctx of None \<Rightarrow> [] | Some gs \<Rightarrow> gs)\<rparr> s of
             (Inl e, s') \<Rightarrow> (Inl (mapError e), s', [])
           | (Inr d, s') \<Rightarrow>
               if ed_held_memories d then (Inl FailedPrecondition, s', [])
               else if \<not> ed_deleted d then (Inl (NotFound [i]), s', [])
               else (Inr (), s', (if withMemories \<and> ed_memory_ids d \<noteq> [] then [DropMemories (ed_memory_ids d)] else [])
                                 @ (if ed_detached d > 0 then [SetEventId i []] else []))))"

section \<open>Every handler keeps the store sound\<close>

lemma on_ok_cases: "P (snd (on_ok r s k)) \<longleftrightarrow> (case r of Inl e \<Rightarrow> P (s, []) | Inr v \<Rightarrow> P (snd (k v)))"
  by (simp add: on_ok_def split: sum.splits)

lemma resolveSignificance_sound:
  assumes "careful_writer wc env" "sound wc s"
  shows "sound wc (snd (resolveSignificance wc env v p kind s))" "record_tables (snd (resolveSignificance wc env v p kind s)) = record_tables s"
  using assms(2) resolve_spec_sound [OF assms, of "significanceSpecFromProto v p kind"]
  by (auto simp: resolveSignificance_def split: sum.splits prod.splits)

lemma resolveMemorySignificance_sound:
  assumes "careful_writer wc env" "sound wc s"
  shows "sound wc (snd (resolveMemorySignificance wc env p m s))" "record_tables (snd (resolveMemorySignificance wc env p m s)) = record_tables s"
  using resolveSignificance_sound [OF assms, of "pm_significance p" "pm_placement p" AnchorMemory]
  by (auto simp: resolveMemorySignificance_def split: sum.splits prod.splits option.splits)

lemma resolveEventSignificance_sound:
  assumes "careful_writer wc env" "sound wc s"
  shows "sound wc (snd (resolveEventSignificance wc env v p e s))" "record_tables (snd (resolveEventSignificance wc env v p e s)) = record_tables s"
  using resolveSignificance_sound [OF assms, of v p AnchorEvent]
  by (auto simp: resolveEventSignificance_def split: sum.splits prod.splits option.splits)

lemma resolveMemorySignificance_fields:
  assumes "resolveMemorySignificance wc env p m s = (Inr m', s')"
  shows "m' = m\<lparr>Mem_SignificanceLevelID := Mem_SignificanceLevelID m', Mem_Significance := Mem_Significance m'\<rparr>"
  using assms by (auto simp: resolveMemorySignificance_def split: sum.splits prod.splits option.splits)

lemma SetDefaults_fields [simp]:
  "Mem_EventId (memory_SetDefaults u now m) = Mem_EventId m" "Mem_Group (memory_SetDefaults u now m) = Mem_Group m"
  "Mem_Links (memory_SetDefaults u now m) = Mem_Links m" "Mem_IsBinary (memory_SetDefaults u now m) = Mem_IsBinary m"
  "Mem_Body (memory_SetDefaults u now m) = Mem_Body m" "Mem_Significance (memory_SetDefaults u now m) = Mem_Significance m"
  "Mem_TimeRecalled (memory_SetDefaults u now m) = Mem_TimeRecalled m" "Mem_RecallCount (memory_SetDefaults u now m) = Mem_RecallCount m"
  "Mem_SignificanceLevelID (memory_SetDefaults u now m) = Mem_SignificanceLevelID m" "Mem_Metadata (memory_SetDefaults u now m) = Mem_Metadata m"
  by (simp_all add: memory_SetDefaults_def Let_def)

text \<open>Links stored with a record join existing records, so they keep the graph closed.\<close>

definition graph_ok :: "'r linkGraph \<Rightarrow> ident list \<Rightarrow> link_row list \<times> 'r list \<Rightarrow> bool" where
  "graph_ok g ids t \<longleftrightarrow> rows_agg_ok g (fst t) (snd t) \<and> links_closed (fst t) ids \<and> one_row_per_pair (fst t) \<and> map (g_key g) (snd t) = ids"

lemma upsert_links_closed:
  "links_closed ls ids \<Longrightarrow> i \<in> set ids \<Longrightarrow> Id ` set links \<subseteq> set ids \<Longrightarrow> i \<notin> Id ` set links \<Longrightarrow> links_closed (upsert_links i now links ls) ids"
  unfolding upsert_links_def by (induction links arbitrary: ls) (auto simp: links_closed_upsert)

context link_graph
begin

lemma createLinksOnce_rows: "map (g_set g 0) (snd (createLinksOnce g i now links u)) = map (g_set g 0) (snd u)"
  by (simp add: createLinksOnce_def Let_def recalc_eq recalc_chunk_def)

lemma createLinks_graph:
  assumes "graph_ok g ids t" "i \<in> set ids" "Id ` set links \<subseteq> set ids" "i \<notin> Id ` set links"
  shows "graph_ok g ids (snd (createLinks sw fault ctx_done (\<lambda>_. id) g i now links t))"
    "map (g_set g 0) (snd (snd (createLinks sw fault ctx_done (\<lambda>_. id) g i now links t))) = map (g_set g 0) (snd t)"
proof -
  let ?I = "\<lambda>u. graph_ok g ids u \<and> map (g_set g 0) (snd u) = map (g_set g 0) (snd t)"
  have once: "graph_ok g ids (createLinksOnce g i now links u)" if "graph_ok g ids u" for u
    using that assms(2-) createLinksOnce_agg [of u i now links] recalc_keys
    by (auto simp: graph_ok_def createLinksOnce_def Let_def upsert_links_closed upsert_links_distinct)
  have "?I (snd (withTxRetry sw ctx_done (\<lambda>_. id) (run_tx fault (\<lambda>t. ((), createLinksOnce g i now links t))) t))"
    by (rule withTxRetry_keeps [where I = ?I]) (use assms(1) once createLinksOnce_rows in \<open>auto simp: run_tx_def split: option.splits\<close>)
  then show "graph_ok g ids (snd (createLinks sw fault ctx_done (\<lambda>_. id) g i now links t))"
    "map (g_set g 0) (snd (snd (createLinks sw fault ctx_done (\<lambda>_. id) g i now links t))) = map (g_set g 0) (snd t)"
    using assms(1) by (auto simp: createLinks_def)
qed

end

lemma mem_graph_ok: "mem_ok s \<longleftrightarrow> distinct (map m_id (memories s)) \<and> graph_ok memoryGraph (map m_id (memories s)) (mem_tables s)"
  by (auto simp: mem_ok_def graph_ok_def mem_rows_agg mem_tables_def)

lemma ev_graph_ok: "ev_ok s \<longleftrightarrow> distinct (map e_id (events s)) \<and> graph_ok eventGraph (map e_id (events s)) (ev_tables s)"
  by (auto simp: ev_ok_def graph_ok_def ev_rows_agg ev_tables_def)

lemma storeMemoryLinks_sound:
  assumes s: "sound wc s" and "i \<in> m_id ` set (memories s)" "Id ` set links \<subseteq> m_id ` set (memories s)" "i \<notin> Id ` set links"
  shows "sound wc (storeMemoryLinks wc env i links s)" "map sans_links (memories (storeMemoryLinks wc env i links s)) = map sans_links (memories s)"
    "events (storeMemoryLinks wc env i links s) = events s" "levels (storeMemoryLinks wc env i links s) = levels s"
proof -
  let ?t = "snd (createLinks (single_writer (wc_db wc)) (we_tx_fault env) (we_tx_done env) (\<lambda>_. id) memoryGraph i (we_now env) links (mem_tables s))"
  have s': "storeMemoryLinks wc env i links s = (if links = [] then s else put_mem_tables ?t s)"
    by (simp add: storeMemoryLinks_def LinkMemories_def split_beta)
  have "graph_ok memoryGraph (map m_id (memories s)) (mem_tables s)" using s by (simp add: sound_parts mem_graph_ok)
  note G = mem_graph.createLinks_graph [OF this, of i links "single_writer (wc_db wc)" "we_tx_fault env" "we_tx_done env" "we_now env"]
  have g: "graph_ok memoryGraph (map m_id (memories s)) ?t" using G(1) assms(2-4) by simp
  have sans: "map sans_links (snd ?t) = map sans_links (memories s)"
    using G(2) assms(2-4) by (simp add: memoryGraph_def mem_tables_def sans_links_def [abs_def])
  have "distinct (map m_id (memories s))" using s by (simp add: sound_parts mem_ok_def)
  then have "mem_ok (put_mem_tables ?t s)" using g by (simp add: mem_graph_ok put_mem_tables_def mem_tables_def graph_ok_def)
  moreover have "refs_ok (put_mem_tables ?t s)"
    using s sans_event_ids [OF sans] by (simp add: sound_parts refs_ok_alt put_mem_tables_def)
  ultimately have "sound wc (put_mem_tables ?t s)" using s by (simp add: sound_parts ev_ok_def queues_ok_def put_mem_tables_def)
  then show "sound wc (storeMemoryLinks wc env i links s)" using s by (simp add: s')
  show "map sans_links (memories (storeMemoryLinks wc env i links s)) = map sans_links (memories s)"
    "events (storeMemoryLinks wc env i links s) = events s" "levels (storeMemoryLinks wc env i links s) = levels s"
    using sans by (simp_all add: s' put_mem_tables_def)
qed

lemma storeEventLinks_sound:
  assumes s: "sound wc s" and "i \<in> e_id ` set (events s)" "Id ` set links \<subseteq> e_id ` set (events s)" "i \<notin> Id ` set links"
  shows "sound wc (storeEventLinks wc env i links s)" "map e_id (events (storeEventLinks wc env i links s)) = map e_id (events s)"
    "memories (storeEventLinks wc env i links s) = memories s"
proof -
  let ?t = "snd (createLinks (single_writer (wc_db wc)) (we_tx_fault env) (we_tx_done env) (\<lambda>_. id) eventGraph i (we_now env) links (ev_tables s))"
  have s': "storeEventLinks wc env i links s = (if links = [] then s else put_ev_tables ?t s)"
    by (simp add: storeEventLinks_def LinkEvents_def split_beta)
  have "graph_ok eventGraph (map e_id (events s)) (ev_tables s)" using s by (simp add: sound_parts ev_graph_ok)
  note G = ev_graph.createLinks_graph [OF this, of i links "single_writer (wc_db wc)" "we_tx_fault env" "we_tx_done env" "we_now env"]
  have g: "graph_ok eventGraph (map e_id (events s)) ?t" using G(1) assms(2-4) by simp
  then have keys: "map e_id (snd ?t) = map e_id (events s)" by (simp add: graph_ok_def)
  have "distinct (map e_id (events s))" using s by (simp add: sound_parts ev_ok_def)
  then have "ev_ok (put_ev_tables ?t s)" using g by (simp add: ev_graph_ok put_ev_tables_def ev_tables_def graph_ok_def)
  moreover have "refs_ok (put_ev_tables ?t s)"
    using s arg_cong [OF keys, of set] by (simp add: sound_parts refs_ok_alt put_ev_tables_def)
  ultimately have "sound wc (put_ev_tables ?t s)" using s by (simp add: sound_parts mem_ok_def queues_ok_def put_ev_tables_def)
  then show "sound wc (storeEventLinks wc env i links s)" using s by (simp add: s')
  show "map e_id (events (storeEventLinks wc env i links s)) = map e_id (events s)" "memories (storeEventLinks wc env i links s) = memories s"
    using keys by (simp_all add: s' put_ev_tables_def)
qed

lemma checkLinkTargets_present:
  "checkLinkTargets memoryKind env ctx i links s = Inr () \<Longrightarrow> Id ` set links \<subseteq> m_id ` set (memories s)"
  "checkLinkTargets eventKind env ctx i links s = Inr () \<Longrightarrow> Id ` set links \<subseteq> e_id ` set (events s)"
  using mem_graph.MissingIds_iff [of "map Id links" "memories s"] ev_graph.MissingIds_iff [of "map Id links" "events s"]
  by (auto simp: checkLinkTargets_def missingIds_def memoryKind_def eventKind_def split: if_splits sum.splits)

lemma storeMemory_stored:
  assumes "storeMemory wc env ctx p s = (Inr (Stored i), s', ops)"
  obtains grp m1 m s1 s2 where "writeGroup ctx (pm_group p) = Inr grp" "check_event env ctx (pm_event_id p) s = Inr ()"
    "ValidateInsert (we_now env) (wc_max_body wc) False (MemoryFromProto p) = None"
    "resolveMemorySignificance wc env p ((MemoryFromProto p)\<lparr>Mem_Group := grp, Mem_TimeRecalled := 0, Mem_RecallCount := 0\<rparr>) s = (Inr m1, s1)"
    "m = memory_SetDefaults (we_uuid env) (we_now env) m1" "checkLinkTargets memoryKind (we_rpc env) ctx (Mem_Id m) (Mem_Links m) s1 = Inr ()"
    "CreateMemory wc env m s1 = (Inr i, s2)" "s' = storeMemoryLinks wc env (Mem_Id m) (Mem_Links m) s2"
  using assms
  by (auto simp: storeMemory_def on_ok_def Let_def MemoryFromProto_def split: if_splits sum.splits prod.splits)

lemma check_event_ok: "check_event env ctx i s = Inr () \<Longrightarrow> i = [] \<or> EventExists i s"
  by (auto simp: check_event_def split: if_splits sum.splits)

lemma storeMemory_sound:
  assumes env: "careful_writer wc env" and s: "sound wc s"
  shows "sound wc (fst (snd (storeMemory wc env ctx p s)))"
proof -
  let ?m0 = "\<lambda>g. (MemoryFromProto p)\<lparr>Mem_Group := g, Mem_TimeRecalled := 0, Mem_RecallCount := 0\<rparr>"
  have created: "sound wc s2 \<and> (r = Inr i \<longrightarrow> sound wc (storeMemoryLinks wc env (Mem_Id m) (Mem_Links m) s2))"
    if ev: "check_event env ctx (Mem_EventId (MemoryFromProto p)) s = Inr ()" and res: "resolveMemorySignificance wc env p (?m0 g) s = (Inr m1, s1)"
      and m: "m = memory_SetDefaults (we_uuid env) (we_now env) m1"
      and links: "checkLinkTargets memoryKind (we_rpc env) ctx (Mem_Id m) (Mem_Links m) s1 = Inr ()"
      and create: "CreateMemory wc env m s1 = (r, s2)" for g m1 s1 m r s2 i
  proof -
    have s1: "sound wc s1" "record_tables s1 = record_tables s"
      using resolveMemorySignificance_sound [OF env s, of p "?m0 g"] res by simp_all
    have "Mem_EventId m = Mem_EventId (MemoryFromProto p)"
      using arg_cong [OF resolveMemorySignificance_fields [OF res], of Mem_EventId] by (simp add: m)
    then have "Mem_EventId m = [] \<or> EventExists (Mem_EventId m) s1"
      using check_event_ok [OF ev] s1(2) by (simp add: EventExists_def record_tables_def)
    then have s2: "sound wc s2" using CreateMemory_sound [OF env s1(1)] create by (metis snd_conv)
    have "sound wc (storeMemoryLinks wc env (Mem_Id m) (Mem_Links m) s2)" if "CreateMemory wc env m s1 = (Inr i, s2)"
      using that
    proof (rule CreateMemory_effect)
      fix lid s1' assume E: "ensureSignificanceLevel wc env (Mem_Significance m) (Mem_SignificanceLevelID m) s1 = (Inr lid, s1')"
        and new: "i = Mem_Id m" "i \<notin> m_id ` set (memories (we_world env s1'))" "memories s2 = memories (we_world env s1') @ [memory_row_of wc m lid]"
      have s1': "sound wc s1'" "memories s1' = memories s1"
        using ensure_sound [OF env s1(1), of "Mem_Significance m" "Mem_SignificanceLevelID m"] E by (simp_all add: record_tables_def)
      have "Id ` set (Mem_Links m) \<subseteq> m_id ` set (memories (we_world env s1'))"
        using checkLinkTargets_present(1) [OF links] careful_world_step(3) [OF env s1'(1)] s1'(2) by simp
      then show ?thesis using new by (intro storeMemoryLinks_sound(1) [OF s2]) auto
    qed
    then show ?thesis using s2 create by blast
  qed
  have resolved: "sound wc s1" if "resolveMemorySignificance wc env p (?m0 g) s = (x, s1)" for g x s1
    using resolveMemorySignificance_sound(1) [OF env s, of p "?m0 g"] that by simp
  show ?thesis
    using s resolved created unfolding storeMemory_def on_ok_def Let_def
    by (auto split: sum.splits prod.splits)
qed

lemma store_each_sound:
  assumes "\<And>n. careful_writer wc (envs n)" "sound wc s"
  shows "sound wc (fst (snd (store_each wc ctx envs gone n ps b s ops)))"
  using assms(2)
proof (induction ps arbitrary: n b s ops)
  case (Cons p ps)
  have "sound wc (fst (snd (storeMemory wc (envs n) ctx p s)))" by (rule storeMemory_sound [OF assms(1) Cons.prems])
  with Cons show ?case by (auto split: option.splits prod.splits)
qed simp

lemma store_nested_sound:
  assumes "\<And>n. careful_writer wc (envs n)" "sound wc s"
  shows "sound wc (fst (snd (store_nested wc ctx envs eid n ps c s ops)))"
  using assms(2)
proof (induction ps arbitrary: n c s ops)
  case (Cons p ps)
  let ?p = "if pm_event_id p = [] then p\<lparr>pm_event_id := eid\<rparr> else p"
  have "sound wc (fst (snd (storeMemory wc (envs n) ctx ?p s)))" by (rule storeMemory_sound [OF assms(1) Cons.prems])
  with Cons.IH show ?case by (auto simp: Let_def split: prod.splits)
qed simp

text \<open>What holds of the store after the call holds before it, after the placement, or after the write.\<close>

lemma rpc_UpdateMemory_rule:
  assumes "P s" and "\<And>x s1. resolveMemorySignificance wc env p (MemoryFromProto p) s = (x, s1) \<Longrightarrow> P s1"
    and "\<And>m s1 r s2. \<lbrakk>scopeIds memoryKind (we_rpc env) ctx [pm_id p] s = Inr ();
        check_move ctx (Mem_Group (MemoryFromProto p)) (Mem_ClearGroup (MemoryFromProto p)) = Inr ();
        check_event env ctx (Mem_EventId (MemoryFromProto p)) s = Inr ();
        resolveMemorySignificance wc env p (MemoryFromProto p) s = (Inr m, s1); UpdateMemory wc env m s1 = (r, s2)\<rbrakk> \<Longrightarrow> P s2"
  shows "P (fst (snd (rpc_UpdateMemory wc env ctx p s)))"
  using assms unfolding rpc_UpdateMemory_def on_ok_def Let_def by (auto split: sum.splits prod.splits)

definition summary_memory :: "proto_memory \<Rightarrow> ident \<Rightarrow> string \<Rightarrow> Memory" where
  "summary_memory p eventId g = (MemoryFromProto p)\<lparr>Mem_EventId := eventId, Mem_IsSummary := True, Mem_Group := g, Mem_TimeRecalled := 0, Mem_RecallCount := 0\<rparr>"

lemma insertSummary_rule:
  assumes "P s" and "\<And>g x s1. resolveMemorySignificance wc env p (summary_memory p eventId g) s = (x, s1) \<Longrightarrow> P s1"
    and "\<And>g m s1 r s2. \<lbrakk>writeGroup ctx (pm_group p) = Inr g; resolveMemorySignificance wc env p (summary_memory p eventId g) s = (Inr m, s1);
        ReplaceMemoriesWithSummary wc env eventId (case GroupsFromContext ctx of None \<Rightarrow> [] | Some gs \<Rightarrow> gs)
          (memory_SetDefaults (we_uuid env) (we_now env) m) (we_world env s1) = (r, s2)\<rbrakk> \<Longrightarrow> P s2"
  shows "P (fst (snd (insertSummary wc env ctx eventId p s)))"
proof -
  have g: "Mem_Group ((MemoryFromProto p)\<lparr>Mem_EventId := eventId, Mem_IsSummary := True\<rparr>) = pm_group p" by (simp add: MemoryFromProto_def)
  show ?thesis
    using assms unfolding insertSummary_def on_ok_def Let_def g summary_memory_def by (auto split: sum.splits prod.splits)
qed

lemma rpc_UpdateMemory_sound:
  assumes env: "careful_writer wc env" and s: "sound wc s"
  shows "sound wc (fst (snd (rpc_UpdateMemory wc env ctx p s)))"
proof (rule rpc_UpdateMemory_rule [where P = "sound wc", OF s])
  note R = resolveMemorySignificance_sound [OF env s, of p "MemoryFromProto p"]
  show "sound wc s1" if "resolveMemorySignificance wc env p (MemoryFromProto p) s = (x, s1)" for x s1 using R(1) that by simp
  show "sound wc s2" if ev: "check_event env ctx (Mem_EventId (MemoryFromProto p)) s = Inr ()"
    and res: "resolveMemorySignificance wc env p (MemoryFromProto p) s = (Inr m, s1)" and up: "UpdateMemory wc env m s1 = (r, s2)" for m s1 r s2
  proof -
    have s1: "sound wc s1" "record_tables s1 = record_tables s" using R res by simp_all
    have "Mem_EventId m = Mem_EventId (MemoryFromProto p)"
      using arg_cong [OF resolveMemorySignificance_fields [OF res], of Mem_EventId] by simp
    then have "Mem_EventId m = [] \<or> EventExists (Mem_EventId m) s1"
      using check_event_ok [OF ev] s1(2) by (simp add: EventExists_def record_tables_def)
    then show ?thesis using UpdateMemory_sound [OF env s1(1)] up by (metis snd_conv)
  qed
qed

lemma insertSummary_sound:
  assumes env: "careful_writer wc env" and s: "sound wc s" and ev: "EventExists eventId s"
  shows "sound wc (fst (snd (insertSummary wc env ctx eventId p s)))"
proof (rule insertSummary_rule [where P = "sound wc", OF s])
  note R = resolveMemorySignificance_sound [OF env s, of p]
  show "sound wc s1" if "resolveMemorySignificance wc env p (summary_memory p eventId g) s = (x, s1)" for g x s1
    using R(1) [of "summary_memory p eventId g"] that by simp
  show "sound wc s2" if res: "resolveMemorySignificance wc env p (summary_memory p eventId g) s = (Inr m, s1)"
    and rep: "ReplaceMemoriesWithSummary wc env eventId gs (memory_SetDefaults u now m) (we_world env s1) = (r, s2)" for g m s1 gs u now r s2
  proof -
    have s1: "sound wc s1" "record_tables s1 = record_tables s" using R [of "summary_memory p eventId g"] res by simp_all
    note W = careful_world_step [OF env s1(1)]
    have "Mem_EventId m = eventId" using arg_cong [OF resolveMemorySignificance_fields [OF res], of Mem_EventId] by (simp add: summary_memory_def)
    then have "Mem_EventId (memory_SetDefaults u now m) \<in> insert [] (e_id ` set (events (we_world env s1)))"
      using ev W(2) s1(2) by (auto simp: EventExists_iff record_tables_def)
    from Replace_sound [OF env W(1) this, of eventId gs] rep show ?thesis by simp
  qed
qed

lemma update_event_sound: "careful_writer wc env \<Longrightarrow> sound wc s \<Longrightarrow> sound wc (fst (snd (update_event wc env e s)))"
  using UpdateEvent_sound [of wc env s e] by (auto simp: update_event_def split: prod.splits sum.splits)

lemma resolved_update_sound:
  assumes env: "careful_writer wc env" and s: "sound wc s"
  shows "sound wc (fst (snd (case resolveEventSignificance wc env v p e s of
      (Inl er, s1) \<Rightarrow> (Inl (placement_status er), s1, []) | (Inr e, s1) \<Rightarrow> update_event wc env e s1)))"
proof -
  obtain r s1 where R: "resolveEventSignificance wc env v p e s = (r, s1)" by fastforce
  then have "sound wc s1" using resolveEventSignificance_sound(1) [OF env s, of v p e] by simp
  then show ?thesis using R update_event_sound [OF env] by (simp split: sum.splits)
qed

lemma DeleteEventCascade_sound:
  assumes env: "careful_writer wc env" and s: "sound wc s"
  shows "sound wc (snd (DeleteEventCascade (wc_db wc) (we_tx_fault env) (we_tx_done env) (we_tx_world env) now i opts s))"
  unfolding DeleteEventCascade_def
proof (rule withTxRetry_keeps [where I = "sound wc"])
  fix n t assume t: "sound wc t"
  show "sound wc (we_tx_world env n t)" using env t unfolding careful_writer_def keeps_records_def by blast
  obtain d t' where D: "deleteEventCascadeOnce (wc_db wc) now i opts t = (d, t')" by fastforce
  have "store_ok t' \<and> refs_ok t'"
    using cascade_outcome [OF _ _ D] t by (cases "ed_deleted d") (simp_all add: sound_def)
  moreover have "levels t' = levels t" "next_level_id t' = next_level_id t"
    using cascade_registry [of "wc_db wc" now i opts t] D by simp_all
  ultimately show "sound wc (snd (run_tx (we_tx_fault env) (deleteEventCascadeOnce (wc_db wc) now i opts) n t))"
    using t D by (auto simp: run_tx_def sound_def split: option.splits)
qed (rule s)

lemma CreateEvent_effect:
  assumes "CreateEvent wc env e s = (Inr i, s')"
  obtains s1 r where "record_tables s1 = record_tables s" "sound wc s \<Longrightarrow> careful_writer wc env \<Longrightarrow> sound wc s1"
    "i \<notin> e_id ` set (events (we_world env s1))" "events s' = events (we_world env s1) @ [r]" "e_id r = i"
proof -
  let ?e = "event_SetDefaults (we_uuid env) (we_now env) e"
  obtain x s1 where E: "ensureSignificanceLevel wc env (Ev_Significance ?e) (Ev_SignificanceLevelID ?e) s = (x, s1)" by fastforce
  have "record_tables s1 = record_tables s"
    using E by (auto simp: ensureSignificanceLevel_def resolve_spec_def record_tables_def split: if_splits option.splits sum.splits)
  moreover have "sound wc s \<Longrightarrow> careful_writer wc env \<Longrightarrow> sound wc s1"
    using ensure_sound(1) [of wc env s "Ev_Significance ?e" "Ev_SignificanceLevelID ?e"] E by simp
  moreover obtain lid where "i \<notin> e_id ` set (events (we_world env s1))" "events s' = events (we_world env s1) @ [event_row_of wc ?e lid]" "i = Ev_Id ?e"
    using assms E by (auto simp: CreateEvent_def Let_def EventExists_iff split: option.splits sum.splits if_splits)
  ultimately show thesis using that [of s1 "event_row_of wc ?e lid"] by (simp add: event_row_of_def)
qed

lemma rpc_StoreEvent_sound:
  assumes env: "careful_writer wc env" and envs: "\<And>n. careful_writer wc (envs n)" and s: "sound wc s"
  shows "sound wc (fst (snd (rpc_StoreEvent wc env envs ctx p s)))"
proof -
  let ?e0 = "\<lambda>g. (event_SetDefaults (we_uuid env) (we_now env) (EventFromProto p))\<lparr>Ev_Group := g\<rparr>"
  have resolved: "sound wc s1"
    if "resolveEventSignificance wc env (pe_significance p) (pe_placement p) (?e0 g) s = (x, s1)" for g x s1
    using resolveEventSignificance_sound [OF env s, of "pe_significance p" "pe_placement p" "?e0 g"] that by simp
  have failed: "sound wc s2" if "sound wc s1" "CreateEvent wc env e s1 = (x, s2)" for e s1 x s2
    using CreateEvent_sound [OF env that(1), of e] that(2) by simp
  have created: "sound wc s3"
    if N: "store_nested wc ctx envs i 0 (pe_memories p) 0 (storeEventLinks wc env i (Ev_Links e) s2) [] = (c, s3, ops)" and s1: "sound wc s1" and links: "checkLinkTargets eventKind (we_rpc env) ctx j (Ev_Links e) s1 = Inr ()" and C: "CreateEvent wc env e s1 = (Inr i, s2)" for e j s1 i s2 c s3 ops
    using C
  proof (rule CreateEvent_effect)
    fix s1' r assume "record_tables s1' = record_tables s1" "sound wc s1 \<Longrightarrow> careful_writer wc env \<Longrightarrow> sound wc s1'"
      "i \<notin> e_id ` set (events (we_world env s1'))" "events s2 = events (we_world env s1') @ [r]" "e_id r = i"
    moreover from this have "Id ` set (Ev_Links e) \<subseteq> e_id ` set (events (we_world env s1'))"
      using checkLinkTargets_present(2) [OF links] careful_world_step(2) [OF env, of s1'] s1 env by (simp add: record_tables_def)
    ultimately have "sound wc (storeEventLinks wc env i (Ev_Links e) s2)"
      by (intro storeEventLinks_sound(1) [OF failed [OF s1 C]]) auto
    from store_nested_sound [of wc envs, OF envs this] N show ?thesis by (metis fst_conv snd_conv)
  qed
  have tail: "sound wc (fst (snd (case CreateEvent wc env e s1 of (Inl er, s2) \<Rightarrow> (Inl (store_status er), s2, [])
      | (Inr i, s2) \<Rightarrow> (let (c, s3, ops) = store_nested wc ctx envs i 0 (pe_memories p) 0 (storeEventLinks wc env i (Ev_Links e) s2) []
                     in (Inr \<lparr>er_id = i, er_rejected = False, er_memory_count = c\<rparr>, s3, ops)))))"
    if s1: "sound wc s1" and links: "checkLinkTargets eventKind (we_rpc env) ctx (Ev_Id e) (Ev_Links e) s1 = Inr ()" for e s1
  proof -
    obtain x s2 where C: "CreateEvent wc env e s1 = (x, s2)" by fastforce
    show ?thesis
    proof (cases x)
      case (Inr i)
      obtain c s3 ops where N: "store_nested wc ctx envs i 0 (pe_memories p) 0 (storeEventLinks wc env i (Ev_Links e) s2) [] = (c, s3, ops)"
        by (metis prod_cases3)
      from created [OF N s1 links C [unfolded Inr]] show ?thesis by (simp add: C Inr N)
    qed (use failed [OF s1 C] C in simp)
  qed
  have body: "sound wc (fst (snd (case resolveEventSignificance wc env (pe_significance p) (pe_placement p) (?e0 g) s of
      (Inl er, s1) \<Rightarrow> (Inl (placement_status er), s1, [])
    | (Inr e, s1) \<Rightarrow> (case checkLinkTargets eventKind (we_rpc env) ctx (Ev_Id e) (Ev_Links e) s1 of Inl er \<Rightarrow> (Inl er, s1, [])
        | Inr _ \<Rightarrow> (case CreateEvent wc env e s1 of (Inl er, s2) \<Rightarrow> (Inl (store_status er), s2, [])
            | (Inr i, s2) \<Rightarrow> (let (c, s3, ops) = store_nested wc ctx envs i 0 (pe_memories p) 0 (storeEventLinks wc env i (Ev_Links e) s2) []
                     in (Inr \<lparr>er_id = i, er_rejected = False, er_memory_count = c\<rparr>, s3, ops)))))))" for g
  proof -
    obtain x s1 where X: "resolveEventSignificance wc env (pe_significance p) (pe_placement p) (?e0 g) s = (x, s1)" by fastforce
    show ?thesis
    proof (cases x)
      case (Inr e)
      show ?thesis
        using tail [OF resolved [OF X], of e] resolved [OF X] X Inr
        by (cases "checkLinkTargets eventKind (we_rpc env) ctx (Ev_Id e) (Ev_Links e) s1") simp_all
    qed (use X resolved [OF X] in simp)
  qed
  then show ?thesis using s unfolding rpc_StoreEvent_def on_ok_def Let_def by (auto split: sum.splits)
qed

section \<open>Any run of requests\<close>

lemma rpc_DeleteMemories_sound:
  assumes s: "sound wc s"
  shows "sound wc (snd (rpc_DeleteMemories (wc_db wc) env ctx ids s))"
proof -
  have once: "sound wc s'" if D: "deleteMemoriesByIdsOnce (wc_db wc) now js s = (n, s')" and "js \<noteq> []" for now js n s'
  proof -
    note R = deleted_round [OF _ that(2) D]
    have "next_level_id s' = next_level_id s"
      using D unfolding deleteMemoriesByIdsOnce_def Let_def
      by (auto simp: queue_registry outbox_registry pruneMemoryLinks_def store_link_defs split: option.splits if_splits)
    then show ?thesis
      using R s sans_event_ids [OF R(4)] by (auto simp: sound_def refs_ok_alt)
  qed
  then show ?thesis using s unfolding rpc_DeleteMemories_def Let_def by (auto split: sum.splits option.splits prod.splits)
qed

text \<open>
  One step of the store: a request, whoever sent it, whatever it asked and however it ended, its statements failing
  or not and other connections committing between them.
\<close>

inductive served :: "write_config \<Rightarrow> db_state \<Rightarrow> db_state \<Rightarrow> bool" for wc where
  StoreMemory: "careful_writer wc env \<Longrightarrow> served wc s (fst (snd (storeMemory wc env ctx p s)))"
| StoreMemories: "(\<And>n. careful_writer wc (envs n)) \<Longrightarrow> served wc s (fst (snd (StoreMemories wc ctx envs gone ps s)))"
| UpdateMemory: "careful_writer wc env \<Longrightarrow> served wc s (fst (snd (rpc_UpdateMemory wc env ctx p s)))"
| Summarise: "careful_writer wc env \<Longrightarrow> served wc s (fst (snd (rpc_ReplaceMemoriesWithSummary wc env ctx i p s)))"
| DeleteMemories: "served wc s (snd (rpc_DeleteMemories (wc_db wc) renv ctx ids s))"
| StoreEvent: "careful_writer wc env \<Longrightarrow> (\<And>n. careful_writer wc (envs n)) \<Longrightarrow> served wc s (fst (snd (rpc_StoreEvent wc env envs ctx e s)))"
| UpdateEvent: "careful_writer wc env \<Longrightarrow> served wc s (fst (snd (rpc_UpdateEvent wc env ctx e s)))"
| EndEvent: "careful_writer wc env \<Longrightarrow> served wc s (fst (snd (rpc_EndEvent wc env ctx i t s)))"
| UpdateEventSignificance: "careful_writer wc env \<Longrightarrow> served wc s (fst (snd (rpc_UpdateEventSignificance wc env ctx i v pl s)))"
| MergeEvents: "careful_writer wc env \<Longrightarrow> served wc s (fst (snd (rpc_MergeEvents wc env ctx tid fid s)))"
| DeleteEvent: "careful_writer wc env \<Longrightarrow> served wc s (fst (snd (rpc_DeleteEvent wc env ctx i withMemories ifEmpty s)))"

lemma StoreMemories_sound:
  "(\<And>n. careful_writer wc (envs n)) \<Longrightarrow> sound wc s \<Longrightarrow> sound wc (fst (snd (StoreMemories wc ctx envs gone ps s)))"
  using store_each_sound [of wc envs s ctx gone 0 ps no_results "[]"] by (auto simp: StoreMemories_def split_beta)

lemma rpc_Replace_sound:
  assumes "careful_writer wc env" "sound wc s"
  shows "sound wc (fst (snd (rpc_ReplaceMemoriesWithSummary wc env ctx i p s)))"
  using assms insertSummary_sound [of wc env s i ctx p] by (auto simp: rpc_ReplaceMemoriesWithSummary_def on_ok_def split: sum.splits)

lemma rpc_MergeEvents_sound:
  assumes env: "careful_writer wc env" and s: "sound wc s"
  shows "sound wc (fst (snd (rpc_MergeEvents wc env ctx tid fid s)))"
proof -
  have w: "sound wc (we_world env s)" "e_id ` set (events s) \<subseteq> e_id ` set (events (we_world env s))"
    using careful_world_step [OF env s] by auto
  then show ?thesis
    using s MergeEventMemories_sound [OF w(1), of tid fid] by (auto simp: rpc_MergeEvents_def on_ok_def Let_def EventExists_iff split: sum.splits option.splits)
qed

lemma rpc_DeleteEvent_sound:
  assumes env: "careful_writer wc env" and s: "sound wc s"
  shows "sound wc (fst (snd (rpc_DeleteEvent wc env ctx i wm ie s)))"
proof -
  have "sound wc s'" if "DeleteEventCascade (wc_db wc) (we_tx_fault env) (we_tx_done env) (we_tx_world env) (we_now env) i opts s = (r, s')" for opts r s'
    using DeleteEventCascade_sound [OF env s, of "we_now env" i opts] that by simp
  then show ?thesis using s by (auto simp: rpc_DeleteEvent_def on_ok_def split: sum.splits prod.splits)
qed

lemma event_updates_sound:
  assumes "careful_writer wc env" "sound wc s"
  shows "sound wc (fst (snd (rpc_UpdateEvent wc env ctx e s)))" "sound wc (fst (snd (rpc_EndEvent wc env ctx i t s)))"
    "sound wc (fst (snd (rpc_UpdateEventSignificance wc env ctx i v pl s)))"
  using assms resolved_update_sound [OF assms] update_event_sound [OF assms]
  by (auto simp: rpc_UpdateEvent_def rpc_EndEvent_def rpc_UpdateEventSignificance_def on_ok_def Let_def split: sum.splits)

lemma served_sound: "served wc s s' \<Longrightarrow> sound wc s \<Longrightarrow> sound wc s'"
  by (induction rule: served.induct)
    (simp_all add: storeMemory_sound StoreMemories_sound rpc_UpdateMemory_sound rpc_Replace_sound rpc_DeleteMemories_sound rpc_StoreEvent_sound
      event_updates_sound rpc_MergeEvents_sound rpc_DeleteEvent_sound)


section \<open>What was stored is what is read\<close>

lemma claim_ranks: "joined_rank (snd (claimSignificanceLevel i lv)) lid = joined_rank lv lid"
  by (auto simp: claimSignificanceLevel_def joined_rank_def find_row_map split: option.splits)

lemma absolute_level_rank:
  assumes ok: "registry_ok mx lv nxt" and "0 < v"
    and res: "ResolveSignificanceLevel items mx (\<lambda>x. x) (absolute_spec v) lv nxt = Inr (lid, r, lv', nxt')"
  shows "joined_rank lv' lid = v"
proof (cases "find_row level_rank v lv")
  case (Some l)
  then have l: "l \<in> set lv" "level_rank l = v" by (auto dest: find_row_Some)
  then have row: "joined_rank lv (Some (level_id l)) = v"
    using registry_okD(1) [OF ok] by (simp add: joined_rank_def find_row_distinct)
  have claimed: "unused_since l \<noteq> None \<Longrightarrow> fst (claimSignificanceLevel (level_id l) lv)"
    using l by (auto simp: claimSignificanceLevel_def list_ex_iff)
  show ?thesis
    using res Some \<open>0 < v\<close> row claimed claim_ranks [of "level_id l" lv "Some (level_id l)"]
    by (auto simp: ResolveSignificanceLevel_def absolute_spec_def findLevel_def split: if_splits prod.splits)
next
  case None
  then have "createLevelTx mx v lv nxt = Inr (the lid, lv', nxt')" "lid = Some (the lid)"
    using res \<open>0 < v\<close>
    by (auto simp: ResolveSignificanceLevel_def absolute_spec_def findLevel_def resolveLevelTx_def findOrCreateLevelTx_def split: sum.splits)
  then have c: "lid = Some nxt" "lv' = lv @ [\<lparr>level_id = nxt, level_rank = v, unused_since = None\<rparr>]"
    using createLevelTx_ok(2,3) [OF ok, of v "the lid" lv' nxt'] \<open>0 < v\<close> by simp_all
  have "find_row level_id nxt lv = None" using registry_okD(5) [OF ok] by (fastforce simp: find_row_None)
  then show ?thesis by (simp add: c joined_rank_def find_row_append)
qed

lemma ensure_rank:
  assumes "sound wc s" "we_interf env = (\<lambda>x. x)" "ensureSignificanceLevel wc env v None s = (Inr lid, s')" "0 \<le> v"
  shows "joined_rank (levels s') lid = v"
proof (cases "v = 0")
  case True
  then show ?thesis using assms(3) by (simp add: ensureSignificanceLevel_def joined_rank_def)
next
  case False
  have "registry_ok (rank_limit (wc_db wc)) (levels s) (next_level_id s)" using assms(1) by (simp add: sound_def)
  from absolute_level_rank [OF this] show ?thesis
    using assms False by (auto simp: ensureSignificanceLevel_def resolve_spec_def split: option.splits sum.splits)
qed

lemma compressed_body_reads_back:
  assumes "\<And>b packed. wc_gzip wc b = Some packed \<Longrightarrow> db_decompress (wc_db wc) packed = Some b"
  shows "decompressBody (wc_db wc) (fst (compressBody wc body bin)) (snd (compressBody wc body bin)) = Some body"
  using assms by (auto simp: compressBody_def decompressBody_def split: option.splits)

lemma sans_ids: "map sans_links xs = map sans_links ys \<Longrightarrow> map m_id xs = map m_id ys"
proof -
  have "map m_id zs = map m_id (map sans_links zs)" for zs by (simp add: sans_links_def)
  then show "map sans_links xs = map sans_links ys \<Longrightarrow> ?thesis" by metis
qed

lemma one_chunk: "chunks deleteChunkSize [x] = [[x]]"
  by (simp add: chunks.simps [of _ "[x]"] deleteChunkSize_def)

definition uninterrupted :: "write_env \<Rightarrow> bool" where
  "uninterrupted env \<longleftrightarrow> we_interf env = (\<lambda>x. x) \<and> we_world env = (\<lambda>s. s) \<and> we_tx_world env = (\<lambda>_ s. s)"

lemma uninterrupted_careful: "uninterrupted env \<Longrightarrow> careful_writer wc env"
  by (simp add: uninterrupted_def careful_writer_def keeps_records_def sound_def)

lemma stored_row:
  assumes s: "sound wc s" and quiet: "uninterrupted env" and run: "storeMemory wc env ctx p s = (Inr (Stored i), s', ops)"
  obtains xs r m lid where "memories s' = xs @ [r]" "map sans_links xs = map sans_links (memories s)"
    "r = (memory_row_of wc m lid)\<lparr>m_link_significance := m_link_significance r\<rparr>" "m_id r = i" "\<forall>x \<in> set xs. m_id x \<noteq> i"
    "Mem_Body m = pm_body p" "Mem_EventId m = pm_event_id p" "Mem_Metadata m = pm_metadata p" "Mem_TimeRecalled m = 0" "Mem_RecallCount m = 0"
    "writeGroup ctx (pm_group p) = Inr (Mem_Group m)" "pm_id p \<noteq> [] \<Longrightarrow> i = pm_id p"
    "\<not> hasPlacement (pm_placement p) \<Longrightarrow> joined_rank (levels s') lid = pm_significance p"
  using run
proof (rule storeMemory_stored)
  fix grp m1 m s1 s2
  let ?m0 = "(MemoryFromProto p)\<lparr>Mem_Group := grp, Mem_TimeRecalled := 0, Mem_RecallCount := 0\<rparr>"
  assume grp: "writeGroup ctx (pm_group p) = Inr grp" and ev: "check_event env ctx (pm_event_id p) s = Inr ()" and valid: "ValidateInsert (we_now env) (wc_max_body wc) False (MemoryFromProto p) = None"
    and res: "resolveMemorySignificance wc env p ?m0 s = (Inr m1, s1)" and m: "m = memory_SetDefaults (we_uuid env) (we_now env) m1"
    and links: "checkLinkTargets memoryKind (we_rpc env) ctx (Mem_Id m) (Mem_Links m) s1 = Inr ()"
    and create: "CreateMemory wc env m s1 = (Inr i, s2)" and s': "s' = storeMemoryLinks wc env (Mem_Id m) (Mem_Links m) s2"
  note careful = uninterrupted_careful [OF quiet, of wc]
  have s1: "sound wc s1" "memories s1 = memories s" "events s1 = events s"
    using resolveMemorySignificance_sound [OF careful s, of p ?m0] res by (simp_all add: record_tables_def)
  note m1 = resolveMemorySignificance_fields [OF res]
  have fields: "Mem_Body m = pm_body p" "Mem_EventId m = pm_event_id p" "Mem_Metadata m = pm_metadata p" "Mem_Group m = grp"
    "Mem_TimeRecalled m = 0" "Mem_RecallCount m = 0" "pm_id p \<noteq> [] \<Longrightarrow> Mem_Id m = pm_id p"
    by (subst m, subst m1, simp add: MemoryFromProto_def memory_SetDefaults_def Let_def)+
  from create show ?thesis
  proof (rule CreateMemory_effect)
    fix lid s1' assume E: "ensureSignificanceLevel wc env (Mem_Significance m) (Mem_SignificanceLevelID m) s1 = (Inr lid, s1')"
      and w: "i = Mem_Id m" "i \<notin> m_id ` set (memories (we_world env s1'))" "memories s2 = memories (we_world env s1') @ [memory_row_of wc m lid]"
        "levels s2 = levels (we_world env s1')"
    have s1': "sound wc s1'" "memories s1' = memories s"
      using ensure_sound [OF careful s1(1), of "Mem_Significance m" "Mem_SignificanceLevelID m"] E s1(2) by (simp_all add: record_tables_def)
    note new = w [unfolded quiet [unfolded uninterrupted_def, THEN conjunct2, THEN conjunct1], simplified, unfolded s1'(2)]
    have "Mem_EventId m = [] \<or> EventExists (Mem_EventId m) s1"
      using check_event_ok [OF ev] fields(2) s1(3) by (simp add: EventExists_def)
    then have s2: "sound wc s2" using CreateMemory_sound [OF careful s1(1)] create by (metis snd_conv)
    have targets: "Id ` set (Mem_Links m) \<subseteq> m_id ` set (memories s)" using checkLinkTargets_present(1) [OF links] s1(2) by simp
    note L = storeMemoryLinks_sound [OF s2, of "Mem_Id m" "Mem_Links m" env, folded s']
    have "i \<in> m_id ` set (memories s2)" using new by simp
    then have sans: "map sans_links (memories s') = map sans_links (memories s) @ [sans_links (memory_row_of wc m lid)]" and lv: "levels s' = levels s1'"
      using L(2,4) targets new by (auto simp: subset_iff)
    have rank: "joined_rank (levels s1') lid = pm_significance p" if "\<not> hasPlacement (pm_placement p)"
    proof -
      have "m1 = ?m0" using res that by (auto simp: resolveMemorySignificance_def resolveSignificance_def)
      then have "Mem_Significance m = pm_significance p" "Mem_SignificanceLevelID m = None" by (simp_all add: m MemoryFromProto_def)
      moreover have "0 \<le> pm_significance p" using valid by (auto simp: ValidateInsert_def MemoryFromProto_def split: if_splits)
      moreover have "we_interf env = (\<lambda>x. x)" using quiet by (simp add: uninterrupted_def)
      ultimately show ?thesis using ensure_rank [OF s1(1), of env "pm_significance p" lid s1'] E by simp
    qed
    obtain xs r where x: "memories s' = xs @ [r]" "map sans_links xs = map sans_links (memories s)" "sans_links r = sans_links (memory_row_of wc m lid)"
      using sans by (auto simp: map_eq_append_conv)
    have row: "r = (memory_row_of wc m lid)\<lparr>m_link_significance := m_link_significance r\<rparr>"
      using x(3) by (cases r, cases "memory_row_of wc m lid") (simp add: sans_links_def)
    have "map m_id xs = map m_id (memories s)" using sans_ids [OF x(2)] .
    then have "i \<notin> m_id ` set xs" using new(2) by (metis list.set_map)
    then have ids: "\<forall>x \<in> set xs. m_id x \<noteq> i" by blast
    have "m_id r = i" using arg_cong [OF row, of m_id] new(1) by simp
    with x row ids fields grp rank new(1) lv show ?thesis using that [of xs r m lid] by simp
  qed
qed

text \<open>
  C13. What was stored is what is read. When nobody disturbs the write, and decompression undoes
  compression, the id the caller is given reads back as exactly one memory: the body it sent, whether
  or not it was compressed, in the event, with the metadata and the significance it asked for, in the group its
  scope allows, never recalled; every other memory, link aggregates aside, is as it was.
\<close>

theorem stored_memory_reads_back:
  assumes s: "sound wc s" and quiet: "uninterrupted env"
    and gzip: "\<And>b packed. wc_gzip wc b = Some packed \<Longrightarrow> db_decompress (wc_db wc) packed = Some b"
    and run: "storeMemory wc env ctx p s = (Inr (Stored i), s', ops)"
  shows "\<exists>r. GetMemoriesByIds [i] s' = [r] \<and> decompressBody (wc_db wc) (m_body r) (m_is_compressed r) = Some (pm_body p)
    \<and> m_event_id r = pm_event_id p \<and> m_metadata r = pm_metadata p \<and> writeGroup ctx (pm_group p) = Inr (m_group r)
    \<and> m_time_recalled r = 0 \<and> m_recall_count r = 0 \<and> (\<not> hasPlacement (pm_placement p) \<longrightarrow> memory_significance s' r = pm_significance p)
    \<and> (pm_id p \<noteq> [] \<longrightarrow> i = pm_id p) \<and> map sans_links (filter (\<lambda>r. m_id r \<noteq> i) (memories s')) = map sans_links (memories s)"
  using stored_row [OF s quiet run]
proof cases
  case (1 xs r m lid)
  have "GetMemoriesByIds [i] s' = [r]" "filter (\<lambda>r. m_id r \<noteq> i) (memories s') = xs"
    using 1(1,4,5) by (auto simp: GetMemoriesByIds_def one_chunk filter_empty_conv intro: filter_True)
  moreover have "m_body r = fst (compressBody wc (Mem_Body m) (Mem_IsBinary m))" "m_is_compressed r = snd (compressBody wc (Mem_Body m) (Mem_IsBinary m))"
    "m_event_id r = Mem_EventId m" "m_metadata r = Mem_Metadata m" "m_group r = Mem_Group m" "m_time_recalled r = Mem_TimeRecalled m"
    "m_recall_count r = Mem_RecallCount m" "m_level r = lid"
    by (subst 1(3), simp)+
  ultimately show ?thesis
    using 1(2) 1(6-) compressed_body_reads_back [of wc "Mem_Body m" "Mem_IsBinary m", OF gzip]
    by (intro exI [of _ r]) (simp add: memory_significance_def)
qed

section \<open>A batch\<close>

lemma CreateMemory_failed:
  assumes "uninterrupted env" "sound wc s" "CreateMemory wc env m s = (Inl e, s')"
  shows "memories s' = memories s"
proof -
  obtain r s1 where E: "ensureSignificanceLevel wc env (Mem_Significance m) (Mem_SignificanceLevelID m) s = (r, s1)" by fastforce
  have s1: "memories s1 = memories s"
    using ensure_sound(2) [OF uninterrupted_careful [OF assms(1)] assms(2), of "Mem_Significance m" "Mem_SignificanceLevelID m"] E
    by (simp add: record_tables_def)
  show ?thesis
  proof (cases r)
    case (Inr lid)
    let ?row = "memory_row_of wc m lid"
    obtain x s2 where X: "execMemoryWrite (wc_db wc) (we_now env) (we_fault env) CallbackKindMemoryStored (Mem_Id m) (insert_memory ?row) s1 = (x, s2)" by fastforce
    have w: "we_world env s1 = s1" using assms(1) by (simp add: uninterrupted_def)
    have s': "s' = s2" "x = Inl e' \<or> x = Inr 0" if "e' = (case x of Inl e \<Rightarrow> e | _ \<Rightarrow> ErrOther)" for e'
      using assms(3) E X Inr w that by (auto simp: CreateMemory_def split: sum.splits if_splits)
    have "s2 = s1"
    proof (cases "we_fault env")
      case None
      then have "x = Inr 0" using s'(2) X by (auto simp: execMemoryWrite_def Let_def split_beta split: option.splits if_splits)
      then have "memoryExists (Mem_Id m) s1 \<or> s2 = s1"
        using X None by (auto simp: execMemoryWrite_def Let_def insert_memory_def split: option.splits if_splits)
      then show ?thesis using X None \<open>x = Inr 0\<close> by (auto simp: execMemoryWrite_def Let_def insert_memory_def split: option.splits if_splits)
    qed (use X in \<open>simp add: execMemoryWrite_def\<close>)
    then show ?thesis using s'(1) s1 by simp
  qed (use E assms(3) s1 in \<open>simp add: CreateMemory_def\<close>)
qed

lemma storeMemory_not_stored:
  assumes quiet: "uninterrupted env" and s: "sound wc s" and run: "storeMemory wc env ctx p s = (r, s', ops)" and "\<And>i. r \<noteq> Inr (Stored i)"
  shows "memories s' = memories s"
proof -
  let ?m0 = "\<lambda>g. (MemoryFromProto p)\<lparr>Mem_Group := g, Mem_TimeRecalled := 0, Mem_RecallCount := 0\<rparr>"
  have resolved: "sound wc s1" "memories s1 = memories s" if "resolveMemorySignificance wc env p (?m0 g) s = (x, s1)" for g x s1
    using resolveMemorySignificance_sound [OF uninterrupted_careful [OF quiet] s, of p "?m0 g"] that by (simp_all add: record_tables_def)
  show ?thesis
    using run assms(4) resolved CreateMemory_failed [OF quiet] unfolding storeMemory_def on_ok_def Let_def
    by (auto split: if_splits sum.splits prod.splits) metis+
qed

lemma storeMemory_count:
  assumes "uninterrupted env" "sound wc s" "storeMemory wc env ctx p s = (r, s', ops)"
  shows "length (memories s') + br_stored b = length (memories s) + br_stored (tally r b)"
proof (cases "\<exists>i. r = Inr (Stored i)")
  case True
  then obtain i where r: "r = Inr (Stored i)" by blast
  from stored_row [OF assms(2,1) assms(3) [unfolded r]] show ?thesis
  proof cases
    case (1 xs row m lid)
    have "length xs = length (memories s)" using 1(2) map_eq_imp_length_eq by blast
    then show ?thesis using 1(1) r by (simp add: tally_def)
  qed
next
  case False
  then show ?thesis
    using storeMemory_not_stored [OF assms] by (cases r) (auto simp: tally_def split: store_response.splits)
qed

text \<open>
  A batch accounts for every memory of it. Unless the caller is gone, each memory gets one result, in order and
  the one a single store would have given it at that point; the three counts add up to the batch, and the store
  holds exactly as many more memories as were reported stored.
\<close>

theorem batch_accounts_for_every_memory:
  assumes "\<And>n. uninterrupted (envs n)" "sound wc s" "StoreMemories wc ctx envs gone ps s = (Inr b, s', ops)"
  shows "length (br_results b) = length ps \<and> br_stored b + br_rejected b + br_failed b = length ps
    \<and> length (memories s') = length (memories s) + br_stored b \<and> sound wc s'
    \<and> (\<forall>n < length ps. \<exists>t t' more. sound wc t \<and> storeMemory wc (envs n) ctx (ps ! n) t = (br_results b ! n, t', more))"
proof -
  have step: "length (br_results b) = length (br_results b0) + length qs
      \<and> br_stored b + br_rejected b + br_failed b = br_stored b0 + br_rejected b0 + br_failed b0 + length qs
      \<and> length (memories s') + br_stored b0 = length (memories t) + br_stored b \<and> sound wc s' \<and> take (length (br_results b0)) (br_results b) = br_results b0
      \<and> (\<forall>n < length qs. \<exists>u u' more. sound wc u \<and> storeMemory wc (envs (k + n)) ctx (qs ! n) u = (br_results b ! (length (br_results b0) + n), u', more))"
    if "sound wc t" "store_each wc ctx envs gone k qs b0 t ops0 = (Inr b, s', ops)" for qs k b0 t ops0
    using that
  proof (induction qs arbitrary: k b0 t ops0)
    case (Cons q qs)
    obtain r t' more where R: "storeMemory wc (envs k) ctx q t = (r, t', more)" by (metis prod_cases3)
    have t': "sound wc t'" using storeMemory_sound [OF uninterrupted_careful [OF assms(1)] Cons.prems(1), of k ctx q] R by simp
    have run: "store_each wc ctx envs gone (Suc k) qs (tally r b0) t' (ops0 @ more) = (Inr b, s', ops)"
      using Cons.prems(2) R by (simp split: option.splits)
    have res: "br_results (tally r b0) = br_results b0 @ [r]"
      "br_stored (tally r b0) + br_rejected (tally r b0) + br_failed (tally r b0) = Suc (br_stored b0 + br_rejected b0 + br_failed b0)"
      by (auto simp: tally_def split: sum.splits store_response.splits)
    note IH = Cons.IH [OF t' run, unfolded res]
    have head: "take (length (br_results b0)) (br_results b) = br_results b0" "br_results b ! length (br_results b0) = r"
    proof -
      have *: "take (Suc (length (br_results b0))) (br_results b) = br_results b0 @ [r]" using IH by simp
      then show "take (length (br_results b0)) (br_results b) = br_results b0"
        by (metis append_eq_conv_conj length_append_singleton take_take min.absorb1 le_add1 plus_1_eq_Suc add.commute)
      show "br_results b ! length (br_results b0) = r"
        using arg_cong [OF *, of "\<lambda>l. l ! length (br_results b0)"] by simp
    qed
    have "\<exists>u u' more. sound wc u \<and> storeMemory wc (envs (k + n)) ctx ((q # qs) ! n) u = (br_results b ! (length (br_results b0) + n), u', more)" if "n < length (q # qs)" for n
    proof (cases n)
      case 0
      then show ?thesis using R Cons.prems(1) head(2) by auto
    next
      case (Suc j)
      then show ?thesis using IH that by auto
    qed
    then show ?case using IH head(1) storeMemory_count [OF assms(1) Cons.prems(1) R, of b0] by simp
  qed simp
  have "store_each wc ctx envs gone 0 ps no_results s [] = (Inr b, s', ops)"
    using assms(3) by (simp add: StoreMemories_def split: if_splits)
  from step [OF assms(2) this] show ?thesis by (simp add: no_results_def)
qed

section \<open>Updates on both kinds of engine\<close>

text \<open>
  An update answers the same on an engine that reports how many rows an UPDATE changed as on one
  that reports how many it matched: the same result, whether the id exists, and the same store, for
  memories and events alike, an update that changes no value included.
\<close>

theorem update_is_dialect_free:
  assumes "\<not> we_probe_fails env"
  shows "UpdateMemory (wc\<lparr>wc_counts_changed := True\<rparr>) env m s = UpdateMemory (wc\<lparr>wc_counts_changed := False\<rparr>) env m s
    \<and> UpdateEvent (wc\<lparr>wc_counts_changed := True\<rparr>) env e s = UpdateEvent (wc\<lparr>wc_counts_changed := False\<rparr>) env e s"
proof -
  have "wc_db (wc\<lparr>wc_counts_changed := b\<rparr>) = wc_db wc" for b by simp
  then show ?thesis by (simp only: UpdateMemory_existed [OF assms] UpdateEvent_existed [OF assms] ensure_dialect sets_dialect)
qed

section \<open>Bound writers\<close>

text \<open>The memories outside a caller's groups, link aggregates aside.\<close>

definition others :: "string list \<Rightarrow> memory_row list \<Rightarrow> memory_row list" where
  "others groups rows = map sans_links (filter (\<lambda>r. m_group r \<notin> set groups) rows)"

lemma others_sans: "others groups rows = filter (\<lambda>r. m_group r \<notin> set groups) (map sans_links rows)"
  unfolding others_def by (induction rows) (auto simp: sans_links_def)

lemma others_cong: "map sans_links xs = map sans_links ys \<Longrightarrow> others groups xs = others groups ys"
  by (simp only: others_sans)

lemma others_map:
  "(\<And>r. r \<in> set rows \<Longrightarrow> h r = r \<or> m_group r \<in> set groups \<and> m_group (h r) \<in> set groups) \<Longrightarrow> others groups (map h rows) = others groups rows"
proof (induction rows)
  case (Cons r rows)
  have "h r = r \<or> m_group r \<in> set groups \<and> m_group (h r) \<in> set groups" by (rule Cons.prems) simp
  moreover have "others groups (map h rows) = others groups rows" by (rule Cons.IH) (rule Cons.prems, simp)
  ultimately show ?case by (auto simp: others_def)
qed simp

lemma bound_write_group: "GroupsFromContext ctx = Some groups \<Longrightarrow> writeGroup ctx g = Inr g' \<Longrightarrow> g' \<in> set groups"
  by (auto simp: writeGroup_def GroupInScope_def GroupsFromContext_def length_Suc_conv split: if_splits option.splits)

lemma storeMemory_others:
  assumes bound: "GroupsFromContext ctx = Some groups" and quiet: "uninterrupted env" and s: "sound wc s"
  shows "others groups (memories (fst (snd (storeMemory wc env ctx p s)))) = others groups (memories s)"
proof -
  obtain r s' ops where R: "storeMemory wc env ctx p s = (r, s', ops)" by (metis prod_cases3)
  show ?thesis
  proof (cases "\<exists>i. r = Inr (Stored i)")
    case True
    then obtain i where "r = Inr (Stored i)" by blast
    from stored_row [OF s quiet R [unfolded this]] show ?thesis
    proof cases
      case (1 xs row m lid)
      have "m_group row = Mem_Group m" by (subst 1(3)) simp
      then have "m_group row \<in> set groups" using bound_write_group [OF bound 1(11)] by simp
      then have "others groups (memories s') = others groups xs" using 1(1) by (simp add: others_def)
      then show ?thesis using others_cong [OF 1(2)] R by simp
    qed
  qed (use storeMemory_not_stored [OF quiet s R] R in auto)
qed

lemma UpdateMemory_rows:
  assumes "uninterrupted env" "sound wc s" "UpdateMemory wc env m s = (r, s')"
  shows "\<exists>lid b. memories s' = memories s \<or> memories s' = update_rows m_id (Mem_Id m) (fold (\<lambda>g r. g r) (memory_sets wc m lid b)) (memories s)"
proof -
  let ?e = "if Mem_SignificanceLevelID m = None \<and> Mem_Significance m > 0 then ensureSignificanceLevel wc env (Mem_Significance m) None s
            else (Inr (Mem_SignificanceLevelID m), s)"
  obtain x s1 where E: "?e = (x, s1)" by fastforce
  have s1: "memories s1 = memories s"
    using ensure_sound(2) [OF uninterrupted_careful [OF assms(1)] assms(2), of "Mem_Significance m" None] E by (auto simp: record_tables_def split: if_splits)
  have w: "we_world env = (\<lambda>s. s)" using assms(1) by (simp add: uninterrupted_def)
  show ?thesis
  proof (cases x)
    case (Inr lid)
    then show ?thesis
      using assms(3) s1 unfolding UpdateMemory_def E Let_def exec_update w
      by (intro exI [of _ lid] exI [of _ "memoryIsBinary (Mem_Id m) s1"]) (auto simp: updated_store_memories split: if_splits option.splits sum.splits)
  qed (use assms(3) s1 in \<open>simp add: UpdateMemory_def E\<close>)
qed

lemma memory_sets_group:
  "m_group (fold (\<lambda>g r. g r) (memory_sets wc m lid b) r) =
     (if Mem_ClearGroup m then [] else if Mem_Group m \<noteq> [] then Mem_Group m else m_group r)"
  by (simp add: memory_sets_def split_beta)

lemma rpc_UpdateMemory_others:
  assumes bound: "GroupsFromContext ctx = Some groups" and quiet: "uninterrupted env" and s: "sound wc s"
  shows "others groups (memories (fst (snd (rpc_UpdateMemory wc env ctx p s)))) = others groups (memories s)"
proof (rule rpc_UpdateMemory_rule [where P = "\<lambda>t. others groups (memories t) = others groups (memories s)"])
  let ?m0 = "MemoryFromProto p"
  have resolved: "sound wc s1" "memories s1 = memories s" if "resolveMemorySignificance wc env p ?m0 s = (x, s1)" for x s1
    using resolveMemorySignificance_sound [OF uninterrupted_careful [OF quiet] s, of p ?m0] that by (simp_all add: record_tables_def)
  then show "others groups (memories s1) = others groups (memories s)" if "resolveMemorySignificance wc env p ?m0 s = (x, s1)" for x s1
    using that by metis
  fix m s1 r s2
  assume scope: "scopeIds memoryKind (we_rpc env) ctx [pm_id p] s = Inr ()" and move: "check_move ctx (Mem_Group ?m0) (Mem_ClearGroup ?m0) = Inr ()"
    and res: "resolveMemorySignificance wc env p ?m0 s = (Inr m, s1)" and up: "UpdateMemory wc env m s1 = (r, s2)"
  note s1 = resolved [OF res]
  have m: "Mem_Id m = pm_id p" "Mem_Group m = Mem_Group ?m0" "Mem_ClearGroup m = Mem_ClearGroup ?m0"
    by (subst resolveMemorySignificance_fields [OF res], simp add: MemoryFromProto_def)+
  have "pm_id p \<in> visible memoryKind groups s" using scopeIds_ok [OF bound scope] by simp
  then have own: "m_group r \<in> set groups" if "r \<in> set (memories s)" "m_id r = pm_id p" for r
    using that s by (auto simp: visible_def memoryKind_def lk_key_def sound_parts mem_ok_def distinct_map dest: inj_onD)
  have moved: "\<not> Mem_ClearGroup m \<and> (Mem_Group m = [] \<or> Mem_Group m \<in> set groups)"
    using move bound bound_groups [OF bound] by (auto simp: check_move_def m GroupInScope_def split: if_splits)
  from UpdateMemory_rows [OF quiet s1(1) up] obtain lid b where
    "memories s2 = memories s1 \<or> memories s2 = update_rows m_id (Mem_Id m) (fold (\<lambda>g r. g r) (memory_sets wc m lid b)) (memories s1)" by blast
  moreover have "others groups (update_rows m_id (Mem_Id m) (fold (\<lambda>g r. g r) (memory_sets wc m lid b)) (memories s)) = others groups (memories s)"
    unfolding update_rows_def by (rule others_map) (use own moved in \<open>auto simp: m(1) memory_sets_group\<close>)
  ultimately show "others groups (memories s2) = others groups (memories s)" using s1(2) by auto
qed simp

lemma replaceOnce_others:
  assumes careful: "careful_writer wc env" and s: "sound wc s" and ev: "Mem_EventId summary \<in> insert [] (e_id ` set (events s))"
    and "groups \<noteq> []" "Mem_Group summary \<in> set groups"
  shows "others groups (memories (snd (replaceMemoriesWithSummaryOnce wc env eventId groups summary n s))) = others groups (memories s)"
proof -
  obtain x s1 where E: "ensureSignificanceLevel wc env (Mem_Significance summary) (Mem_SignificanceLevelID summary) s = (x, s1)" by fastforce
  have s1: "sound wc s1" "memories s1 = memories s" "events s1 = events s"
    using ensure_sound [OF careful s, of "Mem_Significance summary" "Mem_SignificanceLevelID summary"] E by (simp_all add: record_tables_def)
  have "others groups (memories s2) = others groups (memories s)" if R: "replace_tx wc (we_now env) eventId groups (memory_row_of wc summary lid) s1 = (r, s2)" for lid r s2
  proof (cases r)
    case (Inr k)
    note X = replace_tx_effect(4) [OF s1(1) _ _ R]
    have "map sans_links (memories s2) = map sans_links (filter (\<lambda>r. \<not> (m_event_id r = eventId \<and> groupScopeConditions groups (m_group r))) (memories s))
        @ [sans_links (memory_row_of wc summary lid)]"
      using X [of k] Inr ev s1(2,3) by simp
    then have "others groups (memories s2) = others groups (filter (\<lambda>r. \<not> (m_event_id r = eventId \<and> groupScopeConditions groups (m_group r))) (memories s))"
      using assms(5) by (simp add: others_sans sans_links_def)
    also have "\<dots> = others groups (memories s)"
      using assms(4) unfolding others_def by (auto simp: groupScopeConditions_def when_set_def intro!: arg_cong [where f = "map sans_links"] filter_cong)
    finally show ?thesis .
  next
    case (Inl e)
    then have "s2 = s1" using replace_tx_effect(3) [OF s1(1) _ _ R, of e] ev s1(3) by simp
    then show ?thesis by (simp add: s1(2))
  qed
  then show ?thesis
    using E s1(2) unfolding replaceMemoriesWithSummaryOnce_def by (auto split: sum.splits option.splits) (metis snd_conv surj_pair)
qed

lemma Replace_others:
  assumes quiet: "uninterrupted env" and "sound wc s" "Mem_EventId summary \<in> insert [] (e_id ` set (events s))" "groups \<noteq> []" "Mem_Group summary \<in> set groups"
  shows "others groups (memories (snd (ReplaceMemoriesWithSummary wc env eventId groups summary s))) = others groups (memories s)"
proof -
  let ?I = "\<lambda>t. sound wc t \<and> Mem_EventId summary \<in> insert [] (e_id ` set (events t)) \<and> others groups (memories t) = others groups (memories s)"
  note careful = uninterrupted_careful [OF quiet, of wc]
  have "?I (snd (ReplaceMemoriesWithSummary wc env eventId groups summary s))"
    unfolding ReplaceMemoriesWithSummary_def
  proof (rule withTxRetry_keeps [where I = ?I])
    fix n t assume t: "?I t"
    then show "?I (we_tx_world env n t)" using quiet by (simp add: uninterrupted_def)
    show "?I (snd (replaceMemoriesWithSummaryOnce wc env eventId groups summary n t))"
      using t replaceOnce_sound [OF careful, of t summary eventId groups n] replaceOnce_others [OF careful, of t summary groups eventId n] assms(4,5) by simp
  qed (use assms in simp)
  then show ?thesis by blast
qed

lemma rpc_Replace_others:
  assumes bound: "GroupsFromContext ctx = Some groups" and quiet: "uninterrupted env" and s: "sound wc s"
  shows "others groups (memories (fst (snd (rpc_ReplaceMemoriesWithSummary wc env ctx eventId p s)))) = others groups (memories s)"
proof (cases "EventExists eventId s")
  case ev: True
  have "others groups (memories (fst (snd (insertSummary wc env ctx eventId p s)))) = others groups (memories s)"
  proof (rule insertSummary_rule [where P = "\<lambda>t. others groups (memories t) = others groups (memories s)"])
    have resolved: "sound wc s1" "memories s1 = memories s" "events s1 = events s"
      if "resolveMemorySignificance wc env p (summary_memory p eventId g) s = (x, s1)" for g x s1
      using resolveMemorySignificance_sound [OF uninterrupted_careful [OF quiet] s, of p "summary_memory p eventId g"] that by (simp_all add: record_tables_def)
    then show "others groups (memories s1) = others groups (memories s)"
      if "resolveMemorySignificance wc env p (summary_memory p eventId g) s = (x, s1)" for g x s1 using that by metis
    fix g m s1 r s2
    assume g: "writeGroup ctx (pm_group p) = Inr g" and res: "resolveMemorySignificance wc env p (summary_memory p eventId g) s = (Inr m, s1)"
      and rep: "ReplaceMemoriesWithSummary wc env eventId (case GroupsFromContext ctx of None \<Rightarrow> [] | Some gs \<Rightarrow> gs)
          (memory_SetDefaults (we_uuid env) (we_now env) m) (we_world env s1) = (r, s2)"
    have m: "Mem_EventId m = eventId" "Mem_Group m = g"
      by (subst resolveMemorySignificance_fields [OF res], simp add: summary_memory_def)+
    have "Mem_Group (memory_SetDefaults (we_uuid env) (we_now env) m) \<in> set groups" using bound_write_group [OF bound g] by (simp add: m)
    from Replace_others [OF quiet resolved(1) [OF res] _ bound_groups [OF bound] this, of eventId] resolved(2,3) [OF res] ev rep bound quiet
    show "others groups (memories s2) = others groups (memories s)" by (simp add: m EventExists_iff uninterrupted_def)
  qed simp
  then show ?thesis by (simp add: rpc_ReplaceMemoriesWithSummary_def on_ok_def split: sum.splits)
qed (simp add: rpc_ReplaceMemoriesWithSummary_def on_ok_def split: sum.splits)


section \<open>Worked examples\<close>

definition long_body :: string where "long_body = replicate 64 (CHR ''a'')"

text \<open>A compressor that knows one body, and the decompressor that undoes it.\<close>

definition example_wc :: write_config where
  "example_wc = \<lparr>wc_db = example_cfg\<lparr>db_decompress := (\<lambda>b. if b = ''z'' then Some long_body else Some b)\<rparr>, wc_compression = SetCompression True 10,
     wc_gzip = (\<lambda>b. if b = long_body then Some ''z'' else None), wc_metadata_len = (\<lambda>md. int (MetadataSerialisedLen md)),
     wc_event_len = (\<lambda>nm ds md. int (length nm + length ds + MetadataSerialisedLen md)), wc_counts_changed = False,
     wc_max_body = 0, wc_min_memory = 2, wc_min_event = 0\<rparr>"

definition quiet_write :: "nanos \<Rightarrow> ident \<Rightarrow> write_env" where
  "quiet_write now uuid = \<lparr>we_rpc = quiet_rpc now, we_uuid = uuid, we_interf = (\<lambda>x. x), we_level_fault = None, we_exists_fails = False, we_probe_fails = False,
     we_fault = None, we_world = (\<lambda>s. s), we_tx_fault = (\<lambda>_. None), we_tx_done = (\<lambda>_. False), we_tx_world = (\<lambda>_ s. s)\<rparr>"

lemma quiet_uninterrupted [simp]: "uninterrupted (quiet_write now uuid)"
  by (simp add: uninterrupted_def quiet_write_def)

definition plain_memory :: "ident \<Rightarrow> string \<Rightarrow> proto_memory" where
  "plain_memory i body = \<lparr>pm_id = i, pm_time_stamp = 0, pm_significance = 3, pm_event_id = [], pm_body = body, pm_is_binary = TriStateUnset, pm_time_recalled = 7,
     pm_recall_count = 7, pm_is_summary = False, pm_group = [], pm_links = [], pm_link_significance = 0, pm_external_bytes = 0, pm_metadata = [],
     pm_clear_metadata = False, pm_clear_group = False, pm_placement = None\<rparr>"

definition nobody :: request_ctx where "nobody = \<lparr>ctx_claims = None, ctx_tier = None\<rparr>"

lemma eventful_sound: "sound example_wc eventful_store"
  by code_simp


theorem stored_memory_reads_back_witness:
  "\<exists>s' r. GetMemoriesByIds [''n''] s' = [r] \<and> m_body r = ''z'' \<and> decompressBody (wc_db example_wc) (m_body r) (m_is_compressed r) = Some long_body
     \<and> m_event_id r = ''trip'' \<and> m_recall_count r = 0 \<and> memory_significance s' r = 3"
proof -
  let ?p = "(plain_memory ''n'' long_body)\<lparr>pm_event_id := ''trip''\<rparr>"
  have run: "fst (storeMemory example_wc (quiet_write 9 ''u'') nobody ?p eventful_store) = Inr (Stored ''n'')
      \<and> map m_body (GetMemoriesByIds [''n''] (fst (snd (storeMemory example_wc (quiet_write 9 ''u'') nobody ?p eventful_store)))) = [''z'']" by code_simp
  obtain s' ops where R: "storeMemory example_wc (quiet_write 9 ''u'') nobody ?p eventful_store = (Inr (Stored ''n''), s', ops)"
    using run by (cases "storeMemory example_wc (quiet_write 9 ''u'') nobody ?p eventful_store") auto
  have "wc_gzip example_wc b = Some packed \<Longrightarrow> db_decompress (wc_db example_wc) packed = Some b" for b packed
    by (auto simp: example_wc_def split: if_splits)
  from stored_memory_reads_back [OF eventful_sound quiet_uninterrupted this R] run R show ?thesis
    by (clarsimp simp: plain_memory_def hasPlacement_def) (intro exI [of _ s'], force)
qed

theorem batch_accounts_for_every_memory_witness:
  "\<exists>b s' ops. StoreMemories example_wc nobody (\<lambda>_. quiet_write 9 ''u'') (\<lambda>_. None) [plain_memory ''n'' ''x'', plain_memory ''m'' [], plain_memory ''n'' ''y''] eventful_store
      = (Inr b, s', ops) \<and> br_stored b = 1 \<and> br_failed b = 2 \<and> length (memories s') = length (memories eventful_store) + 1"
proof -
  let ?r = "StoreMemories example_wc nobody (\<lambda>_. quiet_write 9 ''u'') (\<lambda>_. None) [plain_memory ''n'' ''x'', plain_memory ''m'' [], plain_memory ''n'' ''y''] eventful_store"
  have run: "(case fst ?r of Inl _ \<Rightarrow> False | Inr b \<Rightarrow> br_stored b = 1 \<and> br_failed b = 2)" by code_simp
  then obtain b s' ops where R: "?r = (Inr b, s', ops)" "br_stored b = 1 \<and> br_failed b = 2"
    by (cases ?r) (auto split: sum.splits)
  from batch_accounts_for_every_memory [OF quiet_uninterrupted eventful_sound R(1)] R show ?thesis by auto
qed

definition bound_to :: "string list \<Rightarrow> request_ctx" where
  "bound_to gs = \<lparr>ctx_claims = Some \<lparr>claim_id = [], ClientID = [], Roles = [], Groups = gs, IssuedAt = None\<rparr>, ctx_tier = None\<rparr>"

text \<open>The example store with one event and one memory of group red, in an event nobody else may see.\<close>

definition shared_store :: db_state where
  "shared_store = eventful_store\<lparr>events := map (\<lambda>r. r\<lparr>e_group := ''red''\<rparr>) (events eventful_store),
     memories := map (\<lambda>r. if m_id r = ''b'' then r\<lparr>m_group := ''red''\<rparr> else r\<lparr>m_group := ''blue'', m_level := Some 1\<rparr>) (memories eventful_store),
     levels := [\<lparr>level_id = 1, level_rank = 5, unused_since = None\<rparr>], next_level_id := 2\<rparr>"

lemma shared_sound: "sound example_wc shared_store"
  by code_simp


theorem update_is_dialect_free_witness:
  "let m = (MemoryFromProto (plain_memory ''b'' ''x''))\<lparr>Mem_Significance := 0\<rparr>
   in UpdateMemory (example_wc\<lparr>wc_counts_changed := True\<rparr>) (quiet_write 9 ''u'') m eventful_store
      = UpdateMemory (example_wc\<lparr>wc_counts_changed := False\<rparr>) (quiet_write 9 ''u'') m eventful_store
    \<and> fst (UpdateMemory (example_wc\<lparr>wc_counts_changed := True\<rparr>) (quiet_write 9 ''u'') m eventful_store) = Inr True"
proof -
  have a: "\<not> we_probe_fails (quiet_write 9 ''u'')" by (simp add: quiet_write_def)
  have b: "fst (UpdateMemory (example_wc\<lparr>wc_counts_changed := True\<rparr>) (quiet_write 9 ''u'')
      ((MemoryFromProto (plain_memory ''b'' ''x''))\<lparr>Mem_Significance := 0\<rparr>) eventful_store) = Inr True" by code_simp
  show ?thesis using update_is_dialect_free [OF a, of example_wc] b by (simp add: Let_def)
qed

section \<open>What the checks do not cover\<close>

text \<open>
  The check that a memory's event exists is not in the insert's transaction: an event deleted between the two
  leaves a memory that names it, though every single call does what it says.
\<close>

lemma deleted_event_leaves_a_dangling_memory:
  "let env = (quiet_write 9 ''u'')\<lparr>we_world := (\<lambda>s. s\<lparr>events := [], memories := map (\<lambda>r. r\<lparr>m_event_id := []\<rparr>) (memories s)\<rparr>)\<rparr>;
       r = storeMemory example_wc env nobody ((plain_memory ''n'' ''x'')\<lparr>pm_event_id := ''trip''\<rparr>) eventful_store
   in fst r = Inr (Stored ''n'') \<and> \<not> refs_ok (fst (snd r))"
  by code_simp

text \<open>A binary summary is indexed, though a binary memory stored otherwise is not.\<close>

lemma binary_summary_is_indexed:
  "let p = (plain_memory ''n'' ''x'')\<lparr>pm_is_binary := TriStateTrue\<rparr>
   in snd (snd (storeMemory example_wc (quiet_write 9 ''u'') nobody p eventful_store)) = []
    \<and> snd (snd (rpc_ReplaceMemoriesWithSummary example_wc (quiet_write 9 ''u'') nobody ''trip'' p eventful_store)) = [DropByEventId ''trip'', IndexMemory ''n'']"
  by code_simp

text \<open>A placement's anchor is resolved without the caller's scope, so its answer tells a bound caller whether an id of another group exists.\<close>

lemma anchor_probes_other_groups:
  "let put = (\<lambda>i. (plain_memory ''n'' ''x'')\<lparr>pm_placement := Some \<lparr>pl_mode = PlacementAbove, pl_anchor = 0, pl_anchor_id = i, pl_upper = 0, pl_upper_id = []\<rparr>\<rparr>);
       answer = (\<lambda>i. fst (storeMemory example_wc (quiet_write 9 ''u'') (bound_to [''red'']) (put i) shared_store))
   in answer ''c'' = Inr (Stored ''n'') \<and> answer ''q'' = Inl InvalidArgument"
  by code_simp

text \<open>An invalid event is answered as an internal error, an invalid memory as the caller's mistake.\<close>

lemma invalid_event_is_internal:
  "fst (rpc_StoreEvent example_wc (quiet_write 9 ''u'') (\<lambda>_. quiet_write 9 ''u'') nobody
     \<lparr>pe_id = [], pe_time_start = 0, pe_time_end = 0, pe_significance = -1, pe_name = [], pe_description = [], pe_links = [],
      pe_group = [], pe_metadata = [], pe_clear_metadata = False, pe_clear_group = False, pe_placement = None, pe_memories = []\<rparr> eventful_store) = Inl Internal
    \<and> fst (storeMemory example_wc (quiet_write 9 ''u'') nobody ((plain_memory ''n'' ''x'')\<lparr>pm_significance := -1\<rparr>) eventful_store) = Inl InvalidArgument"
  by code_simp

text \<open>Merging events moves the memories of every group in the source event, the caller's or not.\<close>

lemma merge_moves_other_groups:
  "let s' = fst (snd (rpc_MergeEvents example_wc (quiet_write 9 ''u'') (bound_to [''red'']) ''visit'' ''trip'' shared_store))
   in map (\<lambda>r. (m_id r, m_group r, m_event_id r)) (memories s') \<noteq> map (\<lambda>r. (m_id r, m_group r, m_event_id r)) (memories shared_store)
    \<and> others [''red''] (memories s') \<noteq> others [''red''] (memories shared_store)"
  by code_simp

end
