(* ===== verification/Ranked_Search.thy ===== *)
theory Ranked_Search
  imports Write_Handlers
begin

text \<open>
  Content search (\<^verbatim>\<open>hippocampus/search.go\<close>, \<^verbatim>\<open>hippocampus/fusion.go\<close>, \<^verbatim>\<open>hippocampus/ranking.go\<close>): the three modes of a
  search, the fusion of two ranked lists by reciprocal rank, the blend of relevance with significance and recall, the page cut from
  the ranked order, and the recall of what is returned. The index and the embedding model are parameters; float64 is
  modelled by the reals.
\<close>

section \<open>Fusion\<close>

record Hit =
  hit_id :: ident
  hit_score :: real

definition rrfK :: real where "rrfK = 60"

text \<open>The two maps the fusion fills, as functions with their insertion counter.\<close>

record fusion =
  contributions :: "ident \<Rightarrow> real"
  firstSeen :: "ident \<Rightarrow> nat option"
  next_order :: nat

definition fuse_hit :: "nat \<times> Hit \<Rightarrow> fusion \<Rightarrow> fusion" where
  "fuse_hit ph st =
     (let position = fst ph; i = hit_id (snd ph);
          st1 = st\<lparr>contributions := (contributions st)(i := contributions st i + 1 / (rrfK + real position))\<rparr>
      in if firstSeen st1 i = None then st1\<lparr>firstSeen := (firstSeen st1)(i \<mapsto> next_order st1), next_order := next_order st1 + 1\<rparr> else st1)"

definition fuse_list :: "Hit list \<Rightarrow> fusion \<Rightarrow> fusion" where
  "fuse_list hits = fold fuse_hit (enumerate 0 hits)"

definition no_fusion :: fusion where
  "no_fusion = \<lparr>contributions = (\<lambda>_. 0), firstSeen = (\<lambda>_. None), next_order = 0\<rparr>"

text \<open>
  Go ranges over a map in no particular order: \<open>iter\<close> is the order it happens to take. The sort is by score,
  ties by the order of first appearance, and two ids never tie on both.
\<close>

definition fuseHits :: "(ident list \<Rightarrow> ident list) \<Rightarrow> Hit list list \<Rightarrow> Hit list" where
  "fuseHits iter ls =
     (let st = fold fuse_list ls no_fusion;
          ids = iter (remdups (map hit_id (concat ls)))
      in map (\<lambda>i. \<lparr>hit_id = i, hit_score = contributions st i\<rparr>)
           (sort_key (\<lambda>i. - contributions st i) (sort_key (\<lambda>i. the (firstSeen st i)) ids)))"

section \<open>Ranking\<close>

definition rankingOverFetch :: int where "rankingOverFetch = 4"

record rankingWeights =
  w_significance :: real
  w_recall :: real

definition active :: "rankingWeights \<Rightarrow> bool" where
  "active w \<longleftrightarrow> w_significance w \<noteq> 0 \<or> w_recall w \<noteq> 0"

definition candidateLimit :: "rankingWeights \<Rightarrow> int \<Rightarrow> int" where
  "candidateLimit w limit = (if \<not> active w then limit else limit * rankingOverFetch)"

definition normalise :: "real list \<Rightarrow> real list" where
  "normalise values =
     (case values of
        [] \<Rightarrow> []
      | v # _ \<Rightarrow>
          (let highest = fold max values v
           in if highest \<le> 0 then map (\<lambda>_. 0) values
              else map (\<lambda>v. if v \<le> 0 then 0 else v / highest) values))"

text \<open>A candidate: the row with its relevance. Significance is the rank the registry gives it.\<close>

definition blend :: "(memory_row \<Rightarrow> int) \<Rightarrow> rankingWeights \<Rightarrow> (memory_row \<times> real) list \<Rightarrow> real list" where
  "blend sig w cs =
     (let relevance = normalise (map snd cs);
          significances = normalise (map (\<lambda>c. real_of_int (sig (fst c))) cs);
          recalls = normalise (map (\<lambda>c. ln (1 + real_of_int (m_recall_count (fst c)))) cs)
      in map (\<lambda>i. relevance ! i + w_significance w * significances ! i + w_recall w * recalls ! i) [0..<length cs])"

definition reorder :: "(memory_row \<Rightarrow> int) \<Rightarrow> rankingWeights \<Rightarrow> (memory_row \<times> real) list \<Rightarrow> memory_row list" where
  "reorder sig w cs =
     (let blended = blend sig w cs
      in map (\<lambda>i. fst (cs ! i)) (sort_key (\<lambda>i. - (blended ! i)) [0..<length cs]))"

definition by_id :: "memory_row list \<Rightarrow> ident \<Rightarrow> memory_row option" where
  "by_id ms = map_of (rev (map (\<lambda>m. (m_id m, m)) ms))"

definition candidates_of :: "Hit list \<Rightarrow> memory_row list \<Rightarrow> (memory_row \<times> real) list" where
  "candidates_of hits ms = List.map_filter (\<lambda>h. map_option (\<lambda>m. (m, hit_score h)) (by_id ms (hit_id h))) hits"

definition rankMemories :: "(memory_row \<Rightarrow> int) \<Rightarrow> Hit list \<Rightarrow> memory_row list \<Rightarrow> rankingWeights \<Rightarrow> int \<Rightarrow> memory_row list" where
  "rankMemories sig hits ms w limit =
     (let cs = candidates_of hits ms;
          ordered = (if active w \<and> length cs > 1 then reorder sig w cs else map fst cs)
      in if limit > 0 \<and> int (length ordered) > limit then take (nat limit) ordered else ordered)"

section \<open>Searching\<close>

datatype SearchMode = SEARCH_MODE_UNSPECIFIED | SEARCH_MODE_KEYWORD | SEARCH_MODE_SEMANTIC | SEARCH_MODE_HYBRID

record Query =
  q_text :: string
  q_vector :: "real list"
  q_event_id :: ident
  q_group :: string
  q_groups :: "string list"
  q_limit :: int
  q_metadata :: metadata
  q_timestamp_min :: nanos
  q_timestamp_max :: nanos

record search_request =
  sr_query :: string
  sr_mode :: SearchMode
  sr_event_id :: ident
  sr_group :: string
  sr_metadata :: "string list"
  sr_limit :: int
  sr_offset :: int
  sr_timestamp_min :: nanos
  sr_timestamp_max :: nanos
  sr_reinforce :: bool
  sr_include_linked :: bool

text \<open>The index, the embedding model, what may fail, and what other connections commit between the read and the recall.\<close>

record search_env =
  se_rpc :: rpc_env
  se_enabled :: bool
  se_vectors :: bool
  se_embed_enabled :: bool
  se_embed :: "string \<Rightarrow> real list list option"
  se_search :: "Query \<Rightarrow> write_error + Hit list"
  se_iter :: "ident list \<Rightarrow> ident list"
  se_get_fails :: bool
  se_recall_fault :: "write_error option"
  se_world :: "db_state \<Rightarrow> db_state"

record search_config =
  sc_ranking :: rankingWeights
  sc_recall :: recall_config

definition defaultSearchLimit :: int where "defaultSearchLimit = 10"

definition maxSearchLimit :: int where "maxSearchLimit = 200"

definition maxSearchOffset :: int where "maxSearchOffset = 1000"

definition search_limit :: "int \<Rightarrow> int" where
  "search_limit n = (let l = (if n \<le> 0 then defaultSearchLimit else n) in if l > maxSearchLimit then maxSearchLimit else l)"

definition embedQuery :: "search_env \<Rightarrow> string \<Rightarrow> rpc_error + real list" where
  "embedQuery env txt =
     (if \<not> se_embed_enabled env then Inl FailedPrecondition
      else if \<not> se_vectors env then Inl FailedPrecondition
      else case se_embed env txt of
             None \<Rightarrow> Inl Unavailable
           | Some [v] \<Rightarrow> Inr v
           | Some _ \<Rightarrow> Inl Internal)"

definition index_search :: "search_env \<Rightarrow> Query \<Rightarrow> rpc_error + Hit list" where
  "index_search env q = (case se_search env q of Inl e \<Rightarrow> Inl (mapError e) | Inr hits \<Rightarrow> Inr hits)"

definition base_query :: "request_ctx \<Rightarrow> search_request \<Rightarrow> int \<Rightarrow> Query" where
  "base_query ctx q limit =
     \<lparr>q_text = sr_query q, q_vector = [], q_event_id = sr_event_id q, q_group = sr_group q,
      q_groups = (case GroupsFromContext ctx of None \<Rightarrow> [] | Some gs \<Rightarrow> gs), q_limit = limit,
      q_metadata = (case ParseMetadataFilters (sr_metadata q) of Inl _ \<Rightarrow> [] | Inr md \<Rightarrow> md),
      q_timestamp_min = sr_timestamp_min q, q_timestamp_max = sr_timestamp_max q\<rparr>"

definition searchHits :: "search_env \<Rightarrow> request_ctx \<Rightarrow> search_request \<Rightarrow> int \<Rightarrow> rpc_error + Hit list" where
  "searchHits env ctx q limit =
     (let base = base_query ctx q limit
      in case sr_mode q of
           SEARCH_MODE_SEMANTIC \<Rightarrow>
             (case embedQuery env (sr_query q) of
                Inl e \<Rightarrow> Inl e
              | Inr v \<Rightarrow> index_search env (base\<lparr>q_vector := v\<rparr>))
         | SEARCH_MODE_HYBRID \<Rightarrow>
             (case embedQuery env (sr_query q) of
                Inl e \<Rightarrow> Inl e
              | Inr v \<Rightarrow>
                  (case index_search env base of
                     Inl e \<Rightarrow> Inl e
                   | Inr keyword \<Rightarrow>
                       (case index_search env (base\<lparr>q_vector := v\<rparr>) of
                          Inl e \<Rightarrow> Inl e
                        | Inr vectorHits \<Rightarrow> Inr (fuseHits (se_iter env) [keyword, vectorHits]))))
         | _ \<Rightarrow> index_search env base)"

definition reinforceRanked :: "search_env \<Rightarrow> memory_row list \<Rightarrow> db_state \<Rightarrow> (write_error + memory_row list) \<times> db_state" where
  "reinforceRanked env ranked s =
     (case se_recall_fault env of
        Some e \<Rightarrow> (Inl e, s)
      | None \<Rightarrow>
          (let (recalled, s') = RecallMemories (rpc_now (se_rpc env)) (map m_id ranked) s
           in (Inr (List.map_filter (\<lambda>m. by_id recalled (m_id m)) ranked), s')))"

definition search_problem :: "search_env \<Rightarrow> search_request \<Rightarrow> rpc_error option" where
  "search_problem env q =
     (if \<not> se_enabled env then Some FailedPrecondition
      else if sr_query q = [] then Some Unknown
      else if (case ParseMetadataFilters (sr_metadata q) of Inl _ \<Rightarrow> True | Inr _ \<Rightarrow> False) then Some InvalidArgument
      else if sr_offset q < 0 \<or> sr_offset q > maxSearchOffset then Some InvalidArgument
      else if sr_timestamp_min q > 0 \<and> sr_timestamp_max q > 0 \<and> sr_timestamp_min q > sr_timestamp_max q then Some InvalidArgument
      else None)"

definition SearchMemories :: "search_config \<Rightarrow> search_env \<Rightarrow> request_ctx \<Rightarrow> search_request \<Rightarrow> db_state \<Rightarrow> (rpc_error + memory_row list) \<times> db_state" where
  "SearchMemories sc env ctx q s =
     (case search_problem env q of
        Some e \<Rightarrow> (Inl e, s)
      | None \<Rightarrow>
          (let window = sr_offset q + search_limit (sr_limit q)
           in case searchHits env ctx q (candidateLimit (sc_ranking sc) window) of
                Inl e \<Rightarrow> (Inl e, s)
              | Inr hits \<Rightarrow>
                  if hits = [] then (Inr [], s)
                  else if se_get_fails env then (Inl (mapError ErrOther), s)
                  else
                    (let reinforce = (sr_reinforce q \<and> mayReinforce (rc_reader_reinforces (sc_recall sc)) ctx);
                         rows = GetMemoriesByIds (map hit_id hits) s;
                         ranked = drop (nat (sr_offset q)) (rankMemories (memory_significance s) hits rows (sc_ranking sc) window);
                         s1 = se_world env s;
                         out = (if reinforce \<and> ranked \<noteq> [] then reinforceRanked env ranked s1 else (Inr ranked, s1))
                     in case out of
                          (Inl e, s2) \<Rightarrow> (Inl (mapError e), s2)
                        | (Inr shown, s2) \<Rightarrow>
                            (let s3 = (if reinforce then reinforceLinked (se_rpc env) (rc_propagation (sc_recall sc)) (map m_id shown) s2 else s2)
                             in (Inr (shown @ (if sr_include_linked q \<and> shown \<noteq> [] then linkedMemories (se_rpc env) ctx (map m_id shown) s3 else [])), s3)))))"

definition searchModes :: "search_env \<Rightarrow> SearchMode list" where
  "searchModes env =
     (if \<not> se_enabled env then []
      else SEARCH_MODE_KEYWORD # (if se_embed_enabled env \<and> se_vectors env then [SEARCH_MODE_SEMANTIC, SEARCH_MODE_HYBRID] else []))"

definition embedBody :: "search_env \<Rightarrow> Memory \<Rightarrow> real list option" where
  "embedBody env m =
     (if \<not> se_embed_enabled env \<or> Mem_IsBinary m \<or> Mem_Body m = [] then None
      else if \<not> se_vectors env then None
      else case se_embed env (Mem_Body m) of Some [v] \<Rightarrow> Some v | _ \<Rightarrow> None)"

section \<open>Fusion rewards agreement\<close>

definition before :: "'a \<Rightarrow> 'a \<Rightarrow> 'a list \<Rightarrow> bool" where
  "before x y zs \<longleftrightarrow> (\<exists>us vs. zs = us @ vs \<and> x \<in> set us \<and> y \<in> set vs)"

lemma before_Nil [simp]: "\<not> before x y []"
  by (simp add: before_def)

lemma before_Cons: "before x y (z # zs) \<longleftrightarrow> x = z \<and> y \<in> set zs \<or> before x y zs"
proof
  assume "before x y (z # zs)"
  then obtain us vs where "z # zs = us @ vs" "x \<in> set us" "y \<in> set vs" by (auto simp: before_def)
  then show "x = z \<and> y \<in> set zs \<or> before x y zs" by (cases us) (auto simp: before_def)
next
  assume "x = z \<and> y \<in> set zs \<or> before x y zs"
  then show "before x y (z # zs)"
  proof
    assume "x = z \<and> y \<in> set zs"
    then show ?thesis unfolding before_def by (intro exI [of _ "[z]"] exI [of _ zs]) simp
  next
    assume "before x y zs"
    then obtain us vs where "zs = us @ vs" "x \<in> set us" "y \<in> set vs" by (auto simp: before_def)
    then show ?thesis unfolding before_def by (intro exI [of _ "z # us"] exI [of _ vs]) simp
  qed
qed

lemma sorted_before:
  "sorted (map f ys) \<Longrightarrow> x \<in> set ys \<Longrightarrow> y \<in> set ys \<Longrightarrow> f x < (f y :: 'b :: linorder) \<Longrightarrow> before x y ys"
  by (induction ys) (auto simp: before_Cons)

lemma before_map: "before x y zs \<Longrightarrow> before (f x) (f y) (map f zs)"
  unfolding before_def by (metis image_eqI list.set_map map_append)

definition rank_share :: "(nat \<times> Hit) list \<Rightarrow> ident \<Rightarrow> real" where
  "rank_share xs i = sum_list (map (\<lambda>ph. if hit_id (snd ph) = i then 1 / (rrfK + real (fst ph)) else 0) xs)"

lemma fuse_hits_contributions: "contributions (fold fuse_hit xs st) i = contributions st i + rank_share xs i"
  by (induction xs arbitrary: st) (auto simp: fuse_hit_def Let_def rank_share_def)

lemma fuse_lists_contributions: "contributions (fold fuse_list ls st) i = contributions st i + sum_list (map (\<lambda>l. rank_share (enumerate 0 l) i) ls)"
  by (induction ls arbitrary: st) (auto simp: fuse_list_def fuse_hits_contributions)

lemma rank_share_absent: "i \<notin> hit_id ` set l \<Longrightarrow> rank_share (enumerate n l) i = 0"
  by (induction l arbitrary: n) (auto simp: rank_share_def)

lemma rank_share_at:
  "distinct (map hit_id l) \<Longrightarrow> p < length l \<Longrightarrow> rank_share (enumerate n l) (hit_id (l ! p)) = 1 / (rrfK + real (n + p))"
proof (induction l arbitrary: n p)
  case (Cons h l)
  show ?case
  proof (cases p)
    case 0
    then show ?thesis using Cons.prems rank_share_absent [of "hit_id h" l "Suc n"] by (simp add: rank_share_def)
  next
    case (Suc q)
    have "hit_id h \<noteq> hit_id (l ! q)" using Cons.prems Suc by (metis Suc_less_eq distinct.simps(2) length_Cons length_map list.simps(9) nth_map nth_mem)
    then show ?thesis using Cons Suc by (simp add: rank_share_def)
  qed
qed simp

lemma rank_share_bounds:
  assumes "distinct (map hit_id l)"
  shows "0 \<le> rank_share (enumerate 0 l) i" "rank_share (enumerate 0 l) i \<le> 1 / 60"
proof -
  have "\<exists>p < length l. hit_id (l ! p) = i" if "i \<in> hit_id ` set l" using that by (auto simp: in_set_conv_nth)
  then consider "rank_share (enumerate 0 l) i = 0" | p where "rank_share (enumerate 0 l) i = 1 / (60 + real p)"
    using rank_share_absent [of i l 0] rank_share_at [OF assms, of _ 0] by (metis add_0 rrfK_def)
  then show "0 \<le> rank_share (enumerate 0 l) i" "rank_share (enumerate 0 l) i \<le> 1 / 60" by (cases; simp add: frac_le)+
qed

text \<open>Every id is numbered when it is first seen, and no two share a number.\<close>

definition numbered :: "ident set \<Rightarrow> fusion \<Rightarrow> bool" where
  "numbered A st \<longleftrightarrow> dom (firstSeen st) = A \<and> inj_on (firstSeen st) A \<and> (\<forall>i n. firstSeen st i = Some n \<longrightarrow> n < next_order st)"

lemma fuse_hits_numbered: "numbered A st \<Longrightarrow> numbered (A \<union> (hit_id \<circ> snd) ` set xs) (fold fuse_hit xs st)"
proof (induction xs arbitrary: A st)
  case (Cons x xs)
  have "numbered (insert (hit_id (snd x)) A) (fuse_hit x st)"
    using Cons.prems by (auto simp: numbered_def fuse_hit_def Let_def inj_on_def less_Suc_eq insert_absorb domIff split: if_splits) (metis less_irrefl)+
  from Cons.IH [OF this] show ?case by simp
qed simp

lemma fuse_lists_numbered: "numbered A st \<Longrightarrow> numbered (A \<union> hit_id ` set (concat ls)) (fold fuse_list ls st)"
proof (induction ls arbitrary: A st)
  case (Cons l ls)
  have "snd ` set (enumerate 0 l) = set l" by (metis list.set_map map_snd_enumerate)
  then have "numbered (A \<union> hit_id ` set l) (fuse_list l st)"
    using fuse_hits_numbered [OF Cons.prems, of "enumerate 0 l"] by (simp only: fuse_list_def image_comp [symmetric])
  from Cons.IH [OF this] show ?case by (simp add: image_Un Un_assoc)
qed simp

lemma fuse_final_numbered: "numbered (hit_id ` set (concat ls)) (fold fuse_list ls no_fusion)"
  using fuse_lists_numbered [of "{}" no_fusion ls] by (simp add: numbered_def no_fusion_def)

text \<open>The order of a map's iteration does not show.\<close>

lemma fusion_is_deterministic:
  assumes "\<And>xs. mset (iter xs) = mset xs"
  shows "fuseHits iter ls = fuseHits (\<lambda>xs. xs) ls"
proof -
  let ?st = "fold fuse_list ls no_fusion" and ?ids = "remdups (map hit_id (concat ls))"
  have inj: "inj_on (\<lambda>i. the (firstSeen ?st i)) (set (iter ?ids))"
  proof (rule inj_onI)
    fix x y assume "x \<in> set (iter ?ids)" "y \<in> set (iter ?ids)" and eq: "the (firstSeen ?st x) = the (firstSeen ?st y)"
    then have "x \<in> hit_id ` set (concat ls)" "y \<in> hit_id ` set (concat ls)"
      using mset_eq_setD [OF assms [of ?ids]] by auto
    then show "x = y" using fuse_final_numbered [of ls] eq unfolding numbered_def inj_on_def by (metis domD option.sel)
  qed
  have "sort_key (\<lambda>i. the (firstSeen ?st i)) (iter ?ids) = sort_key (\<lambda>i. the (firstSeen ?st i)) ?ids"
    by (rule sort_key_inj_key_eq [OF _ inj]) (simp_all add: assms)
  then show ?thesis by (simp add: fuseHits_def Let_def)
qed

text \<open>
  C30. Hybrid search rewards agreement. A memory within the first sixty of both lists comes before every memory
  that only one of them found, wherever that one placed it and in whatever order a map is traversed.
\<close>

theorem fusion_rewards_agreement:
  assumes "distinct (map hit_id kw)" "distinct (map hit_id vec)" "\<And>xs. mset (iter xs) = mset xs"
    and "p < length kw" "q < length vec" "hit_id (kw ! p) = a" "hit_id (vec ! q) = a" "p < 60" "q < 60"
    and "b \<in> hit_id ` set kw \<union> hit_id ` set vec" "b \<notin> hit_id ` set kw \<or> b \<notin> hit_id ` set vec"
  shows "before a b (map hit_id (fuseHits iter [kw, vec]))"
proof -
  let ?st = "fold fuse_list [kw, vec] no_fusion"
  have score: "contributions ?st i = rank_share (enumerate 0 kw) i + rank_share (enumerate 0 vec) i" for i
    by (simp only: fuse_lists_contributions) (simp add: no_fusion_def)
  have "1 / (60 + real p) > 1 / 120" "1 / (60 + real q) > 1 / 120" using assms(8,9) by (simp_all add: divide_simps)
  then have "contributions ?st a > 1 / 60"
    using rank_share_at [OF assms(1,4), of 0] rank_share_at [OF assms(2,5), of 0] by (simp only: score assms(6,7) rrfK_def add_0)
  moreover have "contributions ?st b \<le> 1 / 60"
    using assms(11) rank_share_absent [of b kw 0] rank_share_absent [of b vec 0] rank_share_bounds [OF assms(1), of b] rank_share_bounds [OF assms(2), of b]
    by (simp only: score) auto
  ultimately have "- contributions ?st a < - contributions ?st b" by simp
  moreover have "a \<in> set (iter (remdups (map hit_id (concat [kw, vec]))))" "b \<in> set (iter (remdups (map hit_id (concat [kw, vec]))))"
    using assms(4,6,10) mset_eq_setD [OF assms(3) [of "remdups (map hit_id (concat [kw, vec]))"]] by (auto simp flip: assms(6))
  ultimately have "before a b (sort_key (\<lambda>i. - contributions ?st i) (sort_key (\<lambda>i. the (firstSeen ?st i)) (iter (remdups (map hit_id (concat [kw, vec]))))))"
    by (intro sorted_before [where f = "\<lambda>i. - contributions ?st i"]) simp_all
  then show ?thesis unfolding fuseHits_def Let_def by (simp only: map_map comp_def Hit.select_convs map_ident)
qed

section \<open>What the blend can and cannot do\<close>

lemma normalise_nth:
  assumes "i < length vs"
  shows "normalise vs ! i = (if vs ! i \<le> 0 then 0 else vs ! i / Max (set vs))"
proof -
  obtain v ws where vs: "vs = v # ws" using assms by (cases vs) auto
  have top: "fold max vs v = Max (set vs)" by (simp add: vs Max.set_eq_fold flip: set_simps)
  have "vs ! i \<le> Max (set vs)" using assms by simp
  then have z: "vs ! i \<le> 0" if "Max (set vs) \<le> 0" using that by linarith
  have "normalise vs = (if Max (set vs) \<le> 0 then map (\<lambda>_. 0) vs else map (\<lambda>v. if v \<le> 0 then 0 else v / Max (set vs)) vs)"
    using top by (simp add: normalise_def vs Let_def)
  then show ?thesis using z assms by simp
qed

lemma normalise_bounds:
  assumes "i < length vs"
  shows "0 \<le> normalise vs ! i" "normalise vs ! i \<le> 1"
proof -
  have "vs ! i \<le> Max (set vs)" using assms by simp
  then show "0 \<le> normalise vs ! i" "normalise vs ! i \<le> 1"
    by (auto simp: normalise_nth [OF assms] divide_simps)
qed

lemma normalise_mono:
  assumes "i < length vs" "j < length vs" "vs ! j \<le> vs ! i"
  shows "normalise vs ! j \<le> normalise vs ! i"
proof -
  have "0 < vs ! i \<Longrightarrow> 0 \<le> Max (set vs)" using assms(1) by (meson List.finite_set Max_ge less_le_trans nth_mem less_imp_le)
  then show ?thesis using assms(3) by (auto simp: normalise_nth assms(1,2) not_le intro!: divide_right_mono divide_nonneg_nonneg)
qed

lemma blend_nth:
  assumes "i < length cs"
  shows "blend sig w cs ! i = normalise (map snd cs) ! i + w_significance w * normalise (map (\<lambda>c. real_of_int (sig (fst c))) cs) ! i
    + w_recall w * normalise (map (\<lambda>c. ln (1 + real_of_int (m_recall_count (fst c)))) cs) ! i"
  using assms by (simp add: blend_def Let_def)

lemma before_filter: "before x y (filter P zs) \<Longrightarrow> before x y zs"
  by (induction zs) (auto simp: before_Cons split: if_splits)

lemma before_stable_sort:
  assumes "before x y xs" "f x \<le> (f y :: 'b :: linorder)"
  shows "before x y (sort_key f xs)"
proof (cases "f x = f y")
  case True
  obtain us vs where "xs = us @ vs" "x \<in> set us" "y \<in> set vs" using assms(1) by (auto simp: before_def)
  then have "before x y (filter (\<lambda>z. f z = f y) xs)"
    unfolding before_def using True by (intro exI [of _ "filter (\<lambda>z. f z = f y) us"] exI [of _ "filter (\<lambda>z. f z = f y) vs"]) simp
  then have "before x y (filter (\<lambda>z. f z = f y) (sort_key f xs))" by (simp only: sort_key_stable)
  then show ?thesis by (rule before_filter)
next
  case False
  then show ?thesis using assms by (intro sorted_before [where f = f]) (auto simp: before_def)
qed

lemma before_upt: "i < j \<Longrightarrow> j < n \<Longrightarrow> before i j [0..<n]"
  unfolding before_def using upt_add_eq_append [of 0 j "n - j"] by (intro exI [of _ "[0..<j]"] exI [of _ "[j..<n]"]) simp

lemma before_take:
  assumes "before x y zs" "y \<in> set (take n zs)" "distinct zs"
  shows "before x y (take n zs)"
proof -
  obtain us vs where zs: "zs = us @ vs" "x \<in> set us" "y \<in> set vs" using assms(1) by (auto simp: before_def)
  then have "y \<notin> set us" using assms(3) by auto
  then have "length us \<le> n" "y \<in> set (take (n - length us) vs)" using assms(2) zs(1) by (auto dest: in_set_takeD) (metis diff_is_0_eq empty_iff list.set(1) nat_le_linear take0)
  then show ?thesis using zs unfolding before_def by (intro exI [of _ us] exI [of _ "take (n - length us) vs"]) simp
qed

lemma by_id_Some: "by_id ms i = Some m \<Longrightarrow> m \<in> set ms \<and> m_id m = i"
  unfolding by_id_def using map_of_SomeD by fastforce

lemma by_id_None: "by_id ms i = None \<longleftrightarrow> i \<notin> m_id ` set ms"
  unfolding by_id_def map_of_eq_None_iff by (auto simp: image_iff)

lemma candidates_ids: "map (m_id \<circ> fst) (candidates_of hits ms) = filter (\<lambda>i. i \<in> m_id ` set ms) (map hit_id hits)"
proof (induction hits)
  case (Cons h hits)
  then show ?case
    using by_id_None [of ms "hit_id h"] by (cases "by_id ms (hit_id h)") (auto simp: candidates_of_def map_filter_simps dest: by_id_Some)
qed (simp add: candidates_of_def map_filter_simps)

lemma candidates_distinct: "distinct (map hit_id hits) \<Longrightarrow> distinct (map fst (candidates_of hits ms))"
  using distinct_filter [of "map hit_id hits"] by (metis candidates_ids distinct_map map_map)

lemma reorder_mset: "mset (reorder sig w cs) = mset (map fst cs)"
proof -
  have "mset (map f (sort_key g xs)) = mset (map f xs)" for f :: "nat \<Rightarrow> memory_row" and g :: "nat \<Rightarrow> real" and xs by simp
  moreover have "map (\<lambda>i. fst (cs ! i)) [0..<length cs] = map fst cs" by (rule nth_equalityI) simp_all
  ultimately show ?thesis by (simp only: reorder_def Let_def)
qed

lemma ranked_perm:
  obtains zs where "mset zs = mset (map fst (candidates_of hits ms))"
    "zs = (if active w \<and> length (candidates_of hits ms) > 1 then reorder sig w (candidates_of hits ms) else map fst (candidates_of hits ms))"
    "rankMemories sig hits ms w limit = (if limit > 0 \<and> int (length zs) > limit then take (nat limit) zs else zs)"
  using that by (simp add: rankMemories_def Let_def reorder_mset)

lemma reorder_before:
  assumes "i < j" "j < length cs" "blend sig w cs ! j \<le> blend sig w cs ! i"
  shows "before (fst (cs ! i)) (fst (cs ! j)) (reorder sig w cs)"
  unfolding reorder_def Let_def
  by (rule before_map) (rule before_stable_sort [OF before_upt [OF assms(1,2)]], use assms(3) in simp)

lemma ranked_before:
  assumes hits: "distinct (map hit_id hits)" and ij: "i < j" "j < length (candidates_of hits ms)"
    and ord: "active w \<Longrightarrow> blend sig w (candidates_of hits ms) ! j \<le> blend sig w (candidates_of hits ms) ! i"
    and shown: "fst (candidates_of hits ms ! j) \<in> set (rankMemories sig hits ms w limit)"
  shows "before (fst (candidates_of hits ms ! i)) (fst (candidates_of hits ms ! j)) (rankMemories sig hits ms w limit)"
proof -
  let ?cs = "candidates_of hits ms"
  let ?zs = "if active w \<and> length ?cs > 1 then reorder sig w ?cs else map fst ?cs"
  have "before (fst (?cs ! i)) (fst (?cs ! j)) (map fst ?cs)"
    using before_map [OF before_upt [OF ij], of "\<lambda>k. fst (?cs ! k)"] by (simp add: map_nth flip: map_map [of fst "\<lambda>k. ?cs ! k", unfolded comp_def])
  then have bef: "before (fst (?cs ! i)) (fst (?cs ! j)) ?zs" using reorder_before [OF ij ord] by simp
  have "mset ?zs = mset (map fst ?cs)" by (simp add: reorder_mset)
  then have "distinct ?zs" using candidates_distinct [OF hits, of ms] by (metis mset_eq_imp_distinct_iff)
  with bef shown show ?thesis unfolding rankMemories_def Let_def by (auto intro: before_take)
qed


section \<open>What a search shows and reinforces\<close>

lemma RecallMemories_recalled:
  "set (fst (RecallMemories now ids s)) = recall_row now ` {r \<in> set (memories s). m_id r \<in> set ids}"
proof -
  let ?step = "\<lambda>chunk (out, s :: db_state). (let rows = recall_chunk now (lockOrderedIDs chunk) (memories s)
          in (out @ filter (\<lambda>r. m_id r \<in> set chunk) rows, s\<lparr>memories := rows\<rparr>))"
  have "distinct (concat cs) \<Longrightarrow> set (fst (fold ?step cs (out, u))) = set out \<union> recall_row now ` {r \<in> set (memories u). m_id r \<in> set (concat cs)}" for cs out u
  proof (induction cs arbitrary: out u)
    case (Cons c cs)
    let ?rows = "recall_chunk now (lockOrderedIDs c) (memories u)"
    have rows: "?rows = map (\<lambda>r. if m_id r \<in> set c then recall_row now r else r) (memories u)" by (simp add: recall_chunk_def lockOrderedIDs_def)
    have id: "m_id (recall_row now r) = m_id r" for r by (simp add: recall_row_def)
    have "{r \<in> set ?rows. m_id r \<in> set (concat cs)} = {r \<in> set (memories u). m_id r \<in> set (concat cs)}"
      using Cons.prems by (force simp: rows id split: if_splits)
    moreover have "set (filter (\<lambda>r. m_id r \<in> set c) ?rows) = recall_row now ` {r \<in> set (memories u). m_id r \<in> set c}"
      by (force simp: rows id split: if_splits)
    ultimately show ?case using Cons by (auto simp: Let_def)
  qed simp
  from this [of "chunks deleteChunkSize (DedupeIds ids)" "[]" s] show ?thesis by (simp add: RecallMemories_def DedupeIds_props del: set_concat)
qed

lemma ranked_members: "set (rankMemories sig hits ms w limit) \<subseteq> set ms \<inter> {m. m_id m \<in> hit_id ` set hits}"
proof (rule ranked_perm [of hits ms w sig limit])
  fix zs assume "mset zs = mset (map fst (candidates_of hits ms))"
    "rankMemories sig hits ms w limit = (if limit > 0 \<and> int (length zs) > limit then take (nat limit) zs else zs)"
  then have "set (rankMemories sig hits ms w limit) \<subseteq> set (map fst (candidates_of hits ms))"
    using mset_eq_setD set_take_subset by (metis subset_refl)
  moreover have "set (map fst (candidates_of hits ms)) \<subseteq> set ms \<inter> {m. m_id m \<in> hit_id ` set hits}"
    by (auto simp: candidates_of_def List.map_filter_def dest: by_id_Some) (metis by_id_Some image_eqI)
  ultimately show ?thesis by blast
qed

text \<open>The page a successful search cuts, and what it does with it.\<close>

definition reinforces :: "search_config \<Rightarrow> request_ctx \<Rightarrow> search_request \<Rightarrow> bool" where
  "reinforces sc ctx q \<longleftrightarrow> sr_reinforce q \<and> mayReinforce (rc_reader_reinforces (sc_recall sc)) ctx"

definition page_of :: "search_config \<Rightarrow> search_request \<Rightarrow> Hit list \<Rightarrow> db_state \<Rightarrow> memory_row list" where
  "page_of sc q hits s = drop (nat (sr_offset q)) (rankMemories (memory_significance s) hits (GetMemoriesByIds (map hit_id hits) s) (sc_ranking sc)
     (sr_offset q + search_limit (sr_limit q)))"

lemma search_run:
  assumes "SearchMemories sc env ctx q s = (Inr out, s')"
  obtains (empty) "out = []" "s' = s"
  | (page) hits shown s2 where
      "searchHits env ctx q (candidateLimit (sc_ranking sc) (sr_offset q + search_limit (sr_limit q))) = Inr hits"
      "if reinforces sc ctx q \<and> page_of sc q hits s \<noteq> [] then reinforceRanked env (page_of sc q hits s) (se_world env s) = (Inr shown, s2)
       else shown = page_of sc q hits s \<and> s2 = se_world env s"
      "s' = (if reinforces sc ctx q then reinforceLinked (se_rpc env) (rc_propagation (sc_recall sc)) (map m_id shown) s2 else s2)"
      "out = shown @ (if sr_include_linked q \<and> shown \<noteq> [] then linkedMemories (se_rpc env) ctx (map m_id shown) s' else [])"
proof -
  let ?w = "sr_offset q + search_limit (sr_limit q)"
  obtain hits where hits: "searchHits env ctx q (candidateLimit (sc_ranking sc) ?w) = Inr hits" and np: "search_problem env q = None"
    using assms by (auto simp: SearchMemories_def Let_def split: option.splits sum.splits)
  show thesis
  proof (cases "hits = []")
    case True
    then show thesis using assms hits np empty by (auto simp: SearchMemories_def Let_def)
  next
    case False
    let ?out = "if reinforces sc ctx q \<and> page_of sc q hits s \<noteq> [] then reinforceRanked env (page_of sc q hits s) (se_world env s)
      else (Inr (page_of sc q hits s), se_world env s)"
    have ok: "\<not> se_get_fails env" using assms hits np False by (auto simp: SearchMemories_def Let_def split: if_splits)
    obtain r s2 where o: "?out = (r, s2)" by fastforce
    obtain shown where r: "r = Inr shown"
      using assms o hits np False ok by (cases r) (auto simp: SearchMemories_def Let_def page_of_def reinforces_def split: if_splits)
    show thesis
    proof (rule page [OF hits, of shown s2])
      show "if reinforces sc ctx q \<and> page_of sc q hits s \<noteq> [] then reinforceRanked env (page_of sc q hits s) (se_world env s) = (Inr shown, s2)
         else shown = page_of sc q hits s \<and> s2 = se_world env s" using o r by (auto split: if_splits)
      have "SearchMemories sc env ctx q s = (case ?out of (Inl e, s2) \<Rightarrow> (Inl (mapError e), s2)
          | (Inr shown, s2) \<Rightarrow> (let s3 = (if reinforces sc ctx q then reinforceLinked (se_rpc env) (rc_propagation (sc_recall sc)) (map m_id shown) s2 else s2)
               in (Inr (shown @ (if sr_include_linked q \<and> shown \<noteq> [] then linkedMemories (se_rpc env) ctx (map m_id shown) s3 else [])), s3)))"
        using hits np False ok unfolding SearchMemories_def Let_def by (simp only: page_of_def reinforces_def option.case sum.case if_False)
      then show "s' = (if reinforces sc ctx q then reinforceLinked (se_rpc env) (rc_propagation (sc_recall sc)) (map m_id shown) s2 else s2)"
        "out = shown @ (if sr_include_linked q \<and> shown \<noteq> [] then linkedMemories (se_rpc env) ctx (map m_id shown) s' else [])"
        using assms by (simp_all add: o r Let_def)
    qed
  qed
qed

lemma page_members: "set (page_of sc q hits s) \<subseteq> {r \<in> set (memories s). m_id r \<in> hit_id ` set hits}"
  using ranked_members [of "memory_significance s" hits "GetMemoriesByIds (map hit_id hits) s"] set_drop_subset
  unfolding page_of_def by (fastforce simp: GetMemoriesByIds_set)

lemma reinforceRanked_effect:
  assumes "reinforceRanked env ranked s = (Inr shown, s')"
  shows "memories s' = map (\<lambda>r. if m_id r \<in> m_id ` set shown then recall_row (rpc_now (se_rpc env)) r else r) (memories s)"
    "set shown \<subseteq> set (memories s')" "m_id ` set shown \<subseteq> m_id ` set ranked"
proof -
  let ?now = "rpc_now (se_rpc env)" and ?ids = "map m_id ranked"
  obtain rec where R: "RecallMemories ?now ?ids s = (rec, s')" and shown: "shown = List.map_filter (\<lambda>m. by_id rec (m_id m)) ranked"
    using assms by (auto simp: reinforceRanked_def split: option.splits prod.splits)
  have rec: "set rec = recall_row ?now ` {r \<in> set (memories s). m_id r \<in> set ?ids}" using RecallMemories_recalled [of ?now ?ids s] R by simp
  have id: "m_id (recall_row now r) = m_id r" for now r by (simp add: recall_row_def)
  have rows: "memories s' = map (\<lambda>r. if m_id r \<in> set ?ids then recall_row ?now r else r) (memories s)"
    using RecallMemories_rows(1) [of ?now ?ids s] R by simp
  have shown_ids: "m_id ` set shown = {i \<in> m_id ` set ranked. i \<in> m_id ` set rec}"
  proof -
    have found: "m_id (the (by_id rec (m_id x))) = m_id x" if "by_id rec (m_id x) \<noteq> None" for x using that by (auto dest: by_id_Some)
    have "m_id ` set shown = m_id ` {x \<in> set ranked. by_id rec (m_id x) \<noteq> None}"
      unfolding shown List.map_filter_def set_map set_filter image_image comp_def by (rule image_cong) (use found in auto)
    then have "m_id ` set shown = {i \<in> m_id ` set ranked. by_id rec i \<noteq> None}" by auto
    then show ?thesis by (auto simp: by_id_None)
  qed
  then show "m_id ` set shown \<subseteq> m_id ` set ranked" by blast
  have "m_id ` set shown = m_id ` {r \<in> set (memories s). m_id r \<in> set ?ids}" by (auto simp: shown_ids rec id image_iff)
  then show "memories s' = map (\<lambda>r. if m_id r \<in> m_id ` set shown then recall_row ?now r else r) (memories s)" by (auto simp: rows)
  have "set shown \<subseteq> set rec" unfolding shown List.map_filter_def by (auto dest: by_id_Some)
  then show "set shown \<subseteq> set (memories s')" by (auto simp: rec rows)
qed


text \<open>
  The contract of a backend: given a scope, it answers with memories of that scope only. The scope is applied inside
  the index, so the handler checks nothing itself.
\<close>

definition index_in_scope :: "search_env \<Rightarrow> db_state \<Rightarrow> bool" where
  "index_in_scope env s \<longleftrightarrow> (\<forall>q hits. se_search env q = Inr hits \<longrightarrow> q_groups q \<noteq> []
     \<longrightarrow> (\<forall>h \<in> set hits. \<forall>r \<in> set (memories s). m_id r = hit_id h \<longrightarrow> m_group r \<in> set (q_groups q)))"

lemma fuseHits_ids:
  assumes "\<And>xs. mset (iter xs) = mset xs"
  shows "hit_id ` set (fuseHits iter ls) = hit_id ` set (concat ls)"
proof -
  have "set (iter xs) = set xs" for xs by (rule mset_eq_setD) (rule assms)
  then show ?thesis by (simp add: fuseHits_def Let_def image_image del: set_concat)
qed

lemma searchHits_in_scope:
  assumes "index_in_scope env s" "\<And>xs. mset (se_iter env xs) = mset xs" "GroupsFromContext ctx = Some groups"
    and "searchHits env ctx q n = Inr hits" "r \<in> set (memories s)" "m_id r \<in> hit_id ` set hits"
  shows "m_group r \<in> set groups"
proof -
  have "groups \<noteq> []" by (rule bound_groups [OF assms(3)])
  then have one: "m_group r \<in> set groups" if "index_search env (base_query ctx q n\<lparr>q_vector := v\<rparr>) = Inr hs" "m_id r \<in> hit_id ` set hs" for v hs
    using that assms(1,3,5) by (fastforce simp: index_in_scope_def index_search_def base_query_def split: sum.splits)
  have base: "base_query ctx q n = base_query ctx q n\<lparr>q_vector := []\<rparr>" by (simp add: base_query_def)
  show ?thesis
  proof (cases "sr_mode q = SEARCH_MODE_HYBRID")
    case True
    then obtain v kw vec where "index_search env (base_query ctx q n) = Inr kw" "index_search env (base_query ctx q n\<lparr>q_vector := v\<rparr>) = Inr vec"
      "hits = fuseHits (se_iter env) [kw, vec]" using assms(4) by (auto simp: searchHits_def Let_def split: sum.splits)
    then show ?thesis using assms(6) one [of "[]" kw] one [of v vec] base by (auto simp: fuseHits_ids [OF assms(2)])
  next
    case False
    then have "(\<exists>v. index_search env (base_query ctx q n\<lparr>q_vector := v\<rparr>) = Inr hits) \<or> index_search env (base_query ctx q n) = Inr hits"
      using assms(4) by (auto simp: searchHits_def Let_def split: SearchMode.splits sum.splits)
    then obtain v where "index_search env (base_query ctx q n\<lparr>q_vector := v\<rparr>) = Inr hits" using base by metis
    then show ?thesis by (rule one [OF _ assms(6)])
  qed
qed


lemma by_id_fetched:
  assumes "keys_ok s" "r \<in> set (memories s)" "m_id r \<in> set ids"
  shows "by_id (GetMemoriesByIds ids s) (m_id r) = Some r"
proof -
  have "by_id (GetMemoriesByIds ids s) (m_id r) \<noteq> None" using assms(2,3) by (auto simp: by_id_None GetMemoriesByIds_set)
  then obtain r' where r': "by_id (GetMemoriesByIds ids s) (m_id r) = Some r'" by blast
  then have "r' \<in> set (memories s)" "m_id r' = m_id r" using by_id_Some [OF r'] by (auto simp: GetMemoriesByIds_set)
  moreover note u = find_row_iff [of m_id "memories s" "m_id r"]
  ultimately have "find_row m_id (m_id r) (memories s) = Some r'" "find_row m_id (m_id r) (memories s) = Some r"
    using assms(1,2) by (auto simp: keys_ok_def u)
  then show ?thesis using r' by simp
qed

lemma candidates_live:
  assumes "keys_ok s" "hit_id ` set hits \<subseteq> m_id ` set (memories s)"
  shows "map fst (candidates_of hits (GetMemoriesByIds (map hit_id hits) s)) = map (\<lambda>h. the (find_row m_id (hit_id h) (memories s))) hits"
proof -
  have "by_id (GetMemoriesByIds (map hit_id hits) s) (hit_id h) = Some (the (find_row m_id (hit_id h) (memories s)))" if h: "h \<in> set hits" for h
  proof -
    obtain r where r: "r \<in> set (memories s)" "m_id r = hit_id h" using h assms(2) by (metis (no_types, lifting) image_iff image_subset_iff)
    then have "find_row m_id (hit_id h) (memories s) = Some r" using assms(1) find_row_iff [of m_id "memories s" "hit_id h" r] by (auto simp: keys_ok_def)
    then show ?thesis using by_id_fetched [OF assms(1) r(1), of "map hit_id hits"] h r(2) by simp
  qed
  then show ?thesis by (simp add: candidates_of_def List.map_filter_def)
qed

text \<open>
  Without ranking, the pages of a search are slices of one list: the index's order, with the rows the store holds
  now. Pages of the same size laid end to end repeat nothing and skip nothing, provided the index has
  no stale entry and a larger limit only extends its answer.
\<close>

theorem unranked_pages_are_slices:
  assumes "\<not> active (sc_ranking sc)" "sr_mode q \<in> {SEARCH_MODE_UNSPECIFIED, SEARCH_MODE_KEYWORD}" "\<not> sr_reinforce q" "\<not> sr_include_linked q"
    and "search_problem env q = None" "\<not> se_get_fails env" "keys_ok s" "hit_id ` set hits \<subseteq> m_id ` set (memories s)"
    and "\<And>n. se_search env (base_query ctx q n) = Inr (take (nat n) hits)"
  shows "fst (SearchMemories sc env ctx q s)
    = Inr (map (\<lambda>h. the (find_row m_id (hit_id h) (memories s))) (take (nat (search_limit (sr_limit q))) (drop (nat (sr_offset q)) hits)))"
proof -
  let ?o = "sr_offset q" and ?l = "search_limit (sr_limit q)"
  have pos: "0 \<le> ?o" "0 < ?l"
    using assms(5) by (auto simp: search_problem_def search_limit_def Let_def defaultSearchLimit_def maxSearchLimit_def split: if_splits)
  let ?hs = "take (nat (?o + ?l)) hits"
  have hs: "searchHits env ctx q (candidateLimit (sc_ranking sc) (?o + ?l)) = Inr ?hs"
    using assms(1,2,9) by (auto simp: searchHits_def Let_def candidateLimit_def index_search_def)
  have live: "hit_id ` set ?hs \<subseteq> m_id ` set (memories s)" using assms(8) set_take_subset by fastforce
  have len: "length (candidates_of ?hs ms) \<le> nat (?o + ?l)" for ms
    unfolding candidates_of_def List.map_filter_def using length_filter_le [of _ ?hs] by (simp add: order_trans [OF length_filter_le])
  have "page_of sc q ?hs s = drop (nat ?o) (map (\<lambda>h. the (find_row m_id (hit_id h) (memories s))) ?hs)"
    using assms(1) candidates_live [OF assms(7) live] len [of "GetMemoriesByIds (map hit_id ?hs) s"] pos by (simp add: page_of_def rankMemories_def Let_def)
  also have "\<dots> = map (\<lambda>h. the (find_row m_id (hit_id h) (memories s))) (take (nat ?l) (drop (nat ?o) hits))"
    using pos by (simp add: drop_map drop_take nat_add_distrib)
  finally have page: "page_of sc q ?hs s = map (\<lambda>h. the (find_row m_id (hit_id h) (memories s))) (take (nat ?l) (drop (nat ?o) hits))" .
  show ?thesis
  proof (cases "?hs = []")
    case True
    then have "take (nat ?l) (drop (nat ?o) hits) = []" using pos by auto
    then show ?thesis using hs assms(5) True by (simp add: SearchMemories_def Let_def)
  next
    case False
    have "fst (SearchMemories sc env ctx q s) = Inr (page_of sc q ?hs s)"
      using hs assms(3-6) False by (simp add: SearchMemories_def Let_def page_of_def)
    then show ?thesis by (simp only: page)
  qed
qed

section \<open>Worked examples\<close>

definition hits_of :: "ident list \<Rightarrow> Hit list" where
  "hits_of is = map (\<lambda>i. \<lparr>hit_id = i, hit_score = 1\<rparr>) is"

lemma hits_of_simps [simp]: "map hit_id (hits_of is) = is" "hit_id ` set (hits_of is) = set is" "length (hits_of is) = length is"
  by (simp_all add: hits_of_def comp_def image_image)

theorem fusion_rewards_agreement_witness:
  "before ''a'' ''c'' (map hit_id (fuseHits rev [hits_of [''b'', ''a''], hits_of [''c'', ''a'']]))"
  by (rule fusion_rewards_agreement [where p = 1 and q = 1]) (simp_all add: hits_of_def)

text \<open>Deeper down the lists the reward is lost: a memory both searches rank below the sixty-first loses to one that a single search ranks first.\<close>

lemma deep_agreement_loses:
  assumes "distinct (map hit_id kw)" "distinct (map hit_id vec)" "p < length kw" "q < length vec" "hit_id (kw ! p) = a" "hit_id (vec ! q) = a"
    and "60 < p" "60 < q" "hit_id (kw ! 0) = b" "b \<notin> hit_id ` set vec"
  shows "before b a (map hit_id (fuseHits (\<lambda>xs. xs) [kw, vec]))"
proof -
  let ?st = "fold fuse_list [kw, vec] no_fusion"
  have score: "contributions ?st i = rank_share (enumerate 0 kw) i + rank_share (enumerate 0 vec) i" for i
    by (simp only: fuse_lists_contributions) (simp add: no_fusion_def)
  have kw: "0 < length kw" using assms(3) by (cases kw) simp_all
  have "1 / (60 + real p) < 1 / 120" "1 / (60 + real q) < 1 / 120" using assms(7,8) by (simp_all add: divide_simps)
  then have "contributions ?st a < 1 / 60"
    using rank_share_at [OF assms(1,3), of 0] rank_share_at [OF assms(2,4), of 0] by (simp only: score assms(5,6) rrfK_def add_0)
  moreover have "contributions ?st b = 1 / 60"
    using rank_share_at [OF assms(1) kw, of 0] rank_share_absent [OF assms(10), of 0] by (simp only: score assms(9) rrfK_def) simp
  ultimately have "- contributions ?st b < - contributions ?st a" by simp
  moreover have "a \<in> set (remdups (map hit_id (concat [kw, vec])))" "b \<in> set (remdups (map hit_id (concat [kw, vec])))"
    using kw assms(3) by (auto simp flip: assms(5,9))
  ultimately have "before b a (sort_key (\<lambda>i. - contributions ?st i) (sort_key (\<lambda>i. the (firstSeen ?st i)) (remdups (map hit_id (concat [kw, vec])))))"
    by (intro sorted_before [where f = "\<lambda>i. - contributions ?st i"]) simp_all
  then show ?thesis unfolding fuseHits_def Let_def by (simp only: map_map comp_def Hit.select_convs map_ident)
qed

definition named_row :: "ident \<Rightarrow> memory_row" where
  "named_row i = (hd (memories linked_store))\<lparr>m_id := i, m_recall_count := 0, m_group := ''red''\<rparr>"

lemma named_row_simps [simp]: "m_id (named_row i) = i" "m_recall_count (named_row i) = 0" "m_group (named_row i) = ''red''"
  by (simp_all add: named_row_def)

lemma named_row_eq [simp]: "named_row i = named_row j \<longleftrightarrow> i = j"
  by (metis named_row_simps(1))

definition half_weight :: rankingWeights where "half_weight = \<lparr>w_significance = 1 / 2, w_recall = 0\<rparr>"

lemmas ranking_defs = rankMemories_def candidates_of_def List.map_filter_def by_id_def active_def reorder_def blend_def normalise_def half_weight_def hits_of_def
  Let_def


text \<open>
  With ranking on, the candidates fetched grow with the offset, so two pages are cut from two different orders: here the second page repeats
  the first, and the most significant match is on neither.
\<close>

lemma ranked_pages_repeat:
  "let sig = (\<lambda>m. if m_id m = ''e'' then 1 else 0); is = [''a'', ''b'', ''c'', ''d'', ''e'']; ms = map named_row is;
       page = (\<lambda>offset. drop (nat offset) (rankMemories sig (take (nat (candidateLimit half_weight (offset + 1))) (hits_of is)) ms half_weight (offset + 1)))
   in page 0 = [named_row ''a''] \<and> page 1 = [named_row ''a'']"
  by (simp add: ranking_defs candidateLimit_def rankingOverFetch_def)

text \<open>An index over one state of the store, and a search against another.\<close>

definition indexing :: "db_state \<Rightarrow> search_env" where
  "indexing t = \<lparr>se_rpc = quiet_rpc 9, se_enabled = True, se_vectors = True, se_embed_enabled = True, se_embed = (\<lambda>_. Some [[1]]),
     se_search = (\<lambda>q. Inr (take (nat (q_limit q)) (hits_of (map m_id (filter (\<lambda>r. q_groups q = [] \<or> m_group r \<in> set (q_groups q)) (memories t)))))),
     se_iter = rev, se_get_fails = False, se_recall_fault = None, se_world = (\<lambda>s. s)\<rparr>"

definition simple_search :: "search_request" where
  "simple_search = \<lparr>sr_query = ''x'', sr_mode = SEARCH_MODE_KEYWORD, sr_event_id = [], sr_group = [], sr_metadata = [], sr_limit = 2, sr_offset = 0,
     sr_timestamp_min = 0, sr_timestamp_max = 0, sr_reinforce = False, sr_include_linked = False\<rparr>"

definition plain_ranking :: search_config where
  "plain_ranking = \<lparr>sc_ranking = \<lparr>w_significance = 0, w_recall = 0\<rparr>, sc_recall = \<lparr>rc_propagation = 0, rc_reader_reinforces = False\<rparr>\<rparr>"

definition red_store :: db_state where
  "red_store = empty_store\<lparr>memories := [named_row ''a'', named_row ''b'', (named_row ''c'')\<lparr>m_group := ''blue''\<rparr>]\<rparr>"

lemma chunk_three [simp]: "length is \<le> 3 \<Longrightarrow> is \<noteq> [] \<Longrightarrow> chunks deleteChunkSize is = [is]"
  by (simp add: chunks_short deleteChunkSize_def)

lemmas search_eval = SearchMemories_def search_problem_def search_limit_def defaultSearchLimit_def maxSearchLimit_def maxSearchOffset_def simple_search_def
  indexing_def plain_ranking_def searchHits_def base_query_def index_search_def candidateLimit_def ranking_defs ParseMetadataFilters_def red_store_def
  GetMemoriesByIds_def empty_store_def

theorem unranked_pages_are_slices_witness:
  "fst (SearchMemories plain_ranking (indexing red_store) nobody (simple_search\<lparr>sr_offset := 2\<rparr>) red_store) = Inr [(named_row ''c'')\<lparr>m_group := ''blue''\<rparr>]"
proof -
  let ?q = "simple_search\<lparr>sr_offset := 2\<rparr>"
  have 1: "\<not> active (sc_ranking plain_ranking)" "sr_mode ?q \<in> {SEARCH_MODE_UNSPECIFIED, SEARCH_MODE_KEYWORD}" "\<not> sr_reinforce ?q" "\<not> sr_include_linked ?q"
    "search_problem (indexing red_store) ?q = None" "\<not> se_get_fails (indexing red_store)" "keys_ok red_store"
    by (simp_all add: plain_ranking_def active_def simple_search_def search_problem_def indexing_def ParseMetadataFilters_def maxSearchOffset_def keys_ok_def red_store_def empty_store_def)
  have 2: "hit_id ` set (hits_of [''a'', ''b'', ''c'']) \<subseteq> m_id ` set (memories red_store)" by (simp add: red_store_def)
  have 3: "se_search (indexing red_store) (base_query nobody ?q n) = Inr (take (nat n) (hits_of [''a'', ''b'', ''c'']))" for n
    by (simp add: indexing_def base_query_def nobody_def GroupsFromContext_def red_store_def)
  show ?thesis
    using unranked_pages_are_slices [OF 1 2 3]
    by (simp add: simple_search_def search_limit_def maxSearchLimit_def hits_of_def red_store_def)
qed



text \<open>An index that has not caught up answers for the old group, and nothing checks the row it names: the memory has moved to another group and is shown all the same.\<close>

lemma stale_index_crosses_scope:
  "let moved = red_store\<lparr>memories := map (\<lambda>r. r\<lparr>m_group := ''blue''\<rparr>) (memories red_store)\<rparr>
   in \<exists>out. fst (SearchMemories plain_ranking (indexing red_store) (bound_to [''red'']) simple_search moved) = Inr out \<and> map m_group out = [''blue'', ''blue'']"
  by (simp add: search_eval bound_to_def GroupsFromContext_def)

end
