(* ===== verification/Registry_Maintenance.thy ===== *)
theory Registry_Maintenance
  imports Significance_Registry
begin

text \<open>
  What keeps the significance registry small and readable: compaction of the ranks
  (\<^verbatim>\<open>db/significance.go\<close>), reaping of unused levels (\<^verbatim>\<open>db/significance_reap.go\<close>), and the paged
  listing with its derived total (\<^verbatim>\<open>hippocampus/significance.go\<close>).
\<close>

section \<open>Compaction\<close>

definition registryCompactionThreshold :: int where
  "registryCompactionThreshold = 2 ^ 30"

text \<open>One \<^verbatim>\<open>UPDATE significance_levels SET level_rank = ? WHERE id = ?\<close>.\<close>

definition set_rank_of :: "int \<Rightarrow> int \<Rightarrow> int \<Rightarrow> sig_level list \<Rightarrow> registry_error + sig_level list" where
  "set_rank_of mx i r lv =
     (if r > mx \<or> r < - mx - 1 then Inl ErrOutOfRange
      else if list_ex (\<lambda>l. level_id l \<noteq> i \<and> level_rank l = r) lv then Inl ErrUnique
      else Inr (map (\<lambda>l. if level_id l = i then l\<lparr>level_rank := r\<rparr> else l) lv))"

fun renumber :: "int \<Rightarrow> int \<Rightarrow> int list \<Rightarrow> sig_level list \<Rightarrow> registry_error + sig_level list" where
  "renumber mx n [] lv = Inr lv"
| "renumber mx n (i # is) lv =
     (case set_rank_of mx i (- (n + 1)) lv of
        Inl e \<Rightarrow> Inl e
      | Inr lv' \<Rightarrow> renumber mx (n + 1) is lv')"

definition CompactSignificanceLevels :: "int \<Rightarrow> sig_level list \<Rightarrow> registry_error + sig_level list" where
  "CompactSignificanceLevels mx lv =
     (if lv = [] \<or> i32 (Max (set (map level_rank lv))) < registryCompactionThreshold then Inr lv
      else case renumber mx 0 (map level_id (sort_key level_rank lv)) lv of
          Inl e \<Rightarrow> Inl e
        | Inr lv1 \<Rightarrow> update_ranks (\<lambda>r. r < 0) (\<lambda>r. - r) mx [] lv1)"

fun pos_of :: "'a list \<Rightarrow> 'a \<Rightarrow> int" where
  "pos_of [] y = 0"
| "pos_of (x # xs) y = (if x = y then 0 else 1 + pos_of xs y)"

lemma pos_of_bounds: "0 \<le> pos_of xs y \<and> pos_of xs y \<le> int (length xs)"
  by (induction xs) auto

lemma pos_of_less: "y \<in> set xs \<Longrightarrow> pos_of xs y < int (length xs)"
  by (induction xs) auto

lemma pos_of_inj: "x \<in> set xs \<Longrightarrow> y \<in> set xs \<Longrightarrow> pos_of xs x = pos_of xs y \<longleftrightarrow> x = y"
proof (induction xs)
  case (Cons a xs)
  then show ?case using pos_of_bounds [of xs x] pos_of_bounds [of xs y] by auto
qed simp

lemma pos_of_sorted:
  assumes "sorted_wrt (\<lambda>a b. f a < f b) xs" and "inj_on g (set xs)" "a \<in> set xs" "b \<in> set xs"
    and "f a < (f b :: int)"
  shows "pos_of (map g xs) (g a) < pos_of (map g xs) (g b)"
  using assms
proof (induction xs)
  case (Cons x xs)
  have bx: "b \<in> set xs" and gb: "g x \<noteq> g b"
    using Cons.prems by (auto simp: inj_on_def)
  show ?case
  proof (cases "a = x")
    case True
    with gb pos_of_bounds [of "map g xs" "g b"] show ?thesis by simp
  next
    case False
    then have "a \<in> set xs" using Cons.prems by simp
    moreover have "g x \<noteq> g a" using False Cons.prems by (auto simp: inj_on_def)
    ultimately show ?thesis using Cons bx gb by simp
  qed
qed simp

lemma renumber_eq:
  assumes "distinct is" and "set is \<subseteq> level_id ` set lv"
    and "\<And>l. l \<in> set lv \<Longrightarrow> - n \<le> level_rank l" and "0 \<le> n" "n + int (length is) \<le> mx"
  shows "renumber mx n is lv =
    Inr (map (\<lambda>l. if level_id l \<in> set is then l\<lparr>level_rank := - (n + 1 + pos_of is (level_id l))\<rparr> else l) lv)"
  using assms
proof (induction "is" arbitrary: n lv)
  case Nil
  then show ?case by simp
next
  case (Cons i js)
  let ?g = "\<lambda>l. if level_id l = i then l\<lparr>level_rank := - (n + 1)\<rparr> else l"
  have "\<not> list_ex (\<lambda>l. level_id l \<noteq> i \<and> level_rank l = - (n + 1)) lv"
    using Cons.prems(3) by (force simp: list_ex_iff)
  then have step: "set_rank_of mx i (- (n + 1)) lv = Inr (map ?g lv)"
    using Cons.prems(4,5) by (simp add: set_rank_of_def)
  have ids: "level_id (?g l) = level_id l" for l by simp
  have "renumber mx (n + 1) js (map ?g lv) =
    Inr (map (\<lambda>l. if level_id l \<in> set js then l\<lparr>level_rank := - (n + 1 + 1 + pos_of js (level_id l))\<rparr> else l) (map ?g lv))"
  proof (rule Cons.IH)
    show "set js \<subseteq> level_id ` set (map ?g lv)"
    proof -
      have "map level_id (map ?g lv) = map level_id lv" by simp
      then have "level_id ` set (map ?g lv) = level_id ` set lv" by (metis list.set_map)
      with Cons.prems(2) show ?thesis by simp
    qed
    show "- (n + 1) \<le> level_rank l" if "l \<in> set (map ?g lv)" for l
      using that Cons.prems(3) by fastforce
  qed (use Cons.prems in auto)
  moreover have "renumber mx n (i # js) lv = renumber mx (n + 1) js (map ?g lv)"
    by (simp only: renumber.simps step sum.case)
  moreover have "i \<notin> set js" using Cons.prems(1) by simp
  ultimately show ?case by (auto simp: comp_def)
qed

text \<open>
  When the top rank has reached the compaction threshold, compaction never violates the
  UNIQUE column and renumbers the registry to the ranks 1..N: every level keeps its id and its
  place in the order; below the threshold nothing changes.
\<close>

theorem compaction_renumbers_in_order:
  assumes ok: "registry_ok mx lv nxt" and "int (length lv) \<le> mx"
  shows "if lv = [] \<or> i32 (Max (set (map level_rank lv))) < registryCompactionThreshold
      then CompactSignificanceLevels mx lv = Inr lv
      else \<exists>lv'. CompactSignificanceLevels mx lv = Inr lv' \<and> registry_ok mx lv' nxt
        \<and> map level_id lv' = map level_id lv
        \<and> (\<forall>l \<in> set lv'. 1 \<le> level_rank l \<and> level_rank l \<le> int (length lv))
        \<and> (\<forall>a \<in> set lv. \<forall>b \<in> set lv. level_rank a < level_rank b \<longrightarrow>
             rank_in lv' (level_id a) < rank_in lv' (level_id b))"
proof (cases "lv = [] \<or> i32 (Max (set (map level_rank lv))) < registryCompactionThreshold")
  case True
  then show ?thesis by (auto simp: CompactSignificanceLevels_def)
next
  case False
  note D = registry_okD [OF ok]
  let ?srt = "sort_key level_rank lv" and ?ids = "map level_id (sort_key level_rank lv)"
  let ?g = "\<lambda>l. l\<lparr>level_rank := - (1 + pos_of ?ids (level_id l))\<rparr>"
  let ?h = "\<lambda>l. l\<lparr>level_rank := 1 + pos_of ?ids (level_id l)\<rparr>"
  have len: "length ?ids = length lv" by simp
  have dids: "distinct ?ids" using D(1) by (simp add: distinct_map)
  have inj_id: "inj_on level_id (set lv)" using D(1) by (simp add: distinct_map)
  have one: "renumber mx 0 ?ids lv = Inr (map ?g lv)"
  proof -
    have "renumber mx 0 ?ids lv = Inr (map (\<lambda>l. if level_id l \<in> set ?ids
        then l\<lparr>level_rank := - (0 + 1 + pos_of ?ids (level_id l))\<rparr> else l) lv)"
      by (rule renumber_eq [OF dids]) (use D(3) assms(2) in force)+
    then show ?thesis by simp
  qed
  have bnd: "0 \<le> pos_of ?ids (level_id l) \<and> pos_of ?ids (level_id l) < int (length lv)" if "l \<in> set lv" for l
    using pos_of_bounds [of ?ids "level_id l"] pos_of_less [of "level_id l" ?ids] that len by simp
  have inj_pos: "inj_on (\<lambda>l. pos_of ?ids (level_id l)) (set lv)"
    using inj_id by (auto simp: inj_on_def pos_of_inj)
  have two: "update_ranks (\<lambda>r. r < 0) uminus mx [] (map ?g lv)
      = Inr ([] @ map (set_rank (\<lambda>r. r < 0) uminus) (map ?g lv))"
  proof (rule update_ranks_ok)
    show "distinct (map level_rank (map ?g lv))"
      using inj_pos D(1) by (auto simp: distinct_map comp_def inj_on_def)
    fix l assume "l \<in> set (map ?g lv)" "level_rank l < 0"
    then show "- level_rank l \<notin> level_rank ` set (map ?g lv)"
      and "- level_rank l \<le> mx \<and> - mx - 1 \<le> - level_rank l"
      using bnd assms(2) by fastforce+
  qed (auto simp: inj_on_def)
  have "map (set_rank (\<lambda>r. r < 0) uminus) (map ?g lv) = map ?h lv"
    using bnd by (fastforce simp: set_rank_def)
  with False one two have run: "CompactSignificanceLevels mx lv = Inr (map ?h lv)"
    by (simp add: CompactSignificanceLevels_def)
  have ok': "registry_ok mx (map ?h lv) nxt"
    using ok bnd assms(2) inj_pos
    by (auto simp: registry_ok_def list_all_iff comp_def distinct_map inj_on_def) fastforce
  have rk: "rank_in (map ?h lv) (level_id l) = 1 + pos_of ?ids (level_id l)" if "l \<in> set lv" for l
    using rank_in_eq [of "map ?h lv" "?h l"] that D(1) by (simp add: comp_def)
  have "sorted_wrt (\<lambda>a b. level_rank a < level_rank b) ?srt"
  proof -
    have "distinct (map level_rank ?srt)" using D(2) by (simp add: distinct_map)
    then have "sorted_wrt (<) (map level_rank ?srt)"
      using sorted_sort_key [of level_rank lv] strict_sorted_iff by blast
    then show ?thesis by (simp add: sorted_wrt_map)
  qed
  then have "rank_in (map ?h lv) (level_id a) < rank_in (map ?h lv) (level_id b)"
    if "a \<in> set lv" "b \<in> set lv" "level_rank a < level_rank b" for a b
    using pos_of_sorted [of level_rank ?srt level_id a b] that inj_id rk by simp
  moreover have "\<forall>l \<in> set (map ?h lv). 1 \<le> level_rank l \<and> level_rank l \<le> int (length lv)"
    using bnd by fastforce
  moreover have "map level_id (map ?h lv) = map level_id lv" by simp
  ultimately show ?thesis
    using False run ok' by (simp del: map_map)
qed


definition high_levels :: "sig_level list" where
  "high_levels = [\<lparr>level_id = 1, level_rank = 1500000000, unused_since = None\<rparr>,
     \<lparr>level_id = 2, level_rank = 40, unused_since = None\<rparr>]"

theorem compaction_renumbers_in_order_witness:
  "\<exists>lv'. CompactSignificanceLevels max_i32 high_levels = Inr lv' \<and> rank_in lv' 2 < rank_in lv' 1
     \<and> (\<forall>l \<in> set lv'. 1 \<le> level_rank l \<and> level_rank l \<le> 2)"
proof -
  have "registry_ok max_i32 high_levels 3" "int (length high_levels) \<le> max_i32"
    by (simp_all add: registry_ok_def high_levels_def max_i32_def)
  moreover have "\<not> (high_levels = [] \<or>
      i32 (Max (set (map level_rank high_levels))) < registryCompactionThreshold)"
    by (simp add: high_levels_def registryCompactionThreshold_def i32_def)
  ultimately show ?thesis
    using compaction_renumbers_in_order [of max_i32 high_levels 3] by (fastforce simp: high_levels_def)
qed

section \<open>Reaping unused levels\<close>

text \<open>
  \<open>ReapSignificanceLevels\<close>: the marks are read (\<open>lv\<close>), the referenced ids are collected, each level
  is classified, and three chunked statements follow. Hand-outs do not take the registry lock, so
  they may commit between the read and the delete: \<open>interf\<close> is that change. The delete carries the
  cutoff in its own predicate.
\<close>

record SignificanceRegistry =
  Levels :: int
  Reaped :: int

record reap_plan =
  reapable :: "int list"
  unusedIds :: "int list"
  inUse :: "int list"

definition classify_level :: "(int \<Rightarrow> bool) \<Rightarrow> nanos \<Rightarrow> sig_level \<Rightarrow> reap_plan \<Rightarrow> reap_plan" where
  "classify_level referenced cutoff l p =
     (case unused_since l of
        Some t \<Rightarrow>
          (if referenced (level_id l) then p\<lparr>inUse := inUse p @ [level_id l]\<rparr>
           else if t < cutoff then p\<lparr>reapable := reapable p @ [level_id l]\<rparr>
           else p)
      | None \<Rightarrow>
          (if referenced (level_id l) then p
           else p\<lparr>unusedIds := unusedIds p @ [level_id l]\<rparr>))"

definition classify_levels :: "(int \<Rightarrow> bool) \<Rightarrow> nanos \<Rightarrow> sig_level list \<Rightarrow> reap_plan" where
  "classify_levels referenced cutoff lv =
     fold (classify_level referenced cutoff) lv \<lparr>reapable = [], unusedIds = [], inUse = []\<rparr>"

definition doomed :: "int list \<Rightarrow> nanos \<Rightarrow> sig_level \<Rightarrow> bool" where
  "doomed is cutoff l \<longleftrightarrow> level_id l \<in> set is \<and>
     (case unused_since l of None \<Rightarrow> False | Some t \<Rightarrow> t < cutoff)"

definition deleteSignificanceLevels :: "int list \<Rightarrow> nanos \<Rightarrow> sig_level list \<Rightarrow> int \<times> sig_level list" where
  "deleteSignificanceLevels is cutoff lv =
     fold (\<lambda>c (n, lv). (n + int (length (filter (doomed c cutoff) lv)), filter (\<lambda>l. \<not> doomed c cutoff l) lv))
       (chunks deleteChunkSize is) (0, lv)"

definition markSignificanceLevels :: "int list \<Rightarrow> nanos option \<Rightarrow> sig_level list \<Rightarrow> sig_level list" where
  "markSignificanceLevels is since lv =
     fold (\<lambda>c. map (\<lambda>l. if level_id l \<in> set c then l\<lparr>unused_since := since\<rparr> else l))
       (chunks deleteChunkSize is) lv"

definition ReapSignificanceLevels :: "nanos \<Rightarrow> nanos \<Rightarrow> (int \<Rightarrow> bool) \<Rightarrow> (sig_level list \<Rightarrow> sig_level list)
    \<Rightarrow> sig_level list \<Rightarrow> SignificanceRegistry \<times> sig_level list" where
  "ReapSignificanceLevels grace now referenced interf lv =
     (if grace \<le> 0 then (\<lparr>Levels = int (length lv), Reaped = 0\<rparr>, lv)
      else if lv = [] then (\<lparr>Levels = 0, Reaped = 0\<rparr>, lv)
      else
        let cutoff = now - grace;
            p = classify_levels referenced cutoff lv;
            (deleted, lv1) = deleteSignificanceLevels (reapable p) cutoff (interf lv);
            lv2 = markSignificanceLevels (inUse p) None lv1;
            lv3 = markSignificanceLevels (unusedIds p) (Some now) lv2
        in (\<lparr>Levels = int (length lv) - deleted, Reaped = deleted\<rparr>, lv3))"

definition expired_unused :: "(int \<Rightarrow> bool) \<Rightarrow> nanos \<Rightarrow> sig_level \<Rightarrow> bool" where
  "expired_unused referenced cutoff l \<longleftrightarrow> \<not> referenced (level_id l) \<and>
     (case unused_since l of None \<Rightarrow> False | Some t \<Rightarrow> t < cutoff)"

definition newly_unused :: "(int \<Rightarrow> bool) \<Rightarrow> sig_level \<Rightarrow> bool" where
  "newly_unused referenced l \<longleftrightarrow> \<not> referenced (level_id l) \<and> unused_since l = None"

definition marked_in_use :: "(int \<Rightarrow> bool) \<Rightarrow> sig_level \<Rightarrow> bool" where
  "marked_in_use referenced l \<longleftrightarrow> referenced (level_id l) \<and> unused_since l \<noteq> None"

lemma classify_levels_eq:
  "classify_levels referenced cutoff lv =
     \<lparr>reapable = map level_id (filter (expired_unused referenced cutoff) lv),
      unusedIds = map level_id (filter (newly_unused referenced) lv),
      inUse = map level_id (filter (marked_in_use referenced) lv)\<rparr>"
proof -
  have step: "classify_level referenced cutoff l p =
     p\<lparr>reapable := reapable p @ (if expired_unused referenced cutoff l then [level_id l] else []),
       unusedIds := unusedIds p @ (if newly_unused referenced l then [level_id l] else []),
       inUse := inUse p @ (if marked_in_use referenced l then [level_id l] else [])\<rparr>" for l p
    by (cases p; cases "unused_since l")
      (simp_all add: classify_level_def expired_unused_def newly_unused_def marked_in_use_def)
  have "fold (classify_level referenced cutoff) lv p =
     p\<lparr>reapable := reapable p @ map level_id (filter (expired_unused referenced cutoff) lv),
       unusedIds := unusedIds p @ map level_id (filter (newly_unused referenced) lv),
       inUse := inUse p @ map level_id (filter (marked_in_use referenced) lv)\<rparr>" for p
    by (induction lv arbitrary: p) (simp_all add: step)
  then show ?thesis by (simp add: classify_levels_def)
qed

lemma doomed_append: "doomed (a @ b) c l \<longleftrightarrow> doomed a c l \<or> doomed b c l"
  by (auto simp: doomed_def)

text \<open>The chunked statements act as one statement over the whole id list.\<close>

lemma deleteSignificanceLevels_eq:
  "deleteSignificanceLevels is cutoff lv =
     (int (length lv) - int (length (filter (\<lambda>l. \<not> doomed is cutoff l) lv)),
      filter (\<lambda>l. \<not> doomed is cutoff l) lv)"
proof -
  have "fold (\<lambda>c (n, lv). (n + int (length (filter (doomed c cutoff) lv)), filter (\<lambda>l. \<not> doomed c cutoff l) lv))
       cs (n, lv) =
     (n + int (length lv) - int (length (filter (\<lambda>l. \<not> doomed (concat cs) cutoff l) lv)),
      filter (\<lambda>l. \<not> doomed (concat cs) cutoff l) lv)" for cs n
  proof (induction cs arbitrary: n lv)
    case Nil
    then show ?case by (simp add: doomed_def)
  next
    case (Cons c cs)
    have "length (filter (doomed c cutoff) lv) + length (filter (\<lambda>l. \<not> doomed c cutoff l) lv) = length lv"
      by (rule sum_length_filter_compl)
    then show ?case by (simp add: Cons.IH doomed_append)
  qed
  from this [of "chunks deleteChunkSize is" 0] show ?thesis
    by (simp add: deleteSignificanceLevels_def)
qed

lemma markSignificanceLevels_eq:
  "markSignificanceLevels is since lv =
     map (\<lambda>l. if level_id l \<in> set is then l\<lparr>unused_since := since\<rparr> else l) lv"
proof -
  have "fold (\<lambda>c. map (\<lambda>l. if level_id l \<in> set c then l\<lparr>unused_since := since\<rparr> else l)) cs lv =
     map (\<lambda>l. if level_id l \<in> set (concat cs) then l\<lparr>unused_since := since\<rparr> else l) lv" for cs
    by (induction cs arbitrary: lv) auto
  from this [of "chunks deleteChunkSize is"] show ?thesis
    by (simp add: markSignificanceLevels_def)
qed


lemma level_id_image_mark [simp]: "level_id ` set (markSignificanceLevels is since lv) = level_id ` set lv"
proof -
  have "map level_id (markSignificanceLevels is since lv) = map level_id lv"
    by (simp add: markSignificanceLevels_eq)
  then show ?thesis by (metis list.set_map)
qed

lemma reap_ids:
  assumes "0 < grace" "lv \<noteq> []"
  shows "level_id ` set (snd (ReapSignificanceLevels grace now referenced interf lv)) =
    level_id ` {l \<in> set (interf lv).
      \<not> doomed (map level_id (filter (expired_unused referenced (now - grace)) lv)) (now - grace) l}"
  using assms by (simp add: ReapSignificanceLevels_def deleteSignificanceLevels_eq classify_levels_eq Let_def)

text \<open>
  A reap deletes exactly the levels that were unreferenced and carried a mark older than the
  grace when the registry was read, and whose mark is still that old when the delete runs.
  So a level in use, a level first found unused by this cycle, and a level a writer claimed
  between the read and the delete all survive it, and the reported count is the number of rows
  deleted.
\<close>

theorem reap_deletes_exactly_expired:
  assumes "0 < grace" "lv \<noteq> []" and dist: "distinct (map level_id (interf lv))"
    and l: "l \<in> set (interf lv)"
  shows "(level_id l \<notin> level_id ` set (snd (ReapSignificanceLevels grace now referenced interf lv)) \<longleftrightarrow>
      (\<exists>k \<in> set lv. level_id k = level_id l \<and> \<not> referenced (level_id k) \<and>
         (\<exists>t. unused_since k = Some t \<and> t < now - grace)) \<and>
      (\<exists>t. unused_since l = Some t \<and> t < now - grace))
    \<and> Reaped (fst (ReapSignificanceLevels grace now referenced interf lv)) =
        int (length (interf lv)) - int (length (snd (ReapSignificanceLevels grace now referenced interf lv)))"
proof -
  let ?is = "map level_id (filter (expired_unused referenced (now - grace)) lv)"
  have "level_id l \<notin> level_id ` {k \<in> set (interf lv). \<not> doomed ?is (now - grace) k} \<longleftrightarrow> doomed ?is (now - grace) l"
    using l dist by (auto simp: distinct_map inj_on_def)
  then have "level_id l \<notin> level_id ` set (snd (ReapSignificanceLevels grace now referenced interf lv))
      \<longleftrightarrow> doomed ?is (now - grace) l"
    using reap_ids [OF assms(1,2)] by simp
  also have "\<dots> \<longleftrightarrow> (\<exists>k \<in> set lv. level_id k = level_id l \<and> expired_unused referenced (now - grace) k) \<and>
      (\<exists>t. unused_since l = Some t \<and> t < now - grace)"
    by (auto simp: doomed_def image_iff split: option.splits)
  finally have 1: "level_id l \<notin> level_id ` set (snd (ReapSignificanceLevels grace now referenced interf lv))
      \<longleftrightarrow> (\<exists>k \<in> set lv. level_id k = level_id l \<and> expired_unused referenced (now - grace) k) \<and>
      (\<exists>t. unused_since l = Some t \<and> t < now - grace)" .
  have 2: "expired_unused referenced (now - grace) k \<longleftrightarrow> \<not> referenced (level_id k) \<and>
         (\<exists>t. unused_since k = Some t \<and> t < now - grace)" for k
    by (auto simp: expired_unused_def split: option.splits)
  have "length (markSignificanceLevels a b c) = length c" for a b c
    by (simp add: markSignificanceLevels_eq)
  then have "Reaped (fst (ReapSignificanceLevels grace now referenced interf lv)) =
        int (length (interf lv)) - int (length (snd (ReapSignificanceLevels grace now referenced interf lv)))"
    using assms(1,2) by (simp add: ReapSignificanceLevels_def deleteSignificanceLevels_eq Let_def)
  with 1 show ?thesis unfolding 2 by blast
qed

theorem reap_deletes_exactly_expired_witness:
  "7 \<notin> level_id ` set (snd (ReapSignificanceLevels 50 200 (\<lambda>_. False) id marked_levels))
   \<and> 7 \<in> level_id ` set (snd (ReapSignificanceLevels 50 200 (\<lambda>_. False)
        (map (\<lambda>l. l\<lparr>unused_since := None\<rparr>)) marked_levels))"
proof -
  let ?l = "\<lparr>level_id = 7, level_rank = 5, unused_since = Some 100\<rparr>"
  have "?l \<in> set (id marked_levels)" "distinct (map level_id (id marked_levels))" "marked_levels \<noteq> []"
    by (simp_all add: marked_levels_def)
  from reap_deletes_exactly_expired [where interf = id and grace = 50 and now = 200
      and referenced = "\<lambda>_. False", OF _ this(3) this(2) this(1)]
  have a: "7 \<notin> level_id ` set (snd (ReapSignificanceLevels 50 200 (\<lambda>_. False) id marked_levels))"
    by (simp add: marked_levels_def)
  let ?f = "map (\<lambda>l. l\<lparr>unused_since := None\<rparr>)" and ?k = "\<lparr>level_id = 7, level_rank = 5, unused_since = None\<rparr>"
  have "?k \<in> set (?f marked_levels)" "distinct (map level_id (?f marked_levels))" "marked_levels \<noteq> []"
    by (simp_all add: marked_levels_def)
  from reap_deletes_exactly_expired [where interf = ?f and grace = 50 and now = 200
      and referenced = "\<lambda>_. False", OF _ this(3) this(2) this(1)] a
  show ?thesis by simp
qed

section \<open>Listing the registry\<close>

record SignificanceLevelFilter =
  SignificanceMin :: int
  SignificanceMax :: int
  Limit :: int
  Offset :: int

definition level_matches :: "SignificanceLevelFilter \<Rightarrow> sig_level \<Rightarrow> bool" where
  "level_matches f l \<longleftrightarrow>
     (SignificanceMin f > 0 \<longrightarrow> level_rank l \<ge> SignificanceMin f) \<and>
     (SignificanceMax f > 0 \<longrightarrow> level_rank l \<le> SignificanceMax f)"

definition SignificanceLevels :: "SignificanceLevelFilter \<Rightarrow> sig_level list \<Rightarrow> int list" where
  "SignificanceLevels f lv =
     (let rows = sort (map level_rank (filter (level_matches f) lv));
          rows' = (if Offset f > 0 then drop (nat (Offset f)) rows else rows)
      in if Limit f > 0 then take (nat (Limit f)) rows' else rows')"

definition CountSignificanceLevels :: "SignificanceLevelFilter \<Rightarrow> sig_level list \<Rightarrow> int" where
  "CountSignificanceLevels f lv = int (length (filter (level_matches f) lv))"

definition defaultSignificanceLevelPageSize :: int where
  "defaultSignificanceLevelPageSize = 200"

definition maxSignificanceLevelPageSize :: int where
  "maxSignificanceLevelPageSize = 1000"

text \<open>The RPC: \<open>None\<close> is InvalidArgument. The request carries the bounds, the limit and the offset.\<close>

definition level_page_filter :: "SignificanceLevelFilter \<Rightarrow> SignificanceLevelFilter" where
  "level_page_filter req =
     (let lmt = (if Limit req \<le> 0 then defaultSignificanceLevelPageSize else Limit req)
      in req\<lparr>Limit := (if lmt > maxSignificanceLevelPageSize then maxSignificanceLevelPageSize else lmt),
             Offset := (if Offset req < 0 then 0 else Offset req)\<rparr>)"

definition GetSignificanceLevels :: "SignificanceLevelFilter \<Rightarrow> sig_level list \<Rightarrow> (int list \<times> int) option" where
  "GetSignificanceLevels req lv =
     (if SignificanceMax req > 0 \<and> SignificanceMin req > 0 \<and> SignificanceMax req < SignificanceMin req
      then None
      else
        let f = level_page_filter req;
            lvs = SignificanceLevels f lv;
            n = int (length lvs);
            total = (if n \<ge> Limit f \<or> (Offset f > 0 \<and> n = 0) then CountSignificanceLevels f lv
                     else if Offset f > 0 then Offset f + n
                     else n)
        in Some (lvs, i32 total))"

text \<open>
  The total a page of the registry reports, although it is derived from a short page
  instead of counted, is always the number of levels that match the bounds, and the page is the
  requested slice of the matching values in ascending order.
\<close>

theorem registry_listing_total:
  assumes "int (length lv) \<le> max_i32" and "GetSignificanceLevels req lv = Some (page, tot)"
  shows "tot = int (length (filter (level_matches req) lv))
    \<and> page = take (nat (Limit (level_page_filter req)))
        (drop (nat (Offset req)) (sort (map level_rank (filter (level_matches req) lv))))"
proof -
  let ?f = "level_page_filter req"
  let ?rows = "sort (map level_rank (filter (level_matches req) lv))"
  have m: "level_matches ?f = level_matches req"
    by (simp add: level_page_filter_def level_matches_def Let_def fun_eq_iff)
  have lim: "0 < Limit ?f"
    by (simp add: level_page_filter_def Let_def defaultSignificanceLevelPageSize_def maxSignificanceLevelPageSize_def)
  have off: "Offset ?f = (if Offset req < 0 then 0 else Offset req)"
    by (simp add: level_page_filter_def Let_def)
  have page: "page = take (nat (Limit ?f)) (drop (nat (Offset req)) ?rows)"
    using assms(2) lim by (auto simp: GetSignificanceLevels_def SignificanceLevels_def m off Let_def split: if_splits)
  have small: "int (length (filter (level_matches req) lv)) \<le> max_i32"
    using assms(1) length_filter_le [of "level_matches req" lv] by linarith
  have n: "int (length page) = min (Limit ?f) (max 0 (int (length (filter (level_matches req) lv)) - max 0 (Offset req)))"
    using lim by (simp add: page)
  have "tot = i32 (if int (length page) \<ge> Limit ?f \<or> (Offset ?f > 0 \<and> int (length page) = 0)
      then int (length (filter (level_matches req) lv))
      else if Offset ?f > 0 then Offset ?f + int (length page) else int (length page))"
    using assms(2) page lim
    by (auto simp: GetSignificanceLevels_def SignificanceLevels_def CountSignificanceLevels_def m off Let_def split: if_splits)
  also have "\<dots> = i32 (int (length (filter (level_matches req) lv)))"
    using n off by (auto split: if_splits)
  also have "\<dots> = int (length (filter (level_matches req) lv))"
    using small by (intro i32_id) auto
  finally show ?thesis using page by blast
qed

theorem registry_listing_total_witness:
  "GetSignificanceLevels \<lparr>SignificanceMin = 4, SignificanceMax = 0, Limit = 5, Offset = 1\<rparr> sample_levels
     = Some ([6], 2) \<and> length (filter (level_matches \<lparr>SignificanceMin = 4, SignificanceMax = 0, Limit = 5, Offset = 1\<rparr>) sample_levels) = 2"
proof -
  let ?r = "\<lparr>SignificanceMin = 4, SignificanceMax = 0, Limit = 5, Offset = 1\<rparr> :: SignificanceLevelFilter"
  have run: "GetSignificanceLevels ?r sample_levels = Some ([6], 2)"
    by code_simp
  have "int (length sample_levels) \<le> max_i32" by (simp add: sample_levels_def max_i32_def)
  from registry_listing_total [OF this run] run show ?thesis by simp
qed

end
