(* ===== verification/Measurements.thy ===== *)
theory Measurements
  imports Passes Registry_Maintenance
begin

text \<open>
  The configuration and the mutable fields of the server (\<^verbatim>\<open>hippocampus/server.go\<close>), and what it measures
  of a store before it decides anything: row counts, live bytes, external bytes and the significance
  percentile (\<^verbatim>\<open>db/memory.go\<close>, \<^verbatim>\<open>db/event.go\<close>, \<^verbatim>\<open>db/db.go\<close>). The engine's page counters and the
  statistics library are parameters, as are the failures of single statements.
\<close>

section \<open>Configuration and state\<close>

record sleep_config =
  sc_db :: db_config
  sc_consolidation :: Consolidation
  sc_tombstones :: bool
  significanceLevelRetention :: nanos
  summarisationMinMemories :: int
  callbacksEnabled :: bool
  callbackSleepEvents :: bool
  callbackAtRiskEvents :: bool
  callbackBacklogStall :: bool
  callbackBounds :: QueueBounds
  callbackChunkIds :: int
  callbackAtRiskLimit :: int
  callbackAtRiskMargin :: real

datatype stall_reason = StalledByRows | StalledByBytes | StalledByAge

datatype cycle_error = ConsolidateFailed "write_error list" | EvictFailed write_error | PreserveFailed

record cycleReport =
  startedAt :: nanos
  memoriesExpired :: nat
  eventsExpired :: nat
  memoriesConsolidated :: nat
  eventsConsolidated :: nat
  memoriesEvicted :: nat
  eventsEvicted :: nat
  bytesFreed :: int
  externalBytesFreed :: int
  summarisationCandidates :: nat
  stalled :: "stall_reason option"
  success :: bool
  failure :: "cycle_error option"

record server_state =
  sv_db :: db_state
  capacityPressure :: real
  lastUsedBytes :: int
  lastExternalBytes :: int
  computedDefaultEventSignificance :: "int option"
  lastCycle :: "cycleReport option"

text \<open>
  What a measurement reads besides the tables. \<open>page_count\<close>, \<open>freelist_count\<close> and \<open>page_size\<close> are the
  embedded engine's pragmas and \<open>excluded_bytes\<close> what it measures of the three ancillary tables;
  \<open>percentile_nearest_rank\<close> is the statistics library's.
\<close>

record measure_env =
  percentile_nearest_rank :: "real list \<Rightarrow> real \<Rightarrow> real option"
  page_count :: "db_state \<Rightarrow> int"
  freelist_count :: "db_state \<Rightarrow> int"
  page_size :: int
  excluded_bytes :: "db_state \<Rightarrow> int"
  percentile_fails :: bool
  count_fails :: bool
  used_fails :: bool
  external_fails :: bool

section \<open>Measurements\<close>

definition CountMemories :: "bool \<Rightarrow> db_state \<Rightarrow> int \<times> int" where
  "CountMemories fails s =
     (if fails then (-1, -1)
      else (int (length (filter (\<lambda>r. m_event_id r \<noteq> []) (memories s))),
            int (length (filter (\<lambda>r. m_event_id r = []) (memories s)))))"

definition CalculateSignificancePercentile :: "'a measure_env_scheme \<Rightarrow> real \<Rightarrow> db_state \<Rightarrow> real option" where
  "CalculateSignificancePercentile env percent s =
     (if percentile_fails env then None
      else percentile_nearest_rank env (map (\<lambda>e. real_of_int (joined_rank (levels s) (e_level e))) (events s)) percent)"

definition rowsFootprint :: "db_config \<Rightarrow> int \<Rightarrow> int \<Rightarrow> int" where
  "rowsFootprint cfg rows payloadBytes = payloadBytes + rows * row_overhead cfg"

definition usedBytesLiveRows :: "db_config \<Rightarrow> db_state \<Rightarrow> int" where
  "usedBytesLiveRows cfg s =
     memoriesFootprint cfg (int (length (memories s)))
       (sum_list (map (\<lambda>r. int (length (m_body r)) + m_metadata_bytes r) (memories s)))
       (sum_list (map (\<lambda>r. case m_indexed_bytes r of None \<Rightarrow> int (length (m_body r)) | Some n \<Rightarrow> n) (memories s)))
     + rowsFootprint cfg (int (length (events s))) (sum_list (map e_payload_bytes (events s)))
     + rowsFootprint cfg (int (length (memory_links s)) + int (length (event_links s))) 0"

definition UsedBytes :: "db_config \<Rightarrow> 'a measure_env_scheme \<Rightarrow> db_state \<Rightarrow> write_error + int" where
  "UsedBytes cfg env s =
     (if used_fails env then Inl ErrOther
      else if \<not> page_accounting cfg then Inr (usedBytesLiveRows cfg s)
      else Inr (max ((page_count env s - freelist_count env s) * page_size env - excluded_bytes env s) 0))"

definition ExternalBytes :: "'a measure_env_scheme \<Rightarrow> db_state \<Rightarrow> write_error + int" where
  "ExternalBytes env s = (if external_fails env then Inl ErrOther else Inr (sum_list (map m_external_bytes (memories s))))"

definition defaultEventSignificance :: "Consolidation \<Rightarrow> server_state \<Rightarrow> int" where
  "defaultEventSignificance c st = (case computedDefaultEventSignificance st of
       Some v \<Rightarrow> v | None \<Rightarrow> defaultEventSignificanceValue c)"

definition int_of_float :: "real \<Rightarrow> int" where
  "int_of_float v = (if v \<ge> 0 then \<lfloor>v\<rfloor> else \<lceil>v\<rceil>)"

end
