(* ===== verification/Preview.thy ===== *)
theory Preview
  imports Measurements
begin

text \<open>
  The dry run (\<^verbatim>\<open>db/preview.go\<close>, \<^verbatim>\<open>hippocampus/preview.go\<close>) and the warning built on it
  (\<^verbatim>\<open>hippocampus/atrisk.go\<close>): one scan that predicts what expiry, consolidation and eviction would
  take, the retention figures, and the snapshot of decision inputs. The two sorts are parameters, as
  \<^verbatim>\<open>sort.Slice\<close> is not stable.
\<close>

section \<open>Data\<close>

definition previewDefaultLimit :: int where "previewDefaultLimit = 100"

definition previewMaxLimit :: int where "previewMaxLimit = 1000"

definition PreviewLimit :: "int \<Rightarrow> int" where
  "PreviewLimit requested =
     (if requested \<le> 0 then previewDefaultLimit else if requested > previewMaxLimit then previewMaxLimit else requested)"

record ForgetCandidate =
  fc_id :: ident
  fc_event_id :: ident
  fc_group :: string
  fc_significance :: int
  fc_value :: real
  fc_bytes :: int
  fc_external_bytes :: int
  fc_rule :: ForgetRule
  fc_timestamp :: nanos
  fc_time_recalled :: nanos
  fc_recall_count :: int

record ConsolidationPreview =
  MemoriesExpired :: nat
  MemoriesConsolidated :: nat
  MemoriesEvicted :: nat
  EventsDeleted :: nat
  BytesFreed :: int
  MemoriesRetained :: nat
  RetainedBytes :: int
  ExternalBytesFreed :: int
  RetainedExternalBytes :: int
  Candidates :: "ForgetCandidate list"
  Truncated :: bool

record PreviewOptions =
  po_limit :: int
  po_used_bytes :: int
  po_capacity_bytes :: int
  po_eviction_floor :: int
  po_expire_before :: nanos
  po_external_bytes :: int
  po_capacity_external_bytes :: int
  po_external_eviction_floor :: int

text \<open>A scanned row; \<open>pr_joined\<close> is \<^verbatim>\<open>joinedEventId.Valid\<close>.\<close>

record previewRow =
  pr_candidate :: MemoryConsolidationCandidate
  pr_id :: ident
  pr_event_id :: ident
  pr_group :: string
  pr_payload :: int
  pr_bytes :: int
  pr_external :: int
  pr_value :: real
  pr_joined :: bool

record preview_sorts =
  sort_rows :: "previewRow list \<Rightarrow> previewRow list"
  sort_candidates :: "ForgetCandidate list \<Rightarrow> ForgetCandidate list"

section \<open>The dry run\<close>

definition preview_row :: "db_config \<Rightarrow> Server \<Rightarrow> db_state \<Rightarrow> memory_row \<Rightarrow> previewRow" where
  "preview_row cfg srv s r =
     (let c = scan_candidate s r; joined = joined_event s (m_event_id r) \<noteq> None;
          payload = int (length (m_body r)) + m_metadata_bytes r;
          indexed = (case m_indexed_bytes r of None \<Rightarrow> int (length (m_body r)) | Some n \<Rightarrow> n)
      in \<lparr>pr_candidate = c, pr_id = m_id r, pr_event_id = (if joined then m_event_id r else []), pr_group = m_group r,
          pr_payload = payload, pr_bytes = memoryFootprint cfg payload indexed, pr_external = m_external_bytes r,
          pr_value = srv_value srv c, pr_joined = joined\<rparr>)"

definition forgetCandidate :: "ForgetRule \<Rightarrow> previewRow \<Rightarrow> ForgetCandidate" where
  "forgetCandidate rl r = \<lparr>fc_id = pr_id r, fc_event_id = pr_event_id r, fc_group = pr_group r,
     fc_significance = MemorySignificance (pr_candidate r), fc_value = pr_value r, fc_bytes = pr_payload r,
     fc_external_bytes = pr_external r, fc_rule = rl, fc_timestamp = Timestamp (pr_candidate r),
     fc_time_recalled = TimeRecalled (pr_candidate r), fc_recall_count = RecallCount (pr_candidate r)\<rparr>"

definition previewExcess :: "int \<Rightarrow> int \<Rightarrow> int \<Rightarrow> int" where
  "previewExcess remaining capacity flr =
     (if capacity \<le> 0 \<or> remaining \<le> capacity then 0
      else remaining - (if flr \<le> 0 \<or> flr > capacity then capacity else flr))"

fun select_rows :: "EvictionTarget \<Rightarrow> int \<Rightarrow> int \<Rightarrow> previewRow list \<Rightarrow> previewRow list" where
  "select_rows t b x [] = []"
| "select_rows t b x (r # rs) =
     (if satisfied t b x then [] else r # select_rows t (b + pr_bytes r) (x + pr_external r) rs)"

definition preview_target :: "int \<Rightarrow> int \<Rightarrow> PreviewOptions \<Rightarrow> EvictionTarget" where
  "preview_target cb ce opts =
     \<lparr>target_bytes = previewExcess (po_used_bytes opts - cb) (po_capacity_bytes opts) (po_eviction_floor opts),
      target_external = previewExcess (po_external_bytes opts - ce) (po_capacity_external_bytes opts) (po_external_eviction_floor opts)\<rparr>"

definition previewEvictions :: "preview_sorts \<Rightarrow> previewRow list \<Rightarrow> int \<Rightarrow> int \<Rightarrow> PreviewOptions \<Rightarrow> previewRow list" where
  "previewEvictions srt evictable cb ce opts =
     (let t = preview_target cb ce opts
      in if target_empty t then [] else select_rows t 0 0 (sort_rows srt evictable))"

definition previewSample :: "preview_sorts \<Rightarrow> previewRow list \<Rightarrow> previewRow list \<Rightarrow> previewRow list \<Rightarrow> int
    \<Rightarrow> ForgetCandidate list \<times> bool" where
  "previewSample srt expiring consolidating evicting limit =
     (let cs = sort_candidates srt (map (forgetCandidate ForgetRuleExpiry) expiring
                 @ map (forgetCandidate ForgetRuleConsolidation) consolidating
                 @ map (forgetCandidate ForgetRuleEviction) evicting)
      in if int (length cs) > limit then (take (nat limit) cs, True) else (cs, False))"

definition previewEmptyEventDeletions :: "Server \<Rightarrow> db_state \<Rightarrow> nat" where
  "previewEmptyEventDeletions srv s =
     length (filter (\<lambda>e. srv_should_event srv (event_candidate s e))
       (filter (\<lambda>e. e_id e \<notin> set (filter (\<lambda>i. i \<noteq> []) (map m_event_id (memories s)))) (events s)))"

definition expires :: "PreviewOptions \<Rightarrow> previewRow \<Rightarrow> bool" where
  "expires opts r \<longleftrightarrow> po_expire_before opts > 0 \<and> Timestamp (pr_candidate r) < po_expire_before opts"

text \<open>Where the loop puts a row: expiry is asked first, then consolidation, then the retention window.\<close>

definition expiring_rows :: "PreviewOptions \<Rightarrow> previewRow list \<Rightarrow> previewRow list" where
  "expiring_rows opts rows = filter (expires opts) rows"

definition consolidating_rows :: "Server \<Rightarrow> PreviewOptions \<Rightarrow> previewRow list \<Rightarrow> previewRow list" where
  "consolidating_rows srv opts rows = filter (\<lambda>r. \<not> expires opts r \<and> srv_should_memory srv (pr_candidate r)) rows"

definition held_rows :: "Server \<Rightarrow> PreviewOptions \<Rightarrow> previewRow list \<Rightarrow> previewRow list" where
  "held_rows srv opts rows =
     filter (\<lambda>r. \<not> expires opts r \<and> \<not> srv_should_memory srv (pr_candidate r) \<and> srv_retained srv (pr_candidate r)) rows"

definition evictable_rows :: "Server \<Rightarrow> PreviewOptions \<Rightarrow> previewRow list \<Rightarrow> previewRow list" where
  "evictable_rows srv opts rows =
     filter (\<lambda>r. \<not> expires opts r \<and> \<not> srv_should_memory srv (pr_candidate r) \<and> \<not> srv_retained srv (pr_candidate r)) rows"

definition emptied_events :: "previewRow list \<Rightarrow> previewRow list \<Rightarrow> previewRow list \<Rightarrow> nat" where
  "emptied_events rows going evicting =
     (let memoriesPerEvent = (\<lambda>i. length (filter (\<lambda>r. pr_joined r \<and> pr_event_id r = i) rows));
          losses = filter pr_joined going @ filter (\<lambda>r. pr_event_id r \<noteq> []) evicting;
          deletionsPerEvent = (\<lambda>i. length (filter (\<lambda>r. pr_event_id r = i) losses))
      in length (filter (\<lambda>i. deletionsPerEvent i \<ge> memoriesPerEvent i) (remdups (map pr_event_id losses))))"

definition PreviewConsolidation :: "db_config \<Rightarrow> preview_sorts \<Rightarrow> bool \<Rightarrow> Server \<Rightarrow> PreviewOptions \<Rightarrow> db_state
    \<Rightarrow> write_error + ConsolidationPreview" where
  "PreviewConsolidation cfg srt fails srv opts s =
     (if fails then Inl ErrOther
      else let rows = map (preview_row cfg srv s) (memories s);
               expiring = expiring_rows opts rows;
               consolidating = consolidating_rows srv opts rows;
               held = held_rows srv opts rows;
               cb = sum_list (map pr_bytes (expiring @ consolidating));
               ce = sum_list (map pr_external (expiring @ consolidating));
               evicting = previewEvictions srt (evictable_rows srv opts rows) cb ce opts;
               sample = previewSample srt expiring consolidating evicting (PreviewLimit (po_limit opts))
           in Inr \<lparr>MemoriesExpired = length expiring, MemoriesConsolidated = length consolidating,
                MemoriesEvicted = length evicting,
                EventsDeleted = emptied_events rows (expiring @ consolidating) evicting + previewEmptyEventDeletions srv s,
                BytesFreed = cb + sum_list (map pr_bytes evicting), MemoriesRetained = length held,
                RetainedBytes = sum_list (map pr_bytes held), ExternalBytesFreed = ce + sum_list (map pr_external evicting),
                RetainedExternalBytes = sum_list (map pr_external held), Candidates = fst sample, Truncated = snd sample\<rparr>)"

section \<open>Retention figures\<close>

record RetentionStats =
  rs_memories :: nat
  rs_bytes :: int
  rs_external :: int

definition RetainedStats :: "db_config \<Rightarrow> nanos \<Rightarrow> db_state \<Rightarrow> RetentionStats" where
  "RetainedStats cfg cutoff s =
     (let rs = filter (\<lambda>r. max (m_timestamp r) (m_time_recalled r) \<ge> cutoff) (memories s)
      in \<lparr>rs_memories = length rs,
          rs_bytes = memoriesFootprint cfg (int (length rs))
            (sum_list (map (\<lambda>r. int (length (m_body r)) + m_metadata_bytes r) rs))
            (sum_list (map (\<lambda>r. case m_indexed_bytes r of None \<Rightarrow> int (length (m_body r)) | Some n \<Rightarrow> n) rs)),
          rs_external = sum_list (map m_external_bytes rs)\<rparr>)"

section \<open>Snapshots and options\<close>

text \<open>The inputs a cycle starting now would decide against, recomputed rather than read.\<close>

record decisionState =
  ds_pressure :: real
  ds_default :: int
  ds_used :: int
  ds_external :: int

definition decisionSnapshot :: "sleep_config \<Rightarrow> 'a measure_env_scheme \<Rightarrow> server_state \<Rightarrow> write_error + decisionState" where
  "decisionSnapshot sc env st =
     (let c = sc_consolidation sc
      in case UsedBytes (sc_db sc) env (sv_db st) of
           Inl e \<Rightarrow> Inl e
         | Inr used \<Rightarrow>
             (case CountMemories (count_fails env) (sv_db st) of (with_event, without) \<Rightarrow>
               if with_event < 0 \<or> without < 0 then Inl ErrOther
               else case (if capacityExternalBytes c > 0 then ExternalBytes env (sv_db st) else Inr 0) of
                      Inl e \<Rightarrow> Inl e
                    | Inr ext \<Rightarrow> Inr \<lparr>
                        ds_pressure = calculateCapacityPressure c (with_event + without) (if capacityBytes c > 0 then used else 0) ext,
                        ds_default = (if defaultEventSignificancePercentile c \<noteq> 0
                           then (case CalculateSignificancePercentile env (defaultEventSignificancePercentile c) (sv_db st) of
                                   None \<Rightarrow> defaultEventSignificance c st | Some v \<Rightarrow> i32 (int_of_float v))
                           else defaultEventSignificance c st),
                        ds_used = used, ds_external = ext\<rparr>))"

definition previewDecider :: "Consolidation \<Rightarrow> nanos \<Rightarrow> real \<Rightarrow> int \<Rightarrow> Server" where
  "previewDecider c now pressure dflt = \<lparr>srv_should_memory = (\<lambda>m. shouldConsolidateUnder c now (memorySignificanceUnder c m dflt) (memoryDecayTimestamp m) pressure),
     srv_value = (\<lambda>m. memoryValueUnder c now m dflt), srv_retained = MemoryRetained c now,
     srv_should_event = (\<lambda>e. shouldConsolidateEventUnder c now e pressure), srv_threshold = deletionThresholdUnder c pressure\<rparr>"

definition preview_options :: "Consolidation \<Rightarrow> nanos \<Rightarrow> int \<Rightarrow> decisionState \<Rightarrow> PreviewOptions" where
  "preview_options c now limit d = \<lparr>po_limit = limit, po_used_bytes = ds_used d, po_capacity_bytes = capacityBytes c,
     po_eviction_floor = evictionFloorFor (capacityBytes c) (capacityBytesFloor c), po_expire_before = expiryCutoff c now,
     po_external_bytes = ds_external d, po_capacity_external_bytes = capacityExternalBytes c,
     po_external_eviction_floor = evictionFloorFor (capacityExternalBytes c) (capacityExternalBytesFloor c)\<rparr>"

definition at_risk_options :: "Consolidation \<Rightarrow> int \<Rightarrow> decisionState \<Rightarrow> PreviewOptions" where
  "at_risk_options c limit d = \<lparr>po_limit = limit, po_used_bytes = ds_used d, po_capacity_bytes = capacityBytes c,
     po_eviction_floor = evictionFloorFor (capacityBytes c) (capacityBytesFloor c), po_expire_before = 0,
     po_external_bytes = 0, po_capacity_external_bytes = 0, po_external_eviction_floor = 0\<rparr>"

section \<open>Stores without links\<close>

definition linkless :: "db_state \<Rightarrow> bool" where
  "linkless s \<longleftrightarrow> memory_links s = [] \<and> event_links s = []"

text \<open>Events may have gone and flags may have been set; what a scan reads off an event has not changed.\<close>

definition events_kept :: "db_state \<Rightarrow> db_state \<Rightarrow> bool" where
  "events_kept s s' \<longleftrightarrow> levels s' = levels s \<and> memory_links s' = memory_links s \<and> event_links s' = [] \<and> memories s' = memories s
     \<and> (\<forall>e' \<in> set (events s'). \<exists>e \<in> set (events s). e_id e' = e_id e \<and> e_level e' = e_level e
          \<and> e_link_significance e' = e_link_significance e)"

lemma events_kept_refl: "event_links s = [] \<Longrightarrow> events_kept s s"
  by (auto simp: events_kept_def)

lemma events_kept_trans: "events_kept s s1 \<Longrightarrow> events_kept s1 s2 \<Longrightarrow> events_kept s s2"
  unfolding events_kept_def by metis

lemma pruneLinks_empty: "pruneLinks g ids ([], rows) = ([], rows)"
  by (simp add: pruneLinks_def linkTableEmpty_def)

lemma queueCallbacks_levels [frame_simps]: "levels (queueCallbacks cfg now ds s) = levels s"
proof -
  have "levels (fold (insert_delivery cfg now) ds s) = levels s" by (induction ds arbitrary: s) (simp_all add: insert_delivery_def Let_def)
  then show ?thesis by (simp add: queueCallbacks_fold)
qed

lemma DeleteEventIfEmpty_kept:
  assumes "event_links s = []"
  shows "events_kept s (snd (DeleteEventIfEmpty cfg env i c s))"
proof (cases "DeleteEventIfEmpty cfg env i c s")
  case (Pair res s')
  consider "res = Inr True" | "s' = s" using Pair DeleteEventIfEmpty_spared by (cases res) (auto, metis (full_types))
  then show ?thesis
  proof cases
    case 1
    note D = DeleteEventIfEmpty_deleted [OF Pair [unfolded 1]]
    let ?s1 = "s\<lparr>events := filter (\<lambda>e. \<not> (e_id e = i \<and> \<not> list_ex (\<lambda>r. m_event_id r = i) (memories s))) (events s)\<rparr>"
    let ?s3 = "queueEventCallbacks cfg (env_now env) (captureEventCallback cfg [i] c s) c (cycleId s c) (pruneEventLinks [i] ?s1)"
    have "s' = collectForgotten c [] (eventItemIds (captureEventCallback cfg [i] c s)) ?s3"
      using Pair 1 by (auto simp: DeleteEventIfEmpty_def Let_def split: if_splits)
    then obtain cy where "s' = ?s3\<lparr>cycle := cy\<rparr>" using collectForgotten_frame by metis
    then have "levels s' = levels s"
      by (simp add: queueEventCallbacks_def queueCallbacks_levels pruneEventLinks_def store_link_defs)
    then show ?thesis using D assms by (auto simp: events_kept_def Pair pruneLinks_empty)
  qed (simp add: Pair events_kept_refl [OF assms])
qed

lemma setEventConsolidated_kept: "event_links s = [] \<Longrightarrow> events_kept s (snd (setEventConsolidated env i s))"
  by (auto simp: setEventConsolidated_def events_kept_def)

lemma cleanup_fold_kept: "event_links (fst st) = [] \<Longrightarrow> events_kept (fst st) (fst (fold (cleanup_event cfg env c td fl) ids st))"
proof (induction ids arbitrary: st)
  case (Cons i ids)
  obtain s n err where st: "st = (s, n, err)" by (cases st)
  let ?d = "DeleteEventIfEmpty cfg env i c s"
  have 1: "events_kept s (snd ?d)" using Cons.prems by (simp add: st DeleteEventIfEmpty_kept)
  then have "event_links (snd ?d) = []" by (simp add: events_kept_def)
  from setEventConsolidated_kept [OF this, of env i] setEventConsolidated_kept [of s env i] 1 Cons.prems
  have "events_kept s (fst (cleanup_event cfg env c td fl i st))"
    by (auto simp: cleanup_event_def st Let_def split_beta events_kept_refl split: sum.splits intro: events_kept_trans)
  moreover from this have "event_links (fst (cleanup_event cfg env c td fl i st)) = []" by (simp add: events_kept_def)
  ultimately have "events_kept s (fst (cleanup_event cfg env c td fl i st))"
    "events_kept (fst (cleanup_event cfg env c td fl i st)) (fst (fold (cleanup_event cfg env c td fl) ids (cleanup_event cfg env c td fl i st)))"
    by (simp_all add: Cons.IH)
  then show ?case by (simp add: st events_kept_trans)
qed (simp add: events_kept_refl)

text \<open>A pass on a store without links has removed exactly the rows that satisfy \<open>P\<close>.\<close>

definition removed :: "(memory_row \<Rightarrow> bool) \<Rightarrow> db_state \<Rightarrow> db_state \<Rightarrow> bool" where
  "removed P s s' \<longleftrightarrow> store_ok s' \<and> linkless s' \<and> memories s' = filter (\<lambda>r. \<not> P r) (memories s)
     \<and> (\<forall>r \<in> set (memories s'). scan_candidate s' r = scan_candidate s r)
     \<and> e_id ` set (events s') \<subseteq> e_id ` set (events s)"

lemma scan_candidate_kept:
  assumes "store_ok s" "store_ok s'" "events_kept s s'" "has_event s r \<longrightarrow> has_event s' r"
  shows "scan_candidate s' r = scan_candidate s r"
proof (cases "has_event s r")
  case True
  then obtain e' where e': "e' \<in> set (events s')" "e_id e' = m_event_id r" using assms(4) by (auto simp: has_event_def)
  then obtain e where e: "e \<in> set (events s)" "e_id e' = e_id e" "e_level e' = e_level e" "e_link_significance e' = e_link_significance e"
    using assms(3) by (auto simp: events_kept_def)
  have "joined_event s' (m_event_id r) = Some e'" "joined_event s (m_event_id r) = Some e"
    using assms(1,2) e' e unfolding joined_event_def by (auto simp: store_ok_def keys_ok_def find_row_iff)
  then show ?thesis using e assms(3) by (simp add: scan_candidate_def events_kept_def)
next
  case False
  moreover have "\<not> has_event s' r" using False assms(3) by (auto simp: has_event_def events_kept_def)
  ultimately show ?thesis using assms(3)
    by (simp add: scan_candidate_def joined_event_def has_event_def find_row_None [THEN iffD2] events_kept_def)
qed

lemma chokepoint_linkless:
  assumes "store_ok s" "undisturbed env" "snapshots f" "linkless s"
    and C: "chokepoint cfg env (map f (filter P (memories s))) why s = (res, s1)"
  shows "memories s1 = filter (\<lambda>r. \<not> P r) (memories s)" "linkless s1" "events s1 = events s" "levels s1 = levels s" "store_ok s1"
proof -
  have k: "keys_ok s" using assms(1) by (simp add: store_ok_def)
  obtain deleted s2 where D: "chokepoint cfg env (map f (filter P (memories s))) why s = (Inr deleted, s2)"
    "delete_effect cfg (map f (filter P (memories s))) why s deleted s2"
    using chokepoint_undisturbed [OF assms(2,1) snapshots_distinct [OF k assms(3)]] by metis
  then have E: "delete_effect cfg (map f (filter P (memories s))) why s deleted s1" using C by simp
  note F = delete_effectD [OF E]
  have "filter (\<lambda>r. \<not> guard (map f (filter P (memories s))) r) (memories s) = filter (\<lambda>r. \<not> P r) (memories s)"
    using guard_map [OF k assms(3)] by (intro filter_cong) auto
  then show "memories s1 = filter (\<lambda>r. \<not> P r) (memories s)" using F(4) assms(4) by (simp add: linkless_def pruneLinks_empty)
  show "linkless s1" "events s1 = events s" "levels s1 = levels s" using F(5,9-11) assms(4) by (simp_all add: linkless_def)
  show "store_ok s1" by (rule delete_effect_store_ok [OF assms(1) E])
qed

lemma removedI:
  assumes "store_ok s" "memories s1 = filter (\<lambda>r. \<not> P r) (memories s)" "linkless s1" "events s1 = events s" "levels s1 = levels s" "store_ok s1"
    and "events_kept s1 s'" "events_only s1 s'"
  shows "removed P s s'"
proof -
  have ok': "store_ok s'" using assms(6,8) by (simp add: events_only_def)
  have "scan_candidate s' r = scan_candidate s1 r" if "r \<in> set (memories s')" for r
    using that assms(7,8) by (intro scan_candidate_kept [OF assms(6) ok' assms(7)]) (auto simp: events_only_def)
  moreover have "scan_candidate s1 r = scan_candidate s r" for r
    by (simp add: scan_candidate_def joined_event_def Let_def assms(4,5) cong: option.case_cong)
  ultimately show ?thesis
    using assms ok' by (auto simp: removed_def linkless_def events_only_def events_kept_def)
qed

lemma removed_run:
  assumes "store_ok s" "undisturbed env" "snapshots f" "linkless s"
    and "\<And>res s1. chokepoint cfg env (map f (filter P (memories s))) why s = (res, s1)
      \<Longrightarrow> event_links s1 = [] \<Longrightarrow> events_kept s1 s2 \<and> events_only s1 s2"
  shows "removed P s s2"
proof -
  obtain res s1 where C: "chokepoint cfg env (map f (filter P (memories s))) why s = (res, s1)" by fastforce
  note L = chokepoint_linkless [OF assms(1-4) C]
  from assms(5) [OF C] L(2) have "events_kept s1 s2" "events_only s1 s2" by (simp_all add: linkless_def)
  then show ?thesis using assms(1) L by (intro removedI [of s s1])
qed

lemma removed_none: "store_ok s \<Longrightarrow> linkless s \<Longrightarrow> filter (\<lambda>r. \<not> P r) (memories s) = memories s \<Longrightarrow> removed P s s"
  by (simp add: removed_def)

lemma expire_removed:
  assumes "store_ok s" "undisturbed env" "linkless s"
  shows "removed (\<lambda>r. m_timestamp r < cutoff) s (snd (ExpireMemories cfg env cutoff s))"
proof (cases "filter (\<lambda>r. m_timestamp r < cutoff) (memories s) = []")
  case True
  then have "filter (\<lambda>r. \<not> m_timestamp r < cutoff) (memories s) = memories s" by (simp add: filter_empty_conv)
  moreover have "snd (ExpireMemories cfg env cutoff s) = s" using True assms(2) by (simp add: ExpireMemories_def Let_def undisturbed_def)
  ultimately show ?thesis using removed_none assms by simp
next
  case False
  have sf: "\<not> scan_fails env" using assms(2) by (simp add: undisturbed_def)
  show ?thesis
  proof (rule removed_run [OF assms(1,2) scan_snapshots(3) [of 0] assms(3)])
    fix res s1
    assume C: "chokepoint cfg env (map (\<lambda>r. \<lparr>ms_id = m_id r, ms_time_recalled = m_time_recalled r, ms_recall_count = m_recall_count r,
        ms_value = 0\<rparr>) (filter (\<lambda>r. m_timestamp r < cutoff) (memories s))) \<lparr>rule = (if tombstones_enabled cfg \<and> tombstone_table cfg
        then ForgetRuleExpiry else ForgetRuleNone), cause = CauseExpiry, threshold = 0\<rparr> s = (res, s1)" and l: "event_links s1 = []"
    then have "snd (ExpireMemories cfg env cutoff s) = s1
        \<or> (\<exists>ids. snd (ExpireMemories cfg env cutoff s) = fst (fold (cleanup_event cfg env CauseExpiry (\<lambda>_. True) (\<lambda>_. True)) ids (s1, 0, None)))"
      using sf False by (auto simp: ExpireMemories_def Let_def split_beta split: sum.splits)
    then show "events_kept s1 (snd (ExpireMemories cfg env cutoff s)) \<and> events_only s1 (snd (ExpireMemories cfg env cutoff s))"
      using events_kept_refl [OF l] events_only_refl cleanup_fold_kept [of "(s1, 0, None)"] cleanup_fold_events_only [of "(s1, 0, None)"] l
      by (metis fst_conv)
  qed
qed

lemma consolidate_removed:
  assumes "store_ok s" "undisturbed env" "linkless s"
  shows "removed (\<lambda>r. m_event_id r = [] \<and> srv_should_memory srv (eventless_candidate s r)) s (snd (ConsolidateMemories cfg env srv s))"
proof -
  define reason where "reason = forgetReasonFor cfg ForgetRuleConsolidation CauseConsolidation (srv_threshold srv)"
  have sf: "\<not> scan_fails env" using assms(2) by (simp add: undisturbed_def)
  show ?thesis
  proof (rule removed_run [OF assms(1,2) scan_snapshots(1) [of srv reason s] assms(3), where cfg = cfg and why = reason])
  qed (use sf in \<open>auto simp: ConsolidateMemories_def Let_def conj_commute reason_def [symmetric] events_kept_refl events_only_refl
      split: sum.splits\<close>)
qed

lemma consolidate_events_removed:
  assumes "store_ok s" "undisturbed env" "linkless s"
  shows "removed (\<lambda>r. m_event_id r \<noteq> [] \<and> srv_should_memory srv (scan_candidate s r)) s (snd (ConsolidateEventMemories cfg env srv s))"
proof -
  define reason where "reason = forgetReasonFor cfg ForgetRuleConsolidation CauseConsolidation (srv_threshold srv)"
  have sf: "\<not> scan_fails env" using assms(2) by (simp add: undisturbed_def)
  let ?items = "map (\<lambda>r. consolidation_snapshot srv reason (scan_candidate s r) r)
    (filter (\<lambda>r. m_event_id r \<noteq> [] \<and> srv_should_memory srv (scan_candidate s r)) (memories s))"
  let ?s2 = "snd (ConsolidateEventMemories cfg env srv s)"
  show ?thesis
  proof (rule removed_run [OF assms(1,2) scan_snapshots(2) [of srv reason s] assms(3), where cfg = cfg and why = reason])
    fix res s1
    assume C: "chokepoint cfg env ?items reason s = (res, s1)" and l: "event_links s1 = []"
    then have "\<exists>td fl seen err. ?s2 = fst (fold (cleanup_event cfg env CauseConsolidation td fl) seen (s1, 0, err))"
      using sf by (simp add: ConsolidateEventMemories_def Let_def reason_def [symmetric] conj_commute split_beta) blast
    then obtain td fl seen err where "?s2 = fst (fold (cleanup_event cfg env CauseConsolidation td fl) seen (s1, 0, err))" by blast
    then show "events_kept s1 ?s2 \<and> events_only s1 ?s2"
      using cleanup_fold_kept [of "(s1, 0, err)"] cleanup_fold_events_only [of "(s1, 0, err)"] l by simp
  qed
qed

text \<open>The two consolidation passes together, from the store expiry leaves.\<close>

lemma removed_step:
  assumes "removed P s s1" "removed Q s1 s2" "\<And>r. r \<in> set (memories s1) \<Longrightarrow> Q r = Q' r"
  shows "removed (\<lambda>r. P r \<or> Q' r) s s2"
proof -
  have "filter (\<lambda>r. \<not> Q r) (memories s1) = filter (\<lambda>r. \<not> Q' r) (memories s1)" using assms(3) by (intro filter_cong) auto
  then have "memories s2 = filter (\<lambda>r. \<not> (P r \<or> Q' r)) (memories s)" using assms(1,2) by (auto simp: removed_def filter_filter)
  moreover have "set (memories s2) \<subseteq> set (memories s1)" using assms(2) by (auto simp: removed_def)
  ultimately show ?thesis using assms(1,2) unfolding removed_def by (metis (no_types, lifting) subset_iff subset_trans)
qed

lemma preview_removed:
  assumes "store_ok s" "linkless s" "undisturbed e2" "undisturbed e3" "[] \<notin> e_id ` set (events s)"
    and "removed P s s1"
  shows "removed (\<lambda>r. P r \<or> srv_should_memory srv (scan_candidate s r)) s
    (snd (ConsolidateEventMemories cfg e3 srv (snd (ConsolidateMemories cfg e2 srv s1))))"
proof -
  let ?s2 = "snd (ConsolidateMemories cfg e2 srv s1)"
  have s1: "store_ok s1" "linkless s1" "[] \<notin> e_id ` set (events s1)"
    "\<And>r. r \<in> set (memories s1) \<Longrightarrow> scan_candidate s1 r = scan_candidate s r" using assms(5,6) by (auto simp: removed_def)
  have k: "keys_ok s1" using s1(1) by (simp add: store_ok_def)
  have 2: "removed (\<lambda>r. P r \<or> m_event_id r = [] \<and> srv_should_memory srv (scan_candidate s r)) s ?s2"
    by (rule removed_step [OF assms(6) consolidate_removed [OF s1(1) assms(3) s1(2)]])
      (use s1(4) eventless_is_scan [OF k s1(3)] in auto)
  then have s2: "store_ok ?s2" "linkless ?s2" "\<And>r. r \<in> set (memories ?s2) \<Longrightarrow> scan_candidate ?s2 r = scan_candidate s r"
    by (auto simp: removed_def)
  have "removed (\<lambda>r. (P r \<or> m_event_id r = [] \<and> srv_should_memory srv (scan_candidate s r))
      \<or> m_event_id r \<noteq> [] \<and> srv_should_memory srv (scan_candidate s r)) s (snd (ConsolidateEventMemories cfg e3 srv ?s2))"
    by (rule removed_step [OF 2 consolidate_events_removed [OF s2(1) assms(4) s2(2)]]) (use s2(3) in auto)
  moreover have "(\<lambda>r. (P r \<or> m_event_id r = [] \<and> srv_should_memory srv (scan_candidate s r))
      \<or> m_event_id r \<noteq> [] \<and> srv_should_memory srv (scan_candidate s r)) = (\<lambda>r. P r \<or> srv_should_memory srv (scan_candidate s r))"
    by auto
  ultimately show ?thesis by simp
qed

section \<open>The dry run and the passes\<close>

lemma preview_row_simps [simp]:
  "pr_candidate (preview_row cfg srv s r) = scan_candidate s r" "pr_id (preview_row cfg srv s r) = m_id r"
  by (simp_all add: preview_row_def Let_def)

lemma expires_row: "expires opts (preview_row cfg srv s r) \<longleftrightarrow> 0 < po_expire_before opts \<and> m_timestamp r < po_expire_before opts"
  by (simp add: expires_def scan_candidate_def Let_def)

text \<open>The part of a dry run that does not depend on the capacity: the rows it counts under the two rules.\<close>

lemma preview_counts:
  assumes "PreviewConsolidation cfg srt False srv opts s = Inr p"
    and "X = (\<lambda>r. 0 < po_expire_before opts \<and> m_timestamp r < po_expire_before opts)"
    and "D = (\<lambda>r. srv_should_memory srv (scan_candidate s r))"
  obtains evicting where "MemoriesExpired p = length (filter X (memories s))"
    "MemoriesConsolidated p = length (filter D (filter (\<lambda>r. \<not> X r) (memories s)))"
    "previewSample srt (map (preview_row cfg srv s) (filter X (memories s)))
       (map (preview_row cfg srv s) (filter D (filter (\<lambda>r. \<not> X r) (memories s)))) evicting (PreviewLimit (po_limit opts))
     = (Candidates p, Truncated p)"
proof -
  have rows: "expiring_rows opts (map (preview_row cfg srv s) (memories s)) = map (preview_row cfg srv s) (filter X (memories s))"
    "consolidating_rows srv opts (map (preview_row cfg srv s) (memories s))
     = map (preview_row cfg srv s) (filter D (filter (\<lambda>r. \<not> X r) (memories s)))"
    by (simp_all only: expiring_rows_def consolidating_rows_def filter_map comp_def expires_row preview_row_simps assms(2,3) filter_filter)
  show thesis by (rule that) (use assms(1) [symmetric] in \<open>simp_all add: PreviewConsolidation_def Let_def rows\<close>)
qed

lemma untruncated_sample:
  assumes "previewSample srt expiring consolidating evicting limit = (cs, False)" "\<And>xs. mset (sort_candidates srt xs) = mset xs"
  shows "fc_id ` {c \<in> set cs. fc_rule c \<noteq> ForgetRuleEviction} = pr_id ` (set expiring \<union> set consolidating)"
proof -
  let ?all = "map (forgetCandidate ForgetRuleExpiry) expiring @ map (forgetCandidate ForgetRuleConsolidation) consolidating
    @ map (forgetCandidate ForgetRuleEviction) evicting"
  have "cs = sort_candidates srt ?all" using assms(1) by (simp add: previewSample_def Let_def split: if_splits)
  then have "set cs = set ?all" using assms(2) by (metis set_mset_mset)
  moreover have "fc_rule (forgetCandidate rl r) = rl" "fc_id (forgetCandidate rl r) = pr_id r" for rl r by (simp_all add: forgetCandidate_def)
  ultimately have "{c \<in> set cs. fc_rule c \<noteq> ForgetRuleEviction}
      = forgetCandidate ForgetRuleExpiry ` set expiring \<union> forgetCandidate ForgetRuleConsolidation ` set consolidating"
    by auto
  then show ?thesis by (simp add: image_Un image_image forgetCandidate_def)
qed

lemma removed_ids:
  assumes "removed P s s'" "store_ok s"
  shows "m_id ` set (memories s) - m_id ` set (memories s') = m_id ` {r \<in> set (memories s). P r}"
proof -
  have "inj_on m_id (set (memories s))" using assms(2) by (simp add: store_ok_def keys_ok_def distinct_map)
  moreover have "set (memories s') = {r \<in> set (memories s). \<not> P r}" using assms(1) by (simp add: removed_def)
  ultimately show ?thesis by (auto dest: inj_onD)
qed

text \<open>
  C21. What the dry run announces is what the passes do. On a store without links, with nobody else
  writing and the same judgements, expiry removes exactly as many memories as announced, the two
  consolidation passes after it exactly as many as announced, and a sample that was not cut names,
  under the two rules, exactly the memories that go. (Where links exist, a memory that goes lowers
  the link significance of the ones it was linked to; one scan cannot foresee that.)
\<close>

theorem preview_agrees_with_passes:
  assumes "store_ok s" "linkless s" "[] \<notin> e_id ` set (events s)"
    and "undisturbed e1" "undisturbed e2" "undisturbed e3" "0 \<le> po_expire_before opts"
    and "\<And>xs. mset (sort_candidates srt xs) = mset xs"
    and "s1 = (if po_expire_before opts = 0 then s else snd (ExpireMemories cfg e1 (po_expire_before opts) s))"
    and "s3 = snd (ConsolidateEventMemories cfg e3 srv (snd (ConsolidateMemories cfg e2 srv s1)))"
    and "PreviewConsolidation cfg srt False srv opts s = Inr p"
  shows "length (memories s1) + MemoriesExpired p = length (memories s)
    \<and> length (memories s3) + MemoriesConsolidated p = length (memories s1)
    \<and> (Truncated p \<or> fc_id ` {c \<in> set (Candidates p). fc_rule c \<noteq> ForgetRuleEviction}
         = m_id ` set (memories s) - m_id ` set (memories s3))"
proof -
  define X where "X = (\<lambda>r::memory_row. 0 < po_expire_before opts \<and> m_timestamp r < po_expire_before opts)"
  define D where "D = (\<lambda>r. srv_should_memory srv (scan_candidate s r))"
  have 1: "removed X s s1"
    using removed_none [OF assms(1,2), of X] expire_removed [OF assms(1,4,2), of "po_expire_before opts" cfg] assms(7)
    by (cases "po_expire_before opts = 0") (simp_all add: X_def assms(9))
  have 3: "removed (\<lambda>r. X r \<or> D r) s s3"
    using preview_removed [OF assms(1,2,5,6,3) 1] by (simp add: D_def assms(10))
  obtain evicting where p: "MemoriesExpired p = length (filter X (memories s))"
    "MemoriesConsolidated p = length (filter D (filter (\<lambda>r. \<not> X r) (memories s)))"
    "previewSample srt (map (preview_row cfg srv s) (filter X (memories s)))
       (map (preview_row cfg srv s) (filter D (filter (\<lambda>r. \<not> X r) (memories s)))) evicting (PreviewLimit (po_limit opts))
     = (Candidates p, Truncated p)"
    by (rule preview_counts [OF assms(11) X_def D_def])
  have m: "memories s1 = filter (\<lambda>r. \<not> X r) (memories s)" "memories s3 = filter (\<lambda>r. \<not> D r) (filter (\<lambda>r. \<not> X r) (memories s))"
    using 1 3 by (simp_all add: removed_def filter_filter conj_commute)
  have "fc_id ` {c \<in> set (Candidates p). fc_rule c \<noteq> ForgetRuleEviction} = m_id ` set (memories s) - m_id ` set (memories s3)"
    if "\<not> Truncated p"
  proof -
    have "{r \<in> set (memories s). X r \<or> D r} = set (filter X (memories s)) \<union> set (filter D (filter (\<lambda>r. \<not> X r) (memories s)))" by auto
    then show ?thesis
      using untruncated_sample [OF _ assms(8)] p(3) that removed_ids [OF 3 assms(1)] by (simp add: image_Un image_image)
  qed
  moreover have "length (memories s1) + MemoriesExpired p = length (memories s)"
    using sum_length_filter_compl [of X "memories s"] p(1) m(1) by simp
  moreover have "length (memories s3) + MemoriesConsolidated p = length (memories s1)"
    using sum_length_filter_compl [of D "memories s1"] p(2) m by simp
  ultimately show ?thesis by blast
qed

definition plain_store :: db_state where
  "plain_store = empty_store\<lparr>memories := [example_memory ''a'' 10 0, example_memory ''b'' 20 0, example_memory ''c'' 30 0]\<rparr>"

lemma plain_store_ok: "store_ok plain_store"
  by (simp add: plain_store_def store_ok_def keys_ok_def queues_ok_def seqs_ok_def links_closed_def one_row_per_pair_def
      aggregates_ok_def agg_ok_def link_sum_def example_defs)

definition plain_options :: PreviewOptions where
  "plain_options = \<lparr>po_limit = 0, po_used_bytes = 0, po_capacity_bytes = 0, po_eviction_floor = 0, po_expire_before = 15,
     po_external_bytes = 0, po_capacity_external_bytes = 0, po_external_eviction_floor = 0\<rparr>"

definition value_sorts :: preview_sorts where
  "value_sorts = \<lparr>sort_rows = sort_key pr_value, sort_candidates = sort_key fc_value\<rparr>"

theorem preview_agrees_with_passes_witness:
  "\<exists>p s1. PreviewConsolidation example_cfg value_sorts False (example_server\<lparr>srv_should_memory := \<lambda>c. Timestamp c < 25\<rparr>) plain_options plain_store = Inr p
     \<and> s1 = snd (ExpireMemories example_cfg (quiet_env 100) 15 plain_store) \<and> length (memories s1) + MemoriesExpired p = 3"
proof -
  obtain p where "PreviewConsolidation example_cfg value_sorts False (example_server\<lparr>srv_should_memory := \<lambda>c. Timestamp c < 25\<rparr>)
      plain_options plain_store = Inr p"
    by (simp add: PreviewConsolidation_def Let_def)
  from preview_agrees_with_passes [OF plain_store_ok _ _ quiet_undisturbed [of 100] quiet_undisturbed [of 100] quiet_undisturbed [of 100]
      _ _ refl refl this] this
  show ?thesis by (simp add: plain_store_def linkless_def empty_store_def value_sorts_def plain_options_def)
qed

section \<open>The dry run decides as the cycle does\<close>

lemma previewDecider_is_server: "previewDecider c now pressure dflt = decision_server c now pressure dflt"
  by (simp add: previewDecider_def decision_server_def shouldConsolidateMemoryUnder_def fun_eq_iff)

interpretation preview: forgetting_server "previewDecider c now pressure dflt" for c now pressure dflt
  unfolding previewDecider_is_server by (rule decision.forgetting_server_axioms)

text \<open>The excess the dry run computes is the one eviction does, though each clamps the floor itself.\<close>

lemma previewExcess_is_evictionExcess: "previewExcess used capacity (evictionFloorFor capacity flr) = evictionExcess used capacity (evictionFloorFor capacity flr)"
  by (auto simp: previewExcess_def evictionExcess_def evictionFloorFor_def)

text \<open>Of the rows outside the retention window the scan drops none: each is forgotten, retained or left to eviction.\<close>

lemma select_rows_prefix: "\<exists>k. select_rows t b x rs = take k rs"
proof (induction rs arbitrary: b x)
  case (Cons r rs)
  then obtain k where "select_rows t (b + pr_bytes r) (x + pr_external r) rs = take k rs" by blast
  then have "select_rows t b x (r # rs) = take (if satisfied t b x then 0 else Suc k) (r # rs)" by simp
  then show ?case by blast
qed simp

lemma sample_members:
  assumes "f \<in> set (fst (previewSample srt expiring consolidating evicting limit))" "\<And>xs. mset (sort_candidates srt xs) = mset xs"
  shows "f \<in> forgetCandidate ForgetRuleExpiry ` set expiring \<union> forgetCandidate ForgetRuleConsolidation ` set consolidating
    \<union> forgetCandidate ForgetRuleEviction ` set evicting"
proof -
  let ?all = "map (forgetCandidate ForgetRuleExpiry) expiring @ map (forgetCandidate ForgetRuleConsolidation) consolidating
    @ map (forgetCandidate ForgetRuleEviction) evicting"
  have "f \<in> set (sort_candidates srt ?all)"
    using assms(1) by (auto simp: previewSample_def Let_def split: if_splits dest: in_set_takeD)
  then have "f \<in> set ?all" using assms(2) by (metis set_mset_mset)
  then show ?thesis by auto
qed

lemma previewEvictions_members:
  assumes "r \<in> set (previewEvictions srt evictable cb ce opts)" "\<And>xs. mset (sort_rows srt xs) = mset xs"
  shows "r \<in> set evictable"
proof -
  obtain k where "select_rows (preview_target cb ce opts) 0 0 (sort_rows srt evictable) = take k (sort_rows srt evictable)"
    using select_rows_prefix by blast
  then have "r \<in> set (sort_rows srt evictable)"
    using assms(1) by (auto simp: previewEvictions_def Let_def split: if_splits dest: in_set_takeD)
  then show ?thesis using assms(2) by (metis set_mset_mset)
qed

lemma no_cutoff_no_expiry:
  assumes "PreviewConsolidation cfg srt fails srv opts s = Inr p" "po_expire_before opts \<le> 0"
    and "\<And>xs. mset (sort_candidates srt xs) = mset xs" "f \<in> set (Candidates p)"
  shows "fc_rule f \<noteq> ForgetRuleExpiry"
proof -
  let ?rows = "map (preview_row cfg srv s) (memories s)"
  have "\<not> fails" using assms(1) by (auto simp: PreviewConsolidation_def)
  then obtain ev where "f \<in> set (fst (previewSample srt (expiring_rows opts ?rows) (consolidating_rows srv opts ?rows) ev (PreviewLimit (po_limit opts))))"
    using assms(1) [symmetric] assms(4) by (simp add: PreviewConsolidation_def Let_def)
  from sample_members [OF this assms(3)] assms(2) show ?thesis
    by (auto simp: expiring_rows_def expires_def forgetCandidate_def)
qed

text \<open>
  The dry run respects the retention floor the cycle does: every memory it names as about to be
  consolidated or evicted is stored, and none of them lies inside the minimum retention window,
  whatever the pressure, the capacity target and the order the sort leaves ties in. Only the
  expiry ceiling overrides the floor.
\<close>

theorem retained_never_previewed:
  assumes "PreviewConsolidation cfg srt False (previewDecider c now pressure dflt) opts s = Inr p"
    and "\<And>xs. mset (sort_candidates srt xs) = mset xs" "\<And>xs. mset (sort_rows srt xs) = mset xs"
    and "f \<in> set (Candidates p)"
  shows "\<exists>r \<in> set (memories s). m_id r = fc_id f
    \<and> (if fc_rule f = ForgetRuleExpiry then m_timestamp r < po_expire_before opts else \<not> MemoryRetained c now (scan_candidate s r))"
proof -
  let ?srv = "previewDecider c now pressure dflt"
  let ?rows = "map (preview_row cfg ?srv s) (memories s)"
  obtain cb ce where "f \<in> set (fst (previewSample srt (expiring_rows opts ?rows) (consolidating_rows ?srv opts ?rows)
      (previewEvictions srt (evictable_rows ?srv opts ?rows) cb ce opts) (PreviewLimit (po_limit opts))))"
    using assms(1) [symmetric] assms(4) by (simp add: PreviewConsolidation_def Let_def)
  note sample_members [OF this assms(2)]
  moreover have "set (previewEvictions srt (evictable_rows ?srv opts ?rows) cb ce opts) \<subseteq> set (evictable_rows ?srv opts ?rows)"
    using previewEvictions_members [OF _ assms(3)] by blast
  ultimately have "f \<in> forgetCandidate ForgetRuleExpiry ` set (expiring_rows opts ?rows)
      \<union> forgetCandidate ForgetRuleConsolidation ` set (consolidating_rows ?srv opts ?rows)
      \<union> forgetCandidate ForgetRuleEviction ` set (evictable_rows ?srv opts ?rows)"
    by (meson Un_iff image_mono subsetD)
  moreover have "srv_retained ?srv = MemoryRetained c now" by (simp add: previewDecider_def)
  ultimately show ?thesis using preview.retained_kept [of c now pressure dflt]
    by (auto simp: forgetCandidate_def expires_row expiring_rows_def consolidating_rows_def evictable_rows_def)
qed

definition crowded_options :: PreviewOptions where
  "crowded_options = \<lparr>po_limit = 5, po_used_bytes = 1000, po_capacity_bytes = 500, po_eviction_floor = 400, po_expire_before = 0,
     po_external_bytes = 0, po_capacity_external_bytes = 0, po_external_eviction_floor = 0\<rparr>"

theorem retained_never_previewed_witness:
  "\<exists>p f r. PreviewConsolidation example_cfg value_sorts False (previewDecider ((sample_config 6)\<lparr>minimumAgeInDays := 1\<rparr>) 100 1 0) crowded_options
       (plain_store\<lparr>memories := [example_memory ''a'' 10 0]\<rparr>) = Inr p
     \<and> f \<in> set (Candidates p) \<and> fc_rule f = ForgetRuleEviction \<and> m_id r = fc_id f
     \<and> \<not> MemoryRetained ((sample_config 6)\<lparr>minimumAgeInDays := 1\<rparr>) 100 (scan_candidate (plain_store\<lparr>memories := [example_memory ''a'' 10 0]\<rparr>) r)"
proof -
  let ?s = "plain_store\<lparr>memories := [example_memory ''a'' 10 0]\<rparr>" and ?srv = "previewDecider ((sample_config 6)\<lparr>minimumAgeInDays := 1\<rparr>) 100 1 0"
  let ?f = "forgetCandidate ForgetRuleEviction (preview_row example_cfg ?srv ?s (example_memory ''a'' 10 0))"
  have d: "srv_should_memory ?srv (scan_candidate ?s (example_memory ''a'' 10 0)) = False"
    "srv_retained ?srv (scan_candidate ?s (example_memory ''a'' 10 0)) = False"
    by (simp_all add: previewDecider_def shouldConsolidateUnder_def MemoryRetained_def retained_def sample_config_def ageUnits_def
        ageNanoSeconds_def memoryDecayTimestamp_def scan_candidate_def Let_def example_memory_def go_div_def i64_def DAY_IN_NANOSECONDS_def)
  obtain p where p: "PreviewConsolidation example_cfg value_sorts False ?srv crowded_options ?s = Inr p"
    by (simp add: PreviewConsolidation_def Let_def)
  then have "?f \<in> set (Candidates p)"
    by (auto simp: PreviewConsolidation_def Let_def expires_row d crowded_options_def previewEvictions_def
        expiring_rows_def consolidating_rows_def evictable_rows_def preview_target_def previewExcess_def target_empty_def satisfied_def value_sorts_def previewSample_def PreviewLimit_def previewMaxLimit_def)
  moreover have "fc_rule ?f = ForgetRuleEviction" by (simp add: forgetCandidate_def)
  moreover have "\<exists>r \<in> set (memories ?s). m_id r = fc_id ?f \<and> \<not> MemoryRetained ((sample_config 6)\<lparr>minimumAgeInDays := 1\<rparr>) 100 (scan_candidate ?s r)"
    using retained_never_previewed [OF p _ _ calculation(1)] calculation(2) by (simp add: value_sorts_def)
  ultimately show ?thesis using p by blast
qed

end
