(* ===== verification/Explain.thy ===== *)
theory Explain
  imports Preview Write_Handlers
begin

text \<open>
  ExplainConsolidation (\<^verbatim>\<open>hippocampus/explain.go\<close>, \<^verbatim>\<open>db/explain.go\<close>): where named memories stand against the forgetting
  rules, when each will be forgotten, and the decay curve of the configuration. The crossing of a curve with the threshold is found by
  bisection, whatever the decay method. The configuration figures the response repeats are left out; float64 is
  modelled by the reals, so no sampled point is infinite.
\<close>

section \<open>Crossings\<close>

definition curveHorizonUnits :: real where "curveHorizonUnits = 1000000"

definition curveCrossingIterations :: nat where "curveCrossingIterations = 60"

primrec bisect :: "(real \<Rightarrow> bool) \<Rightarrow> nat \<Rightarrow> real \<times> real \<Rightarrow> real \<times> real" where
  "bisect below 0 lh = lh"
| "bisect below (Suc n) lh = (let mid = (fst lh + snd lh) / 2 in bisect below n (if below mid then (fst lh, mid) else (mid, snd lh)))"

definition crossingAgeUnits :: "Consolidation \<Rightarrow> real \<Rightarrow> real \<Rightarrow> real" where
  "crossingAgeUnits c significance thr =
     (if thr \<le> 0 then -1
      else if calculateValue c significance curveHorizonUnits \<ge> thr then -1
      else snd (bisect (\<lambda>u. calculateValue c significance u < thr) curveCrossingIterations (0, curveHorizonUnits)))"

definition daysUntilForgotten :: "Consolidation \<Rightarrow> real \<Rightarrow> real \<Rightarrow> real \<Rightarrow> real" where
  "daysUntilForgotten c significance ageDays thr =
     (let crossingUnits = crossingAgeUnits c significance thr
      in if crossingUnits < 0 then -1
         else let due = max (max (crossingUnits * unitsOfAgeInDays c) (real_of_int (minimumAgeInDays c))) (real_of_int (minimumRetentionInDays c))
              in if due \<le> ageDays then 0 else due - ageDays)"

definition daysUntilExpiry :: "Consolidation \<Rightarrow> nanos \<Rightarrow> nanos \<Rightarrow> real" where
  "daysUntilExpiry c createdAt now =
     (let cutoff = expiryCutoff c now
      in if cutoff = 0 then -1
         else if createdAt \<le> cutoff then 0
         else real_of_int (createdAt - cutoff) / real_of_int DAY_IN_NANOSECONDS)"

section \<open>Valuations\<close>

record IdentifiedMemoryCandidate =
  imc_id :: ident
  imc_event_id :: ident
  imc_candidate :: MemoryConsolidationCandidate

definition identified :: "db_state \<Rightarrow> memory_row \<Rightarrow> IdentifiedMemoryCandidate" where
  "identified s r = \<lparr>imc_id = m_id r, imc_event_id = (if joined_event s (m_event_id r) = None then [] else m_event_id r), imc_candidate = scan_candidate s r\<rparr>"

definition GetMemoryConsolidationCandidates :: "ident list \<Rightarrow> db_state \<Rightarrow> IdentifiedMemoryCandidate list" where
  "GetMemoryConsolidationCandidates ids s =
     concat (map (\<lambda>chunk. map (identified s) (filter (\<lambda>r. m_id r \<in> set chunk) (memories s))) (chunks deleteChunkSize ids))"

record MemoryValuation =
  mv_id :: ident
  mv_event_id :: ident
  mv_significance :: int
  mv_effective_significance :: real
  mv_link_significance :: int
  mv_link_contribution :: real
  mv_event_link_significance :: int
  mv_event_link_contribution :: real
  mv_value :: real
  mv_threshold :: real
  mv_age_days :: real
  mv_recall_count :: int
  mv_time_recalled :: nanos
  mv_would_consolidate :: bool
  mv_retained :: bool
  mv_below_minimum_age :: bool
  mv_days_until_forgotten :: real
  mv_days_until_expiry :: real

definition age_days :: "nanos \<Rightarrow> nanos \<Rightarrow> real" where
  "age_days now ts = real_of_int (ageNanoSeconds now ts) / real_of_int DAY_IN_NANOSECONDS"

definition valuation :: "Consolidation \<Rightarrow> nanos \<Rightarrow> decisionState \<Rightarrow> real \<Rightarrow> IdentifiedMemoryCandidate \<Rightarrow> MemoryValuation" where
  "valuation c now d thr ic =
     (let m = imc_candidate ic;
          srv = previewDecider c now (ds_pressure d) (ds_default d);
          ts = memoryDecayTimestamp m;
          significance = memorySignificanceUnder c m (ds_default d);
          ageDays = age_days now ts;
          untilExpiry = daysUntilExpiry c (Timestamp m) now;
          projected = daysUntilForgotten c significance ageDays thr;
          untilForgotten = (if untilExpiry \<ge> 0 \<and> (projected < 0 \<or> untilExpiry < projected) then untilExpiry else projected);
          weight = linkSignificanceWeight c
      in \<lparr>mv_id = imc_id ic, mv_event_id = imc_event_id ic, mv_significance = MemorySignificance m, mv_effective_significance = significance,
          mv_link_significance = MemoryLinkSignificance m, mv_link_contribution = linkContribution weight (MemoryLinkSignificance m),
          mv_event_link_significance = EventLinkSignificance m, mv_event_link_contribution = linkContribution weight (EventLinkSignificance m),
          mv_value = srv_value srv m, mv_threshold = thr, mv_age_days = ageDays, mv_recall_count = RecallCount m, mv_time_recalled = TimeRecalled m,
          mv_would_consolidate = srv_should_memory srv m, mv_retained = retained c now ts,
          mv_below_minimum_age = (int_of_float ageDays < minimumAgeInDays c),
          mv_days_until_forgotten = untilForgotten, mv_days_until_expiry = untilExpiry\<rparr>)"

section \<open>Curves\<close>

definition curveDefaultPoints :: int where "curveDefaultPoints = 60"

definition curveMaxPoints :: int where "curveMaxPoints = 500"

definition curveDefaultSpanUnits :: real where "curveDefaultSpanUnits = 100"

record curveSpec =
  cs_significance :: real
  cs_max_age_days :: real
  cs_points :: int

definition curveRequest :: "curveSpec option \<Rightarrow> rpc_error + curveSpec option" where
  "curveRequest req =
     (case req of
        None \<Rightarrow> Inr None
      | Some r \<Rightarrow>
          if cs_significance r \<le> 0 then Inl InvalidArgument
          else if cs_max_age_days r < 0 then Inl InvalidArgument
          else Inr (Some (r\<lparr>cs_points := (if cs_points r \<le> 0 then curveDefaultPoints
                                           else if cs_points r > curveMaxPoints then curveMaxPoints else cs_points r)\<rparr>)))"

record DecayCurve =
  dc_significance :: real
  dc_max_age_days :: real
  dc_points :: "(real \<times> real) list"
  dc_crossing_age_days :: real

definition decayCurve :: "Consolidation \<Rightarrow> curveSpec \<Rightarrow> real \<Rightarrow> DecayCurve" where
  "decayCurve c spec thr =
     (let crossingUnits = crossingAgeUnits c (cs_significance spec) thr;
          crossingDays = (if crossingUnits \<ge> 0 then crossingUnits * unitsOfAgeInDays c else -1);
          spanUnits = (if crossingUnits > 0 then crossingUnits * (3 / 2) else curveDefaultSpanUnits);
          maxAgeDays = (if cs_max_age_days spec \<le> 0 then spanUnits * unitsOfAgeInDays c else cs_max_age_days spec);
          step = maxAgeDays / real_of_int (cs_points spec)
      in \<lparr>dc_significance = cs_significance spec, dc_max_age_days = maxAgeDays,
          dc_points = map (\<lambda>i. let ageDays = step * real i in (ageDays, calculateValue c (cs_significance spec) (ageDays / unitsOfAgeInDays c)))
            [1..<Suc (nat (cs_points spec))],
          dc_crossing_age_days = (if crossingDays \<ge> 0 \<and> crossingDays \<le> maxAgeDays then crossingDays else -1)\<rparr>)"

section \<open>The request\<close>

definition explainMaxMemoryIds :: nat where "explainMaxMemoryIds = 200"

definition explainStateTTL :: nanos where "explainStateTTL = 10 * 1000000000"

definition uniqueIds :: "ident list \<Rightarrow> ident list" where
  "uniqueIds ids = rev (fold (\<lambda>v unique. if v = [] \<or> v \<in> set unique then unique else v # unique) ids [])"

record explain_env = measure_env +
  xe_rpc :: rpc_env
  xe_now :: nanos
  xe_candidates_fail :: bool
  xe_promoted :: bool

definition cachedDecisionSnapshot :: "sleep_config \<Rightarrow> explain_env \<Rightarrow> server_state \<Rightarrow> (decisionState \<times> nanos) option
    \<Rightarrow> (write_error + decisionState) \<times> (decisionState \<times> nanos) option" where
  "cachedDecisionSnapshot sc env st cache =
     (let refresh = (case decisionSnapshot sc env st of
                       Inl e \<Rightarrow> (Inl e, cache)
                     | Inr d \<Rightarrow> (Inr d, Some (d, xe_now env)))
      in case cache of
           None \<Rightarrow> refresh
         | Some (d, taken) \<Rightarrow> if xe_now env - taken < explainStateTTL then (Inr d, cache) else refresh)"

record explain_response =
  xr_pressure :: real
  xr_threshold :: real
  xr_used :: int
  xr_external :: int
  xr_valuations :: "MemoryValuation list"
  xr_curve :: "DecayCurve option"

definition explainResponse :: "Consolidation \<Rightarrow> nanos \<Rightarrow> decisionState \<Rightarrow> IdentifiedMemoryCandidate list \<Rightarrow> ident list \<Rightarrow> curveSpec option \<Rightarrow> explain_response" where
  "explainResponse c now d candidates ids curve =
     (let thr = deletionThreshold c * ds_pressure d;
          found = map_of (rev (map (\<lambda>v. (imc_id v, v)) candidates))
      in \<lparr>xr_pressure = ds_pressure d, xr_threshold = thr, xr_used = ds_used d, xr_external = ds_external d,
          xr_valuations = List.map_filter (\<lambda>i. map_option (valuation c now d thr) (found i)) ids,
          xr_curve = map_option (\<lambda>spec. decayCurve c spec thr) curve\<rparr>)"

text \<open>The instance runs the cycle: configured to, or a standby that has won the lock.\<close>

definition consolidating :: "Consolidation \<Rightarrow> bool \<Rightarrow> bool" where
  "consolidating c promoted \<longleftrightarrow> consolidation_enabled c \<or> promoted"

definition ExplainConsolidation :: "sleep_config \<Rightarrow> explain_env \<Rightarrow> request_ctx \<Rightarrow> ident list \<Rightarrow> curveSpec option \<Rightarrow> server_state
    \<Rightarrow> (decisionState \<times> nanos) option \<Rightarrow> (rpc_error + explain_response) \<times> (decisionState \<times> nanos) option" where
  "ExplainConsolidation sc env ctx ids0 curve0 st cache =
     (if \<not> consolidating (sc_consolidation sc) (xe_promoted env) then (Inl FailedPrecondition, cache)
      else let ids = uniqueIds ids0
           in if length ids > explainMaxMemoryIds then (Inl InvalidArgument, cache)
              else case scopeIds memoryKind (xe_rpc env) ctx ids (sv_db st) of
                     Inl e \<Rightarrow> (Inl e, cache)
                   | Inr _ \<Rightarrow>
                       (case curveRequest curve0 of
                          Inl e \<Rightarrow> (Inl e, cache)
                        | Inr curve \<Rightarrow>
                            (case cachedDecisionSnapshot sc env st cache of
                               (Inl e, cache') \<Rightarrow> (Inl (mapError e), cache')
                             | (Inr d, cache') \<Rightarrow>
                                 if ids \<noteq> [] \<and> xe_candidates_fail env then (Inl (mapError ErrOther), cache')
                                 else (Inr (explainResponse (sc_consolidation sc) (xe_now env) d
                                              (GetMemoryConsolidationCandidates ids (sv_db st)) ids curve), cache'))))"

section \<open>The forecast\<close>

definition bracket :: "(real \<Rightarrow> bool) \<Rightarrow> real \<Rightarrow> real \<times> real \<Rightarrow> bool" where
  "bracket below width lh \<longleftrightarrow> below (snd lh) \<and> (fst lh = 0 \<or> \<not> below (fst lh)) \<and> 0 \<le> fst lh \<and> fst lh < snd lh \<and> snd lh - fst lh = width"

lemma bisect_brackets: "bracket below width lh \<Longrightarrow> bracket below (width / 2 ^ n) (bisect below n lh)"
proof (induction n arbitrary: lh width)
  case (Suc n)
  let ?mid = "(fst lh + snd lh) / 2"
  have "bracket below (width / 2) (if below ?mid then (fst lh, ?mid) else (?mid, snd lh))"
    using Suc.prems by (auto simp: bracket_def field_simps)
  from Suc.IH [OF this] show ?case by (simp add: Let_def)
qed simp

definition crossing_error :: real where "crossing_error = curveHorizonUnits / 2 ^ curveCrossingIterations"

text \<open>The bisection brackets the crossing: below the threshold from the answer on, at or above it up to one step before.\<close>

lemma crossing_brackets:
  assumes valid: "consolidationProblems c = []" "0 \<le> sg" and x: "crossingAgeUnits c sg thr = x" "0 \<le> x"
  shows "0 < x" "\<And>u. x \<le> u \<Longrightarrow> calculateValue c sg u < thr" "\<And>u. 0 < u \<Longrightarrow> u + crossing_error \<le> x \<Longrightarrow> thr \<le> calculateValue c sg u"
proof -
  let ?b = "\<lambda>u. calculateValue c sg u < thr"
  let ?r = "bisect ?b curveCrossingIterations (0, curveHorizonUnits)"
  have x': "x = snd ?r" and top: "?b curveHorizonUnits" using x by (auto simp: crossingAgeUnits_def split: if_splits)
  have "bracket ?b curveHorizonUnits (0, curveHorizonUnits)" using top by (simp add: bracket_def curveHorizonUnits_def)
  from bisect_brackets [OF this, of curveCrossingIterations]
  have low: "fst ?r = 0 \<or> \<not> ?b (fst ?r)" "0 \<le> fst ?r" "fst ?r < x" "x - fst ?r = crossing_error" and bx: "?b x"
    by (simp_all add: bracket_def x' crossing_error_def)
  then show pos: "0 < x" by simp
  show "?b u" if "x \<le> u" for u
    using calculateValue_antimono [OF valid pos that] bx by linarith
  show "thr \<le> calculateValue c sg u" if "0 < u" "u + crossing_error \<le> x" for u
  proof -
    have "u \<le> fst ?r" using that(2) low(4) by linarith
    then show ?thesis using low(1) that(1) calculateValue_antimono [OF valid that(1), of "fst ?r"] by auto
  qed
qed

lemma no_crossing:
  assumes "consolidationProblems c = []" "0 \<le> sg" "crossingAgeUnits c sg thr < 0" "0 < u" "u \<le> curveHorizonUnits"
  shows "thr \<le> calculateValue c sg u"
proof -
  have "\<not> 0 \<le> crossingAgeUnits c sg thr" using assms(3) by simp
  moreover have "0 \<le> snd (bisect (\<lambda>u. calculateValue c sg u < thr) curveCrossingIterations (0, curveHorizonUnits))"
    if "calculateValue c sg curveHorizonUnits < thr"
    using bisect_brackets [of "\<lambda>u. calculateValue c sg u < thr" curveHorizonUnits "(0, curveHorizonUnits)" curveCrossingIterations] that
    by (simp add: bracket_def curveHorizonUnits_def)
  ultimately have "thr \<le> 0 \<or> thr \<le> calculateValue c sg curveHorizonUnits" unfolding crossingAgeUnits_def by (metis not_le)
  moreover have "0 \<le> calculateValue c sg u" using calculateValue_mono_sig [OF assms(1,4), of 0 sg] assms(1,2,4) by (simp add: calculateValue_quotient)
  ultimately show ?thesis using calculateValue_antimono [OF assms(1,2,4,5)] by linarith
qed

lemma age_floor:
  assumes "0 < k"
  shows "go_div (ageNanoSeconds now ts) DAY_IN_NANOSECONDS < k \<longleftrightarrow> age_days now ts < real_of_int k"
proof -
  have "age_days now ts < real_of_int k \<longleftrightarrow> real_of_int (ageNanoSeconds now ts) < real_of_int (k * DAY_IN_NANOSECONDS)"
    using day_pos by (simp add: age_days_def pos_divide_less_eq)
  then show ?thesis using go_div_less_iff [OF day_pos assms] by (simp only: of_int_less_iff)
qed

lemma age_units: "ageUnits c now ts = age_days now ts / unitsOfAgeInDays c"
  by (simp add: ageUnits_def age_days_def)

lemma under_age:
  assumes "0 < unitsOfAgeInDays c" "age_days now ts < real_of_int k" "k = minimumAgeInDays c \<or> k = minimumRetentionInDays c"
  shows "\<not> shouldConsolidateUnder c now sg ts pressure"
proof (cases "0 < k")
  case True
  then show ?thesis using assms(2,3) age_floor [of k now ts] by (auto simp: shouldConsolidateUnder_def retained_def)
next
  case False
  then have "age_days now ts < 0" using assms(2) by linarith
  then have "ageUnits c now ts \<le> 0" using assms(1) by (simp add: age_units divide_nonpos_pos)
  then show ?thesis by (simp add: shouldConsolidateUnder_def)
qed

lemma of_age:
  assumes "real_of_int (minimumAgeInDays c) \<le> age_days now ts" "real_of_int (minimumRetentionInDays c) \<le> age_days now ts" "0 < age_days now ts"
  shows "\<not> retained c now ts" "\<not> go_div (ageNanoSeconds now ts) DAY_IN_NANOSECONDS < minimumAgeInDays c"
proof -
  show "\<not> retained c now ts" using assms(2) age_floor [of "minimumRetentionInDays c" now ts] by (auto simp: retained_def)
  show "\<not> go_div (ageNanoSeconds now ts) DAY_IN_NANOSECONDS < minimumAgeInDays c"
  proof (cases "0 < minimumAgeInDays c")
    case False
    have "0 \<le> ageNanoSeconds now ts" using assms(3) day_pos by (simp add: age_days_def zero_less_divide_iff)
    then have "0 \<le> go_div (ageNanoSeconds now ts) DAY_IN_NANOSECONDS" using day_pos by (simp add: go_div_nonneg pos_imp_zdiv_nonneg_iff)
    then show ?thesis using False by linarith
  qed (use assms(1) age_floor in auto)
qed

text \<open>
  C22. The forecast is what the cycle does. With the configuration, pressure and recalls as they are, a memory told it has \<open>d\<close> days
  left is due at every cycle from \<open>d\<close> days on, and at none before, but for the \<open>10\<^sup>6 / 2\<^sup>6\<^sup>0\<close> age units the bisection leaves open; one
  told it has no date is due at no cycle within the horizon.
\<close>

theorem forecast_matches_the_cycle:
  assumes valid: "consolidationProblems c = []" "0 \<le> sg" "0 < pressure"
    and d: "d = daysUntilForgotten c sg (age_days now ts) (deletionThreshold c * pressure)"
  shows "(0 \<le> d \<and> age_days now ts + d \<le> age_days later ts \<and> 0 < age_days later ts \<longrightarrow> shouldConsolidateUnder c later sg ts pressure)
    \<and> (0 < d \<and> age_days later ts + crossing_error * unitsOfAgeInDays c < age_days now ts + d \<longrightarrow> \<not> shouldConsolidateUnder c later sg ts pressure)
    \<and> (d < 0 \<and> ageUnits c later ts \<le> curveHorizonUnits \<longrightarrow> \<not> shouldConsolidateUnder c later sg ts pressure)"
proof -
  let ?thr = "deletionThreshold c * pressure" and ?x = "crossingAgeUnits c sg (deletionThreshold c * pressure)"
  let ?due = "max (max (?x * unitsOfAgeInDays c) (real_of_int (minimumAgeInDays c))) (real_of_int (minimumRetentionInDays c))"
  have units: "0 < unitsOfAgeInDays c" by (rule valid_config(1) [OF valid(1)])
  have thr: "deletionThresholdUnder c pressure = ?thr" using valid(3) by (simp add: deletionThresholdUnder_def)
  have d': "d = (if ?x < 0 then -1 else if ?due \<le> age_days now ts then 0 else ?due - age_days now ts)"
    by (simp only: d daysUntilForgotten_def Let_def)
  have due: "shouldConsolidateUnder c later sg ts pressure" if "0 \<le> d" "age_days now ts + d \<le> age_days later ts" "0 < age_days later ts"
  proof -
    have x: "0 \<le> ?x" "?due \<le> age_days later ts" using that d' by (auto split: if_splits)
    then have "?x \<le> ageUnits c later ts" using units by (simp add: age_units pos_le_divide_eq)
    then have "calculateValue c sg (ageUnits c later ts) < ?thr" by (rule crossing_brackets(2) [OF valid(1,2) refl x(1)])
    moreover have "0 < ageUnits c later ts" using that(3) units by (simp add: age_units)
    ultimately show ?thesis using of_age [of c later ts] x(2) that(3) by (simp add: shouldConsolidateUnder_def thr)
  qed
  have early: "\<not> shouldConsolidateUnder c later sg ts pressure" if "0 < d" "age_days later ts + crossing_error * unitsOfAgeInDays c < age_days now ts + d"
  proof -
    have x: "0 \<le> ?x" and lt: "age_days later ts + crossing_error * unitsOfAgeInDays c < ?due" using that d' by (auto split: if_splits)
    have err: "0 < crossing_error * unitsOfAgeInDays c" using units by (simp add: crossing_error_def curveHorizonUnits_def)
    consider (cross) "age_days later ts + crossing_error * unitsOfAgeInDays c < ?x * unitsOfAgeInDays c"
      | (age) "age_days later ts < real_of_int (minimumAgeInDays c)" | (ret) "age_days later ts < real_of_int (minimumRetentionInDays c)"
      using lt err by (auto simp: less_max_iff_disj)
    then show ?thesis
    proof cases
      case cross
      then have "ageUnits c later ts + crossing_error < ?x" using units by (simp add: age_units pos_less_divide_eq [symmetric] field_simps)
      then show ?thesis using crossing_brackets(3) [OF valid(1,2) refl x, of "ageUnits c later ts"] by (auto simp: shouldConsolidateUnder_def thr)
    qed (rule under_age [OF units], assumption, simp)+
  qed
  have "\<not> shouldConsolidateUnder c later sg ts pressure" if "d < 0" "ageUnits c later ts \<le> curveHorizonUnits"
  proof -
    have "?x < 0" using that(1) d' by (auto split: if_splits)
    then show ?thesis using no_crossing [OF valid(1,2), of ?thr "ageUnits c later ts"] that(2) by (auto simp: shouldConsolidateUnder_def thr)
  qed
  with due early show ?thesis by blast
qed

section \<open>What is answered for\<close>

lemma uniqueIds_props: "set (uniqueIds ids) = set ids - {[]}" "distinct (uniqueIds ids)"
proof -
  have "set (fold (\<lambda>v unique. if v = [] \<or> v \<in> set unique then unique else v # unique) ids u) = set u \<union> (set ids - {[]})
    \<and> (distinct u \<longrightarrow> distinct (fold (\<lambda>v unique. if v = [] \<or> v \<in> set unique then unique else v # unique) ids u))" for u
    by (induction ids arbitrary: u) auto
  from this [of "[]"] show "set (uniqueIds ids) = set ids - {[]}" "distinct (uniqueIds ids)" by (simp_all add: uniqueIds_def)
qed

lemma candidates_set: "set (GetMemoryConsolidationCandidates ids s) = identified s ` {r \<in> set (memories s). m_id r \<in> set ids}"
proof -
  have "set (concat (map (\<lambda>chunk. map f (filter (\<lambda>r. m_id r \<in> set chunk) rows)) cs)) = f ` {r \<in> set rows. m_id r \<in> set (concat cs)}" for f cs and rows :: "memory_row list"
    by (induction cs) auto
  from this [of "identified s" "memories s" "chunks deleteChunkSize ids"] show ?thesis by (simp add: GetMemoryConsolidationCandidates_def del: set_concat)
qed

lemma valuation_id [simp]: "mv_id (valuation c now d thr ic) = imc_id ic"
  by (simp add: valuation_def Let_def)

text \<open>The answer names exactly the ids asked about that the store holds, in the order they were asked.\<close>

lemma explain_names_what_is_held:
  "map mv_id (xr_valuations (explainResponse c now d (GetMemoryConsolidationCandidates ids s) ids curve)) = filter (\<lambda>i. i \<in> m_id ` set (memories s)) ids"
proof -
  let ?cands = "GetMemoryConsolidationCandidates ids s"
  let ?found = "map_of (rev (map (\<lambda>v. (imc_id v, v)) ?cands))"
  have hit: "imc_id v = i" if "?found i = Some v" for i v using map_of_SomeD [OF that] by auto
  have "imc_id ` set ?cands = m_id ` {r \<in> set (memories s). m_id r \<in> set ids}" by (simp add: candidates_set image_image identified_def)
  then have "fst ` set (rev (map (\<lambda>v. (imc_id v, v)) ?cands)) = m_id ` {r \<in> set (memories s). m_id r \<in> set ids}" by (simp add: image_image)
  then have held: "?found i \<noteq> None \<longleftrightarrow> i \<in> m_id ` set (memories s) \<and> i \<in> set ids" for i
    by (simp only: map_of_eq_None_iff) blast
  have "map mv_id (List.map_filter (\<lambda>i. map_option (valuation c now d thr) (?found i)) js) = filter (\<lambda>i. ?found i \<noteq> None) js" for thr js
  proof (induction js)
    case (Cons j js)
    show ?case
    proof (cases "?found j")
      case (Some v)
      then show ?thesis using Cons hit [OF Some] by (simp only: map_filter_simps option.map option.case list.map filter.simps valuation_id) simp
    qed (use Cons in \<open>simp only: map_filter_simps option.map option.case filter.simps simp_thms if_False\<close>)
  qed (simp add: map_filter_simps)
  then have "map mv_id (xr_valuations (explainResponse c now d ?cands ids curve)) = filter (\<lambda>i. ?found i \<noteq> None) ids"
    by (simp add: explainResponse_def Let_def)
  also have "\<dots> = filter (\<lambda>i. i \<in> m_id ` set (memories s)) ids" by (rule filter_cong [OF refl]) (use held in blast)
  finally show ?thesis .
qed

text \<open>The flag agrees with the pass: a decision server of the same reading forgets exactly the memories flagged.\<close>

lemma explained_flag_is_the_decision:
  "mv_would_consolidate (valuation c now d thr (identified s r)) = srv_should_memory (decision_server c now (ds_pressure d) (ds_default d)) (scan_candidate s r)"
  by (simp add: valuation_def Let_def identified_def previewDecider_is_server)

section \<open>Worked example\<close>

text \<open>A memory of no significance is due as soon as the retention floor of thirty days lets it go.\<close>

theorem forecast_matches_the_cycle_witness:
  "let c = (sample_config 2)\<lparr>minimumRetentionInDays := 30\<rparr>
   in 0 \<le> daysUntilForgotten c 0 (age_days 0 0) (deletionThreshold c * 1) \<and> shouldConsolidateUnder c (30 * DAY_IN_NANOSECONDS) 0 0 1"
proof -
  let ?c = "(sample_config 2)\<lparr>minimumRetentionInDays := 30\<rparr>" and ?later = "30 * DAY_IN_NANOSECONDS"
  have valid: "consolidationProblems ?c = []" by (simp add: consolidationProblems_def sample_config_def)
  have bel: "calculateValue ?c 0 u < 10" for u by (simp add: calculateValue_def sample_config_def)
  have "bracket (\<lambda>_. True) curveHorizonUnits (0, curveHorizonUnits)" by (simp add: bracket_def curveHorizonUnits_def)
  from bisect_brackets [OF this, of curveCrossingIterations]
  have b: "snd (bisect (\<lambda>_. True) curveCrossingIterations (0, curveHorizonUnits)) = curveHorizonUnits / 2 ^ curveCrossingIterations"
    by (simp add: bracket_def)
  have "(\<lambda>u. calculateValue ?c 0 u < 10) = (\<lambda>_. True)" using bel by (simp only: fun_eq_iff) simp
  then have "crossingAgeUnits ?c 0 10 = curveHorizonUnits / 2 ^ curveCrossingIterations"
    using bel [of curveHorizonUnits] b by (simp add: crossingAgeUnits_def)
  then have x: "0 \<le> crossingAgeUnits ?c 0 10" "crossingAgeUnits ?c 0 10 \<le> 1"
    by (simp_all add: curveHorizonUnits_def curveCrossingIterations_def)
  have d: "0 \<le> daysUntilForgotten ?c 0 (age_days 0 0) (deletionThreshold ?c * 1)" "daysUntilForgotten ?c 0 (age_days 0 0) (deletionThreshold ?c * 1) \<le> 30"
    using x by (simp_all add: daysUntilForgotten_def Let_def age_days_def ageNanoSeconds_def i64_def sample_config_def)
  have age: "age_days ?later 0 = 30" by (simp add: age_days_def ageNanoSeconds_def DAY_IN_NANOSECONDS_def i64_def)
  have "age_days 0 0 = 0" by (simp add: age_days_def ageNanoSeconds_def i64_def)
  then show ?thesis
    using forecast_matches_the_cycle [OF valid, of 0 1 _ 0 0 ?later] d age by (simp add: Let_def)
qed

end
