(* ===== verification/Sleep_Cycle.thy ===== *)
theory Sleep_Cycle
  imports Preview
begin

text \<open>
  The sleep cycle (\<^verbatim>\<open>hippocampus/sleep.go\<close>, \<^verbatim>\<open>hippocampus/expiry.go\<close>, \<^verbatim>\<open>hippocampus/atrisk.go\<close>): the warning
  before the fact, expiry, the three consolidation passes, eviction to the capacity targets, the
  trims and the registry maintenance, composed in the order \<^verbatim>\<open>sleep()\<close> composes them, with the report
  it publishes and the error it returns. The summariser is a parameter of the cycle's environment.
\<close>

section \<open>Environment\<close>

text \<open>\<open>summarise\<close> is what the summariser and its caller make of the store; the passes bring their own environments.\<close>

record cycle_env = measure_env +
  ce_started :: nanos
  ce_stall_now :: nanos
  ce_expire :: pass_env
  ce_memories :: pass_env
  ce_event_memories :: pass_env
  ce_events :: pass_env
  ce_evict :: pass_env
  at_risk_sorts :: preview_sorts
  at_risk_fails :: bool
  summarise :: "db_state \<Rightarrow> db_state"
  summarisation_found :: "db_state \<Rightarrow> nat option"
  reap_world :: "sig_level list \<Rightarrow> sig_level list"
  backlog_fails :: bool
  prune_fails :: bool
  reap_fails :: bool
  preserve_fails :: bool
  queue_fails :: bool
  ce_finished :: nanos

section \<open>The stages of a cycle\<close>

text \<open>The backpressure valve: a retained backlog past any of its caps holds off forgetting.\<close>

definition forgettingStalled :: "sleep_config \<Rightarrow> cycle_env \<Rightarrow> db_state \<Rightarrow> stall_reason option" where
  "forgettingStalled sc env s =
     (if \<not> callbackBacklogStall sc \<or> \<not> callbacksEnabled sc \<or> backlog_fails env then None
      else let backlog = measureBacklog (sc_db sc) s; bounds = callbackBounds sc
           in if cb_rows backlog = 0 then None
              else if MaxRows bounds > 0 \<and> cb_rows backlog > MaxRows bounds then Some StalledByRows
              else if MaxBytes bounds > 0 \<and> cb_bytes backlog > MaxBytes bounds then Some StalledByBytes
              else if MaxAge bounds > 0 \<and> cb_oldest_at backlog > 0 \<and> ce_stall_now env - cb_oldest_at backlog > MaxAge bounds
              then Some StalledByAge
              else None)"

definition expire :: "sleep_config \<Rightarrow> cycle_env \<Rightarrow> cycleReport \<Rightarrow> server_state \<Rightarrow> write_error option \<times> cycleReport \<times> server_state" where
  "expire sc env rep st =
     (let cutoff = expiryCutoff (sc_consolidation sc) (env_now (ce_expire env))
      in if cutoff = 0 then (None, rep, st)
         else case ExpireMemories (sc_db sc) (ce_expire env) cutoff (sv_db st) of
                ((m, e, err), s') \<Rightarrow>
                  (err, rep\<lparr>memoriesExpired := memoriesExpired rep + m, eventsExpired := eventsExpired rep + e\<rparr>,
                   st\<lparr>sv_db := s'\<rparr>))"

definition update_default :: "sleep_config \<Rightarrow> cycle_env \<Rightarrow> server_state \<Rightarrow> server_state" where
  "update_default sc env st =
     (if defaultEventSignificancePercentile (sc_consolidation sc) \<noteq> 0
      then case CalculateSignificancePercentile env (defaultEventSignificancePercentile (sc_consolidation sc)) (sv_db st) of
             None \<Rightarrow> st
           | Some v \<Rightarrow> st\<lparr>computedDefaultEventSignificance := Some (i32 (int_of_float v))\<rparr>
      else st)"

definition update_pressure :: "sleep_config \<Rightarrow> cycle_env \<Rightarrow> server_state \<Rightarrow> server_state" where
  "update_pressure sc env st =
     (let (with_event, without) = CountMemories (count_fails env) (sv_db st); c = sc_consolidation sc
      in if with_event \<ge> 0 \<and> without \<ge> 0
         then st\<lparr>capacityPressure := calculateCapacityPressure c (with_event + without)
                  (if capacityBytes c > 0 then lastUsedBytes st else 0)
                  (if capacityExternalBytes c > 0 then lastExternalBytes st else 0)\<rparr>
         else st)"

definition pass_server :: "sleep_config \<Rightarrow> pass_env \<Rightarrow> server_state \<Rightarrow> Server" where
  "pass_server sc env st = decision_server (sc_consolidation sc) (env_now env) (capacityPressure st)
     (defaultEventSignificance (sc_consolidation sc) st)"

definition some_errors :: "write_error option list \<Rightarrow> write_error list" where
  "some_errors es = concat (map (\<lambda>e. case e of None \<Rightarrow> [] | Some x \<Rightarrow> [x]) es)"

definition consolidate :: "sleep_config \<Rightarrow> cycle_env \<Rightarrow> cycleReport \<Rightarrow> server_state \<Rightarrow> write_error list \<times> cycleReport \<times> server_state" where
  "consolidate sc env rep st =
     (let st0 = update_pressure sc env (update_default sc env st);
          cfg = sc_db sc;
          ((md, e1), s1) = ConsolidateMemories cfg (ce_memories env) (pass_server sc (ce_memories env) st0) (sv_db st0);
          ((emd, _, ed, e2), s2) = ConsolidateEventMemories cfg (ce_event_memories env) (pass_server sc (ce_event_memories env) st0) s1;
          ((ec, e3), s3) = ConsolidateEvents cfg (ce_events env) (pass_server sc (ce_events env) st0) s2
      in (some_errors [e1, e2, e3],
          rep\<lparr>memoriesConsolidated := memoriesConsolidated rep + md + emd, eventsConsolidated := eventsConsolidated rep + ed + ec\<rparr>,
          st0\<lparr>sv_db := s3\<rparr>))"

definition evict :: "sleep_config \<Rightarrow> cycle_env \<Rightarrow> cycleReport \<Rightarrow> server_state \<Rightarrow> write_error option \<times> cycleReport \<times> server_state" where
  "evict sc env rep st =
     (let c = sc_consolidation sc; bounded = capacityBytes c > 0; externallyBounded = capacityExternalBytes c > 0
      in case UsedBytes (sc_db sc) env (sv_db st) of
           Inl e \<Rightarrow> (if bounded then Some e else None, rep, st)
         | Inr used \<Rightarrow>
             (let st1 = st\<lparr>lastUsedBytes := used\<rparr>
              in case (if externallyBounded then ExternalBytes env (sv_db st1) else Inr 0) of
                   Inl e \<Rightarrow> (Some e, rep, st1)
                 | Inr ext \<Rightarrow>
                     (let st2 = (if externallyBounded then st1\<lparr>lastExternalBytes := ext\<rparr> else st1)
                      in if \<not> bounded \<and> \<not> externallyBounded then (None, rep, st2)
                         else let target = \<lparr>target_bytes = evictionExcess used (capacityBytes c)
                                                (evictionFloorFor (capacityBytes c) (capacityBytesFloor c)),
                                            target_external = evictionExcess ext (capacityExternalBytes c)
                                                (evictionFloorFor (capacityExternalBytes c) (capacityExternalBytesFloor c))\<rparr>
                              in if target_bytes target \<le> 0 \<and> target_external target \<le> 0 then (None, rep, st2)
                                 else case EvictMemories (sc_db sc) (ce_evict env) (pass_server sc (ce_evict env) st2) target (sv_db st2) of
                                        ((res, err), s') \<Rightarrow>
                                          (err, rep\<lparr>memoriesEvicted := memoriesEvicted rep + er_memories res,
                                                   eventsEvicted := eventsEvicted rep + er_events res,
                                                   bytesFreed := bytesFreed rep + er_bytes res,
                                                   externalBytesFreed := externalBytesFreed rep + er_external res\<rparr>,
                                           st2\<lparr>sv_db := s'\<rparr>))))"

section \<open>Deliveries about the cycle\<close>

definition defaultCallbackMaxIdsPerChunk :: int where
  "defaultCallbackMaxIdsPerChunk = 500"

definition cycle_items :: "ident list \<Rightarrow> ident list \<Rightarrow> CallbackItem list" where
  "cycle_items memoryIds eventIds = map empty_item memoryIds @ map (\<lambda>i. (empty_item i)\<lparr>ci_event_id := i\<rparr>) eventIds"

definition cycleDeliveries :: "int \<Rightarrow> ident list \<Rightarrow> ident list \<Rightarrow> int \<Rightarrow> CallbackDelivery list" where
  "cycleDeliveries cid memoryIds eventIds perChunk0 =
     (let perChunk = nat (if perChunk0 \<le> 0 then defaultCallbackMaxIdsPerChunk else perChunk0);
          items = cycle_items memoryIds eventIds;
          n = max ((length items + perChunk - 1) div perChunk) 1
      in map (\<lambda>i. (new_delivery CallbackKindSleepCompleted CauseNone cid
                      (if i * perChunk < length items
                       then take (min (i * perChunk + perChunk) (length items) - i * perChunk) (drop (i * perChunk) items) else []))
                    \<lparr>cd_chunk := int i + 1, cd_chunks := int n\<rparr>) [0..<n])"

definition QueueCallbacks :: "sleep_config \<Rightarrow> cycle_env \<Rightarrow> nanos \<Rightarrow> CallbackDelivery list \<Rightarrow> db_state \<Rightarrow> db_state" where
  "QueueCallbacks sc env now deliveries s = (if queue_fails env then s else queueCallbacks (sc_db sc) now deliveries s)"

definition at_risk_item :: "ForgetCandidate \<Rightarrow> CallbackItem" where
  "at_risk_item c = \<lparr>ci_id = fc_id c, ci_event_id = fc_event_id c, ci_group = fc_group c, ci_significance = fc_significance c,
     ci_bytes = fc_bytes c, ci_value = fc_value c, ci_body = [], ci_body_omitted = False\<rparr>"

definition at_risk_group :: "int \<Rightarrow> CallbackAtRisk \<Rightarrow> ForgetCandidate list \<Rightarrow> nat \<Rightarrow> ForgetRule \<times> DeleteCause \<Rightarrow> CallbackDelivery list" where
  "at_risk_group cid summary candidates perChunk rc =
     (let items = map at_risk_item (filter (\<lambda>c. fc_rule c = fst rc) candidates);
          n = (length items + perChunk - 1) div perChunk
      in if items = [] then []
         else map (\<lambda>i. (new_delivery CallbackKindMemoriesAtRisk (snd rc) cid
                         (take (min (i * perChunk + perChunk) (length items) - i * perChunk) (drop (i * perChunk) items)))
                       \<lparr>cd_chunk := int i + 1, cd_chunks := int n, cd_at_risk := Some summary\<rparr>) [0..<n])"

definition atRiskDeliveries :: "int \<Rightarrow> CallbackAtRisk \<Rightarrow> ForgetCandidate list \<Rightarrow> int \<Rightarrow> CallbackDelivery list" where
  "atRiskDeliveries cid summary candidates perChunk0 =
     (let perChunk = nat (if perChunk0 \<le> 0 then defaultCallbackMaxIdsPerChunk else perChunk0)
      in concat (map (at_risk_group cid summary candidates perChunk)
           [(ForgetRuleConsolidation, CauseConsolidation), (ForgetRuleEviction, CauseEviction), (ForgetRuleExpiry, CauseExpiry)]))"

definition at_risk_deliveries :: "sleep_config \<Rightarrow> cycle_env \<Rightarrow> server_state \<Rightarrow> CallbackDelivery list" where
  "at_risk_deliveries sc env st =
     (let c = sc_consolidation sc
      in case decisionSnapshot sc env st of
           Inl e \<Rightarrow> []
         | Inr d \<Rightarrow>
             (let raised = ds_pressure d * (1 + callbackAtRiskMargin sc)
              in case PreviewConsolidation (sc_db sc) (at_risk_sorts env) (at_risk_fails env)
                        (previewDecider c (ce_started env) raised (ds_default d)) (at_risk_options c (callbackAtRiskLimit sc) d) (sv_db st) of
                   Inl e \<Rightarrow> []
                 | Inr p \<Rightarrow>
                     if Candidates p = [] then []
                     else atRiskDeliveries (ce_started env)
                       \<lparr>ar_consolidating = MemoriesConsolidated p, ar_evicting = MemoriesEvicted p, ar_events = EventsDeleted p,
                        ar_bytes = BytesFreed p, ar_threshold = deletionThresholdUnder c (ds_pressure d),
                        ar_at_risk_threshold = deletionThresholdUnder c raised, ar_capacity_pressure = ds_pressure d,
                        ar_truncated = Truncated p\<rparr> (Candidates p) (callbackChunkIds sc)))"

definition queueAtRiskCallback :: "sleep_config \<Rightarrow> cycle_env \<Rightarrow> server_state \<Rightarrow> db_state" where
  "queueAtRiskCallback sc env st =
     (if \<not> callbacksEnabled sc \<or> \<not> callbackAtRiskEvents sc then sv_db st
      else QueueCallbacks sc env (ce_started env) (at_risk_deliveries sc env st) (sv_db st))"

definition queueCycleCallback :: "sleep_config \<Rightarrow> cycle_env \<Rightarrow> int \<Rightarrow> db_state \<Rightarrow> db_state" where
  "queueCycleCallback sc env cid s =
     (case EndCallbackCycle s of ((memoryIds, eventIds, memoryMore, eventMore), s1) \<Rightarrow>
        if \<not> callbacksEnabled sc \<or> \<not> callbackSleepEvents sc then s1
        else QueueCallbacks sc env (ce_finished env) (cycleDeliveries cid memoryIds eventIds (callbackChunkIds sc)) s1)"

section \<open>Trims and registry maintenance\<close>

definition pruneTombstones :: "sleep_config \<Rightarrow> cycle_env \<Rightarrow> db_state \<Rightarrow> db_state" where
  "pruneTombstones sc env s =
     (if \<not> sc_tombstones sc \<or> prune_fails env then s else fst (PruneTombstones (sc_db sc) (ce_finished env) s))"

definition level_in_use :: "db_state \<Rightarrow> int \<Rightarrow> bool" where
  "level_in_use s i \<longleftrightarrow> Some i \<in> m_level ` set (memories s) \<or> Some i \<in> e_level ` set (events s)"

definition reapSignificanceLevels :: "sleep_config \<Rightarrow> cycle_env \<Rightarrow> db_state \<Rightarrow> db_state" where
  "reapSignificanceLevels sc env s =
     (if reap_fails env then s
      else s\<lparr>levels := snd (ReapSignificanceLevels (significanceLevelRetention sc) (ce_finished env) (level_in_use s)
                              (reap_world env) (levels s))\<rparr>)"

definition compactSignificanceLevels :: "sleep_config \<Rightarrow> db_state \<Rightarrow> db_state" where
  "compactSignificanceLevels sc s = (case CompactSignificanceLevels (rank_limit (sc_db sc)) (levels s) of
       Inl e \<Rightarrow> s | Inr lv \<Rightarrow> s\<lparr>levels := lv\<rparr>)"

section \<open>The cycle\<close>

definition new_report :: "nanos \<Rightarrow> stall_reason option \<Rightarrow> cycleReport" where
  "new_report ts why = \<lparr>startedAt = ts, memoriesExpired = 0, eventsExpired = 0, memoriesConsolidated = 0, eventsConsolidated = 0,
     memoriesEvicted = 0, eventsEvicted = 0, bytesFreed = 0, externalBytesFreed = 0, summarisationCandidates = 0,
     stalled = why, success = False, failure = None\<rparr>"

definition scanSummarisationCandidates :: "sleep_config \<Rightarrow> cycle_env \<Rightarrow> cycleReport \<Rightarrow> db_state \<Rightarrow> cycleReport" where
  "scanSummarisationCandidates sc env rep s =
     (if summarisationMinMemories sc \<le> 0 then rep
      else case summarisation_found env s of None \<Rightarrow> rep | Some n \<Rightarrow> rep\<lparr>summarisationCandidates := n\<rparr>)"

definition cycle_failure :: "write_error list \<Rightarrow> write_error option \<Rightarrow> bool \<Rightarrow> cycle_error option" where
  "cycle_failure e1 e2 e3 =
     (if e1 \<noteq> [] then Some (ConsolidateFailed e1)
      else case e2 of Some e \<Rightarrow> Some (EvictFailed e) | None \<Rightarrow> if e3 then Some PreserveFailed else None)"

definition sleep :: "sleep_config \<Rightarrow> cycle_env \<Rightarrow> server_state \<Rightarrow> cycle_error option \<times> server_state" where
  "sleep sc env st =
     (let cid = ce_started env;
          s0 = queueAtRiskCallback sc env (st\<lparr>sv_db := BeginCallbackCycle (sc_db sc) cid (sv_db st)\<rparr>);
          why = forgettingStalled sc env s0;
          st0 = st\<lparr>sv_db := s0\<rparr>;
          rep0 = new_report (ce_started env) why;
          (e0, rep1, st1) = (if why = None then expire sc env rep0 st0 else (None, rep0, st0));
          (e1, rep2, st2) = (if why = None then consolidate sc env rep1 st1 else ([], rep1, st1));
          rep3 = scanSummarisationCandidates sc env rep2 (sv_db st2);
          st3 = st2\<lparr>sv_db := summarise env (sv_db st2)\<rparr>;
          (e2, rep4, st4) = (if why = None then evict sc env rep3 st3 else (None, rep3, st3));
          s5 = reapSignificanceLevels sc env (pruneTombstones sc env (sv_db st4));
          e3 = preserve_fails env;
          s6 = compactSignificanceLevels sc s5;
          err = cycle_failure e1 e2 e3;
          rep5 = rep4\<lparr>success := (e0 = None \<and> e1 = [] \<and> e2 = None \<and> \<not> e3), failure := err\<rparr>
      in (err, st4\<lparr>sv_db := queueCycleCallback sc env cid s6, lastCycle := Some rep5\<rparr>))"

section \<open>Well-formedness through a cycle\<close>

text \<open>Other writers and the summariser leave well-formed stores well-formed; the sort sorts.\<close>

definition writers_ok :: "pass_env \<Rightarrow> bool" where
  "writers_ok env \<longleftrightarrow> (\<forall>s. store_ok s \<longrightarrow> store_ok (other_writers env s)) \<and> sorter_ok (sort_slice env)"

definition world_ok :: "cycle_env \<Rightarrow> bool" where
  "world_ok env \<longleftrightarrow> writers_ok (ce_expire env) \<and> writers_ok (ce_memories env) \<and> writers_ok (ce_event_memories env)
     \<and> writers_ok (ce_events env) \<and> writers_ok (ce_evict env) \<and> (\<forall>s. store_ok s \<longrightarrow> store_ok (summarise env s))"

lemma writers_okD:
  assumes "writers_ok env" "store_ok s"
  shows "store_ok (other_writers env s)" "sorter_ok (sort_slice env)" "keys_ok s"
  using assms by (simp_all add: writers_ok_def store_ok_def)

lemma passes_store_ok [inv_intros]:
  assumes "writers_ok env" "store_ok s"
  shows "store_ok (snd (ConsolidateMemories cfg env srv s))" "store_ok (snd (ConsolidateEventMemories cfg env srv s))"
    "store_ok (snd (ConsolidateEvents cfg env srv s))" "store_ok (snd (ExpireMemories cfg env cutoff s))"
    "store_ok (snd (EvictMemories cfg env srv t s))"
proof -
  note W = writers_okD [OF assms]
  show "store_ok (snd (ConsolidateMemories cfg env srv s))"
    by (cases "scan_fails env") (use assms W pass_ok_store(1) [OF ConsolidateMemories_pass] in \<open>auto simp: ConsolidateMemories_def\<close>)
  show "store_ok (snd (ConsolidateEventMemories cfg env srv s))"
    by (cases "scan_fails env") (use assms W pass_ok_store(1) [OF ConsolidateEventMemories_pass] in \<open>auto simp: ConsolidateEventMemories_def\<close>)
  show "store_ok (snd (ConsolidateEvents cfg env srv s))"
    by (cases "scan_fails env") (use assms W ConsolidateEvents_pass [of env s cfg srv] in \<open>auto simp: ConsolidateEvents_def events_only_def\<close>)
  show "store_ok (snd (ExpireMemories cfg env cutoff s))"
  proof (cases "scan_fails env")
    case False
    then show ?thesis using ExpireMemories_pass [OF W(3,1) False] pass_ok_store(1) assms(2) by metis
  qed (use assms in \<open>simp add: ExpireMemories_def\<close>)
  show "store_ok (snd (EvictMemories cfg env srv t s))"
  proof (cases "scan_fails env \<or> target_empty t")
    case False
    then show ?thesis using pass_ok_store(1) [OF EvictMemories_pass [OF W(3,1) _ _ W(2)]] by blast
  qed (use assms in \<open>auto simp: EvictMemories_def Let_def\<close>)
qed

lemma store_ok_frame:
  assumes "memories s' = memories s" "events s' = events s" "memory_links s' = memory_links s" "event_links s' = event_links s"
    and "store_ok s" "queues_ok s'"
  shows "store_ok s'"
  using assms by (simp add: store_ok_def keys_ok_def aggregates_ok_def)

lemma insert_deliveries_frame:
  "memories (fold (insert_delivery cfg now) ds s) = memories s \<and> events (fold (insert_delivery cfg now) ds s) = events s
   \<and> memory_links (fold (insert_delivery cfg now) ds s) = memory_links s \<and> event_links (fold (insert_delivery cfg now) ds s) = event_links s"
  by (induction ds arbitrary: s) (simp_all add: insert_delivery_def Let_def)

lemma queueCallbacks_tables [frame_simps]:
  "memories (queueCallbacks cfg now ds s) = memories s" "events (queueCallbacks cfg now ds s) = events s"
  "memory_links (queueCallbacks cfg now ds s) = memory_links s" "event_links (queueCallbacks cfg now ds s) = event_links s"
  by (simp_all add: queueCallbacks_fold insert_deliveries_frame)

lemma queueCallbacks_store_ok [inv_intros]: "store_ok s \<Longrightarrow> store_ok (queueCallbacks cfg now ds s)"
  by (rule store_ok_frame [of _ s]) (simp_all add: frame_simps queueCallbacks_queues store_ok_def)

lemma BeginCallbackCycle_tables [frame_simps]:
  "memories (BeginCallbackCycle cfg i s) = memories s" "events (BeginCallbackCycle cfg i s) = events s"
  by (simp_all add: BeginCallbackCycle_def)

lemma cycle_store_ok: "store_ok (s\<lparr>cycle := c\<rparr>) = store_ok s" "store_ok (s\<lparr>levels := lv\<rparr>) = store_ok s"
  by (simp_all add: store_ok_def keys_ok_def aggregates_ok_def queues_ok_def)

lemma BeginCallbackCycle_store_ok [inv_intros]: "store_ok s \<Longrightarrow> store_ok (BeginCallbackCycle cfg i s)"
  by (simp add: BeginCallbackCycle_def cycle_store_ok)

lemma queueAtRiskCallback_store_ok [inv_intros]: "store_ok (sv_db st) \<Longrightarrow> store_ok (queueAtRiskCallback sc env st)"
  by (simp add: queueAtRiskCallback_def QueueCallbacks_def queueCallbacks_store_ok)

lemma queueCycleCallback_store_ok [inv_intros]: "store_ok s \<Longrightarrow> store_ok (queueCycleCallback sc env cid s)"
  by (auto simp: queueCycleCallback_def EndCallbackCycle_def QueueCallbacks_def cycle_store_ok split: option.splits intro!: inv_intros)

lemma seqs_ok_sublist: "seqs_ok f xs n \<Longrightarrow> seqs_ok f (filter P xs) n"
  by (auto simp: seqs_ok_def list_all_iff distinct_map_filter_key distinct_map inj_on_def)

lemma seqs_ok_trims:
  "seqs_ok f xs n \<Longrightarrow> seqs_ok f (delete_past_offset f k xs) n"
  "seqs_ok f_seq ts n \<Longrightarrow> seqs_ok f_seq (fst (DeleteForgottenMemories before gs ts)) n"
  by (simp_all add: delete_past_offset_def DeleteForgottenMemories_def Let_def seqs_ok_sublist)

lemma tombstones_store_ok:
  "store_ok s \<Longrightarrow> seqs_ok f_seq ts (next_tombstone_seq s) \<Longrightarrow> store_ok (s\<lparr>tombstones := ts\<rparr>)"
  by (simp add: store_ok_def keys_ok_def aggregates_ok_def queues_ok_def)

lemma PruneTombstones_store_ok [inv_intros]: "store_ok s \<Longrightarrow> store_ok (fst (PruneTombstones cfg now s))"
proof -
  assume ok: "store_ok s"
  then have "seqs_ok f_seq (tombstones s) (next_tombstone_seq s)" by (simp add: store_ok_def queues_ok_def)
  with ok show ?thesis
    by (auto simp: PruneTombstones_def Let_def split_beta intro!: tombstones_store_ok seqs_ok_trims)
qed

lemma maintenance_store_ok [inv_intros]:
  "store_ok s \<Longrightarrow> store_ok (pruneTombstones sc env s)"
  "store_ok s \<Longrightarrow> store_ok (reapSignificanceLevels sc env s)"
  "store_ok s \<Longrightarrow> store_ok (compactSignificanceLevels sc s)"
  by (simp_all add: pruneTombstones_def PruneTombstones_store_ok reapSignificanceLevels_def compactSignificanceLevels_def
      cycle_store_ok split: sum.splits)

lemma update_frame [simp]:
  "sv_db (update_default sc env st) = sv_db st" "sv_db (update_pressure sc env st) = sv_db st"
  by (simp_all add: update_default_def update_pressure_def CountMemories_def Let_def split: option.splits)

lemma stages_store_ok [inv_intros]:
  assumes "world_ok env" "store_ok (sv_db st)"
  shows "store_ok (sv_db (snd (snd (expire sc env rep st))))" "store_ok (sv_db (snd (snd (consolidate sc env rep st))))"
    "store_ok (sv_db (snd (snd (evict sc env rep st))))"
proof -
  have W: "writers_ok (ce_expire env)" "writers_ok (ce_memories env)" "writers_ok (ce_event_memories env)"
    "writers_ok (ce_events env)" "writers_ok (ce_evict env)"
    using assms(1) by (simp_all add: world_ok_def)
  show "store_ok (sv_db (snd (snd (expire sc env rep st))))"
    using assms(2) passes_store_ok(4) [OF W(1) assms(2)] by (simp add: expire_def Let_def split_beta)
  show "store_ok (sv_db (snd (snd (consolidate sc env rep st))))"
    unfolding consolidate_def Let_def split_beta
    by (simp, intro passes_store_ok W) (simp add: assms(2))
  show "store_ok (sv_db (snd (snd (evict sc env rep st))))"
    using assms(2) passes_store_ok(5) [OF W(5) assms(2)]
    by (auto simp: evict_def Let_def split_beta split: sum.splits)
qed

text \<open>The two shapes of a cycle: one that forgets, and one that is stalled.\<close>

definition cycle_start :: "sleep_config \<Rightarrow> cycle_env \<Rightarrow> server_state \<Rightarrow> db_state" where
  "cycle_start sc env st = queueAtRiskCallback sc env (st\<lparr>sv_db := BeginCallbackCycle (sc_db sc) (ce_started env) (sv_db st)\<rparr>)"

definition cycle_end :: "sleep_config \<Rightarrow> cycle_env \<Rightarrow> db_state \<Rightarrow> db_state" where
  "cycle_end sc env s = queueCycleCallback sc env (ce_started env)
     (compactSignificanceLevels sc (reapSignificanceLevels sc env (pruneTombstones sc env s)))"

lemma sleep_running:
  assumes "forgettingStalled sc env (cycle_start sc env st) = None"
    and "expire sc env (new_report (ce_started env) None) (st\<lparr>sv_db := cycle_start sc env st\<rparr>) = (e0, rep1, st1)"
    and "consolidate sc env rep1 st1 = (e1, rep2, st2)"
    and "evict sc env (scanSummarisationCandidates sc env rep2 (sv_db st2)) (st2\<lparr>sv_db := summarise env (sv_db st2)\<rparr>) = (e2, rep4, st4)"
  shows "sleep sc env st = (cycle_failure e1 e2 (preserve_fails env), st4\<lparr>sv_db := cycle_end sc env (sv_db st4),
    lastCycle := Some (rep4\<lparr>success := (e0 = None \<and> e1 = [] \<and> e2 = None \<and> \<not> preserve_fails env),
      failure := cycle_failure e1 e2 (preserve_fails env)\<rparr>)\<rparr>)"
  using assms by (simp add: sleep_def Let_def cycle_start_def cycle_end_def)

lemma sleep_stalled:
  assumes "forgettingStalled sc env (cycle_start sc env st) = Some why"
  shows "sleep sc env st = (cycle_failure [] None (preserve_fails env),
    st\<lparr>sv_db := cycle_end sc env (summarise env (cycle_start sc env st)),
      lastCycle := Some ((scanSummarisationCandidates sc env (new_report (ce_started env) (Some why)) (cycle_start sc env st))
        \<lparr>success := \<not> preserve_fails env, failure := cycle_failure [] None (preserve_fails env)\<rparr>)\<rparr>)"
  using assms by (simp add: sleep_def Let_def cycle_start_def cycle_end_def)

lemma start_end_ok [inv_intros]:
  "store_ok (sv_db st) \<Longrightarrow> store_ok (cycle_start sc env st)" "store_ok s \<Longrightarrow> store_ok (cycle_end sc env s)"
  by (simp_all add: cycle_start_def cycle_end_def inv_intros)

lemma maintenance_tables [frame_simps]:
  "memories (pruneTombstones sc env s) = memories s" "events (pruneTombstones sc env s) = events s"
  "memories (reapSignificanceLevels sc env s) = memories s" "events (reapSignificanceLevels sc env s) = events s"
  "memories (compactSignificanceLevels sc s) = memories s" "events (compactSignificanceLevels sc s) = events s"
  "memories (queueCycleCallback sc env cid s) = memories s" "events (queueCycleCallback sc env cid s) = events s"
  "memories (queueAtRiskCallback sc env st) = memories (sv_db st)" "events (queueAtRiskCallback sc env st) = events (sv_db st)"
  by (simp_all add: pruneTombstones_def PruneTombstones_def Let_def split_beta reapSignificanceLevels_def
      compactSignificanceLevels_def queueCycleCallback_def EndCallbackCycle_def QueueCallbacks_def queueAtRiskCallback_def
      queueCallbacks_tables split: option.splits sum.splits)

lemma start_end_tables [frame_simps]:
  "memories (cycle_start sc env st) = memories (sv_db st)" "events (cycle_start sc env st) = events (sv_db st)"
  "memories (cycle_end sc env s) = memories s" "events (cycle_end sc env s) = events s"
  by (simp_all add: cycle_start_def cycle_end_def frame_simps)


section \<open>A small cycle\<close>

definition sample_sleep :: sleep_config where
  "sample_sleep = \<lparr>sc_db = example_cfg, sc_consolidation = sample_config 6, sc_tombstones = True, significanceLevelRetention = 1000,
     summarisationMinMemories = 0, callbacksEnabled = True, callbackSleepEvents = True, callbackAtRiskEvents = False,
     callbackBacklogStall = True, callbackBounds = \<lparr>MaxAge = 0, MaxRows = 1, MaxBytes = 0\<rparr>, callbackChunkIds = 2,
     callbackAtRiskLimit = 100, callbackAtRiskMargin = 0\<rparr>"

definition quiet_cycle :: "nanos \<Rightarrow> cycle_env" where
  "quiet_cycle now = \<lparr>percentile_nearest_rank = (\<lambda>_ _. None), page_count = (\<lambda>_. 0), freelist_count = (\<lambda>_. 0), page_size = 4096,
     excluded_bytes = (\<lambda>_. 0), percentile_fails = False, count_fails = False, used_fails = False, external_fails = False,
     ce_started = now, ce_stall_now = now, ce_expire = quiet_env now, ce_memories = quiet_env now,
     ce_event_memories = quiet_env now, ce_events = quiet_env now, ce_evict = quiet_env now,
     at_risk_sorts = \<lparr>sort_rows = sort_key pr_value, sort_candidates = sort_key fc_value\<rparr>, at_risk_fails = False,
     summarise = id, summarisation_found = (\<lambda>_. None), reap_world = id, backlog_fails = False,
     prune_fails = False, reap_fails = False, preserve_fails = False, queue_fails = False, ce_finished = now\<rparr>"

definition sample_state :: "db_state \<Rightarrow> server_state" where
  "sample_state s = \<lparr>sv_db = s, capacityPressure = 1, lastUsedBytes = 0, lastExternalBytes = 0,
     computedDefaultEventSignificance = None, lastCycle = None\<rparr>"

lemma quiet_world_ok: "world_ok (quiet_cycle now)"
  by (simp add: world_ok_def quiet_cycle_def writers_ok_def stable_sort_ok)


text \<open>
  C10. A stalled cycle forgets nothing and says so: while the undelivered forget-callbacks are past one of
  their caps, no memory and no event is removed or changed by the cycle (the summariser apart), and
  the report carries the reason with every count of forgetting at zero.
\<close>

theorem stalled_cycle_forgets_nothing:
  assumes "forgettingStalled sc env (cycle_start sc env st) = Some why"
    and "sleep sc env st = (err, st')" "lastCycle st' = Some rep"
  shows "memories (sv_db st') = memories (summarise env (cycle_start sc env st))
    \<and> events (sv_db st') = events (summarise env (cycle_start sc env st))
    \<and> memories (cycle_start sc env st) = memories (sv_db st) \<and> events (cycle_start sc env st) = events (sv_db st)
    \<and> stalled rep = Some why \<and> memoriesExpired rep = 0 \<and> memoriesConsolidated rep = 0 \<and> memoriesEvicted rep = 0
    \<and> eventsExpired rep = 0 \<and> eventsConsolidated rep = 0 \<and> eventsEvicted rep = 0"
proof -
  have "scanSummarisationCandidates sc env r s = r \<or> (\<exists>n. scanSummarisationCandidates sc env r s = r\<lparr>summarisationCandidates := n\<rparr>)" for r s
    by (auto simp: scanSummarisationCandidates_def split: option.splits)
  from this [of "new_report (ce_started env) (Some why)" "cycle_start sc env st"]
  show ?thesis using assms(2,3) sleep_stalled [OF assms(1)] by (auto simp: new_report_def frame_simps)
qed

theorem stalled_cycle_forgets_nothing_witness:
  "memories (sv_db (snd (sleep sample_sleep (quiet_cycle 1000) (sample_state example_queue)))) = []
   \<and> map_option stalled (lastCycle (snd (sleep sample_sleep (quiet_cycle 1000) (sample_state example_queue)))) = Some (Some StalledByRows)"
proof -
  let ?st = "sample_state example_queue" and ?env = "quiet_cycle 1000"
  have why: "forgettingStalled sample_sleep ?env (cycle_start sample_sleep ?env ?st) = Some StalledByRows"
    by (simp add: forgettingStalled_def sample_sleep_def quiet_cycle_def cycle_start_def sample_state_def measureBacklog_def
        queueAtRiskCallback_def BeginCallbackCycle_def example_queue_def example_delivery_def example_cfg_def deletion_kind_def Let_def)
  obtain err st' where r: "sleep sample_sleep ?env ?st = (err, st')" by fastforce
  obtain rep where l: "lastCycle st' = Some rep" using r sleep_stalled [OF why] by auto
  from stalled_cycle_forgets_nothing [OF why r l] r l show ?thesis
    by (simp add: quiet_cycle_def frame_simps sample_state_def example_queue_def empty_store_def)
qed

section \<open>What a cycle reports\<close>

text \<open>
  An expiry that fails on its own goes unreported: the cycle counts as unsuccessful, but \<^verbatim>\<open>sleep()\<close>
  returns no error and the report carries no failure message, because the expiry error is missing
  from the switch that composes them.
\<close>

theorem expiry_failure_goes_unreported:
  assumes "forgettingStalled sc env (cycle_start sc env st) = None"
    and "expire sc env (new_report (ce_started env) None) (st\<lparr>sv_db := cycle_start sc env st\<rparr>) = (Some e0, rep1, st1)"
    and "consolidate sc env rep1 st1 = ([], rep2, st2)"
    and "evict sc env (scanSummarisationCandidates sc env rep2 (sv_db st2)) (st2\<lparr>sv_db := summarise env (sv_db st2)\<rparr>) = (None, rep4, st4)"
    and "\<not> preserve_fails env"
    and "sleep sc env st = (err, st')" "lastCycle st' = Some rep"
  shows "err = None \<and> \<not> success rep \<and> failure rep = None"
  using sleep_running [OF assms(1-4)] assms(5-7) by (auto simp: cycle_failure_def)

text \<open>A ceiling of one day, and a scan that fails in the expiry pass alone.\<close>

definition ceiling_sleep :: sleep_config where
  "ceiling_sleep = sample_sleep\<lparr>sc_consolidation := (sample_config 6)\<lparr>maximumRetentionInDays := 1\<rparr>\<rparr>"

definition failing_expiry :: cycle_env where
  "failing_expiry = (quiet_cycle 1000)\<lparr>ce_expire := (quiet_env 1000)\<lparr>scan_fails := True\<rparr>\<rparr>"

lemmas sample_cycle_defs = ceiling_sleep_def failing_expiry_def sample_sleep_def quiet_cycle_def sample_state_def sample_config_def
  example_cfg_def empty_store_def

lemma passes_empty:
  assumes "memories s = []" "events s = []"
  shows "ConsolidateMemories cfg (quiet_env now) srv s = ((0, None), s)"
    "ConsolidateEventMemories cfg (quiet_env now) srv s = ((0, 0, 0, None), s)"
    "ConsolidateEvents cfg (quiet_env now) srv s = ((0, None), s)"
  using assms by (simp_all add: ConsolidateMemories_def ConsolidateEventMemories_def ConsolidateEvents_def chokepoint_def
      deleteMemoriesIfUnrecalled_def Let_def)

theorem expiry_failure_goes_unreported_witness:
  "fst (sleep ceiling_sleep failing_expiry (sample_state empty_store)) = None
   \<and> map_option success (lastCycle (snd (sleep ceiling_sleep failing_expiry (sample_state empty_store)))) = Some False"
proof -
  let ?sc = ceiling_sleep and ?env = failing_expiry and ?st = "sample_state empty_store"
  have s: "forgettingStalled ?sc ?env (cycle_start ?sc ?env ?st) = None"
    by (simp add: forgettingStalled_def sample_cycle_defs cycle_start_def measureBacklog_def queueAtRiskCallback_def BeginCallbackCycle_def)
  let ?rep = "new_report (ce_started ?env) None" and ?st1 = "?st\<lparr>sv_db := cycle_start ?sc ?env ?st\<rparr>"
  have x: "expire ?sc ?env ?rep ?st1 = (Some ErrOther, ?rep, ?st1)"
    by (simp add: expire_def sample_cycle_defs expiryCutoff_def ExpireMemories_def DAY_IN_NANOSECONDS_def i64_def new_report_def)
  have e: "memories (sv_db ?st1) = []" "events (sv_db ?st1) = []" by (simp_all add: frame_simps sample_cycle_defs)
  have q: "ce_memories ?env = quiet_env 1000" "ce_event_memories ?env = quiet_env 1000" "ce_events ?env = quiet_env 1000"
    "summarise ?env = id" "\<not> preserve_fails ?env" by (simp_all add: sample_cycle_defs)
  obtain rep2 st2 where c: "consolidate ?sc ?env ?rep ?st1 = ([], rep2, st2)" "memories (sv_db st2) = []" "events (sv_db st2) = []"
    "memory_links (sv_db st2) = []" "event_links (sv_db st2) = []"
    using e by (auto simp: consolidate_def q passes_empty some_errors_def Let_def cycle_start_def queueAtRiskCallback_def
        BeginCallbackCycle_def sample_cycle_defs)
  have "usedBytesLiveRows (sc_db ?sc) (sv_db st2) = 0"
    using c by (simp add: usedBytesLiveRows_def memoriesFootprint_def rowsFootprint_def Let_def sample_cycle_defs)
  then obtain rep4 st4 where v: "evict ?sc ?env (scanSummarisationCandidates ?sc ?env rep2 (sv_db st2))
      (st2\<lparr>sv_db := summarise ?env (sv_db st2)\<rparr>) = (None, rep4, st4)"
    by (simp add: evict_def q UsedBytes_def evictionExcess_def Let_def sample_cycle_defs)
  obtain err st' where r: "sleep ?sc ?env ?st = (err, st')" by fastforce
  obtain rep where l: "lastCycle st' = Some rep" using r sleep_running [OF s x c(1) v] by auto
  from expiry_failure_goes_unreported [OF s x c(1) v q(5) r l] r l show ?thesis by simp
qed

text \<open>Nobody else writes during the cycle; statements may still fail.\<close>

definition uncontended :: "cycle_env \<Rightarrow> bool" where
  "uncontended env \<longleftrightarrow> list_all (\<lambda>pe. other_writers pe = id \<and> sorter_ok (sort_slice pe))
     [ce_expire env, ce_memories env, ce_event_memories env, ce_events env, ce_evict env] \<and> summarise env = id"

lemma uncontended_world_ok: "uncontended env \<Longrightarrow> world_ok env"
  by (simp add: uncontended_def world_ok_def writers_ok_def)

lemma stages_count:
  assumes "uncontended env" "store_ok (sv_db st)"
  shows "expire sc env rep st = (e, rep', st') \<Longrightarrow> length (memories (sv_db st')) + memoriesExpired rep' = length (memories (sv_db st)) + memoriesExpired rep
      \<and> memoriesConsolidated rep' = memoriesConsolidated rep \<and> memoriesEvicted rep' = memoriesEvicted rep"
    "consolidate sc env rep st = (es, rep', st') \<Longrightarrow> length (memories (sv_db st')) + memoriesConsolidated rep' = length (memories (sv_db st)) + memoriesConsolidated rep
      \<and> memoriesExpired rep' = memoriesExpired rep \<and> memoriesEvicted rep' = memoriesEvicted rep"
    "evict sc env rep st = (e, rep', st') \<Longrightarrow> length (memories (sv_db st')) + memoriesEvicted rep' = length (memories (sv_db st)) + memoriesEvicted rep
      \<and> memoriesExpired rep' = memoriesExpired rep \<and> memoriesConsolidated rep' = memoriesConsolidated rep"
proof -
  note U = assms(1) [unfolded uncontended_def, simplified]
  note ok = passes_store_ok [where s = "sv_db st", OF _ assms(2)]
  have W: "writers_ok (ce_memories env)" "writers_ok (ce_event_memories env)"
    using uncontended_world_ok [OF assms(1)] by (simp_all add: world_ok_def)
  show "expire sc env rep st = (e, rep', st') \<Longrightarrow> length (memories (sv_db st')) + memoriesExpired rep' = length (memories (sv_db st)) + memoriesExpired rep
      \<and> memoriesConsolidated rep' = memoriesConsolidated rep \<and> memoriesEvicted rep' = memoriesEvicted rep"
    using passes_count(4) [OF assms(2), of "ce_expire env"] U by (auto simp: expire_def Let_def split_beta split: if_splits)
  show "evict sc env rep st = (e, rep', st') \<Longrightarrow> length (memories (sv_db st')) + memoriesEvicted rep' = length (memories (sv_db st)) + memoriesEvicted rep
      \<and> memoriesExpired rep' = memoriesExpired rep \<and> memoriesConsolidated rep' = memoriesConsolidated rep"
    using passes_count(5) [OF assms(2), of "ce_evict env"] U
    by (auto simp: evict_def Let_def split_beta split: if_splits sum.splits)
  assume r: "consolidate sc env rep st = (es, rep', st')"
  let ?st0 = "update_pressure sc env (update_default sc env st)"
  let ?s1 = "snd (ConsolidateMemories (sc_db sc) (ce_memories env) (pass_server sc (ce_memories env) ?st0) (sv_db st))"
  let ?s2 = "snd (ConsolidateEventMemories (sc_db sc) (ce_event_memories env) (pass_server sc (ce_event_memories env) ?st0) ?s1)"
  have "store_ok ?s1" by (rule passes_store_ok(1) [OF W(1) assms(2)])
  moreover have "store_ok ?s2" by (rule passes_store_ok(2) [OF W(2)]) fact
  ultimately show "length (memories (sv_db st')) + memoriesConsolidated rep' = length (memories (sv_db st)) + memoriesConsolidated rep
      \<and> memoriesExpired rep' = memoriesExpired rep \<and> memoriesEvicted rep' = memoriesEvicted rep"
    using r U passes_count(1) [OF assms(2), of "ce_memories env" "sc_db sc" "pass_server sc (ce_memories env) ?st0"]
      passes_count(2) [of ?s1 "ce_event_memories env" "sc_db sc" "pass_server sc (ce_event_memories env) ?st0"]
      passes_count(3) [of ?s2 "ce_events env" "sc_db sc" "pass_server sc (ce_events env) ?st0"]
    by (auto simp: consolidate_def Let_def split_beta)
qed


lemma quiet_uncontended: "uncontended (quiet_cycle now)"
  by (simp add: uncontended_def quiet_cycle_def stable_sort_ok)

lemma sleep_publishes: "\<exists>rep. lastCycle (snd (sleep sc env st)) = Some rep"
  by (simp add: sleep_def Let_def split_beta)


section \<open>The capacity target on the server engines\<close>

definition payload_of :: "memory_row \<Rightarrow> int" where
  "payload_of r = int (length (m_body r)) + m_metadata_bytes r"

definition indexed_of :: "memory_row \<Rightarrow> int" where
  "indexed_of r = (case m_indexed_bytes r of None \<Rightarrow> int (length (m_body r)) | Some n \<Rightarrow> n)"

definition row_cost :: "db_config \<Rightarrow> memory_row \<Rightarrow> int" where
  "row_cost cfg r = memoryFootprint cfg (payload_of r) (indexed_of r)"

text \<open>What the schema and the dialect table guarantee: no size and no overhead is negative.\<close>

definition sizes_ok :: "db_config \<Rightarrow> db_state \<Rightarrow> bool" where
  "sizes_ok cfg s \<longleftrightarrow> 0 \<le> row_overhead cfg \<and> 0 \<le> content_index_per_mille cfg
     \<and> (\<forall>r \<in> set (memories s). 0 \<le> indexed_of r) \<and> (\<forall>e \<in> set (events s). 0 \<le> e_payload_bytes e)"

text \<open>
  The footprint is superadditive: measured over two sets of memories together it is at least the
  sum of the two measured apart, because of the rounding of the index term.
\<close>

lemma memoriesFootprint_superadd:
  assumes "0 \<le> i" "0 \<le> j" "0 \<le> content_index_per_mille cfg"
  shows "memoriesFootprint cfg n p i + memoriesFootprint cfg m q j \<le> memoriesFootprint cfg (n + m) (p + q) (i + j)"
proof -
  have "go_div x 1000 + go_div y 1000 \<le> go_div (x + y) 1000" if "0 \<le> x" "0 \<le> y" for x y
    using that by (simp add: go_div_nonneg)
  from this [of "i * content_index_per_mille cfg" "j * content_index_per_mille cfg"] assms
  show ?thesis by (simp add: memoriesFootprint_def Let_def algebra_simps)
qed

definition footprint_of :: "db_config \<Rightarrow> memory_row list \<Rightarrow> int" where
  "footprint_of cfg rs = memoriesFootprint cfg (int (length rs)) (sum_list (map payload_of rs)) (sum_list (map indexed_of rs))"

lemma sum_list_partition: "sum_list (map h (filter P xs)) + sum_list (map h (filter (\<lambda>x. \<not> P x) xs)) = (sum_list (map h xs) :: int)"
  by (induction xs) simp_all

lemma indexed_sum_nonneg: "\<forall>r \<in> set rs. 0 \<le> indexed_of r \<Longrightarrow> 0 \<le> sum_list (map indexed_of rs)"
  by (induction rs) auto

lemma footprint_partition:
  assumes "\<forall>r \<in> set rs. 0 \<le> indexed_of r" "0 \<le> content_index_per_mille cfg"
  shows "footprint_of cfg (filter P rs) + footprint_of cfg (filter (\<lambda>r. \<not> P r) rs) \<le> footprint_of cfg rs"
proof -
  have "int (length rs) = int (length (filter P rs)) + int (length (filter (\<lambda>r. \<not> P r) rs))"
    by (simp flip: of_nat_add add: sum_length_filter_compl)
  then show ?thesis
    using memoriesFootprint_superadd [OF indexed_sum_nonneg indexed_sum_nonneg assms(2),
        of "filter P rs" "filter (\<lambda>r. \<not> P r) rs"] assms(1)
    by (simp add: footprint_of_def sum_list_partition [symmetric, where P = P and xs = rs])
qed

lemma row_costs_le_footprint:
  assumes "\<forall>r \<in> set rs. 0 \<le> indexed_of r" "0 \<le> content_index_per_mille cfg"
  shows "sum_list (map (row_cost cfg) rs) \<le> footprint_of cfg rs"
  using assms(1)
proof (induction rs)
  case (Cons r rs)
  have "row_cost cfg r + footprint_of cfg rs \<le> footprint_of cfg (r # rs)"
    using memoriesFootprint_superadd [of "indexed_of r" "sum_list (map indexed_of rs)" cfg 1 "payload_of r"]
      Cons.prems indexed_sum_nonneg [of rs] assms(2)
    by (simp add: row_cost_def memoryFootprint_def footprint_of_def)
  with Cons show ?case by simp
qed (simp add: footprint_of_def memoriesFootprint_def Let_def go_div_def)

lemma usedBytes_footprint:
  "usedBytesLiveRows cfg s = footprint_of cfg (memories s)
     + (sum_list (map e_payload_bytes (events s)) + int (length (map e_payload_bytes (events s))) * row_overhead cfg)
     + (int (length (memory_links s)) + int (length (event_links s))) * row_overhead cfg"
  by (simp add: usedBytesLiveRows_def footprint_of_def rowsFootprint_def payload_of_def [abs_def] indexed_of_def [abs_def])

lemma subseq_sum: "subseq xs ys \<Longrightarrow> \<forall>y \<in> set ys. (0::int) \<le> y \<Longrightarrow> sum_list xs \<le> sum_list ys"
  by (induction rule: list_emb.induct) (auto intro: sum_list_nonneg)

lemma footprint_sans: "footprint_of cfg (map sans_links rs) = footprint_of cfg rs"
proof -
  have "payload_of (sans_links r) = payload_of r" "indexed_of (sans_links r) = indexed_of r" for r
    by (simp_all add: payload_of_def indexed_of_def sans_links_def split: option.splits)
  then show ?thesis by (simp add: footprint_of_def comp_def)
qed

text \<open>An eviction frees at least what it says it freed.\<close>

lemma eviction_frees_what_it_reports:
  assumes "store_ok s" "undisturbed env" "sorter_ok (sort_slice env)" "\<not> target_empty t" "sizes_ok cfg s"
  shows "usedBytesLiveRows cfg (snd (EvictMemories cfg env srv t s)) + freed cfg (evictions cfg env srv t s) \<le> usedBytesLiveRows cfg s"
    and "sum_list (map m_external_bytes (memories (snd (EvictMemories cfg env srv t s)))) + released (evictions cfg env srv t s)
      = sum_list (map m_external_bytes (memories s))"
proof -
  let ?E = "evictions cfg env srv t s" and ?s' = "snd (EvictMemories cfg env srv t s)"
  let ?gone = "\<lambda>r. m_id r \<in> ec_id ` set ?E"
  note T = EvictMemories_tables [OF assms(1-4), where cfg = cfg and srv = srv]
  note Z = assms(5) [unfolded sizes_ok_def]
  have k: "keys_ok s" using assms(1) by (simp add: store_ok_def)
  then have d: "distinct (memories s)" by (simp add: keys_ok_def distinct_map)
  note S = evictions_sums(1) [OF k assms(3) refl, where cfg = cfg and srv = srv and t = t]
  have list: "(\<Sum>r \<in> {r \<in> set (memories s). ?gone r}. h r) = sum_list (map h (filter ?gone (memories s)))" for h :: "memory_row \<Rightarrow> int"
    using d by (simp add: sum_list_distinct_conv_sum_set)
  have fr: "freed cfg ?E = sum_list (map (row_cost cfg) (filter ?gone (memories s)))"
    unfolding freed_def S list row_cost_def payload_of_def indexed_of_def by (simp add: eviction_candidate_def)
  have rl: "released ?E = sum_list (map m_external_bytes (filter ?gone (memories s)))"
    unfolding released_def S list by (simp add: eviction_candidate_def)
  have "footprint_of cfg (memories ?s') = footprint_of cfg (filter (\<lambda>r. \<not> ?gone r) (memories s))"
    using T(1) footprint_sans by metis
  then have m: "footprint_of cfg (memories ?s') + freed cfg ?E \<le> footprint_of cfg (memories s)"
    using footprint_partition [of "memories s" cfg ?gone] row_costs_le_footprint [of "filter ?gone (memories s)" cfg] Z fr by auto
  have e: "sum_list (map e_payload_bytes (events ?s')) \<le> sum_list (map e_payload_bytes (events s))"
    by (rule subseq_sum [OF T(4)]) (use Z in auto)
  have n: "int (length (map e_payload_bytes (events ?s'))) * row_overhead cfg \<le> int (length (map e_payload_bytes (events s))) * row_overhead cfg"
    using list_emb_length [OF T(4)] Z by (intro mult_right_mono) simp_all
  have l: "(int (length (memory_links ?s')) + int (length (event_links ?s'))) * row_overhead cfg
      \<le> (int (length (memory_links s)) + int (length (event_links s))) * row_overhead cfg"
    using T(2,3) Z by (intro mult_right_mono) linarith+
  from m e n l show "usedBytesLiveRows cfg ?s' + freed cfg ?E \<le> usedBytesLiveRows cfg s" unfolding usedBytes_footprint by linarith
  have x: "map m_external_bytes xs = map m_external_bytes (map sans_links xs)" for xs by (simp add: sans_links_def)
  have "map m_external_bytes (memories ?s') = map m_external_bytes (filter (\<lambda>r. \<not> ?gone r) (memories s))"
    unfolding x [of "memories ?s'"] x [of "filter _ _"] T(1) ..
  then show "sum_list (map m_external_bytes (memories ?s')) + released ?E = sum_list (map m_external_bytes (memories s))"
    using sum_list_partition [of m_external_bytes ?gone "memories s"] by (simp add: rl)
qed

text \<open>Where an axis should end up: at its floor if it was over its target, and no higher than it was otherwise.\<close>

definition axis_goal :: "int \<Rightarrow> int \<Rightarrow> int \<Rightarrow> int" where
  "axis_goal used capacity flr = (if used \<le> capacity then used else evictionFloorFor capacity flr)"

lemma axis_goal_excess:
  assumes "0 < capacity" "evictionExcess used capacity (evictionFloorFor capacity flr) \<le> f" "used' + f \<le> used"
  shows "used' \<le> axis_goal used capacity flr"
  using assms by (auto simp: axis_goal_def evictionExcess_def split: if_splits)

lemma excess_pos: "0 < capacity \<Longrightarrow> evictionExcess used capacity (evictionFloorFor capacity flr) \<le> 0 \<Longrightarrow> axis_goal used capacity flr = used"
  by (auto simp: axis_goal_def evictionExcess_def evictionFloorFor_def split: if_splits)

definition external_total :: "db_state \<Rightarrow> int" where
  "external_total s = sum_list (map m_external_bytes (memories s))"

definition evict_target :: "Consolidation \<Rightarrow> int \<Rightarrow> int \<Rightarrow> EvictionTarget" where
  "evict_target c used ext = \<lparr>target_bytes = evictionExcess used (capacityBytes c) (evictionFloorFor (capacityBytes c) (capacityBytesFloor c)),
     target_external = evictionExcess ext (capacityExternalBytes c) (evictionFloorFor (capacityExternalBytes c) (capacityExternalBytesFloor c))\<rparr>"

lemma default_frame [simp]:
  "defaultEventSignificance c (st\<lparr>lastUsedBytes := u\<rparr>) = defaultEventSignificance c st"
  "defaultEventSignificance c (st\<lparr>lastExternalBytes := x\<rparr>) = defaultEventSignificance c st"
  by (simp_all add: defaultEventSignificance_def split: option.splits)

lemma evict_runs:
  assumes "\<not> page_accounting (sc_db sc)" "\<not> used_fails env" "\<not> external_fails env" "0 < capacityBytes (sc_consolidation sc)"
    and "c = sc_consolidation sc" "ext = (if 0 < capacityExternalBytes c then external_total (sv_db st) else 0)"
    and "t = evict_target c (usedBytesLiveRows (sc_db sc) (sv_db st)) ext"
    and "evict sc env rep st = (e, rep', st')"
  shows "target_empty t \<Longrightarrow> sv_db st' = sv_db st"
    and "\<not> target_empty t \<Longrightarrow> sv_db st' = snd (EvictMemories (sc_db sc) (ce_evict env)
      (decision_server c (env_now (ce_evict env)) (capacityPressure st) (defaultEventSignificance c st)) t (sv_db st))"
  using assms
  by (auto simp: evict_def UsedBytes_def ExternalBytes_def external_total_def target_empty_def evict_target_def pass_server_def
      Let_def split_beta split: if_splits)


definition crowded_sleep :: sleep_config where
  "crowded_sleep = sample_sleep\<lparr>sc_consolidation := (sample_config 6)\<lparr>capacityBytes := 300, capacityBytesFloor := 200\<rparr>\<rparr>"


section \<open>The retention ceiling\<close>

text \<open>
  C11. The ceiling is exact up to 106751 days and destroys the store beyond: for such a configured
  maximum an undisturbed expiry leaves exactly the memories no older than it; but a maximum of
  200000 days, which the startup validation accepts, overflows the 64-bit nanosecond product, puts the
  cutoff in the future and expires every memory in the store.
\<close>

theorem expiry_ceiling_exact_until_overflow:
  assumes "consolidationProblems c = []" "store_ok s" "undisturbed env"
    and now: "0 \<le> now" "now < 4611686018427387904"
    and past: "\<forall>r \<in> set (memories s). 0 \<le> m_timestamp r \<and> m_timestamp r \<le> now"
  shows "(0 < maximumRetentionInDays c \<and> maximumRetentionInDays c \<le> 106751 \<longrightarrow>
        m_id ` set (memories (snd (ExpireMemories cfg env (expiryCutoff c now) s)))
          = m_id ` {r \<in> set (memories s). now - m_timestamp r \<le> maximumRetentionInDays c * DAY_IN_NANOSECONDS})
    \<and> (maximumRetentionInDays c = 200000 \<longrightarrow>
        now < expiryCutoff c now \<and> memories (snd (ExpireMemories cfg env (expiryCutoff c now) s)) = [])"
proof (intro conjI impI)
  note X = expire_undisturbed [OF assms(2,3), of cfg "expiryCutoff c now"]
  { assume d: "0 < maximumRetentionInDays c \<and> maximumRetentionInDays c \<le> 106751"
    then have "maximumRetentionInDays c * DAY_IN_NANOSECONDS \<le> 106751 * DAY_IN_NANOSECONDS" by (intro mult_right_mono) (simp_all add: DAY_IN_NANOSECONDS_def)
    moreover have "0 < maximumRetentionInDays c * DAY_IN_NANOSECONDS" using d by simp
    ultimately have "expiryCutoff c now = now - maximumRetentionInDays c * DAY_IN_NANOSECONDS"
      using d now by (simp add: expiryCutoff_def i64_def DAY_IN_NANOSECONDS_def)
    then show "m_id ` set (memories (snd (ExpireMemories cfg env (expiryCutoff c now) s)))
        = m_id ` {r \<in> set (memories s). now - m_timestamp r \<le> maximumRetentionInDays c * DAY_IN_NANOSECONDS}"
      unfolding X by (intro arg_cong [of _ _ "image m_id"]) auto }
  assume "maximumRetentionInDays c = 200000"
  then have e: "expiryCutoff c now = now + 1166744073709551616"
    using now by (simp add: expiryCutoff_def i64_def DAY_IN_NANOSECONDS_def)
  then show "now < expiryCutoff c now" by simp
  have "{r \<in> set (memories s). \<not> m_timestamp r < expiryCutoff c now} = {}" using past e by force
  with X have "m_id ` set (memories (snd (ExpireMemories cfg env (expiryCutoff c now) s))) = {}" by (simp only: image_empty)
  then show "memories (snd (ExpireMemories cfg env (expiryCutoff c now) s)) = []" by simp
qed

theorem expiry_ceiling_exact_until_overflow_witness:
  "consolidationProblems ((sample_config 6)\<lparr>maximumRetentionInDays := 200000\<rparr>) = []
   \<and> memories (snd (ExpireMemories example_cfg (quiet_env 100) (expiryCutoff ((sample_config 6)\<lparr>maximumRetentionInDays := 200000\<rparr>) 100) linked_store)) = []"
proof -
  have v: "consolidationProblems ((sample_config 6)\<lparr>maximumRetentionInDays := 200000\<rparr>) = []"
    by (simp add: consolidationProblems_def sample_config_def)
  from expiry_ceiling_exact_until_overflow [OF v linked_store_store_ok quiet_undisturbed [of 100], of 100 example_cfg] v show ?thesis
    by (simp add: example_defs)
qed

section \<open>Reassembling the completion callbacks\<close>

text \<open>What a receiver does: put the chunks together and tell events, which name themselves, from memories.\<close>

definition reassemble :: "CallbackDelivery list \<Rightarrow> ident list \<times> ident list" where
  "reassemble ds = (let items = concat (map cd_items ds)
     in (map ci_id (filter (\<lambda>i. ci_event_id i = []) items), map ci_id (filter (\<lambda>i. ci_event_id i \<noteq> []) items)))"

lemma concat_slices: "concat (map (\<lambda>i. take p (drop (i * p) xs)) [0..<n]) = take (n * p) xs"
  by (induction n) (simp_all add: take_add add.commute [of p])

lemma slice_is_chunk: "take (min (i * p + p) (length xs) - i * p) (drop (i * p) xs) = take p (drop (i * p) xs)"
  by (cases "i * p + p \<le> length xs") (simp_all add: min_def)

lemma ceiling_covers: "0 < p \<Longrightarrow> x \<le> (x + p - 1) div p * (p::nat)"
  using div_mod_decomp [of "x + p - 1" p] mod_less_divisor [of p "x + p - 1"] by linarith

lemma cycleDeliveries_items:
  assumes "per = nat (if perChunk \<le> 0 then defaultCallbackMaxIdsPerChunk else perChunk)"
    and "items = cycle_items ms es" "n = max ((length items + per - 1) div per) 1"
  shows "map cd_items (cycleDeliveries cid ms es perChunk) = map (\<lambda>i. take per (drop (i * per) items)) [0..<n]"
    "0 < per" "length items \<le> n * per"
proof -
  show p: "0 < per" using assms(1) by (simp add: defaultCallbackMaxIdsPerChunk_def)
  show "map cd_items (cycleDeliveries cid ms es perChunk) = map (\<lambda>i. take per (drop (i * per) items)) [0..<n]"
    unfolding cycleDeliveries_def Let_def assms(1) [symmetric] assms(2) [symmetric] assms(3) [symmetric]
    by (auto simp: new_delivery_def slice_is_chunk)
  show "length items \<le> n * per" using assms(3) ceiling_covers [OF p] by (metis max.cobounded1 mult_le_mono1 order_trans)
qed

lemma reassemble_items:
  assumes "[] \<notin> set es" "concat (map cd_items ds) = cycle_items ms es"
  shows "reassemble ds = (ms, es)"
proof -
  have "filter (\<lambda>i. i = []) es = []" "filter (\<lambda>i. i \<noteq> []) es = es" using assms(1) by (auto simp: filter_empty_conv filter_id_conv)
  then show ?thesis
    by (simp add: reassemble_def assms(2) cycle_items_def empty_item_def filter_map comp_def)
qed

text \<open>
  A receiver can reassemble a cycle: however the ids are chunked, at least one delivery is built,
  they are numbered 1 to their count, none carries more ids than the chunk size, and put together
  they yield the memory ids and the event ids the cycle collected, in order.
\<close>

theorem completion_callbacks_reassemble:
  assumes "[] \<notin> set eventIds" "ds = cycleDeliveries cid memoryIds eventIds perChunk"
  shows "reassemble ds = (memoryIds, eventIds) \<and> ds \<noteq> []
    \<and> map cd_chunk ds = map int [1..<Suc (length ds)]
    \<and> list_all (\<lambda>d. cd_chunks d = int (length ds) \<and> cd_item_count d = length (cd_items d)
          \<and> int (length (cd_items d)) \<le> (if perChunk \<le> 0 then defaultCallbackMaxIdsPerChunk else perChunk)) ds"
proof -
  define per where "per = nat (if perChunk \<le> 0 then defaultCallbackMaxIdsPerChunk else perChunk)"
  define items where "items = cycle_items memoryIds eventIds"
  define n where "n = max ((length items + per - 1) div per) 1"
  note I = cycleDeliveries_items(1) [OF per_def items_def n_def, of cid, folded assms(2)]
    cycleDeliveries_items(2,3) [OF per_def items_def n_def]
  have len: "length ds = n" using arg_cong [OF I(1), of length] by simp
  have "concat (map cd_items ds) = items" unfolding I(1) concat_slices using I(3) by simp
  then have "reassemble ds = (memoryIds, eventIds)" by (intro reassemble_items assms(1)) (simp add: items_def)
  moreover have "ds \<noteq> []" using len by (auto simp: n_def)
  moreover have "map cd_chunk ds = map int [1..<Suc (length ds)]"
    unfolding len unfolding assms(2) cycleDeliveries_def Let_def per_def [symmetric] items_def [symmetric] n_def [symmetric]
    by (simp add: map_Suc_upt [symmetric] del: upt_Suc)
  moreover have "int (length (cd_items d)) \<le> int per" if "d \<in> set ds" for d
  proof -
    have "cd_items d \<in> set (map (\<lambda>i. take per (drop (i * per) items)) [0..<n])" using that I(1) by (metis imageI list.set_map)
    then show ?thesis by auto
  qed
  moreover have "int per = (if perChunk \<le> 0 then defaultCallbackMaxIdsPerChunk else perChunk)"
    by (simp add: per_def defaultCallbackMaxIdsPerChunk_def)
  moreover have "cd_chunks d = int n \<and> cd_item_count d = length (cd_items d)" if "d \<in> set ds" for d
    using that unfolding assms(2) cycleDeliveries_def Let_def per_def [symmetric] items_def [symmetric] n_def [symmetric]
    by (auto simp: new_delivery_def)
  ultimately show ?thesis unfolding list_all_iff len by metis
qed

theorem completion_callbacks_reassemble_witness:
  "reassemble (cycleDeliveries 7 [''a'', ''b'', ''c''] [''e''] 2) = ([''a'', ''b'', ''c''], [''e''])"
  using completion_callbacks_reassemble [of "[''e'']" "cycleDeliveries 7 [''a'', ''b'', ''c''] [''e''] 2" 7 "[''a'', ''b'', ''c'']" 2] by simp

section \<open>The warning before the fact\<close>

lemma at_risk_group_items:
  assumes "0 < per"
  shows "concat (map cd_items (at_risk_group cid summary cs per rc)) = map at_risk_item (filter (\<lambda>c. fc_rule c = fst rc) cs)"
    "\<forall>d \<in> set (at_risk_group cid summary cs per rc). cd_cause d = snd rc \<and> cd_at_risk d = Some summary \<and> length (cd_items d) \<le> per"
proof -
  let ?items = "map at_risk_item (filter (\<lambda>c. fc_rule c = fst rc) cs)"
  have "concat (map (\<lambda>i. take per (drop (i * per) ?items)) [0..<(length ?items + per - 1) div per]) = ?items"
    using ceiling_covers [OF assms, of "length ?items"] by (simp only: concat_slices take_all_iff)
  then show "concat (map cd_items (at_risk_group cid summary cs per rc)) = ?items"
    unfolding at_risk_group_def Let_def slice_is_chunk by (simp add: new_delivery_def comp_def)
  show "\<forall>d \<in> set (at_risk_group cid summary cs per rc). cd_cause d = snd rc \<and> cd_at_risk d = Some summary \<and> length (cd_items d) \<le> per"
    unfolding at_risk_group_def Let_def slice_is_chunk by (auto simp: new_delivery_def)
qed

definition at_risk_causes :: "(ForgetRule \<times> DeleteCause) list" where
  "at_risk_causes = [(ForgetRuleConsolidation, CauseConsolidation), (ForgetRuleEviction, CauseEviction), (ForgetRuleExpiry, CauseExpiry)]"

lemma filter_group:
  assumes "\<forall>d \<in> set (at_risk_group cid summary cs per rc). cd_cause d = snd rc"
  shows "filter (\<lambda>d. cd_cause d = c) (at_risk_group cid summary cs per rc) = (if snd rc = c then at_risk_group cid summary cs per rc else [])"
  using assms by (auto simp: filter_id_conv filter_empty_conv)

text \<open>
  A receiver can reassemble the warning: for each of the three causes the deliveries under that
  cause, put together, are exactly the sampled candidates of that rule in the sample's order
  (lowest value first), none lost and none repeated; every delivery repeats the summary and none
  carries more items than the chunk size.
\<close>

theorem at_risk_callbacks_reassemble:
  assumes "(rl, cse) \<in> set at_risk_causes" "ds = atRiskDeliveries cid summary cs perChunk"
  shows "concat (map cd_items (filter (\<lambda>d. cd_cause d = cse) ds)) = map at_risk_item (filter (\<lambda>c. fc_rule c = rl) cs)
    \<and> list_all (\<lambda>d. cd_at_risk d = Some summary
          \<and> int (length (cd_items d)) \<le> (if perChunk \<le> 0 then defaultCallbackMaxIdsPerChunk else perChunk)) ds"
proof -
  define per where "per = nat (if perChunk \<le> 0 then defaultCallbackMaxIdsPerChunk else perChunk)"
  have p: "0 < per" by (simp add: per_def defaultCallbackMaxIdsPerChunk_def)
  have ds: "ds = concat (map (at_risk_group cid summary cs per) at_risk_causes)"
    unfolding assms(2) atRiskDeliveries_def Let_def per_def at_risk_causes_def ..
  note G = at_risk_group_items [OF p, of cid summary cs]
  have f: "filter (\<lambda>d. cd_cause d = c) (at_risk_group cid summary cs per rc) = (if snd rc = c then at_risk_group cid summary cs per rc else [])" for c rc
    using G(2) by (intro filter_group) blast
  have "concat (map cd_items (filter (\<lambda>d. cd_cause d = cse) ds)) = map at_risk_item (filter (\<lambda>c. fc_rule c = rl) cs)"
    using assms(1) by (auto simp: ds at_risk_causes_def f G(1))
  moreover have "list_all (\<lambda>d. cd_at_risk d = Some summary \<and> length (cd_items d) \<le> per) ds"
    using G(2) by (auto simp: ds list_all_iff)
  ultimately show ?thesis by (auto simp: list_all_iff per_def defaultCallbackMaxIdsPerChunk_def)
qed

theorem at_risk_callbacks_reassemble_witness:
  "concat (map cd_items (filter (\<lambda>d. cd_cause d = CauseEviction) (atRiskDeliveries 7
      \<lparr>ar_consolidating = 1, ar_evicting = 2, ar_events = 0, ar_bytes = 30, ar_threshold = 1, ar_at_risk_threshold = 1,
       ar_capacity_pressure = 1, ar_truncated = False\<rparr>
      (map (\<lambda>(i, rl). \<lparr>fc_id = i, fc_event_id = [], fc_group = [], fc_significance = 0, fc_value = 1, fc_bytes = 10, fc_external_bytes = 0,
         fc_rule = rl, fc_timestamp = 1, fc_time_recalled = 0, fc_recall_count = 0\<rparr>)
       [(''a'', ForgetRuleEviction), (''b'', ForgetRuleConsolidation), (''c'', ForgetRuleEviction)]) 1)))
   = map (\<lambda>i. \<lparr>ci_id = i, ci_event_id = [], ci_group = [], ci_significance = 0, ci_bytes = 10, ci_value = 1, ci_body = [],
         ci_body_omitted = False\<rparr>) [''a'', ''c'']"
  by (subst at_risk_callbacks_reassemble [where rl = ForgetRuleEviction, OF _ refl, THEN conjunct1])
    (simp_all add: at_risk_causes_def at_risk_item_def)

text \<open>
  The warning never mentions expiry: the scan behind it runs with no expiry cutoff, so of the three
  groups the third is always empty, and a memory the next cycle is about to expire is warned of as
  another rule's or not at all.
\<close>

lemma at_risk_never_warns_of_expiry:
  assumes "\<And>xs. mset (sort_candidates (at_risk_sorts env) xs) = mset xs" "d \<in> set (at_risk_deliveries sc env st)"
  shows "cd_cause d \<noteq> CauseExpiry"
proof
  assume e: "cd_cause d = CauseExpiry"
  obtain ds0 summary p where D: "d \<in> set (atRiskDeliveries (ce_started env) summary (Candidates p) (callbackChunkIds sc))"
    "PreviewConsolidation (sc_db sc) (at_risk_sorts env) (at_risk_fails env)
       (previewDecider (sc_consolidation sc) (ce_started env) (ds_pressure ds0 * (1 + callbackAtRiskMargin sc)) (ds_default ds0))
       (at_risk_options (sc_consolidation sc) (callbackAtRiskLimit sc) ds0) (sv_db st) = Inr p"
    using assms(2) by (auto simp: at_risk_deliveries_def Let_def split: sum.splits if_splits)
  have "fc_rule f \<noteq> ForgetRuleExpiry" if "f \<in> set (Candidates p)" for f
    by (rule no_cutoff_no_expiry [OF D(2) _ assms(1) that]) (simp add: at_risk_options_def)
  then have none: "filter (\<lambda>f. fc_rule f = ForgetRuleExpiry) (Candidates p) = []" by (auto simp: filter_empty_conv)
  define per where "per = nat (if callbackChunkIds sc \<le> 0 then defaultCallbackMaxIdsPerChunk else callbackChunkIds sc)"
  have pos: "0 < per" by (simp add: per_def defaultCallbackMaxIdsPerChunk_def)
  let ?g = "at_risk_group (ce_started env) summary (Candidates p) per"
  have "d \<in> set (?g (ForgetRuleConsolidation, CauseConsolidation)) \<union> set (?g (ForgetRuleEviction, CauseEviction))"
    using D(1) none by (auto simp: atRiskDeliveries_def per_def Let_def at_risk_group_def [of _ _ _ _ "(ForgetRuleExpiry, CauseExpiry)"])
  with e at_risk_group_items(2) [OF pos] show False by (metis DeleteCause.distinct Un_iff snd_conv)
qed

end
