(* ===== verification/Object_Reaper.thy ===== *)
theory Object_Reaper
  imports Explain Sleep_Cycle
begin

text \<open>
  The retention controller of an object store (\<^verbatim>\<open>integrations/objectstore\<close>): objects whose pointer memories the store has
  forgotten are deleted. The mapping between objects and memory ids (\<^verbatim>\<open>keymap/keymap.go\<close>), the client that asks the store what
  it holds and reads the forgotten log (\<^verbatim>\<open>client/memories.go\<close>, over the handlers of \<^verbatim>\<open>hippocampus/explain.go\<close> and
  \<^verbatim>\<open>hippocampus/forgotten.go\<close>), the reaper, the sweep of the bucket and the catch-up on the log (\<^verbatim>\<open>reap/\<close>). Each call to the
  store meets a server state of its own, so the store may change between two calls, and may fail; which deletions and listings of
  the bucket fail is a parameter.
\<close>

section \<open>Object keys\<close>

text \<open>The value of the rune of the given width a string starts with, and the runes a \<^verbatim>\<open>range\<close> loop visits.\<close>

definition rune_value :: "nat \<Rightarrow> string \<Rightarrow> nat" where
  "rune_value n s =
     (let b = (\<lambda>i. byte (s ! i))
      in if n = 1 then b 0
         else if n = 2 then (b 0 mod 32) * 64 + b 1 mod 64
         else if n = 3 then (b 0 mod 16) * 4096 + (b 1 mod 64) * 64 + b 2 mod 64
         else (b 0 mod 8) * 262144 + (b 1 mod 64) * 4096 + (b 2 mod 64) * 64 + b 3 mod 64)"

function runes :: "string \<Rightarrow> nat list" where
  "runes s = (if s = [] then []
     else case rune_width s of None \<Rightarrow> 0xFFFD # runes (tl s) | Some n \<Rightarrow> rune_value n s # runes (drop n s))"
  by pat_completeness auto
termination
  by (relation "measure length") (auto dest: rune_width_pos)

definition validText :: "string \<Rightarrow> bool" where
  "validText s \<longleftrightarrow> ValidString s \<and> list_all (\<lambda>r. \<not> (r < 0x20 \<or> r = 0x7F)) (runes s)"

definition validBucket :: "string \<Rightarrow> bool" where
  "validBucket bucket \<longleftrightarrow> bucket \<noteq> [] \<and> CHR ''/'' \<notin> set bucket \<and> validText bucket"

definition validKey :: "string \<Rightarrow> bool" where
  "validKey key \<longleftrightarrow> key \<noteq> [] \<and> validText key"

text \<open>The only error is \<^verbatim>\<open>ErrUnmappable\<close>, the value \<open>None\<close>.\<close>

definition MemoryId :: "string \<Rightarrow> string \<Rightarrow> ident option" where
  "MemoryId bucket key =
     (if \<not> validBucket bucket then None
      else if \<not> validKey key then None
      else let i = bucket @ ''/'' @ key in if length i > MaxIdBytes then None else Some i)"

definition cut_at :: "char \<Rightarrow> string \<Rightarrow> (string \<times> string) option" where
  "cut_at c s = (if c \<in> set s then Some (takeWhile (\<lambda>x. x \<noteq> c) s, tl (dropWhile (\<lambda>x. x \<noteq> c) s)) else None)"

definition Object :: "ident \<Rightarrow> (string \<times> string) option" where
  "Object i =
     (case cut_at CHR ''/'' i of
        None \<Rightarrow> None
      | Some (bucket, key) \<Rightarrow>
          if \<not> validBucket bucket then None
          else if \<not> validKey key then None
          else if length i > MaxIdBytes then None
          else Some (bucket, key))"

definition Mappable :: "string \<Rightarrow> string \<Rightarrow> bool" where
  "Mappable bucket key \<longleftrightarrow> MemoryId bucket key \<noteq> None"

lemma MemoryId_Some: "MemoryId b k = Some i \<longleftrightarrow> validBucket b \<and> validKey k \<and> length i \<le> MaxIdBytes \<and> i = b @ ''/'' @ k"
  by (auto simp: MemoryId_def Let_def split: if_splits)

lemma Object_Some: "Object i = Some (b, k) \<longleftrightarrow> MemoryId b k = Some i"
proof -
  have cut: "cut_at CHR ''/'' i = Some (b, k) \<longleftrightarrow> i = b @ ''/'' @ k" if "CHR ''/'' \<notin> set b"
  proof
    assume "cut_at CHR ''/'' i = Some (b, k)"
    then have m: "CHR ''/'' \<in> set i" and b: "b = takeWhile (\<lambda>x. x \<noteq> CHR ''/'') i" and k: "k = tl (dropWhile (\<lambda>x. x \<noteq> CHR ''/'') i)"
      by (auto simp: cut_at_def split: if_splits)
    have ne: "dropWhile (\<lambda>x. x \<noteq> CHR ''/'') i \<noteq> []" using m by (auto simp: dropWhile_eq_Nil_conv)
    have "hd (dropWhile (\<lambda>x. x \<noteq> CHR ''/'') i) = CHR ''/''" using hd_dropWhile [OF ne] by blast
    then have "dropWhile (\<lambda>x. x \<noteq> CHR ''/'') i = CHR ''/'' # k" using ne k by (cases "dropWhile (\<lambda>x. x \<noteq> CHR ''/'') i") simp_all
    then show "i = b @ ''/'' @ k" using b takeWhile_dropWhile_id [of "\<lambda>x. x \<noteq> CHR ''/''" i] by simp
  next
    assume "i = b @ ''/'' @ k"
    moreover have "takeWhile (\<lambda>x. x \<noteq> CHR ''/'') (b @ ''/'' @ k) = b" "dropWhile (\<lambda>x. x \<noteq> CHR ''/'') (b @ ''/'' @ k) = ''/'' @ k"
      using that by (induction b) auto
    ultimately show "cut_at CHR ''/'' i = Some (b, k)" by (simp add: cut_at_def)
  qed
  have "Object i = Some (b, k) \<longleftrightarrow> cut_at CHR ''/'' i = Some (b, k) \<and> validBucket b \<and> validKey k \<and> length i \<le> MaxIdBytes"
    by (auto simp: Object_def split: option.splits if_splits)
  then show ?thesis using cut by (auto simp: MemoryId_Some validBucket_def)
qed

text \<open>
  C20. The mapping between objects and memories is a bijection between the mappable objects and the ids that name one: the id of an
  object names that object, an id that names an object is that object's id, and two objects never share an id, wherever the slashes
  in their keys stand.
\<close>

theorem object_ids_round_trip:
  "(Object i = Some (b, k) \<longleftrightarrow> MemoryId b k = Some i) \<and> (Mappable b k \<longrightarrow> (\<exists>j. MemoryId b k = Some j \<and> Object j = Some (b, k)))
    \<and> (MemoryId b k = Some i \<and> MemoryId b' k' = Some i \<longrightarrow> b = b' \<and> k = k')"
proof -
  have "b = b' \<and> k = k'" if "MemoryId b k = Some i" "MemoryId b' k' = Some i"
    using that by (simp add: Object_Some [symmetric])
  then show ?thesis by (auto simp: Object_Some Mappable_def)
qed

section \<open>What the store holds\<close>

datatype held_error = ErrConsolidationDisabled | AskFailed rpc_error

type_synonym HeldReader = "ident list \<Rightarrow> held_error + (ident \<Rightarrow> bool)"

text \<open>One call of the client: the handler's environment and the server state it meets, or the failure of the connection.\<close>

record call =
  cl_transport :: "rpc_error option"
  cl_env :: explain_env
  cl_ctx :: request_ctx
  cl_state :: server_state
  cl_cache :: "(decisionState \<times> nanos) option"

definition explainChunkSize :: nat where "explainChunkSize = 200"

definition heldChunk :: "sleep_config \<Rightarrow> call \<Rightarrow> ident list \<Rightarrow> (ident \<Rightarrow> bool) \<Rightarrow> held_error + (ident \<Rightarrow> bool)" where
  "heldChunk sc cl ids h =
     (let response = (case cl_transport cl of
            Some e \<Rightarrow> Inl e
          | None \<Rightarrow> fst (ExplainConsolidation sc (cl_env cl) (cl_ctx cl) ids None (cl_state cl) (cl_cache cl)))
      in case response of
           Inl e \<Rightarrow> if e = FailedPrecondition then Inl ErrConsolidationDisabled else Inl (AskFailed e)
         | Inr r \<Rightarrow> Inr (\<lambda>i. h i \<or> i \<in> set (map mv_id (xr_valuations r))))"

fun held_chunks :: "sleep_config \<Rightarrow> (nat \<Rightarrow> call) \<Rightarrow> nat \<Rightarrow> ident list list \<Rightarrow> (ident \<Rightarrow> bool) \<Rightarrow> held_error + (ident \<Rightarrow> bool)" where
  "held_chunks sc calls n [] h = Inr h"
| "held_chunks sc calls n (ids # rest) h =
     (case heldChunk sc (calls n) ids h of Inl e \<Rightarrow> Inl e | Inr h' \<Rightarrow> held_chunks sc calls (Suc n) rest h')"

definition Memories_Held :: "sleep_config \<Rightarrow> (nat \<Rightarrow> call) \<Rightarrow> HeldReader" where
  "Memories_Held sc calls ids = held_chunks sc calls 0 (chunks explainChunkSize ids) (\<lambda>_. False)"

section \<open>The reaper\<close>

text \<open>A bucket: its name and its objects, each a key and the time it was last modified.\<close>

record object_store =
  os_bucket :: string
  os_objects :: "(string \<times> nanos) list"

definition store_delete :: "(string \<Rightarrow> bool) \<Rightarrow> string \<Rightarrow> object_store \<Rightarrow> object_store option" where
  "store_delete fails key st = (if fails key then None else Some (st\<lparr>os_objects := filter (\<lambda>ob. fst ob \<noteq> key) (os_objects st)\<rparr>))"

type_synonym Causes = "string set"

definition DefaultCauses :: "string list" where
  "DefaultCauses = [''consolidation'', ''eviction'', ''expiry'', ''cascade'']"

definition known :: "string \<Rightarrow> bool" where
  "known c \<longleftrightarrow> c \<in> {''consolidation'', ''eviction'', ''expiry'', ''cascade'', ''client'', ''clear'', ''summary_replace'', ''purge''}"

fun split_on :: "char \<Rightarrow> string \<Rightarrow> string list" where
  "split_on c [] = [[]]"
| "split_on c (x # xs) = (if x = c then [] # split_on c xs else (case split_on c xs of y # ys \<Rightarrow> (x # y) # ys))"

fun add_causes :: "string list \<Rightarrow> Causes \<Rightarrow> string + Causes" where
  "add_causes [] cs = Inr cs"
| "add_causes (v # vs) cs = (if \<not> known (trim_space v) then Inl v else add_causes vs (insert (trim_space v) cs))"

definition NewCauses :: "string \<Rightarrow> string + Causes" where
  "NewCauses l = (if trim_space l = [] then Inr (set DefaultCauses) else add_causes (split_on CHR '','' l) {})"

definition Acts :: "Causes \<Rightarrow> string \<Rightarrow> bool" where
  "Acts cs c = (if c = [] then ''consolidation'' \<in> cs else c \<in> cs)"

record Reaper =
  rp_delete :: bool
  rp_causes :: Causes

definition New_reaper :: "bool \<Rightarrow> Causes \<Rightarrow> Reaper" where
  "New_reaper del cs = \<lparr>rp_delete = del, rp_causes = (if cs = {} then set DefaultCauses else cs)\<rparr>"

record Result =
  rs_Held :: nat
  rs_Deleted :: nat
  rs_Shadowed :: nat
  rs_Foreign :: nat
  rs_Unmappable :: nat
  rs_Failed :: nat

definition no_result :: Result where
  "no_result = \<lparr>rs_Held = 0, rs_Deleted = 0, rs_Shadowed = 0, rs_Foreign = 0, rs_Unmappable = 0, rs_Failed = 0\<rparr>"

definition Result_Add :: "Result \<Rightarrow> Result \<Rightarrow> Result" where
  "Result_Add r o' = \<lparr>rs_Held = rs_Held r + rs_Held o', rs_Deleted = rs_Deleted r + rs_Deleted o', rs_Shadowed = rs_Shadowed r + rs_Shadowed o',
     rs_Foreign = rs_Foreign r + rs_Foreign o', rs_Unmappable = rs_Unmappable r + rs_Unmappable o', rs_Failed = rs_Failed r + rs_Failed o'\<rparr>"

definition objectFor :: "string \<Rightarrow> ident \<Rightarrow> Result \<Rightarrow> string option \<times> Result" where
  "objectFor own i r =
     (case Object i of
        None \<Rightarrow> (None, r\<lparr>rs_Unmappable := rs_Unmappable r + 1\<rparr>)
      | Some (bucket, key) \<Rightarrow>
          if bucket \<noteq> own then (None, r\<lparr>rs_Foreign := rs_Foreign r + 1\<rparr>) else (Some key, r))"

datatype reap_error = AskError held_error | DeletesFailed nat nat | ListFailed | LogFailed rpc_error

definition reap_one :: "Reaper \<Rightarrow> (string \<Rightarrow> bool) \<Rightarrow> ident \<Rightarrow> Result \<times> nat \<times> object_store \<Rightarrow> Result \<times> nat \<times> object_store" where
  "reap_one rp fails i acc =
     (let (r, failures, st) = acc
      in case objectFor (os_bucket st) i r of
           (None, r') \<Rightarrow> (r', failures, st)
         | (Some key, r') \<Rightarrow>
             if \<not> rp_delete rp then (r'\<lparr>rs_Shadowed := rs_Shadowed r' + 1\<rparr>, failures, st)
             else case store_delete fails key st of
                    None \<Rightarrow> (r'\<lparr>rs_Failed := rs_Failed r' + 1\<rparr>, failures + 1, st)
                  | Some st' \<Rightarrow> (r'\<lparr>rs_Deleted := rs_Deleted r' + 1\<rparr>, failures, st'))"

definition Reap :: "Reaper \<Rightarrow> (string \<Rightarrow> bool) \<Rightarrow> ident list \<Rightarrow> object_store \<Rightarrow> Result \<times> reap_error option \<times> object_store" where
  "Reap rp fails ids st =
     (let (r, failures, st') = fold (reap_one rp fails) ids (no_result, 0, st)
      in (r, if failures > 0 then Some (DeletesFailed failures (length ids)) else None, st'))"

definition ReapForgotten :: "Reaper \<Rightarrow> (string \<Rightarrow> bool) \<Rightarrow> HeldReader \<Rightarrow> ident list \<Rightarrow> object_store \<Rightarrow> Result \<times> reap_error option \<times> object_store" where
  "ReapForgotten rp fails reader ids st =
     (if ids = [] then (no_result, None, st)
      else case reader ids of
             Inl e \<Rightarrow> (no_result, Some (AskError e), st)
           | Inr h \<Rightarrow>
               let gone = filter (\<lambda>i. \<not> h i) ids;
                   stillHeld = length (filter h ids);
                   (r, e, st') = Reap rp fails gone st
               in (r\<lparr>rs_Held := stillHeld\<rparr>, e, st'))"

section \<open>The sweep\<close>

definition defaultSweepMinAge :: nanos where "defaultSweepMinAge = 24 * 3600 * 1000000000"

definition defaultSweepBatch :: int where "defaultSweepBatch = 200"

record Sweep =
  sw_minAge :: nanos
  sw_prefix :: string
  sw_batchSize :: nat

definition NewSweep :: "nanos \<Rightarrow> string \<Rightarrow> int \<Rightarrow> Sweep" where
  "NewSweep minAge pre wanted =
     \<lparr>sw_minAge = (if minAge \<le> 0 then defaultSweepMinAge else minAge), sw_prefix = pre,
      sw_batchSize = nat (if wanted \<le> 0 \<or> wanted > defaultSweepBatch then defaultSweepBatch else wanted)\<rparr>"

definition judge :: "Reaper \<Rightarrow> (string \<Rightarrow> bool) \<Rightarrow> HeldReader \<Rightarrow> ident list \<Rightarrow> object_store \<Rightarrow> Result \<times> reap_error option \<times> object_store" where
  "judge rp fails reader ids st =
     (case reader ids of
        Inl e \<Rightarrow> (no_result, Some (AskError e), st)
      | Inr h \<Rightarrow> Reap rp fails (filter (\<lambda>i. \<not> h i) ids) st)"

record sweep_state =
  ss_Examined :: nat
  ss_Skipped :: nat
  ss_Result :: Result
  ss_batch :: "ident list"
  ss_calls :: nat
  ss_store :: object_store

definition judge_batch :: "Reaper \<Rightarrow> (string \<Rightarrow> bool) \<Rightarrow> (nat \<Rightarrow> HeldReader) \<Rightarrow> sweep_state \<Rightarrow> reap_error option \<times> sweep_state" where
  "judge_batch rp fails reader ss =
     (if ss_batch ss = [] then (None, ss)
      else let (r, e, st') = judge rp fails (reader (ss_calls ss)) (ss_batch ss) (ss_store ss)
           in (e, ss\<lparr>ss_Result := Result_Add (ss_Result ss) r, ss_batch := [], ss_calls := ss_calls ss + 1, ss_store := st'\<rparr>))"

definition sweep_object :: "Sweep \<Rightarrow> Reaper \<Rightarrow> (string \<Rightarrow> bool) \<Rightarrow> (nat \<Rightarrow> HeldReader) \<Rightarrow> nanos \<Rightarrow> string \<times> nanos \<Rightarrow> sweep_state
    \<Rightarrow> reap_error option \<times> sweep_state" where
  "sweep_object sw rp fails reader cutoff ob ss0 =
     (let ss = ss0\<lparr>ss_Examined := ss_Examined ss0 + 1\<rparr>
      in case MemoryId (os_bucket (ss_store ss)) (fst ob) of
           None \<Rightarrow> (None, ss\<lparr>ss_Skipped := ss_Skipped ss + 1\<rparr>)
         | Some i \<Rightarrow>
             if snd ob > cutoff then (None, ss\<lparr>ss_Skipped := ss_Skipped ss + 1\<rparr>)
             else let ss' = ss\<lparr>ss_batch := ss_batch ss @ [i]\<rparr>
                  in if length (ss_batch ss') < sw_batchSize sw then (None, ss') else judge_batch rp fails reader ss')"

fun each_object :: "('o \<Rightarrow> 's \<Rightarrow> 'e option \<times> 's) \<Rightarrow> 'o list \<Rightarrow> 's \<Rightarrow> 'e option \<times> 's" where
  "each_object fn [] s = (None, s)"
| "each_object fn (ob # obs) s = (case fn ob s of (Some e, s') \<Rightarrow> (Some e, s') | (None, s') \<Rightarrow> each_object fn obs s')"

text \<open>The listing visits the keys under the prefix in order; it fails after some of them, or not at all.\<close>

definition listed :: "string \<Rightarrow> object_store \<Rightarrow> (string \<times> nanos) list" where
  "listed pre st = sort_key fst (filter (\<lambda>ob. take (length pre) (fst ob) = pre) (os_objects st))"

definition List_objects :: "nat option \<Rightarrow> string \<Rightarrow> object_store \<Rightarrow> (string \<times> nanos \<Rightarrow> 's \<Rightarrow> reap_error option \<times> 's) \<Rightarrow> 's \<Rightarrow> reap_error option \<times> 's" where
  "List_objects stops pre st fn s =
     (case stops of
        None \<Rightarrow> each_object fn (listed pre st) s
      | Some n \<Rightarrow> (case each_object fn (take n (listed pre st)) s of (None, s') \<Rightarrow> (Some ListFailed, s') | r \<Rightarrow> r))"

definition Sweep_Run :: "Sweep \<Rightarrow> Reaper \<Rightarrow> (string \<Rightarrow> bool) \<Rightarrow> nat option \<Rightarrow> (nat \<Rightarrow> HeldReader) \<Rightarrow> nanos \<Rightarrow> object_store \<Rightarrow> reap_error option \<times> sweep_state" where
  "Sweep_Run sw rp fails stops reader started st =
     (let cutoff = started - sw_minAge sw;
          ss0 = \<lparr>ss_Examined = 0, ss_Skipped = 0, ss_Result = no_result, ss_batch = [], ss_calls = 0, ss_store = st\<rparr>
      in case List_objects stops (sw_prefix sw) st (sweep_object sw rp fails reader cutoff) ss0 of
           (Some e, ss) \<Rightarrow> (Some e, ss)
         | (None, ss) \<Rightarrow> judge_batch rp fails reader ss)"

section \<open>The forgotten log\<close>

record forgotten_response =
  fr_memories :: "ForgottenMemory list"
  fr_total :: nat
  fr_enabled :: bool
  fr_next_seq :: int

text \<open>One reading of the log: the caller, the log it meets, and what fails.\<close>

record log_call =
  lc_transport :: "rpc_error option"
  lc_ctx :: request_ctx
  lc_enabled :: bool
  lc_get_fails :: "write_error option"
  lc_count_fails :: "write_error option"
  lc_log :: "ForgottenMemory list"

definition rpc_GetForgottenMemories :: "log_call \<Rightarrow> ForgottenFilter \<Rightarrow> rpc_error + forgotten_response" where
  "rpc_GetForgottenMemories lc req =
     (let groups = (case GroupsFromContext (lc_ctx lc) of None \<Rightarrow> [] | Some gs \<Rightarrow> gs);
          forgotten = GetForgottenMemories (req\<lparr>ff_groups := groups\<rparr>) (lc_log lc)
      in case lc_get_fails lc of
           Some e \<Rightarrow> Inl (mapError e)
         | None \<Rightarrow> (case lc_count_fails lc of
               Some e \<Rightarrow> Inl (mapError e)
             | None \<Rightarrow> Inr \<lparr>fr_memories = forgotten, fr_total = CountForgottenMemories groups (lc_log lc), fr_enabled = lc_enabled lc,
                 fr_next_seq = (if int (length forgotten) = ForgottenLimit (ff_limit req) then f_seq (last forgotten) else 0)\<rparr>))"

definition forgottenPageSize :: int where "forgottenPageSize = 500"

definition forgottenPage :: "log_call \<Rightarrow> ForgottenFilter \<Rightarrow> reap_error + forgotten_response" where
  "forgottenPage lc req =
     (case lc_transport lc of
        Some e \<Rightarrow> Inl (LogFailed e)
      | None \<Rightarrow> (case rpc_GetForgottenMemories lc req of Inl e \<Rightarrow> Inl (LogFailed e) | Inr r \<Rightarrow> Inr r))"

partial_function (option) forgotten_pages :: "(nat \<Rightarrow> log_call) \<Rightarrow> (ForgottenMemory list \<Rightarrow> 's \<Rightarrow> reap_error option \<times> 's) \<Rightarrow> nat \<Rightarrow> ForgottenFilter
    \<Rightarrow> bool \<Rightarrow> 's \<Rightarrow> (bool \<times> reap_error option \<times> 's) option" where
  "forgotten_pages logs fn n req enabled s =
     (case forgottenPage (logs n) req of
        Inl e \<Rightarrow> Some (enabled, Some e, s)
      | Inr pg \<Rightarrow>
          (case (if fr_memories pg \<noteq> [] then fn (fr_memories pg) s else (None, s)) of
             (Some e, s') \<Rightarrow> Some (fr_enabled pg, Some e, s')
           | (None, s') \<Rightarrow>
               if fr_next_seq pg = 0 then Some (fr_enabled pg, None, s')
               else forgotten_pages logs fn (Suc n) (req\<lparr>ff_after_seq := fr_next_seq pg\<rparr>) (fr_enabled pg) s'))"

definition log_request :: "nanos \<Rightarrow> ForgottenFilter" where
  "log_request since = \<lparr>ff_memory_id = [], ff_event_id = [], ff_group = [], ff_rule = ForgetRuleNone, ff_since = since, ff_until = 0,
     ff_after_seq = 0, ff_limit = forgottenPageSize, ff_groups = []\<rparr>"

definition Memories_Forgotten :: "(nat \<Rightarrow> log_call) \<Rightarrow> nanos \<Rightarrow> (ForgottenMemory list \<Rightarrow> 's \<Rightarrow> reap_error option \<times> 's) \<Rightarrow> 's
    \<Rightarrow> (bool \<times> reap_error option \<times> 's) option" where
  "Memories_Forgotten logs since fn s = forgotten_pages logs fn 0 (log_request since) False s"

definition rule_cause :: "ForgetRule \<Rightarrow> string" where
  "rule_cause r = (case r of ForgetRuleConsolidation \<Rightarrow> ''consolidation'' | ForgetRuleEviction \<Rightarrow> ''eviction'' | ForgetRuleExpiry \<Rightarrow> ''expiry'' | ForgetRuleNone \<Rightarrow> [])"

definition actionable :: "Reaper \<Rightarrow> ForgottenMemory list \<Rightarrow> ident list" where
  "actionable rp pg = map f_id (filter (\<lambda>v. Acts (rp_causes rp) (rule_cause (f_rule v))) pg)"

record catch_up_state =
  cu_total :: Result
  cu_calls :: nat
  cu_store :: object_store

definition catch_up_page :: "Reaper \<Rightarrow> (string \<Rightarrow> bool) \<Rightarrow> (nat \<Rightarrow> HeldReader) \<Rightarrow> ForgottenMemory list \<Rightarrow> catch_up_state \<Rightarrow> reap_error option \<times> catch_up_state" where
  "catch_up_page rp fails reader pg cu =
     (let (r, e, st') = ReapForgotten rp fails (reader (cu_calls cu)) (actionable rp pg) (cu_store cu)
      in (e, \<lparr>cu_total = Result_Add (cu_total cu) r, cu_calls = cu_calls cu + 1, cu_store = st'\<rparr>))"

definition CatchUp_Run :: "nanos \<Rightarrow> Reaper \<Rightarrow> (string \<Rightarrow> bool) \<Rightarrow> (nat \<Rightarrow> HeldReader) \<Rightarrow> (nat \<Rightarrow> log_call) \<Rightarrow> nanos \<Rightarrow> object_store
    \<Rightarrow> (reap_error option \<times> catch_up_state) option" where
  "CatchUp_Run window rp fails reader logs now st =
     (let cu0 = \<lparr>cu_total = no_result, cu_calls = 0, cu_store = st\<rparr>
      in if window \<le> 0 then Some (None, cu0)
         else map_option (\<lambda>(enabled, e, cu). (e, cu)) (Memories_Forgotten logs (now - window) (catch_up_page rp fails reader) cu0))"

section \<open>What is deleted\<close>

text \<open>An object the reaper deletes when told of these ids: armed, in its own bucket, and the bucket lets it go.\<close>

definition reaped :: "Reaper \<Rightarrow> (string \<Rightarrow> bool) \<Rightarrow> string \<Rightarrow> ident set \<Rightarrow> string \<Rightarrow> bool" where
  "reaped rp fails bucket ids key \<longleftrightarrow> rp_delete rp \<and> \<not> fails key \<and> (\<exists>i \<in> ids. MemoryId bucket key = Some i)"

definition spared :: "(string \<Rightarrow> bool) \<Rightarrow> object_store \<Rightarrow> object_store" where
  "spared gone st = st\<lparr>os_objects := filter (\<lambda>ob. \<not> gone (fst ob)) (os_objects st)\<rparr>"

lemma spared_simps [simp]: "os_bucket (spared gone st) = os_bucket st" "spared (\<lambda>_. False) st = st"
  "spared gone (spared gone' st) = spared (\<lambda>k. gone k \<or> gone' k) st"
  by (simp_all add: spared_def conj_commute)

lemma reaped_simps [simp]: "reaped rp fails b {} key = False"
  "reaped rp fails b (insert i ids) key \<longleftrightarrow> rp_delete rp \<and> \<not> fails key \<and> MemoryId b key = Some i \<or> reaped rp fails b ids key"
  "reaped rp fails b (I \<union> J) key \<longleftrightarrow> reaped rp fails b I key \<or> reaped rp fails b J key"
  by (auto simp: reaped_def)

lemma reaped_funs: "reaped rp fails b (I \<union> J) = (\<lambda>k. reaped rp fails b I k \<or> reaped rp fails b J k)" "reaped rp fails b {} = (\<lambda>_. False)"
  by (simp_all add: fun_eq_iff)

definition counted :: "Result \<Rightarrow> nat" where
  "counted r = rs_Held r + rs_Deleted r + rs_Shadowed r + rs_Foreign r + rs_Unmappable r + rs_Failed r"

lemma reap_one_spares:
  assumes "reap_one rp fails i (r, n, st) = (r', n', st')"
  shows "st' = spared (reaped rp fails (os_bucket st) {i}) st" "counted r' = Suc (counted r)" "n' + rs_Failed r = n + rs_Failed r'"
    "rs_Held r' = rs_Held r"
proof -
  have dd: "reaped rp fails b {i} key \<longleftrightarrow> rp_delete rp \<and> \<not> fails key \<and> Object i = Some (b, key)" for b key
    by (simp add: Object_Some)
  have "st' = spared (reaped rp fails (os_bucket st) {i}) st \<and> counted r' = Suc (counted r) \<and> n' + rs_Failed r = n + rs_Failed r' \<and> rs_Held r' = rs_Held r"
  proof (cases "Object i")
    case None
    then show ?thesis using assms by (auto simp: reap_one_def objectFor_def spared_def counted_def dd simp del: reaped_simps)
  next
    case (Some p)
    then obtain b k where p: "Object i = Some (b, k)" by (cases p) simp
    then have "reaped rp fails (os_bucket st) {i} = (\<lambda>key. rp_delete rp \<and> b = os_bucket st \<and> key = k \<and> \<not> fails k)"
      by (auto simp: fun_eq_iff dd simp del: reaped_simps)
    then show ?thesis using assms p
      by (auto simp: reap_one_def objectFor_def spared_def counted_def store_delete_def simp del: reaped_simps split: if_splits)
  qed
  then show "st' = spared (reaped rp fails (os_bucket st) {i}) st" "counted r' = Suc (counted r)" "n' + rs_Failed r = n + rs_Failed r'"
    "rs_Held r' = rs_Held r" by blast+
qed

lemma reap_fold:
  assumes "fold (reap_one rp fails) ids (r, n, st) = (r', n', st')"
  shows "st' = spared (reaped rp fails (os_bucket st) (set ids)) st \<and> counted r' = counted r + length ids
    \<and> n' + rs_Failed r = n + rs_Failed r' \<and> rs_Held r' = rs_Held r"
  using assms
proof (induction ids arbitrary: r n st)
  case (Cons i ids)
  obtain r1 n1 st1 where 1: "reap_one rp fails i (r, n, st) = (r1, n1, st1)" by (metis prod_cases3)
  note s = reap_one_spares [OF 1]
  from Cons.IH [of r1 n1 st1] Cons.prems 1 have "st' = spared (reaped rp fails (os_bucket st1) (set ids)) st1 \<and> counted r' = counted r1 + length ids
    \<and> n' + rs_Failed r1 = n1 + rs_Failed r' \<and> rs_Held r' = rs_Held r1" by simp
  then show ?case using s by (simp add: disj_commute)
qed (simp add: spared_def)

lemma Reap_spares:
  assumes "Reap rp fails ids st = (r, e, st')"
  shows "st' = spared (reaped rp fails (os_bucket st) (set ids)) st" "counted r = length ids" "rs_Held r = 0" "e = None \<longleftrightarrow> rs_Failed r = 0"
  using assms reap_fold [of rp fails ids no_result 0 st]
  by (auto simp: Reap_def no_result_def counted_def split: prod.splits if_splits)

text \<open>Every id told of is accounted for, and only the ones the reader did not name lose their objects.\<close>

lemma ReapForgotten_spares:
  assumes "ReapForgotten rp fails reader ids st = (r, e, st')"
  shows "st' = st \<and> r = no_result \<and> (ids = [] \<and> e = None \<or> (\<exists>x. reader ids = Inl x \<and> e = Some (AskError x)))
    \<or> (\<exists>h. reader ids = Inr h \<and> st' = spared (reaped rp fails (os_bucket st) {i \<in> set ids. \<not> h i}) st
        \<and> counted r = length ids \<and> (e = None \<longleftrightarrow> rs_Failed r = 0))"
proof (cases "ids = []")
  case False
  show ?thesis
  proof (cases "reader ids")
    case (Inr h)
    obtain q where q: "Reap rp fails (filter (\<lambda>i. \<not> h i) ids) st = (q, e, st')" "r = q\<lparr>rs_Held := length (filter h ids)\<rparr>"
      using assms False Inr by (auto simp: ReapForgotten_def Let_def split: prod.splits)
    have "length (filter h ids) + length (filter (\<lambda>i. \<not> h i) ids) = length ids" by (rule sum_length_filter_compl)
    then show ?thesis using Reap_spares [OF q(1)] q(2) Inr by (auto simp: counted_def)
  qed (use assms False in \<open>auto simp: ReapForgotten_def\<close>)
qed (use assms in \<open>auto simp: ReapForgotten_def\<close>)

section \<open>What the reader promises\<close>

locale held_reader =
  fixes reader :: "'w \<Rightarrow> HeldReader" and always :: "'w \<Rightarrow> ident \<Rightarrow> bool" and ever :: "'w \<Rightarrow> ident \<Rightarrow> bool"
  assumes names_held: "\<lbrakk>reader w ids = Inr h; i \<in> set ids; i \<noteq> []; always w i\<rbrakk> \<Longrightarrow> h i"
    and names_only_held: "\<lbrakk>reader w ids = Inr h; h i\<rbrakk> \<Longrightarrow> ever w i"
begin

lemma exact_reading:
  assumes "reader w ids = Inr h" "i \<in> set ids" "i \<noteq> []" "ever w i \<longrightarrow> always w i"
  shows "h i \<longleftrightarrow> always w i"
  using assms names_held names_only_held by blast

lemma never_reaps_held:
  assumes "MemoryId (os_bucket st) key = Some i" "always w i"
  shows "\<exists>gone. snd (snd (ReapForgotten rp fails (reader w) ids st)) = spared gone st
    \<and> \<not> gone key \<and> (\<forall>k. gone k \<longrightarrow> rp_delete rp \<and> Mappable (os_bucket st) k)"
proof -
  obtain r e st' where R: "ReapForgotten rp fails (reader w) ids st = (r, e, st')" by (metis prod_cases3)
  have "i \<noteq> []" using assms(1) by (auto simp: MemoryId_Some)
  then have "\<not> reaped rp fails (os_bucket st) {j \<in> set ids. \<not> h j} key \<and> (\<forall>k. reaped rp fails (os_bucket st) {j \<in> set ids. \<not> h j} k \<longrightarrow> rp_delete rp \<and> Mappable (os_bucket st) k)"
    if "reader w ids = Inr h" for h
    using that assms names_held by (auto simp: reaped_def Mappable_def)
  note safe = this
  show ?thesis using ReapForgotten_spares [OF R]
  proof (elim disjE exE conjE)
    fix h assume "reader w ids = Inr h" "st' = spared (reaped rp fails (os_bucket st) {j \<in> set ids. \<not> h j}) st"
    then show ?thesis using safe R by auto
  qed (use R in \<open>auto intro!: exI [of _ "\<lambda>_. False"]\<close>)
qed

end

definition present :: "call \<Rightarrow> ident \<Rightarrow> bool" where
  "present cl i \<longleftrightarrow> i \<in> m_id ` set (memories (sv_db (cl_state cl)))"

lemma ExplainConsolidation_names:
  assumes "fst (ExplainConsolidation sc env ctx ids curve st cache) = Inr r"
  shows "set (map mv_id (xr_valuations r)) = {i \<in> set ids. i \<noteq> [] \<and> i \<in> m_id ` set (memories (sv_db st))}"
proof -
  obtain d c2 where "r = explainResponse (sc_consolidation sc) (xe_now env) d (GetMemoryConsolidationCandidates (uniqueIds ids) (sv_db st)) (uniqueIds ids) c2"
    using assms by (fastforce simp: ExplainConsolidation_def Let_def split: if_splits sum.splits prod.splits)
  then have "map mv_id (xr_valuations r) = filter (\<lambda>i. i \<in> m_id ` set (memories (sv_db st))) (uniqueIds ids)"
    by (simp only: explain_names_what_is_held)
  then show ?thesis by (auto simp: uniqueIds_props)
qed

lemma heldChunk_Inr:
  assumes "heldChunk sc cl ids h = Inr h'"
  shows "h' = (\<lambda>i. h i \<or> i \<in> set ids \<and> i \<noteq> [] \<and> present cl i)"
proof -
  obtain r where "fst (ExplainConsolidation sc (cl_env cl) (cl_ctx cl) ids None (cl_state cl) (cl_cache cl)) = Inr r"
      "h' = (\<lambda>i. h i \<or> i \<in> set (map mv_id (xr_valuations r)))"
    using assms by (auto simp: heldChunk_def Let_def split: sum.splits option.splits if_splits)
  then show ?thesis using ExplainConsolidation_names by (auto simp: present_def fun_eq_iff)
qed

lemma held_chunks_Inr:
  assumes "held_chunks sc calls n cs h = Inr h'"
  shows "(\<forall>i. i \<in> set (concat cs) \<and> i \<noteq> [] \<and> (\<forall>k. present (calls k) i) \<longrightarrow> h' i) \<and> (\<forall>i. h i \<longrightarrow> h' i)
    \<and> (\<forall>i. h' i \<longrightarrow> h i \<or> (\<exists>k. present (calls k) i))"
  using assms
proof (induction cs arbitrary: n h)
  case (Cons ids cs)
  obtain h1 where 1: "heldChunk sc (calls n) ids h = Inr h1" "held_chunks sc calls (Suc n) cs h1 = Inr h'"
    using Cons.prems by (auto split: sum.splits)
  from Cons.IH [OF 1(2)] heldChunk_Inr [OF 1(1)] show ?case by auto
qed simp

interpretation store_reader: held_reader "Memories_Held sc" "\<lambda>calls i. \<forall>k. present (calls k) i" "\<lambda>calls i. \<exists>k. present (calls k) i" for sc
proof
  fix calls ids h i
  assume h: "Memories_Held sc calls ids = Inr h"
  note props = held_chunks_Inr [OF h [unfolded Memories_Held_def]]
  have ids: "concat (chunks explainChunkSize ids) = ids" by (simp add: explainChunkSize_def)
  show "h i" if "i \<in> set ids" "i \<noteq> []" "\<forall>k. present (calls k) i" using props that ids by metis
  show "\<exists>k. present (calls k) i" if "h i" using props that by blast
qed

text \<open>An instance that answers: reachable, consolidating, and none of its queries fails for this caller.\<close>

definition answering :: "sleep_config \<Rightarrow> call \<Rightarrow> bool" where
  "answering sc cl \<longleftrightarrow> cl_transport cl = None \<and> consolidating (sc_consolidation sc) (xe_promoted (cl_env cl)) \<and> GroupsFromContext (cl_ctx cl) = None
     \<and> \<not> isl (fst (cachedDecisionSnapshot sc (cl_env cl) (cl_state cl) (cl_cache cl))) \<and> \<not> xe_candidates_fail (cl_env cl)"

lemma answering_chunk:
  assumes "answering sc cl" "length ids \<le> explainChunkSize"
  shows "\<not> isl (heldChunk sc cl ids h)"
proof -
  have "length (uniqueIds ids) = card (set (uniqueIds ids))" by (simp only: distinct_card uniqueIds_props(2))
  also have "\<dots> \<le> card (set ids)" by (rule card_mono) (auto simp: uniqueIds_props)
  also have "\<dots> \<le> length ids" by (rule card_length)
  finally have "\<not> explainMaxMemoryIds < length (uniqueIds ids)" using assms(2) by (simp add: explainMaxMemoryIds_def explainChunkSize_def)
  then show ?thesis using assms(1)
    by (auto simp: answering_def heldChunk_def ExplainConsolidation_def Let_def scopeIds_def curveRequest_def split: sum.splits prod.splits)
qed

lemma answering_reader:
  assumes "\<And>n. answering sc (calls n)"
  shows "\<exists>h. Memories_Held sc calls ids = Inr h"
proof -
  have "\<exists>h'. held_chunks sc calls n cs h = Inr h'" if "\<And>c. c \<in> set cs \<Longrightarrow> length c \<le> explainChunkSize" for n cs h
    using that
  proof (induction cs arbitrary: n h)
    case (Cons c cs)
    have "\<not> isl (heldChunk sc (calls n) c h)" by (rule answering_chunk [OF assms]) (use Cons.prems in auto)
    then obtain h1 where "heldChunk sc (calls n) c h = Inr h1" by (cases "heldChunk sc (calls n) c h") auto
    then show ?case using Cons by simp
  qed simp
  then show ?thesis unfolding Memories_Held_def by (meson chunks_length)
qed

section \<open>The sweep, batch by batch\<close>

lemma each_object_inv:
  assumes "I s" "\<And>ob s. ob \<in> set obs \<Longrightarrow> I s \<Longrightarrow> I (snd (fn ob s))"
  shows "I (snd (each_object fn obs s))"
  using assms
proof (induction obs arbitrary: s)
  case (Cons ob obs)
  have "I (snd (fn ob s))" using Cons.prems by simp
  then show ?case using Cons.IH [of "snd (fn ob s)"] Cons.prems(2) by (auto split: prod.splits option.splits)
qed simp

text \<open>Why an object may have gone: listed, old enough, and not named by a reader that was asked about it.\<close>

definition sweepable :: "(string \<times> nanos) list \<Rightarrow> nanos \<Rightarrow> string \<Rightarrow> bool" where
  "sweepable obs cutoff key \<longleftrightarrow> (\<exists>ob \<in> set obs. fst ob = key \<and> snd ob \<le> cutoff)"

definition orphaned :: "(nat \<Rightarrow> HeldReader) \<Rightarrow> string \<Rightarrow> string \<Rightarrow> bool" where
  "orphaned reader bucket key \<longleftrightarrow> (\<exists>i n ids h. MemoryId bucket key = Some i \<and> reader n ids = Inr h \<and> i \<in> set ids \<and> \<not> h i)"

definition sweep_inv :: "Reaper \<Rightarrow> (string \<Rightarrow> bool) \<Rightarrow> (nat \<Rightarrow> HeldReader) \<Rightarrow> (string \<times> nanos) list \<Rightarrow> nanos \<Rightarrow> object_store \<Rightarrow> sweep_state \<Rightarrow> bool" where
  "sweep_inv rp fails reader obs cutoff st ss \<longleftrightarrow>
     (\<exists>gone. ss_store ss = spared gone st
        \<and> (\<forall>key. gone key \<longrightarrow> rp_delete rp \<and> \<not> fails key \<and> sweepable obs cutoff key \<and> orphaned reader (os_bucket st) key))
     \<and> (\<forall>i \<in> set (ss_batch ss). \<exists>key. MemoryId (os_bucket st) key = Some i \<and> sweepable obs cutoff key)"

lemma judge_spares:
  "judge rp fails rd ids st = (r, e, st') \<Longrightarrow> st' = st \<and> isl (rd ids) \<and> e \<noteq> None
     \<or> (\<exists>h. rd ids = Inr h \<and> st' = spared (reaped rp fails (os_bucket st) {i \<in> set ids. \<not> h i}) st \<and> (e = None \<longleftrightarrow> rs_Failed r = 0))"
  by (cases "rd ids") (auto simp: judge_def dest: Reap_spares)

lemma judge_batch_inv:
  assumes "sweep_inv rp fails reader obs cutoff st ss"
  shows "sweep_inv rp fails reader obs cutoff st (snd (judge_batch rp fails reader ss))"
proof (cases "ss_batch ss = []")
  case False
  obtain r e st' where j: "judge rp fails (reader (ss_calls ss)) (ss_batch ss) (ss_store ss) = (r, e, st')" by (metis prod_cases3)
  obtain gone where g: "ss_store ss = spared gone st"
    "\<And>key. gone key \<Longrightarrow> rp_delete rp \<and> \<not> fails key \<and> sweepable obs cutoff key \<and> orphaned reader (os_bucket st) key"
    using assms by (auto simp: sweep_inv_def)
  have batch: "\<And>i. i \<in> set (ss_batch ss) \<Longrightarrow> \<exists>key. MemoryId (os_bucket st) key = Some i \<and> sweepable obs cutoff key"
    using assms by (auto simp: sweep_inv_def)
  have "\<exists>gone'. st' = spared gone' st \<and> (\<forall>key. gone' key \<longrightarrow> rp_delete rp \<and> \<not> fails key \<and> sweepable obs cutoff key \<and> orphaned reader (os_bucket st) key)"
    using judge_spares [OF j]
  proof (elim disjE conjE exE)
    fix h assume h: "reader (ss_calls ss) (ss_batch ss) = Inr h"
      and st': "st' = spared (reaped rp fails (os_bucket (ss_store ss)) {i \<in> set (ss_batch ss). \<not> h i}) (ss_store ss)"
    have "rp_delete rp \<and> \<not> fails key \<and> sweepable obs cutoff key \<and> orphaned reader (os_bucket st) key"
      if r: "reaped rp fails (os_bucket st) {i \<in> set (ss_batch ss). \<not> h i} key" for key
    proof -
      obtain i where i: "i \<in> set (ss_batch ss)" "\<not> h i" "MemoryId (os_bucket st) key = Some i" using r by (auto simp: reaped_def)
      then have "sweepable obs cutoff key" using batch [OF i(1)] by (auto simp: MemoryId_Some)
      then show ?thesis using r i h by (auto simp: reaped_def orphaned_def)
    qed
    then show ?thesis using st' g by (intro exI [of _ "\<lambda>key. reaped rp fails (os_bucket st) {i \<in> set (ss_batch ss). \<not> h i} key \<or> gone key"]) auto
  qed (use g in blast)
  then show ?thesis using j False by (auto simp: judge_batch_def sweep_inv_def)
qed (use assms in \<open>simp add: judge_batch_def\<close>)

lemma sweep_object_inv:
  assumes "sweep_inv rp fails reader obs cutoff st ss" "ob \<in> set obs"
  shows "sweep_inv rp fails reader obs cutoff st (snd (sweep_object sw rp fails reader cutoff ob ss))"
proof -
  have b: "os_bucket (ss_store ss) = os_bucket st" using assms(1) by (auto simp: sweep_inv_def)
  have up: "sweep_inv rp fails reader obs cutoff st (ss\<lparr>ss_Examined := x, ss_Skipped := y\<rparr>)"
    "sweep_inv rp fails reader obs cutoff st (ss\<lparr>ss_Examined := x\<rparr>)" for x y
    using assms(1) by (simp_all add: sweep_inv_def)
  show ?thesis
  proof (cases "MemoryId (os_bucket st) (fst ob)")
    case (Some i)
    have "sweep_inv rp fails reader obs cutoff st (ss\<lparr>ss_Examined := x, ss_batch := ss_batch ss @ [i]\<rparr>)" if "snd ob \<le> cutoff" for x
      using assms Some that by (auto simp: sweep_inv_def sweepable_def)
    then show ?thesis using Some b up judge_batch_inv by (auto simp: sweep_object_def Let_def not_le)
  qed (use b up in \<open>auto simp: sweep_object_def Let_def\<close>)
qed

lemma sweep_spares:
  assumes "Sweep_Run sw rp fails stops reader started st = (e, ss)"
  shows "sweep_inv rp fails reader (listed (sw_prefix sw) st) (started - sw_minAge sw) st ss"
proof -
  let ?I = "sweep_inv rp fails reader (listed (sw_prefix sw) st) (started - sw_minAge sw) st"
  let ?fn = "sweep_object sw rp fails reader (started - sw_minAge sw)"
  let ?ss = "\<lparr>ss_Examined = 0, ss_Skipped = 0, ss_Result = no_result, ss_batch = [], ss_calls = 0, ss_store = st\<rparr>"
  have I0: "?I ?ss" by (auto simp: sweep_inv_def intro!: exI [of _ "\<lambda>_. False"])
  have each: "?I (snd (each_object ?fn obs ?ss))" if "set obs \<subseteq> set (listed (sw_prefix sw) st)" for obs
    by (rule each_object_inv [where I = ?I, OF I0]) (use that in \<open>auto intro!: sweep_object_inv\<close>)
  have "?I (snd (List_objects stops (sw_prefix sw) st ?fn ?ss))"
  proof (cases stops)
    case (Some n)
    have "?I (snd (each_object ?fn (take n (listed (sw_prefix sw) st)) ?ss))" by (rule each [OF set_take_subset])
    then show ?thesis using Some by (auto simp: List_objects_def split: option.splits prod.splits)
  qed (simp add: List_objects_def each)
  then show ?thesis using assms judge_batch_inv
    by (auto simp: Sweep_Run_def Let_def split: prod.splits option.splits) (metis snd_conv)+
qed

section \<open>The log, page by page\<close>

lemma descending_page:
  assumes "sorted_wrt (\<lambda>a b. (g b :: int) < g a) ys" "take n ys \<noteq> []" "f \<in> set (drop n ys)"
  shows "g f < g (last (take n ys))"
proof -
  have "sorted_wrt (\<lambda>a b. g b < g a) (take n ys @ drop n ys)" using assms(1) by simp
  then have "\<forall>a \<in> set (take n ys). \<forall>b \<in> set (drop n ys). g b < g a" unfolding sorted_wrt_append by blast
  then show ?thesis using assms(2,3) last_in_set by blast
qed

lemma matches_after:
  "\<lbrakk>0 < a; ff_after_seq req > 0 \<longrightarrow> a < ff_after_seq req\<rbrakk>
    \<Longrightarrow> forgotten_matches (req\<lparr>ff_after_seq := a, ff_groups := g\<rparr>) f \<longleftrightarrow> forgotten_matches (req\<lparr>ff_groups := g\<rparr>) f \<and> f_seq f < a"
  by (auto simp: forgotten_matches_def)

lemma log_page:
  assumes "rpc_GetForgottenMemories lc req = Inr pg" "distinct (map f_seq (lc_log lc))" "\<And>f. f \<in> set (lc_log lc) \<Longrightarrow> 0 < f_seq f"
    "groups = (case GroupsFromContext (lc_ctx lc) of None \<Rightarrow> [] | Some gs \<Rightarrow> gs)"
  defines "M \<equiv> \<lambda>q. {f \<in> set (lc_log lc). forgotten_matches (q\<lparr>ff_groups := groups\<rparr>) f}"
  shows "if fr_next_seq pg = 0 then set (fr_memories pg) = M req
    else 0 < fr_next_seq pg \<and> (ff_after_seq req > 0 \<longrightarrow> fr_next_seq pg < ff_after_seq req)
      \<and> M req = set (fr_memories pg) \<union> M (req\<lparr>ff_after_seq := fr_next_seq pg\<rparr>)"
proof -
  let ?q = "req\<lparr>ff_groups := groups\<rparr>" and ?n = "nat (ForgottenLimit (ff_limit req))"
  define ys where "ys = rev (sort_key f_seq (filter (forgotten_matches ?q) (lc_log lc)))"
  have n: "0 < ?n" by (simp add: ForgottenLimit_def)
  have pg: "fr_memories pg = take ?n ys"
    "fr_next_seq pg = (if int (length (take ?n ys)) = ForgottenLimit (ff_limit req) then f_seq (last (take ?n ys)) else 0)"
    using assms(1,4) by (auto simp: ys_def rpc_GetForgottenMemories_def GetForgottenMemories_def Let_def split: option.splits)
  have set_ys: "set ys = M req" by (auto simp: M_def ys_def)
  have d: "distinct (map f_seq ys)"
    using assms(2) by (simp add: ys_def rev_map [symmetric] distinct_map inj_on_def)
  have desc: "sorted_wrt (\<lambda>a b. f_seq b < f_seq a) ys"
    using d sorted_sort_key [of f_seq "filter (forgotten_matches ?q) (lc_log lc)"]
    by (simp add: ys_def sorted_wrt_rev strict_sorted_iff rev_map [symmetric] sorted_wrt_map [symmetric])
  show ?thesis
  proof (cases "int (length (take ?n ys)) = ForgottenLimit (ff_limit req)")
    case False
    then have "length ys < ?n" by (auto simp: ForgottenLimit_def min_def split: if_splits)
    then show ?thesis using pg False set_ys by simp
  next
    case True
    let ?l = "last (take ?n ys)"
    have "length (take ?n ys) = ?n" using True by (metis nat_int)
    then have ne: "take ?n ys \<noteq> []" using n by (metis less_irrefl_nat list.size(3))
    then have "?l \<in> set (take ?n ys)" by (rule last_in_set)
    then have lM: "?l \<in> M req" using set_ys in_set_takeD by fast
    then have pos: "0 < f_seq ?l" using assms(3) by (auto simp: M_def)
    have low: "f_seq f < f_seq ?l" if "f \<in> set (drop ?n ys)" for f by (rule descending_page [OF desc ne that])
    have "forgotten_matches ?q ?l" using lM by (simp add: M_def)
    then have below: "ff_after_seq req > 0 \<longrightarrow> f_seq ?l < ff_after_seq req" by (simp add: forgotten_matches_def)
    then have rest: "M (req\<lparr>ff_after_seq := f_seq ?l\<rparr>) = {f \<in> M req. f_seq f < f_seq ?l}"
      using matches_after [of "f_seq ?l" req groups] pos unfolding M_def by fastforce
    have "M req = set (take ?n ys) \<union> set (drop ?n ys)" using set_ys by (metis append_take_drop_id set_append)
    then have "M req = set (take ?n ys) \<union> {f \<in> M req. f_seq f < f_seq ?l}" using low by blast
    then show ?thesis using pg True pos below by (simp add: rest)
  qed
qed

lemma forgottenPage_Inr: "forgottenPage lc req = Inr pg \<Longrightarrow> rpc_GetForgottenMemories lc req = Inr pg"
  by (auto simp: forgottenPage_def split: option.splits sum.splits)

definition log_ok :: "log_call \<Rightarrow> bool" where
  "log_ok lc \<longleftrightarrow> distinct (map f_seq (lc_log lc)) \<and> (\<forall>f \<in> set (lc_log lc). 0 < f_seq f)"

text \<open>The walk ends: every full page moves the cursor strictly down, whatever is written to the log meanwhile.\<close>

lemma forgotten_pages_return:
  assumes "\<And>k. log_ok (logs k)"
  shows "\<exists>r. forgotten_pages logs fn n req enabled s = Some r"
proof -
  have walk: "\<exists>r. forgotten_pages logs fn n req enabled s = Some r" if "0 < ff_after_seq req" for req n enabled s
    using that
  proof (induction "nat (ff_after_seq req)" arbitrary: req n enabled s rule: less_induct)
    case less
    show ?case
    proof (cases "forgottenPage (logs n) req")
      case (Inr pg)
      have "0 < fr_next_seq pg \<and> nat (fr_next_seq pg) < nat (ff_after_seq req)" if "fr_next_seq pg \<noteq> 0"
        using log_page [OF forgottenPage_Inr [OF Inr] _ _ refl] assms [of n] that less.prems by (auto simp: log_ok_def)
      then show ?thesis using Inr less.hyps by (subst forgotten_pages.simps) (auto split: prod.splits option.splits)
    qed (subst forgotten_pages.simps, simp)
  qed
  show ?thesis
  proof (cases "forgottenPage (logs n) req")
    case (Inr pg)
    have "0 < fr_next_seq pg" if "fr_next_seq pg \<noteq> 0"
      using log_page [OF forgottenPage_Inr [OF Inr] _ _ refl] assms [of n] that by (auto simp: log_ok_def)
    then show ?thesis using Inr walk by (subst forgotten_pages.simps) (auto split: prod.splits option.splits)
  qed (subst forgotten_pages.simps, simp)
qed

text \<open>Whatever each page keeps, the walk keeps.\<close>

lemma forgotten_pages_inv:
  assumes "forgotten_pages logs fn n req enabled s = Some r"
  shows "(\<forall>pg s. I s \<longrightarrow> I (snd (fn pg s))) \<longrightarrow> I s \<longrightarrow> I (snd (snd r))"
  using assms
proof (induction logs fn n req enabled s r rule: forgotten_pages.raw_induct [rotated, consumes 1])
  case (1 walk logs fn n req enabled s r)
  show ?case
  proof (intro impI)
    assume fn: "\<forall>pg s. I s \<longrightarrow> I (snd (fn pg s))" and s: "I s"
    show "I (snd (snd r))"
    proof (cases "forgottenPage (logs n) req")
      case (Inr pg)
      obtain e s' where f: "(if fr_memories pg \<noteq> [] then fn (fr_memories pg) s else (None, s)) = (e, s')" by fastforce
      then have "I s'" using fn s by (metis snd_conv)
      then show ?thesis using 1 fn Inr f by (auto split: option.splits if_splits)
    qed (use 1 s in auto)
  qed
qed

section \<open>With every call answered\<close>

definition exact_reader :: "(nat \<Rightarrow> HeldReader) \<Rightarrow> (ident \<Rightarrow> bool) \<Rightarrow> bool" where
  "exact_reader reader H \<longleftrightarrow> (\<forall>n ids. \<exists>h. reader n ids = Inr h \<and> (\<forall>i \<in> set ids. i \<noteq> [] \<longrightarrow> h i = H i))"

lemma exact_store_reader:
  assumes "\<And>n k. answering sc (calls n k)" "\<And>n k i. present (calls n k) i \<longleftrightarrow> H i"
  shows "exact_reader (\<lambda>n. Memories_Held sc (calls n)) H"
  unfolding exact_reader_def
proof (intro allI)
  fix n ids
  obtain h where h: "Memories_Held sc (calls n) ids = Inr h" using answering_reader [of sc "calls n"] assms(1) by blast
  have "h i = H i" if "i \<in> set ids" "i \<noteq> []" for i using store_reader.exact_reading [OF h that] assms(2) by simp
  then show "\<exists>h. Memories_Held sc (calls n) ids = Inr h \<and> (\<forall>i \<in> set ids. i \<noteq> [] \<longrightarrow> h i = H i)" using h by blast
qed

lemma Reap_no_failure: "fails = (\<lambda>_. False) \<Longrightarrow> fst (snd (Reap rp fails ids st)) = None"
proof -
  assume ok: "fails = (\<lambda>_. False)"
  have "fst (snd (fold (reap_one rp fails) ids (r, 0, st))) = 0" for r
    by (induction ids arbitrary: r st) (auto simp: reap_one_def store_delete_def ok split: prod.splits option.splits)
  from this [of no_result] show ?thesis by (auto simp: Reap_def split: prod.splits)
qed

lemma reaped_unheld:
  assumes "\<forall>i \<in> set ids. i \<noteq> [] \<longrightarrow> h i = H i"
  shows "reaped rp fails b {i \<in> set ids. \<not> h i} = reaped rp fails b {i \<in> set ids. \<not> H i}"
proof -
  have "i \<noteq> []" if "MemoryId b key = Some i" for key i using that by (auto simp: MemoryId_Some)
  then show ?thesis using assms by (auto simp: reaped_def fun_eq_iff)
qed

lemma judge_exact:
  assumes "exact_reader reader H" "fails = (\<lambda>_. False)"
  shows "\<exists>r. judge rp fails (reader n) ids st = (r, None, spared (reaped rp fails (os_bucket st) {i \<in> set ids. \<not> H i}) st)"
proof -
  obtain h where h: "reader n ids = Inr h" "\<forall>i \<in> set ids. i \<noteq> [] \<longrightarrow> h i = H i" using assms(1) unfolding exact_reader_def by blast
  obtain r e st' where j: "Reap rp fails (filter (\<lambda>i. \<not> h i) ids) st = (r, e, st')" by (metis prod_cases3)
  have "e = None" using Reap_no_failure [OF assms(2), of rp "filter (\<lambda>i. \<not> h i) ids" st] j by simp
  then show ?thesis using Reap_spares(1) [OF j] j h(1) reaped_unheld [OF h(2)] by (simp add: judge_def)
qed

lemma ReapForgotten_exact:
  assumes "exact_reader reader H" "fails = (\<lambda>_. False)"
  shows "\<exists>r. ReapForgotten rp fails (reader n) ids st = (r, None, spared (reaped rp fails (os_bucket st) {i \<in> set ids. \<not> H i}) st)"
proof (cases "ids = []")
  case True
  then show ?thesis by (simp add: ReapForgotten_def reaped_funs)
next
  case False
  obtain r where "judge rp fails (reader n) ids st = (r, None, spared (reaped rp fails (os_bucket st) {i \<in> set ids. \<not> H i}) st)"
    using judge_exact [OF assms] by blast
  moreover obtain h where "reader n ids = Inr h" using assms(1) unfolding exact_reader_def by blast
  ultimately show ?thesis using False by (auto simp: ReapForgotten_def judge_def Let_def)
qed

text \<open>The sweep has judged some of the ids it met, and holds the others in its batch.\<close>

definition met :: "string \<Rightarrow> nanos \<Rightarrow> (string \<times> nanos) list \<Rightarrow> ident set" where
  "met bucket cutoff obs = {i. \<exists>ob \<in> set obs. MemoryId bucket (fst ob) = Some i \<and> snd ob \<le> cutoff}"

definition judged :: "Reaper \<Rightarrow> (string \<Rightarrow> bool) \<Rightarrow> (ident \<Rightarrow> bool) \<Rightarrow> ident set \<Rightarrow> object_store \<Rightarrow> sweep_state \<Rightarrow> bool" where
  "judged rp fails H I st ss \<longleftrightarrow> ss_store ss = spared (reaped rp fails (os_bucket st) {i \<in> I. \<not> H i}) st"

lemma judge_batch_exact:
  assumes "exact_reader reader H" "fails = (\<lambda>_. False)" "judged rp fails H I st ss"
  shows "\<exists>ss'. judge_batch rp fails reader ss = (None, ss') \<and> judged rp fails H (I \<union> set (ss_batch ss)) st ss' \<and> ss_batch ss' = []"
proof (cases "ss_batch ss = []")
  case False
  have b: "os_bucket (ss_store ss) = os_bucket st" using assms(3) by (simp add: judged_def)
  obtain r where j: "judge rp fails (reader (ss_calls ss)) (ss_batch ss) (ss_store ss)
      = (r, None, spared (reaped rp fails (os_bucket st) {i \<in> set (ss_batch ss). \<not> H i}) (ss_store ss))"
    using judge_exact [OF assms(1,2)] b by metis
  have "{i \<in> I \<union> set (ss_batch ss). \<not> H i} = {i \<in> set (ss_batch ss). \<not> H i} \<union> {i \<in> I. \<not> H i}" by blast
  then show ?thesis using j False assms(3) by (simp add: judge_batch_def judged_def reaped_funs)
qed (use assms(3) in \<open>simp add: judge_batch_def\<close>)

lemma each_object_exact:
  assumes "exact_reader reader H" "fails = (\<lambda>_. False)" "judged rp fails H I st ss"
  shows "\<exists>ss' J. each_object (sweep_object sw rp fails reader cutoff) obs ss = (None, ss') \<and> judged rp fails H J st ss'
    \<and> J \<union> set (ss_batch ss') = I \<union> set (ss_batch ss) \<union> met (os_bucket st) cutoff obs"
  using assms(3)
proof (induction obs arbitrary: ss I)
  case (Cons ob obs)
  have b: "os_bucket (ss_store ss) = os_bucket st" using Cons.prems by (simp add: judged_def)
  have "\<exists>ss1 I1. sweep_object sw rp fails reader cutoff ob ss = (None, ss1) \<and> judged rp fails H I1 st ss1
      \<and> I1 \<union> set (ss_batch ss1) = I \<union> set (ss_batch ss) \<union> met (os_bucket st) cutoff [ob]"
  proof (cases "\<exists>i. MemoryId (os_bucket st) (fst ob) = Some i \<and> snd ob \<le> cutoff")
    case True
    then obtain i where i: "MemoryId (os_bucket st) (fst ob) = Some i" "snd ob \<le> cutoff" by blast
    let ?ss = "ss\<lparr>ss_Examined := ss_Examined ss + 1, ss_batch := ss_batch ss @ [i]\<rparr>"
    have j: "judged rp fails H I st ?ss" using Cons.prems by (simp add: judged_def)
    have m: "met (os_bucket st) cutoff [ob] = {i}" using i by (auto simp: met_def)
    show ?thesis
    proof (cases "length (ss_batch ?ss) < sw_batchSize sw")
      case True
      then show ?thesis using i b j m by (intro exI [of _ ?ss] exI [of _ I]) (auto simp: sweep_object_def Let_def)
    next
      case False
      obtain ss' where "judge_batch rp fails reader ?ss = (None, ss')" "judged rp fails H (I \<union> set (ss_batch ?ss)) st ss'" "ss_batch ss' = []"
        using judge_batch_exact [OF assms(1,2) j] by blast
      then show ?thesis using i b m False by (intro exI [of _ ss'] exI [of _ "I \<union> set (ss_batch ?ss)"]) (auto simp: sweep_object_def Let_def)
    qed
  next
    case False
    then have "met (os_bucket st) cutoff [ob] = {}" by (auto simp: met_def)
    moreover have "sweep_object sw rp fails reader cutoff ob ss = (None, ss\<lparr>ss_Examined := ss_Examined ss + 1, ss_Skipped := ss_Skipped ss + 1\<rparr>)"
      using False b by (auto simp: sweep_object_def Let_def split: option.splits)
    ultimately show ?thesis using Cons.prems
      by (intro exI [of _ "ss\<lparr>ss_Examined := ss_Examined ss + 1, ss_Skipped := ss_Skipped ss + 1\<rparr>"] exI [of _ I]) (simp add: judged_def)
  qed
  then obtain ss1 I1 where 1: "sweep_object sw rp fails reader cutoff ob ss = (None, ss1)" "judged rp fails H I1 st ss1"
    "I1 \<union> set (ss_batch ss1) = I \<union> set (ss_batch ss) \<union> met (os_bucket st) cutoff [ob]" by blast
  have "met (os_bucket st) cutoff (ob # obs) = met (os_bucket st) cutoff [ob] \<union> met (os_bucket st) cutoff obs" by (auto simp: met_def)
  moreover obtain ss' J where "each_object (sweep_object sw rp fails reader cutoff) obs ss1 = (None, ss')" "judged rp fails H J st ss'"
    "J \<union> set (ss_batch ss') = I1 \<union> set (ss_batch ss1) \<union> met (os_bucket st) cutoff obs" using Cons.IH [OF 1(2)] by blast
  ultimately show ?case using 1 by (intro exI [of _ ss'] exI [of _ J]) (simp add: Un_assoc)
qed (auto simp: met_def)

lemma Sweep_Run_exact:
  assumes "exact_reader reader H" "fails = (\<lambda>_. False)"
  shows "\<exists>ss. Sweep_Run sw rp fails None reader started st = (None, ss)
    \<and> judged rp fails H (met (os_bucket st) (started - sw_minAge sw) (listed (sw_prefix sw) st)) st ss"
proof -
  let ?ss = "\<lparr>ss_Examined = 0, ss_Skipped = 0, ss_Result = no_result, ss_batch = [], ss_calls = 0, ss_store = st\<rparr>"
  have "judged rp fails H {} st ?ss" by (simp add: judged_def reaped_funs)
  from each_object_exact [OF assms this, of sw "started - sw_minAge sw" "listed (sw_prefix sw) st"] obtain ss J where
    1: "each_object (sweep_object sw rp fails reader (started - sw_minAge sw)) (listed (sw_prefix sw) st) ?ss = (None, ss)" "judged rp fails H J st ss"
    "J \<union> set (ss_batch ss) = met (os_bucket st) (started - sw_minAge sw) (listed (sw_prefix sw) st)" by auto
  from judge_batch_exact [OF assms 1(2)] 1 show ?thesis by (auto simp: Sweep_Run_def List_objects_def Let_def)
qed

text \<open>What the log asks for: the records a reading selects whose rule the reaper acts on.\<close>

definition asked_for :: "Reaper \<Rightarrow> log_call \<Rightarrow> ForgottenFilter \<Rightarrow> ident set" where
  "asked_for rp lc req = {f_id f |f. f \<in> set (lc_log lc) \<and> Acts (rp_causes rp) (rule_cause (f_rule f))
     \<and> forgotten_matches (req\<lparr>ff_groups := (case GroupsFromContext (lc_ctx lc) of None \<Rightarrow> [] | Some gs \<Rightarrow> gs)\<rparr>) f}"

lemma asked_for_page:
  assumes "log_ok lc" "rpc_GetForgottenMemories lc req = Inr pg"
  shows "asked_for rp lc req = set (actionable rp (fr_memories pg)) \<union> (if fr_next_seq pg = 0 then {} else asked_for rp lc (req\<lparr>ff_after_seq := fr_next_seq pg\<rparr>))"
proof -
  let ?g = "case GroupsFromContext (lc_ctx lc) of None \<Rightarrow> [] | Some gs \<Rightarrow> gs"
  define M where "M = (\<lambda>q. {f \<in> set (lc_log lc). forgotten_matches (q\<lparr>ff_groups := ?g\<rparr>) f})"
  have M: "asked_for rp lc q = f_id ` {f \<in> M q. Acts (rp_causes rp) (rule_cause (f_rule f))}" for q
    by (auto simp: asked_for_def M_def)
  have "M req = set (fr_memories pg) \<union> (if fr_next_seq pg = 0 then {} else M (req\<lparr>ff_after_seq := fr_next_seq pg\<rparr>))"
    using log_page [OF assms(2) _ _ refl] assms(1) by (auto simp: log_ok_def M_def split: if_splits)
  then show ?thesis by (auto simp: M actionable_def)
qed

lemma forgotten_pages_exact:
  assumes "forgotten_pages logs fn n req enabled cu = Some r"
  shows "logs = (\<lambda>_. lc) \<longrightarrow> fn = catch_up_page rp fails reader \<longrightarrow> \<not> isl (forgottenPage lc req) \<longrightarrow> log_ok lc \<longrightarrow> exact_reader reader H \<longrightarrow> fails = (\<lambda>_. False)
    \<longrightarrow> fst (snd r) = None \<and> cu_store (snd (snd r)) = spared (reaped rp fails (os_bucket (cu_store cu)) {i \<in> asked_for rp lc req. \<not> H i}) (cu_store cu)"
  using assms
proof (induction logs fn n req enabled cu r rule: forgotten_pages.raw_induct [rotated, consumes 1])
  case (1 walk logs fn n req enabled cu r)
  show ?case
  proof (intro impI)
    assume a: "logs = (\<lambda>_. lc)" "fn = catch_up_page rp fails reader" and ok: "\<not> isl (forgottenPage lc req)" "log_ok lc"
      and ex: "exact_reader reader H" "fails = (\<lambda>_. False)"
    obtain pg where pg: "forgottenPage lc req = Inr pg" using ok(1) by (cases "forgottenPage lc req") auto
    note asked = asked_for_page [OF ok(2) forgottenPage_Inr [OF pg], of rp]
    let ?here = "reaped rp fails (os_bucket (cu_store cu)) {i \<in> set (actionable rp (fr_memories pg)). \<not> H i}"
    obtain cu' where cu': "(if fr_memories pg \<noteq> [] then fn (fr_memories pg) cu else (None, cu)) = (None, cu')" "cu_store cu' = spared ?here (cu_store cu)"
      using ReapForgotten_exact [OF ex, of rp "cu_calls cu" "actionable rp (fr_memories pg)" "cu_store cu"]
      by (cases "fr_memories pg = []") (auto simp: a catch_up_page_def actionable_def reaped_funs)
    show "fst (snd r) = None \<and> cu_store (snd (snd r)) = spared (reaped rp fails (os_bucket (cu_store cu)) {i \<in> asked_for rp lc req. \<not> H i}) (cu_store cu)"
    proof (cases "fr_next_seq pg = 0")
      case True
      then show ?thesis using 1(2) cu' asked by (auto simp: a pg)
    next
      case False
      let ?next = "req\<lparr>ff_after_seq := fr_next_seq pg\<rparr>"
      have "walk logs fn (Suc n) ?next (fr_enabled pg) cu' = Some r" using 1(2) cu'(1) False by (simp add: a pg)
      moreover have "\<not> isl (forgottenPage lc ?next)"
        using pg by (auto simp: forgottenPage_def rpc_GetForgottenMemories_def Let_def split: option.splits sum.splits)
      ultimately have "fst (snd r) = None"
        "cu_store (snd (snd r)) = spared (reaped rp fails (os_bucket (cu_store cu')) {i \<in> asked_for rp lc ?next. \<not> H i}) (cu_store cu')"
        using 1(1) a ok(2) ex by blast+
      moreover have "{i \<in> asked_for rp lc req. \<not> H i} = {i \<in> asked_for rp lc ?next. \<not> H i} \<union> {i \<in> set (actionable rp (fr_memories pg)). \<not> H i}"
        using asked False by auto
      ultimately show ?thesis using cu'(2) by (simp add: reaped_funs)
    qed
  qed
qed

section \<open>The three paths\<close>

text \<open>
  C15. No path deletes the object of a memory the store holds. Whatever the reaper is told, and however calls to the store, listings and deletions
  fail: acting on a notice, sweeping the bucket and catching up on the log only ever remove objects, only when armed and only ones of the reaper's own
  bucket that map to an id; an object whose memory is held at every call stays; and the sweep takes none younger than its minimum age.
\<close>

theorem held_objects_survive:
  fixes sc :: sleep_config and rp :: Reaper
  assumes i: "MemoryId (os_bucket st) key = Some i" and here: "\<And>n k. present (calls n k) i"
  defines "reader \<equiv> \<lambda>n. Memories_Held sc (calls n)"
  defines "safe \<equiv> \<lambda>gone. \<not> gone key \<and> (\<forall>k. gone k \<longrightarrow> rp_delete rp \<and> Mappable (os_bucket st) k)"
  shows "(\<exists>gone. snd (snd (ReapForgotten rp fails (reader 0) ids st)) = spared gone st \<and> safe gone)
    \<and> (\<exists>gone. ss_store (snd (Sweep_Run sw rp fails stops reader started st)) = spared gone st \<and> safe gone
        \<and> (\<forall>k. gone k \<longrightarrow> (\<exists>t. (k, t) \<in> set (os_objects st) \<and> t \<le> started - sw_minAge sw)))
    \<and> (case CatchUp_Run window rp fails reader logs now st of None \<Rightarrow> True | Some (_, cu) \<Rightarrow> \<exists>gone. cu_store cu = spared gone st \<and> safe gone)"
proof (intro conjI)
  have ne: "i \<noteq> []" using i by (auto simp: MemoryId_Some)
  have held: "h i" if "reader n js = Inr h" "i \<in> set js" for n js h
    using store_reader.names_held [of sc "calls n" js h i] that ne here by (simp add: reader_def)
  have reap: "\<exists>gone. snd (snd (ReapForgotten rp fails (reader n) js st1)) = spared gone st1 \<and> safe gone" if b: "os_bucket st1 = os_bucket st" for n js st1
    using store_reader.never_reaps_held [of st1 key i "calls n" rp fails sc js] i here b by (simp add: reader_def safe_def)
  show "\<exists>gone. snd (snd (ReapForgotten rp fails (reader 0) ids st)) = spared gone st \<and> safe gone" by (rule reap [OF refl])
  show "case CatchUp_Run window rp fails reader logs now st of None \<Rightarrow> True | Some (_, cu) \<Rightarrow> \<exists>gone. cu_store cu = spared gone st \<and> safe gone"
  proof -
    let ?I = "\<lambda>cu. \<exists>gone. cu_store cu = spared gone st \<and> safe gone"
    have step: "?I (snd (catch_up_page rp fails reader pg cu))" if I: "?I cu" for pg cu
    proof -
      obtain g1 where 1: "cu_store cu = spared g1 st" "safe g1" using I by blast
      obtain g2 where 2: "snd (snd (ReapForgotten rp fails (reader (cu_calls cu)) (actionable rp pg) (cu_store cu))) = spared g2 (cu_store cu)" "safe g2"
        using reap 1(1) by (metis spared_simps(1))
      have "safe (\<lambda>k. g2 k \<or> g1 k)" using 1(2) 2(2) by (auto simp: safe_def)
      then show ?thesis using 1(1) 2(1) by (intro exI [of _ "\<lambda>k. g2 k \<or> g1 k"]) (auto simp: catch_up_page_def split: prod.splits)
    qed
    let ?cu = "\<lparr>cu_total = no_result, cu_calls = 0, cu_store = st\<rparr>"
    have base: "?I ?cu" by (intro exI [of _ "\<lambda>_. False"]) (simp add: safe_def)
    have "?I (snd (snd r))" if "forgotten_pages logs (catch_up_page rp fails reader) 0 (log_request (now - window)) False ?cu = Some r" for r
      using forgotten_pages_inv [OF that, of ?I] step base by blast
    then show ?thesis using base by (auto simp: CatchUp_Run_def Memories_Forgotten_def Let_def split: option.splits)
  qed
  show "\<exists>gone. ss_store (snd (Sweep_Run sw rp fails stops reader started st)) = spared gone st \<and> safe gone
        \<and> (\<forall>k. gone k \<longrightarrow> (\<exists>t. (k, t) \<in> set (os_objects st) \<and> t \<le> started - sw_minAge sw))"
  proof -
    obtain e ss where R: "Sweep_Run sw rp fails stops reader started st = (e, ss)" by fastforce
    have "\<not> orphaned reader (os_bucket st) key" using held i by (auto simp: orphaned_def)
    then show ?thesis using sweep_spares [OF R] R by (fastforce simp: sweep_inv_def safe_def orphaned_def sweepable_def listed_def Mappable_def)
  qed
qed

text \<open>
  C16. A sweep that meets no failure collects exactly the orphans. With a store that answers and does not change meanwhile, an armed sweep ends without an error, and
  what is gone from the bucket are the objects under the prefix, at least the minimum age old, that map to an id no memory bears: none is left over at the end of a
  batch or of the listing, and no other object is touched.
\<close>

theorem sweep_collects_exactly_the_orphans:
  assumes "\<And>n k. answering sc (calls n k)" "\<And>n k. memories (sv_db (cl_state (calls n k))) = mems"
    and distinct: "distinct (map fst (os_objects st))" and armed: "rp_delete rp"
  shows "\<exists>ss. Sweep_Run sw rp (\<lambda>_. False) None (\<lambda>n. Memories_Held sc (calls n)) started st = (None, ss)
    \<and> os_objects (ss_store ss) = filter (\<lambda>ob. \<not> (take (length (sw_prefix sw)) (fst ob) = sw_prefix sw \<and> snd ob \<le> started - sw_minAge sw
        \<and> (\<exists>i. MemoryId (os_bucket st) (fst ob) = Some i \<and> i \<notin> m_id ` set mems))) (os_objects st)"
proof -
  let ?H = "\<lambda>i. i \<in> m_id ` set mems" and ?b = "os_bucket st" and ?cutoff = "started - sw_minAge sw"
  have ex: "exact_reader (\<lambda>n. Memories_Held sc (calls n)) ?H" by (rule exact_store_reader) (use assms(1,2) in \<open>simp_all add: present_def\<close>)
  obtain ss where ss: "Sweep_Run sw rp (\<lambda>_. False) None (\<lambda>n. Memories_Held sc (calls n)) started st = (None, ss)"
    "ss_store ss = spared (reaped rp (\<lambda>_. False) ?b {i \<in> met ?b ?cutoff (listed (sw_prefix sw) st). \<not> ?H i}) st"
    using Sweep_Run_exact [OF ex refl, of sw rp started st] by (auto simp: judged_def)
  have "reaped rp (\<lambda>_. False) ?b {i \<in> met ?b ?cutoff (listed (sw_prefix sw) st). \<not> ?H i} (fst ob)
      \<longleftrightarrow> take (length (sw_prefix sw)) (fst ob) = sw_prefix sw \<and> snd ob \<le> ?cutoff \<and> (\<exists>i. MemoryId ?b (fst ob) = Some i \<and> \<not> ?H i)" if ob: "ob \<in> set (os_objects st)" for ob
  proof -
    have "ob' = ob" if "ob' \<in> set (os_objects st)" "fst ob' = fst ob" for ob' using distinct ob that by (auto simp: distinct_map inj_on_def)
    then have "(\<exists>ob' \<in> set (listed (sw_prefix sw) st). fst ob' = fst ob \<and> snd ob' \<le> ?cutoff) \<longleftrightarrow> take (length (sw_prefix sw)) (fst ob) = sw_prefix sw \<and> snd ob \<le> ?cutoff"
      using ob by (simp add: listed_def Bex_def del: split_paired_Ex) blast
    moreover have "i \<in> met ?b ?cutoff (listed (sw_prefix sw) st) \<longleftrightarrow> (\<exists>ob' \<in> set (listed (sw_prefix sw) st). fst ob' = fst ob \<and> snd ob' \<le> ?cutoff)"
      if "MemoryId ?b (fst ob) = Some i" for i
    proof -
      have "MemoryId ?b key = Some i \<longleftrightarrow> key = fst ob" for key using that by (auto simp: MemoryId_Some)
      then show ?thesis by (simp add: met_def)
    qed
    ultimately show ?thesis using armed by (simp add: reaped_def) blast
  qed
  then have "os_objects (ss_store ss) = filter (\<lambda>ob. \<not> (take (length (sw_prefix sw)) (fst ob) = sw_prefix sw \<and> snd ob \<le> ?cutoff
      \<and> (\<exists>i. MemoryId ?b (fst ob) = Some i \<and> \<not> ?H i))) (os_objects st)"
    unfolding ss(2) spared_def by (auto intro!: filter_cong)
  then show ?thesis using ss(1) by blast
qed

text \<open>
  C19. Catching up reaches the whole window. The walk of the forgotten log returns, whatever is written to the log between its pages; and where the log and the store stay
  as they are and nothing fails, the objects gone are exactly those of the reaper's bucket that some record in the window names, of a rule the reaper acts on, and whose
  memory the store does not hold again: no record is lost between two pages.
\<close>

theorem catch_up_covers_the_log:
  assumes "\<And>n k. answering sc (calls n k)" "\<And>n k. memories (sv_db (cl_state (calls n k))) = mems" "rp_delete rp" "0 < window"
    and lc: "log_ok lc" "lc_transport lc = None" "lc_get_fails lc = None" "lc_count_fails lc = None" and logs: "\<And>k. log_ok (logs k)"
  shows "CatchUp_Run window rp fails reader logs now st \<noteq> None
    \<and> (\<exists>cu. CatchUp_Run window rp (\<lambda>_. False) (\<lambda>n. Memories_Held sc (calls n)) (\<lambda>_. lc) now st = Some (None, cu)
         \<and> os_objects (cu_store cu) = filter (\<lambda>ob. \<not> (\<exists>i \<in> asked_for rp lc (log_request (now - window)).
              MemoryId (os_bucket st) (fst ob) = Some i \<and> i \<notin> m_id ` set mems)) (os_objects st))"
proof
  show "CatchUp_Run window rp fails reader logs now st \<noteq> None"
    using forgotten_pages_return [of logs "catch_up_page rp fails reader" 0 "log_request (now - window)" False "\<lparr>cu_total = no_result, cu_calls = 0, cu_store = st\<rparr>"] logs
    by (auto simp: CatchUp_Run_def Memories_Forgotten_def Let_def)
  let ?reader = "\<lambda>n. Memories_Held sc (calls n)" and ?H = "\<lambda>i. i \<in> m_id ` set mems"
  let ?cu = "\<lparr>cu_total = no_result, cu_calls = 0, cu_store = st\<rparr>" and ?fn = "catch_up_page rp (\<lambda>_. False) (\<lambda>n. Memories_Held sc (calls n))"
  have ex: "exact_reader ?reader ?H" by (rule exact_store_reader) (use assms(1,2) in \<open>simp_all add: present_def\<close>)
  obtain r where r: "forgotten_pages (\<lambda>_. lc) ?fn 0 (log_request (now - window)) False ?cu = Some r"
    using forgotten_pages_return [of "\<lambda>_. lc" ?fn 0 "log_request (now - window)" False ?cu, OF lc(1)] by blast
  have "\<not> isl (forgottenPage lc (log_request (now - window)))" using lc by (simp add: forgottenPage_def rpc_GetForgottenMemories_def Let_def)
  with forgotten_pages_exact [OF r, of lc rp "\<lambda>_. False" ?reader ?H] lc(1) ex
  have "fst (snd r) = None" "cu_store (snd (snd r)) = spared (reaped rp (\<lambda>_. False) (os_bucket st) {i \<in> asked_for rp lc (log_request (now - window)). \<not> ?H i}) st"
    by simp_all
  then show "\<exists>cu. CatchUp_Run window rp (\<lambda>_. False) ?reader (\<lambda>_. lc) now st = Some (None, cu)
      \<and> os_objects (cu_store cu) = filter (\<lambda>ob. \<not> (\<exists>i \<in> asked_for rp lc (log_request (now - window)).
              MemoryId (os_bucket st) (fst ob) = Some i \<and> i \<notin> m_id ` set mems)) (os_objects st)"
    using r assms(3,4) by (cases r) (auto simp: CatchUp_Run_def Memories_Forgotten_def Let_def spared_def reaped_def intro!: filter_cong)
qed

section \<open>A small bucket\<close>

definition plain_call :: "db_state \<Rightarrow> call" where
  "plain_call s = \<lparr>cl_transport = None,
     cl_env = \<lparr>percentile_nearest_rank = (\<lambda>_ _. None), page_count = (\<lambda>_. 0), freelist_count = (\<lambda>_. 0), page_size = 4096,
       excluded_bytes = (\<lambda>_. 0), percentile_fails = False, count_fails = False, used_fails = False, external_fails = False,
       xe_rpc = quiet_rpc 0, xe_now = 0, xe_candidates_fail = False, xe_promoted = True\<rparr>,
     cl_ctx = \<lparr>ctx_claims = None, ctx_tier = None\<rparr>, cl_state = sample_state s,
     cl_cache = Some (\<lparr>ds_pressure = 1, ds_default = 0, ds_used = 0, ds_external = 0\<rparr>, 0)\<rparr>"

definition pointer_store :: db_state where
  "pointer_store = eventful_store\<lparr>memories := map (\<lambda>r. r\<lparr>m_id := ''b/'' @ m_id r\<rparr>) (memories eventful_store)\<rparr>"

definition small_bucket :: object_store where
  "small_bucket = \<lparr>os_bucket = ''b'', os_objects = [(''a'', 5), (''y'', 2000), (''z'', 7)]\<rparr>"

definition forgotten_z :: ForgottenMemory where
  "forgotten_z = \<lparr>f_seq = 1, f_id = ''b/z'', f_event_id = [], f_group = [], f_significance = 1, f_value = 1, f_threshold = 2, f_bytes = 3,
     f_rule = ForgetRuleEviction, f_timestamp = 1, f_time_recalled = 0, f_recall_count = 0, f_forgotten_at = 900\<rparr>"

definition plain_log :: log_call where
  "plain_log = \<lparr>lc_transport = None, lc_ctx = \<lparr>ctx_claims = None, ctx_tier = None\<rparr>, lc_enabled = True, lc_get_fails = None, lc_count_fails = None,
     lc_log = [forgotten_z]\<rparr>"

lemma plain_answering: "answering sc (plain_call s)"
  by (simp add: answering_def plain_call_def consolidating_def GroupsFromContext_def cachedDecisionSnapshot_def explainStateTTL_def Let_def)

lemma plain_holds: "memories (sv_db (cl_state (plain_call s))) = memories s"
  by (simp add: plain_call_def sample_state_def)

lemma small_ids: "MemoryId ''b'' ''a'' = Some ''b/a''" "MemoryId ''b'' ''y'' = Some ''b/y''" "MemoryId ''b'' ''z'' = Some ''b/z''"
  by code_simp+

lemma pointer_ids: "m_id ` set (memories pointer_store) = {''b/a'', ''b/b'', ''b/c''}"
proof -
  have "map m_id (memories pointer_store) = [''b/a'', ''b/b'', ''b/c'']" by code_simp
  then have "set (map m_id (memories pointer_store)) = {''b/a'', ''b/b'', ''b/c''}" by simp
  then show ?thesis by simp
qed

theorem object_ids_round_trip_witness:
  "MemoryId ''b'' ''x/y'' = Some ''b/x/y'' \<and> Object ''b/x/y'' = Some (''b'', ''x/y'')"
proof -
  have "MemoryId ''b'' ''x/y'' = Some ''b/x/y''" by code_simp
  then show ?thesis using object_ids_round_trip [of "''b/x/y''" "''b''" "''x/y''", THEN conjunct1] by blast
qed

theorem held_objects_survive_witness:
  "(''a'', 5) \<in> set (os_objects (ss_store (snd (Sweep_Run (NewSweep 100 [] 0) (New_reaper True {}) (\<lambda>_. False) None
     (\<lambda>n. Memories_Held sample_sleep (\<lambda>k. plain_call pointer_store)) 1000 small_bucket))))"
proof -
  have i: "MemoryId (os_bucket small_bucket) ''a'' = Some ''b/a''" using small_ids by (simp add: small_bucket_def)
  have here: "present (plain_call pointer_store) ''b/a''" by (simp add: present_def plain_holds pointer_ids)
  have "\<exists>gone. ss_store (snd (Sweep_Run (NewSweep 100 [] 0) (New_reaper True {}) (\<lambda>_. False) None
     (\<lambda>n. Memories_Held sample_sleep (\<lambda>k. plain_call pointer_store)) 1000 small_bucket)) = spared gone small_bucket \<and> \<not> gone ''a''"
    using conjunct1 [OF conjunct2 [OF held_objects_survive [where calls = "\<lambda>n k. plain_call pointer_store" and rp = "New_reaper True {}"
      and sc = sample_sleep and sw = "NewSweep 100 [] 0" and stops = None and started = 1000 and fails = "\<lambda>_. False", OF i here]]]
    by (elim exE conjE) (rule exI, erule conjI)
  then show ?thesis by (auto simp: spared_def small_bucket_def)
qed

theorem sweep_collects_exactly_the_orphans_witness:
  "os_objects (ss_store (snd (Sweep_Run (NewSweep 100 [] 0) (New_reaper True {}) (\<lambda>_. False) None
     (\<lambda>n. Memories_Held sample_sleep (\<lambda>k. plain_call pointer_store)) 1000 small_bucket))) = [(''a'', 5), (''y'', 2000)]"
proof -
  have *: "distinct (map fst (os_objects small_bucket))" "rp_delete (New_reaper True {})" by (simp_all add: small_bucket_def New_reaper_def)
  from sweep_collects_exactly_the_orphans [of sample_sleep "\<lambda>n k. plain_call pointer_store" "memories pointer_store" small_bucket "New_reaper True {}",
      OF plain_answering plain_holds *, of "NewSweep 100 [] 0" 1000]
  show ?thesis by (auto simp: small_bucket_def small_ids pointer_ids NewSweep_def)
qed

theorem catch_up_covers_the_log_witness:
  "\<exists>cu. CatchUp_Run 500 (New_reaper True {}) (\<lambda>_. False) (\<lambda>n. Memories_Held sample_sleep (\<lambda>k. plain_call pointer_store)) (\<lambda>_. plain_log) 1000 small_bucket
     = Some (None, cu) \<and> os_objects (cu_store cu) = [(''a'', 5), (''y'', 2000)]"
proof -
  have *: "rp_delete (New_reaper True {})" "(0::nanos) < 500" "log_ok plain_log" "lc_transport plain_log = None" "lc_get_fails plain_log = None" "lc_count_fails plain_log = None"
    by (simp_all add: New_reaper_def log_ok_def plain_log_def forgotten_z_def)
  have asked: "asked_for (New_reaper True {}) plain_log (log_request 500) = {''b/z''}"
    by (auto simp: asked_for_def plain_log_def forgotten_z_def Acts_def New_reaper_def DefaultCauses_def rule_cause_def forgotten_matches_def log_request_def in_scope_def GroupsFromContext_def)
  from catch_up_covers_the_log [of sample_sleep "\<lambda>n k. plain_call pointer_store" "memories pointer_store" "New_reaper True {}" 500 plain_log "\<lambda>_. plain_log",
      OF plain_answering plain_holds *, of "\<lambda>_. False" "\<lambda>n. Memories_Held sample_sleep (\<lambda>k. plain_call pointer_store)" 1000 small_bucket] *(3)
  show ?thesis by (auto simp: small_bucket_def small_ids pointer_ids asked)
qed

end
