(* ===== verification/Object_Callbacks.thy ===== *)
theory Object_Callbacks
  imports Object_Reaper
begin

text \<open>
  How the object store hears of forgetting and speaks of reading: the webhook that delivers callbacks (\<^verbatim>\<open>notify/webhook.go\<close>), the receiver that
  verifies them and hands them to the reaper (\<^verbatim>\<open>integrations/objectstore/reap/receiver.go\<close>), and the tap and gateway that turn reads of
  objects into recalls of their memories (\<^verbatim>\<open>tap/tap.go\<close>, \<^verbatim>\<open>gateway/gateway.go\<close>). HMAC-SHA256 is a parameter \<open>mac\<close>, as are the JSON encoder and decoder of a
  delivery; the figures of a finished cycle and of an at-risk warning, which the receiver only logs, are not fields of the delivery here.
\<close>

section \<open>Numbers and bytes in headers\<close>

fun FormatNat :: "nat \<Rightarrow> string" where
  "FormatNat n = (if n < 10 then [''0123456789'' ! n] else FormatNat (n div 10) @ [''0123456789'' ! (n mod 10)])"

declare FormatNat.simps [simp del]

definition FormatInt :: "int \<Rightarrow> string" where
  "FormatInt i = (if i < 0 then CHR ''-'' # FormatNat (nat (- i)) else FormatNat (nat i))"

definition digit_value :: "char \<Rightarrow> nat option" where
  "digit_value c = (if 48 \<le> byte c \<and> byte c \<le> 57 then Some (byte c - 48) else None)"

fun ParseDigits :: "nat \<Rightarrow> string \<Rightarrow> nat option" where
  "ParseDigits acc [] = Some acc"
| "ParseDigits acc (c # cs) = (case digit_value c of None \<Rightarrow> None | Some d \<Rightarrow> ParseDigits (acc * 10 + d) cs)"

definition ParseUint :: "string \<Rightarrow> nat option" where
  "ParseUint s = (if s = [] then None else ParseDigits 0 s)"

definition ParseInt :: "string \<Rightarrow> int option" where
  "ParseInt s =
     (let neg = (s \<noteq> [] \<and> hd s = CHR ''-''); rest = (if neg \<or> s \<noteq> [] \<and> hd s = CHR ''+'' then tl s else s)
      in case ParseUint rest of
           None \<Rightarrow> None
         | Some n \<Rightarrow> let i = (if neg then - int n else int n)
                     in if - (2 ^ 63) \<le> i \<and> i < 2 ^ 63 then Some i else None)"

definition hex_value :: "char \<Rightarrow> nat option" where
  "hex_value c =
     (let b = byte c
      in if 48 \<le> b \<and> b \<le> 57 then Some (b - 48) else if 97 \<le> b \<and> b \<le> 102 then Some (b - 87) else if 65 \<le> b \<and> b \<le> 70 then Some (b - 55) else None)"

definition EncodeToString :: "string \<Rightarrow> string" where
  "EncodeToString bs = concat (map (\<lambda>c. [hex_digit (byte c div 16), hex_digit (byte c)]) bs)"

fun DecodeString :: "string \<Rightarrow> string option" where
  "DecodeString [] = Some []"
| "DecodeString [_] = None"
| "DecodeString (a # b # rest) =
     (case (hex_value a, hex_value b) of
        (Some x, Some y) \<Rightarrow> (case DecodeString rest of Some bs \<Rightarrow> Some (char_of (x * 16 + y) # bs) | None \<Rightarrow> None)
      | _ \<Rightarrow> None)"

definition CutPrefix :: "string \<Rightarrow> string \<Rightarrow> string option" where
  "CutPrefix s pre = (if take (length pre) s = pre then Some (drop (length pre) s) else None)"

lemma CutPrefix_append [simp]: "CutPrefix (pre @ s) pre = Some s"
  by (simp add: CutPrefix_def)

lemma digit_round: "n < 10 \<Longrightarrow> digit_value (''0123456789'' ! n) = Some n"
proof -
  have "list_all (\<lambda>n. digit_value (''0123456789'' ! n) = Some n) [0..<10]" by code_simp
  then show "n < 10 \<Longrightarrow> digit_value (''0123456789'' ! n) = Some n" by (simp only: list_all_iff set_upt) simp
qed

lemma hex_round: "hex_value (hex_digit n) = Some (n mod 16)"
proof -
  have "list_all (\<lambda>n. hex_value (hex_digit n) = Some n) [0..<16]" by code_simp
  then have "m < 16 \<Longrightarrow> hex_value (hex_digit m) = Some m" for m by (simp only: list_all_iff set_upt) simp
  from this [of "n mod 16"] show ?thesis by (simp add: hex_digit_def)
qed

lemma ParseDigits_append: "ParseDigits acc (xs @ ys) = (case ParseDigits acc xs of None \<Rightarrow> None | Some v \<Rightarrow> ParseDigits v ys)"
  by (induction acc xs rule: ParseDigits.induct) (auto split: option.splits)

lemma ParseDigits_Format: "ParseDigits 0 (FormatNat n) = Some n"
proof (induction n rule: FormatNat.induct)
  case (1 n)
  then show ?case by (subst FormatNat.simps) (simp add: ParseDigits_append digit_round)
qed

lemma FormatNat_ne: "FormatNat n \<noteq> []"
  by (subst FormatNat.simps) simp

lemma ParseUint_Format: "ParseUint (FormatNat n) = Some n"
  by (simp add: ParseUint_def FormatNat_ne ParseDigits_Format)

lemma FormatNat_hd: "hd (FormatNat n) \<noteq> CHR ''-''" "hd (FormatNat n) \<noteq> CHR ''+''"
proof -
  have "digit_value (hd (FormatNat n)) \<noteq> None"
    using ParseDigits_Format [of n] FormatNat_ne [of n] by (cases "FormatNat n") (auto split: option.splits)
  moreover have "digit_value CHR ''-'' = None" "digit_value CHR ''+'' = None" by code_simp+
  ultimately show "hd (FormatNat n) \<noteq> CHR ''-''" "hd (FormatNat n) \<noteq> CHR ''+''" by metis+
qed

lemma ParseInt_Format: "- (2 ^ 63) \<le> i \<Longrightarrow> i < 2 ^ 63 \<Longrightarrow> ParseInt (FormatInt i) = Some i"
  using FormatNat_ne FormatNat_hd by (auto simp: ParseInt_def FormatInt_def Let_def ParseUint_Format)

lemma Decode_Encode: "DecodeString (EncodeToString bs) = Some bs"
proof (induction bs)
  case (Cons c bs)
  have "byte c < 256" by (simp add: byte_def)
  then have "(byte c div 16 mod 16) * 16 + byte c mod 16 = byte c" by simp
  then show ?case using Cons by (simp add: EncodeToString_def hex_round byte_def)
qed (simp add: EncodeToString_def)

section \<open>Deliveries\<close>

record Item =
  it_Id :: ident
  it_EventId :: ident
  it_Group :: string
  it_Significance :: int
  it_Bytes :: int
  it_Value :: real
  it_Body :: string
  it_BodyOmitted :: bool

record Delivery =
  dl_Kind :: string
  dl_Cause :: string
  dl_QueuedAt :: nanos
  dl_CycleId :: int
  dl_Chunk :: int
  dl_Chunks :: int
  dl_Items :: "Item list"

definition KindMemoryForgotten :: string where "KindMemoryForgotten = ''memory_forgotten''"

record http_request =
  hr_method :: string
  hr_header :: "string \<Rightarrow> string"
  hr_body :: string

definition signatureHeader :: string where "signatureHeader = ''X-Hippocampus-Signature''"

definition timestampHeader :: string where "timestampHeader = ''X-Hippocampus-Timestamp''"

definition kindHeader :: string where "kindHeader = ''X-Hippocampus-Callback-Kind''"

record Webhook =
  wh_token :: string
  wh_secret :: string

definition sign :: "(string \<Rightarrow> string \<Rightarrow> string) \<Rightarrow> string \<Rightarrow> string \<Rightarrow> string \<Rightarrow> string" where
  "sign mac secret timestamp body = mac secret (timestamp @ ''.'' @ body)"

text \<open>
  The request the webhook sends at a time; what it makes of the answer, \<open>None\<close> where there was none. An encoder that fails ends the delivery
  before a request is sent.
\<close>

definition deliver_headers :: "(string \<Rightarrow> string \<Rightarrow> string) \<Rightarrow> Webhook \<Rightarrow> nanos \<Rightarrow> string \<Rightarrow> string \<Rightarrow> (string \<Rightarrow> string)" where
  "deliver_headers mac w now kind body =
     (let h0 = (\<lambda>_. [])(''Content-Type'' := ''application/json'', kindHeader := kind);
          h1 = (if wh_token w \<noteq> [] then h0(''Authorization'' := ''Bearer '' @ wh_token w) else h0);
          timestamp = FormatInt now
      in if wh_secret w \<noteq> []
         then h1(timestampHeader := timestamp, signatureHeader := ''sha256='' @ EncodeToString (sign mac (wh_secret w) timestamp body))
         else h1)"

definition deliver_request :: "(string \<Rightarrow> string \<Rightarrow> string) \<Rightarrow> (Delivery \<Rightarrow> string option) \<Rightarrow> Webhook \<Rightarrow> nanos \<Rightarrow> Delivery \<Rightarrow> http_request option" where
  "deliver_request mac encode w now d =
     (case encode d of
        None \<Rightarrow> None
      | Some body \<Rightarrow> Some \<lparr>hr_method = ''POST'', hr_header = deliver_headers mac w now (dl_Kind d) body, hr_body = body\<rparr>)"

definition deliver_accepted :: "int option \<Rightarrow> bool" where
  "deliver_accepted answer = (case answer of None \<Rightarrow> False | Some status \<Rightarrow> \<not> (status < 200 \<or> status \<ge> 300))"

definition Deliver :: "(string \<Rightarrow> string \<Rightarrow> string) \<Rightarrow> (Delivery \<Rightarrow> string option) \<Rightarrow> Webhook \<Rightarrow> nanos \<Rightarrow> (http_request \<Rightarrow> 's \<Rightarrow> int option \<times> 's) \<Rightarrow> Delivery \<Rightarrow> 's \<Rightarrow> bool \<times> 's" where
  "Deliver mac encode w now endpoint d s =
     (case deliver_request mac encode w now d of
        None \<Rightarrow> (False, s)
      | Some req \<Rightarrow> let (answer, s') = endpoint req s in (deliver_accepted answer, s'))"

section \<open>The receiver\<close>

definition bodyLimit :: nat where "bodyLimit = 8 * 2 ^ 20"

definition defaultMaxAge :: nanos where "defaultMaxAge = 5 * 60 * 1000000000"

record Receiver =
  rv_token :: string
  rv_secret :: string
  rv_maxAge :: nanos

definition NewReceiver :: "string \<Rightarrow> string \<Rightarrow> nanos \<Rightarrow> Receiver" where
  "NewReceiver token secret age = \<lparr>rv_token = token, rv_secret = secret, rv_maxAge = (if age \<le> 0 then defaultMaxAge else age)\<rparr>"

text \<open>\<^verbatim>\<open>time.Since\<close> saturates at the ends of a \<^verbatim>\<open>Duration\<close>.\<close>

definition time_since :: "nanos \<Rightarrow> nanos \<Rightarrow> nanos" where
  "time_since now t = max (- (2 ^ 63)) (min (2 ^ 63 - 1) (now - t))"

definition bearer_ok :: "string \<Rightarrow> http_request \<Rightarrow> bool" where
  "bearer_ok token req = (case CutPrefix (hr_header req ''Authorization'') ''Bearer '' of None \<Rightarrow> False | Some t \<Rightarrow> trim_space t = token)"

datatype verify_error = BadToken | NoTimestamp | TimestampNotANumber | OutsideWindow | NoSignature | SignatureNotHex | SignatureMismatch

definition verify :: "(string \<Rightarrow> string \<Rightarrow> string) \<Rightarrow> Receiver \<Rightarrow> nanos \<Rightarrow> http_request \<Rightarrow> string \<Rightarrow> verify_error option" where
  "verify mac rv now req body =
     (if rv_token rv \<noteq> [] \<and> \<not> bearer_ok (rv_token rv) req then Some BadToken
      else if rv_secret rv = [] then None
      else let timestamp = hr_header req timestampHeader
           in if timestamp = [] then Some NoTimestamp
              else case ParseInt timestamp of
                     None \<Rightarrow> Some TimestampNotANumber
                   | Some t \<Rightarrow>
                       let age = time_since now t
                       in if age > rv_maxAge rv \<or> age < - rv_maxAge rv then Some OutsideWindow
                          else case CutPrefix (hr_header req signatureHeader) ''sha256='' of
                                 None \<Rightarrow> Some NoSignature
                               | Some signature \<Rightarrow>
                                   (case DecodeString (trim_space signature) of
                                      None \<Rightarrow> Some SignatureNotHex
                                    | Some expected \<Rightarrow> if expected = sign mac (rv_secret rv) timestamp body then None else Some SignatureMismatch))"

definition handle_delivery :: "Reaper \<Rightarrow> (string \<Rightarrow> bool) \<Rightarrow> HeldReader \<Rightarrow> Delivery \<Rightarrow> object_store \<Rightarrow> int \<times> object_store" where
  "handle_delivery rp fails reader d st =
     (if dl_Kind d \<noteq> KindMemoryForgotten then (200, st)
      else if \<not> Acts (rp_causes rp) (dl_Cause d) then (200, st)
      else case ReapForgotten rp fails reader (map it_Id (dl_Items d)) st of
             (_, Some e, st') \<Rightarrow> (500, st')
           | (_, None, st') \<Rightarrow> (200, st'))"

definition ServeHTTP :: "(string \<Rightarrow> string \<Rightarrow> string) \<Rightarrow> (string \<Rightarrow> Delivery option) \<Rightarrow> Receiver \<Rightarrow> Reaper \<Rightarrow> (string \<Rightarrow> bool) \<Rightarrow> HeldReader \<Rightarrow> bool \<Rightarrow> nanos
    \<Rightarrow> http_request \<Rightarrow> object_store \<Rightarrow> int \<times> object_store" where
  "ServeHTTP mac decode rv rp fails reader broken now req st =
     (if hr_method req \<noteq> ''POST'' then (405, st)
      else let body = take bodyLimit (hr_body req)
           in if broken then (400, st)
              else if verify mac rv now req body \<noteq> None then (401, st)
              else case decode body of None \<Rightarrow> (400, st) | Some d \<Rightarrow> handle_delivery rp fails reader d st)"

section \<open>The tap and the gateway\<close>

record Tap =
  tp_batchSize :: int
  tp_ids :: "ident list"
  tp_seen :: "ident list"

definition New_tap :: "int \<Rightarrow> Tap" where
  "New_tap n = \<lparr>tp_batchSize = n, tp_ids = [], tp_seen = []\<rparr>"

definition take_batch :: "Tap \<Rightarrow> ident list \<times> Tap" where
  "take_batch t = (if tp_ids t = [] then ([], t) else (tp_ids t, t\<lparr>tp_ids := [], tp_seen := []\<rparr>))"

text \<open>The batches sent to the recaller, in order; a batch that fails is not sent again. The outcome of each is the recaller's.\<close>

definition tap_recall :: "(ident list \<Rightarrow> bool) \<Rightarrow> ident list \<Rightarrow> ident list list \<Rightarrow> bool \<times> ident list list" where
  "tap_recall fails batch sent = (if batch = [] then (True, sent) else (\<not> fails batch, sent @ [batch]))"

definition Touch :: "(ident list \<Rightarrow> bool) \<Rightarrow> ident \<Rightarrow> Tap \<times> ident list list \<Rightarrow> bool \<times> Tap \<times> ident list list" where
  "Touch fails i ts =
     (let (t, sent) = ts
      in if i = [] then (True, t, sent)
         else if tp_batchSize t \<le> 0 then (let (ok, sent') = tap_recall fails [i] sent in (ok, t, sent'))
         else if i \<in> set (tp_seen t) then (True, t, sent)
         else let t1 = t\<lparr>tp_seen := i # tp_seen t, tp_ids := tp_ids t @ [i]\<rparr>
              in if int (length (tp_ids t1)) < tp_batchSize t1 then (True, t1, sent)
                 else let (batch, t2) = take_batch t1; (ok, sent') = tap_recall fails batch sent in (ok, t2, sent'))"

definition Flush :: "(ident list \<Rightarrow> bool) \<Rightarrow> Tap \<times> ident list list \<Rightarrow> bool \<times> Tap \<times> ident list list" where
  "Flush fails ts = (let (batch, t) = take_batch (fst ts); (ok, sent') = tap_recall fails batch (snd ts) in (ok, t, sent'))"

definition authorised :: "string \<Rightarrow> http_request \<Rightarrow> bool" where
  "authorised token req \<longleftrightarrow> token = [] \<or> bearer_ok token req"

definition reinforce :: "(ident list \<Rightarrow> bool) \<Rightarrow> string \<Rightarrow> string \<Rightarrow> Tap \<times> ident list list \<Rightarrow> Tap \<times> ident list list" where
  "reinforce fails bucket key ts = (case MemoryId bucket key of None \<Rightarrow> ts | Some i \<Rightarrow> snd (Touch fails i ts))"

text \<open>What the bucket answers to a presigning and to a read, and the status the client gets for it.\<close>

datatype Mode = ModeRedirect | ModeProxy

datatype get_answer = GetOk string | GetNotFound | GetFailed

record object_reads =
  or_presign_fails :: "string \<Rightarrow> bool"
  or_get :: "string \<Rightarrow> string \<Rightarrow> get_answer"

definition redirect :: "object_reads \<Rightarrow> string \<Rightarrow> int" where
  "redirect reads key = (if or_presign_fails reads key then 502 else 302)"

definition proxy :: "object_reads \<Rightarrow> http_request \<Rightarrow> string \<Rightarrow> int" where
  "proxy reads req key =
     (case or_get reads key (hr_header req ''Range'') of
        GetNotFound \<Rightarrow> 404
      | GetFailed \<Rightarrow> 502
      | GetOk contentRange \<Rightarrow> if contentRange \<noteq> [] then 206 else 200)"

record Gateway =
  gw_mode :: Mode
  gw_authToken :: string
  gw_bucket :: string

definition serveObject :: "(ident list \<Rightarrow> bool) \<Rightarrow> Gateway \<Rightarrow> object_reads \<Rightarrow> http_request \<Rightarrow> string \<Rightarrow> Tap \<times> ident list list \<Rightarrow> int \<times> Tap \<times> ident list list" where
  "serveObject fails g reads req key ts =
     (if \<not> authorised (gw_authToken g) req then (401, ts)
      else if key = [] then (404, ts)
      else let ts' = (if hr_method req = ''GET'' then reinforce fails (gw_bucket g) key ts else ts)
           in (if gw_mode g = ModeRedirect then redirect reads key else proxy reads req key, ts'))"

definition maxRecallKeys :: nat where "maxRecallKeys = 1000"

definition recall_key :: "(ident list \<Rightarrow> bool) \<Rightarrow> string \<Rightarrow> string \<Rightarrow> (nat \<times> nat) \<times> Tap \<times> ident list list \<Rightarrow> (nat \<times> nat) \<times> Tap \<times> ident list list" where
  "recall_key fails bucket key acc =
     (let ((accepted, unmappable), ts) = acc
      in case MemoryId bucket key of
           None \<Rightarrow> ((accepted, unmappable + 1), ts)
         | Some i \<Rightarrow> ((accepted + 1, unmappable), snd (Touch fails i ts)))"

definition serveRecall :: "(ident list \<Rightarrow> bool) \<Rightarrow> string \<Rightarrow> string \<Rightarrow> http_request \<Rightarrow> string list option \<Rightarrow> Tap \<times> ident list list
    \<Rightarrow> (int \<times> (nat \<times> nat)) \<times> Tap \<times> ident list list" where
  "serveRecall fails token bucket req parsed ts =
     (if \<not> authorised token req then ((401, (0, 0)), ts)
      else case parsed of
             None \<Rightarrow> ((400, (0, 0)), ts)
           | Some keys \<Rightarrow>
               if length keys > maxRecallKeys then ((400, (0, 0)), ts)
               else let (counts, ts') = fold (recall_key fails bucket) keys ((0, 0), ts) in ((202, counts), ts'))"

section \<open>What the receiver does\<close>

lemma trim_space_id: "\<forall>c \<in> set s. \<not> is_space c \<Longrightarrow> trim_space s = s"
proof -
  assume "\<forall>c \<in> set s. \<not> is_space c"
  then have "dropWhile is_space s = s" "dropWhile is_space (rev s) = rev s" by (auto simp: dropWhile_eq_self_iff hd_rev)
  then show ?thesis by (simp add: trim_space_def)
qed

lemma hex_not_space: "\<not> is_space (hex_digit n)"
proof -
  have "list_all (\<lambda>n. \<not> is_space (hex_digit n)) [0..<16]" by code_simp
  then have "\<not> is_space (hex_digit m)" if "m < 16" for m using that by (simp only: list_all_iff set_upt) simp
  from this [of "n mod 16"] show ?thesis by (simp add: hex_digit_def)
qed

lemma trim_hex: "trim_space (EncodeToString bs) = EncodeToString bs"
  by (rule trim_space_id) (auto simp: EncodeToString_def hex_not_space)

lemma header_names: "timestampHeader \<noteq> signatureHeader" "timestampHeader \<noteq> ''Authorization''" "signatureHeader \<noteq> ''Authorization''"
  by (simp_all add: timestampHeader_def signatureHeader_def)

lemma FormatInt_ne: "FormatInt i \<noteq> []"
  by (simp add: FormatInt_def FormatNat_ne)

lemma delivered_verifies:
  assumes "rv_token rv = wh_token w" "rv_secret rv = wh_secret w" "trim_space (wh_token w) = wh_token w"
    and "- (2 ^ 63) \<le> now" "now < 2 ^ 63" "\<bar>later - now\<bar> \<le> rv_maxAge rv" "rv_maxAge rv < 2 ^ 63"
    and "hr_header req = deliver_headers mac w now kind body"
  shows "verify mac rv later req body = None"
proof -
  have "bearer_ok (wh_token w) req" if "wh_token w \<noteq> []"
    using that assms(3) header_names by (auto simp: bearer_ok_def assms(8) deliver_headers_def Let_def CutPrefix_def)
  moreover have "time_since later now \<le> rv_maxAge rv" "- rv_maxAge rv \<le> time_since later now" using assms(6,7) by (auto simp: time_since_def)
  ultimately show ?thesis
    using assms(1,2) ParseInt_Format [OF assms(4,5)] header_names FormatInt_ne
    by (auto simp: verify_def assms(8) deliver_headers_def Let_def trim_hex Decode_Encode CutPrefix_def)
qed

text \<open>The deletions that fail are those of the objects the bucket does not let go.\<close>

definition undeletable :: "(string \<Rightarrow> bool) \<Rightarrow> string \<Rightarrow> ident \<Rightarrow> bool" where
  "undeletable fails bucket i \<longleftrightarrow> (\<exists>key. MemoryId bucket key = Some i \<and> fails key)"

lemma reap_failures:
  assumes "fold (reap_one rp fails) ids (r, n, st) = (r', n', st')"
  shows "n' = n + (if rp_delete rp then length (filter (undeletable fails (os_bucket st)) ids) else 0)"
  using assms
proof (induction ids arbitrary: r n st)
  case (Cons i ids)
  obtain r1 n1 st1 where 1: "reap_one rp fails i (r, n, st) = (r1, n1, st1)" by (metis prod_cases3)
  have b: "os_bucket st1 = os_bucket st" using reap_one_spares(1) [OF 1] by simp
  have u: "undeletable fails (os_bucket st) i \<longleftrightarrow> (case Object i of None \<Rightarrow> False | Some (b, k) \<Rightarrow> b = os_bucket st \<and> fails k)"
    by (auto simp: undeletable_def Object_Some [symmetric] split: option.splits)
  have "n1 = n + (if rp_delete rp \<and> undeletable fails (os_bucket st) i then 1 else 0)"
    using 1 by (auto simp: u reap_one_def objectFor_def store_delete_def split: option.splits if_splits)
  then show ?case using Cons.IH [of r1 n1 st1] Cons.prems 1 b by simp
qed simp

lemma ReapForgotten_outcome:
  assumes "ReapForgotten rp fails reader ids st = (r, e, st')" "ids \<noteq> []" "reader ids = Inr h"
  shows "st' = spared (reaped rp fails (os_bucket st) {i \<in> set ids. \<not> h i}) st"
    "e = None \<longleftrightarrow> rp_delete rp \<longrightarrow> (\<forall>i \<in> set ids. h i \<or> \<not> undeletable fails (os_bucket st) i)"
proof -
  show "st' = spared (reaped rp fails (os_bucket st) {i \<in> set ids. \<not> h i}) st" using ReapForgotten_spares [OF assms(1)] assms(2,3) by auto
  let ?gone = "filter (\<lambda>i. \<not> h i) ids"
  obtain r1 n1 st1 where f: "fold (reap_one rp fails) ?gone (no_result, 0, st) = (r1, n1, st1)" by (metis prod_cases3)
  then have "e = None \<longleftrightarrow> n1 = 0" using assms by (auto simp: ReapForgotten_def Reap_def Let_def split: if_splits)
  then show "e = None \<longleftrightarrow> rp_delete rp \<longrightarrow> (\<forall>i \<in> set ids. h i \<or> \<not> undeletable fails (os_bucket st) i)"
    using reap_failures [OF f] by (auto simp: filter_empty_conv)
qed

text \<open>
  What the webhook sends, the receiver takes. Configured with the same token and secret, and with clocks no further apart than the receiver's window, a
  delivery of at most eight megabytes passes verification, whatever the MAC is, and is handled as the delivery that was sent: the timestamp survives its decimal
  form and the signature its hexadecimal one.
\<close>

theorem delivered_callbacks_are_taken:
  assumes "rv_token rv = wh_token w" "rv_secret rv = wh_secret w" "trim_space (wh_token w) = wh_token w"
    and "- (2 ^ 63) \<le> now" "now < 2 ^ 63" "\<bar>later - now\<bar> \<le> rv_maxAge rv" "rv_maxAge rv < 2 ^ 63"
    and json: "encode d = Some body" "decode body = Some d" and "length body \<le> bodyLimit"
  shows "\<exists>req. deliver_request mac encode w now d = Some req
    \<and> ServeHTTP mac decode rv rp fails reader False later req st = handle_delivery rp fails reader d st"
  using assms delivered_verifies [OF assms(1-7)] by (auto simp: deliver_request_def ServeHTTP_def Let_def)


text \<open>
  C18. Nothing is deleted on a request that is not the store's. When a request to the receiver changes the bucket, the reaper was armed, the request was a \<^verbatim>\<open>POST\<close> that bore the
  receiver's token and a MAC, under its secret, of its body and of a timestamp inside the replay window, where those are configured, and its body is a delivery of forgotten memories for a cause
  the reaper acts on.
\<close>

theorem only_verified_deliveries_delete:
  assumes "ServeHTTP mac decode rv rp fails reader broken now req st = (code, st')" "st' \<noteq> st"
  shows "rp_delete rp \<and> hr_method req = ''POST''
    \<and> (rv_token rv \<noteq> [] \<longrightarrow> (\<exists>t. hr_header req ''Authorization'' = ''Bearer '' @ t \<and> trim_space t = rv_token rv))
    \<and> (rv_secret rv \<noteq> [] \<longrightarrow> (\<exists>t s. ParseInt (hr_header req timestampHeader) = Some t \<and> \<bar>time_since now t\<bar> \<le> rv_maxAge rv
         \<and> hr_header req signatureHeader = ''sha256='' @ s
         \<and> DecodeString (trim_space s) = Some (mac (rv_secret rv) (hr_header req timestampHeader @ ''.'' @ take bodyLimit (hr_body req)))))
    \<and> (\<exists>d. decode (take bodyLimit (hr_body req)) = Some d \<and> dl_Kind d = KindMemoryForgotten \<and> Acts (rp_causes rp) (dl_Cause d))"
proof -
  let ?body = "take bodyLimit (hr_body req)"
  obtain d where d: "hr_method req = ''POST''" "verify mac rv now req ?body = None" "decode ?body = Some d" "handle_delivery rp fails reader d st = (code, st')"
    using assms by (auto simp: ServeHTTP_def Let_def split: if_splits option.splits)
  have k: "dl_Kind d = KindMemoryForgotten" "Acts (rp_causes rp) (dl_Cause d)" using d(4) assms(2) by (auto simp: handle_delivery_def split: if_splits)
  obtain r e where R: "ReapForgotten rp fails reader (map it_Id (dl_Items d)) st = (r, e, st')"
    using d(4) k by (auto simp: handle_delivery_def split: prod.splits option.splits)
  have "rp_delete rp"
  proof (rule ccontr)
    assume "\<not> rp_delete rp"
    then have "reaped rp fails b I = (\<lambda>_. False)" for b I by (simp add: reaped_def fun_eq_iff)
    then show False using ReapForgotten_spares [OF R] assms(2) by auto
  qed
  moreover have cut: "s = pre @ x" if "CutPrefix s pre = Some x" for s pre x
    using that append_take_drop_id [of "length pre" s] unfolding CutPrefix_def by (metis option.distinct(1) option.inject)
  have "\<exists>t. hr_header req ''Authorization'' = ''Bearer '' @ t \<and> trim_space t = rv_token rv" if "rv_token rv \<noteq> []"
  proof -
    have "bearer_ok (rv_token rv) req" using d(2) that by (simp add: verify_def split: if_splits)
    then obtain t where "CutPrefix (hr_header req ''Authorization'') ''Bearer '' = Some t" "trim_space t = rv_token rv"
      by (auto simp: bearer_ok_def split: option.splits)
    then show ?thesis using cut by blast
  qed
  moreover have "\<exists>t s. ParseInt (hr_header req timestampHeader) = Some t \<and> \<bar>time_since now t\<bar> \<le> rv_maxAge rv
         \<and> hr_header req signatureHeader = ''sha256='' @ s
         \<and> DecodeString (trim_space s) = Some (mac (rv_secret rv) (hr_header req timestampHeader @ ''.'' @ ?body))" if sec: "rv_secret rv \<noteq> []"
  proof -
    obtain t s where "ParseInt (hr_header req timestampHeader) = Some t" "\<bar>time_since now t\<bar> \<le> rv_maxAge rv" "CutPrefix (hr_header req signatureHeader) ''sha256='' = Some s"
      "DecodeString (trim_space s) = Some (mac (rv_secret rv) (hr_header req timestampHeader @ ''.'' @ ?body))"
      using d(2) sec by (simp add: verify_def sign_def Let_def abs_le_iff split: if_splits option.splits)
    then show ?thesis using cut by blast
  qed
  ultimately show ?thesis using d(1,3) k by blast
qed

section \<open>Reads reach the store\<close>

text \<open>The steps of a tap: a read of an object, and the flush of the timer or of the shutdown.\<close>

inductive tap_run :: "(ident list \<Rightarrow> bool) \<Rightarrow> Tap \<times> ident list list \<Rightarrow> ident list \<Rightarrow> Tap \<times> ident list list \<Rightarrow> bool" for fails where
  Start: "tap_run fails ts [] ts"
| Read: "tap_run fails ts is ts' \<Longrightarrow> tap_run fails ts (is @ [i]) (snd (Touch fails i ts'))"
| Tick: "tap_run fails ts is ts' \<Longrightarrow> tap_run fails ts is (snd (Flush fails ts'))"

definition tap_ok :: "Tap \<Rightarrow> bool" where
  "tap_ok t \<longleftrightarrow> distinct (tp_ids t) \<and> set (tp_seen t) = set (tp_ids t) \<and> (if tp_batchSize t \<le> 0 then tp_ids t = [] else int (length (tp_ids t)) < tp_batchSize t)"

definition batch_ok :: "int \<Rightarrow> ident list \<Rightarrow> bool" where
  "batch_ok n b \<longleftrightarrow> b \<noteq> [] \<and> distinct b \<and> int (length b) \<le> max 1 n"

definition tap_inv :: "int \<Rightarrow> ident list \<Rightarrow> Tap \<times> ident list list \<Rightarrow> bool" where
  "tap_inv n is ts \<longleftrightarrow> tap_ok (fst ts) \<and> tp_batchSize (fst ts) = n \<and> list_all (batch_ok n) (snd ts)
     \<and> set (concat (snd ts)) \<union> set (tp_ids (fst ts)) = set is - {[]}"

lemma Touch_inv: "tap_inv n is ts \<Longrightarrow> tap_inv n (is @ [i]) (snd (Touch fails i ts))"
  by (cases ts) (auto simp: tap_inv_def tap_ok_def batch_ok_def Touch_def take_batch_def tap_recall_def Let_def split: if_splits)

lemma Flush_inv: "tap_inv n is ts \<Longrightarrow> tap_inv n is (snd (Flush fails ts)) \<and> tp_ids (fst (snd (Flush fails ts))) = []"
  by (cases ts) (auto simp: tap_inv_def tap_ok_def batch_ok_def Flush_def take_batch_def tap_recall_def Let_def split: if_splits)

text \<open>
  Every read is reported, and no batch repeats one. Whatever the order of reads and flushes, each batch the tap sends is non-empty, names no id twice and is no longer than the
  batch size; after a flush the ids sent are exactly those read, the empty one apart, and nothing is left in the buffer.
\<close>

theorem every_read_is_reported:
  assumes "tap_run fails (New_tap n, []) is ts"
  shows "list_all (batch_ok n) (snd ts) \<and> set (concat (snd (snd (Flush fails ts)))) = set is - {[]} \<and> tp_ids (fst (snd (Flush fails ts))) = []
    \<and> list_all (batch_ok n) (snd (snd (Flush fails ts)))"
proof -
  have "tap_inv n [] (New_tap n, [])" by (simp add: tap_inv_def tap_ok_def New_tap_def)
  with assms have inv: "tap_inv n is ts"
    by (induction "(New_tap n, [] :: ident list list)" "is" ts rule: tap_run.induct) (use Touch_inv Flush_inv in auto)
  from Flush_inv [OF this, of fails] inv show ?thesis by (auto simp: tap_inv_def)
qed

theorem every_read_is_reported_witness:
  "set (concat (snd (snd (Flush (\<lambda>_. False) (snd (Touch (\<lambda>_. False) ''b/k'' (snd (Touch (\<lambda>_. False) ''b/k'' (New_tap 2, []))))))))) = {''b/k''}"
proof -
  let ?f = "\<lambda>_ :: ident list. False"
  have "tap_run ?f (New_tap 2, []) (([] @ [''b/k'']) @ [''b/k'']) (snd (Touch ?f ''b/k'' (snd (Touch ?f ''b/k'' (New_tap 2, [])))))"
    by (rule tap_run.Read [OF tap_run.Read [OF tap_run.Start]])
  from conjunct1 [OF conjunct2 [OF every_read_is_reported [OF this]]] show ?thesis by simp
qed

text \<open>The gateway reports only what an authorised client read: a probe for the headers, or a request it refuses, reinforces nothing.\<close>

lemma gateway_reports_reads_only:
  assumes "serveObject fails g reads req key ts = (code, ts')" "ts' \<noteq> ts"
  shows "authorised (gw_authToken g) req \<and> hr_method req = ''GET'' \<and> Mappable (gw_bucket g) key"
  using assms by (auto simp: serveObject_def reinforce_def Mappable_def Let_def split: if_splits option.splits)

lemma recall_report_accounts:
  assumes "serveRecall fails token bucket req (Some keys) ts = ((202, (accepted, unmappable)), ts')"
  shows "accepted = length (filter (Mappable bucket) keys)" "unmappable = length (filter (\<lambda>k. \<not> Mappable bucket k) keys)"
proof -
  have "fst (fold (recall_key fails bucket) ks ((a, u), ts)) = (a + length (filter (Mappable bucket) ks), u + length (filter (\<lambda>k. \<not> Mappable bucket k) ks))" for ks a u ts
    by (induction ks arbitrary: a u ts) (auto simp: recall_key_def Mappable_def split: option.splits)
  from this [of keys 0 0 ts] show "accepted = length (filter (Mappable bucket) keys)" "unmappable = length (filter (\<lambda>k. \<not> Mappable bucket k) keys)"
    using assms by (auto simp: serveRecall_def split: if_splits prod.splits)
qed

section \<open>A delivery\<close>

definition plain_delivery :: Delivery where
  "plain_delivery = \<lparr>dl_Kind = ''memory_forgotten'', dl_Cause = ''eviction'', dl_QueuedAt = 900, dl_CycleId = 0, dl_Chunk = 0, dl_Chunks = 0,
     dl_Items = [\<lparr>it_Id = ''b/z'', it_EventId = [], it_Group = [], it_Significance = 1, it_Bytes = 3, it_Value = 0, it_Body = [], it_BodyOmitted = False\<rparr>]\<rparr>"

definition plain_hook :: Webhook where "plain_hook = \<lparr>wh_token = ''t'', wh_secret = ''s''\<rparr>"

definition plain_receiver :: Receiver where "plain_receiver = NewReceiver ''t'' ''s'' 0"

definition plain_json :: string where "plain_json = ''{}''"

lemma plain_setup: "rv_token plain_receiver = wh_token plain_hook" "rv_secret plain_receiver = wh_secret plain_hook" "trim_space (wh_token plain_hook) = wh_token plain_hook"
  "- (2 ^ 63) \<le> (1000 :: nanos)" "(1000 :: nanos) < 2 ^ 63" "\<bar>(2000 :: nanos) - 1000\<bar> \<le> rv_maxAge plain_receiver" "rv_maxAge plain_receiver < 2 ^ 63"
  by (simp_all add: plain_receiver_def NewReceiver_def plain_hook_def trim_space_def is_space_def defaultMaxAge_def)

lemma plain_body: "length plain_json \<le> bodyLimit"
  by (simp add: bodyLimit_def plain_json_def)

lemma plain_handled: "handle_delivery (New_reaper True {}) (\<lambda>_. False) (\<lambda>_. Inr (\<lambda>i. i = ''b/a'')) plain_delivery small_bucket
   = (200, small_bucket\<lparr>os_objects := [(''a'', 5), (''y'', 2000)]\<rparr>)"
  by code_simp

lemma plain_served: "hr_header req = deliver_headers mac plain_hook 1000 kind plain_json \<Longrightarrow> hr_method req = ''POST'' \<Longrightarrow> hr_body req = plain_json
   \<Longrightarrow> ServeHTTP mac (\<lambda>_. Some plain_delivery) plain_receiver (New_reaper True {}) (\<lambda>_. False) (\<lambda>_. Inr (\<lambda>i. i = ''b/a'')) False 2000 req small_bucket
     = (200, small_bucket\<lparr>os_objects := [(''a'', 5), (''y'', 2000)]\<rparr>)"
  using delivered_verifies [OF plain_setup] plain_body by (simp add: ServeHTTP_def Let_def plain_handled)

theorem delivered_callbacks_are_taken_witness:
  "\<exists>req. deliver_request (\<lambda>k m. k @ m) (\<lambda>_. Some plain_json) plain_hook 1000 plain_delivery = Some req
     \<and> ServeHTTP (\<lambda>k m. k @ m) (\<lambda>_. Some plain_delivery) plain_receiver (New_reaper True {}) (\<lambda>_. False) (\<lambda>_. Inr (\<lambda>i. i = ''b/a'')) False 2000 req small_bucket
       = (200, small_bucket\<lparr>os_objects := [(''a'', 5), (''y'', 2000)]\<rparr>)"
  using delivered_callbacks_are_taken [OF plain_setup _ _ plain_body, of "\<lambda>_. Some plain_json" plain_delivery "\<lambda>_. Some plain_delivery" "\<lambda>k m. k @ m"
      "New_reaper True {}" "\<lambda>_. False" "\<lambda>_. Inr (\<lambda>i. i = ''b/a'')" small_bucket]
  by (simp add: plain_handled)


theorem only_verified_deliveries_delete_witness:
  "let req = the (deliver_request (\<lambda>k m. k @ m) (\<lambda>_. Some plain_json) plain_hook 1000 plain_delivery)
   in snd (ServeHTTP (\<lambda>k m. k @ m) (\<lambda>_. Some plain_delivery) plain_receiver (New_reaper True {}) (\<lambda>_. False) (\<lambda>_. Inr (\<lambda>i. i = ''b/a'')) False 2000 req small_bucket) \<noteq> small_bucket
     \<and> (\<exists>t. hr_header req ''Authorization'' = ''Bearer '' @ t \<and> trim_space t = ''t'')"
proof -
  let ?req = "the (deliver_request (\<lambda>k m. k @ m) (\<lambda>_. Some plain_json) plain_hook 1000 plain_delivery)"
  have s: "ServeHTTP (\<lambda>k m. k @ m) (\<lambda>_. Some plain_delivery) plain_receiver (New_reaper True {}) (\<lambda>_. False) (\<lambda>_. Inr (\<lambda>i. i = ''b/a'')) False 2000 ?req small_bucket
     = (200, small_bucket\<lparr>os_objects := [(''a'', 5), (''y'', 2000)]\<rparr>)"
    by (rule plain_served) (simp_all add: deliver_request_def)
  have ne: "small_bucket\<lparr>os_objects := [(''a'', 5), (''y'', 2000)]\<rparr> \<noteq> small_bucket" by (simp add: small_bucket_def)
  have "rv_token plain_receiver = ''t''" by (simp add: plain_receiver_def NewReceiver_def)
  then show ?thesis using only_verified_deliveries_delete [OF s ne] s ne by (auto simp: Let_def)
qed

end
