(* ===== verification/Spec2Isabelle.thy ===== *)
theory Spec2Isabelle
  imports Rate_Limit Ranked_Search Object_Callbacks
begin

text \<open>
  Hippocampus is a memory store that forgets. Clients store memories, group them into events, link and recall them;
  a background cycle, the sleep, deletes what has decayed below a threshold, what has passed an absolute age, and, under
  capacity pressure, what is worth least. This development models its core and proves what makes it correct.

  \<^bold>\<open>The parts and how they meet.\<close> Requests enter over gRPC or REST, pass a rate limiter, the verification of a token and the
  authorisation of the call, and reach a handler; the handler scopes the request to the caller's groups and
  calls the storage layer. The sleep cycle calls the same storage layer without a caller. Every deletion
  that counts as forgetting goes through one transaction, which checks that the memory was not recalled since it was judged, and writes the
  forgotten log, the callback queue and the search outbox together with the delete. Outside the service, the
  retention controller of an object store hears of deletions through callbacks, the log, or a sweep, asks the store what it still
  holds, and deletes the objects behind forgotten memories.

  \<^bold>\<open>The theories, bottom up.\<close>

  \<^item> \<open>Prelude\<close>: fixed-width integers (\<open>i32\<close>, \<open>i64\<close>, Go's truncating division), loops over chunks, keyed lists and the collections \<open>reg_simps\<close>,
    \<open>inv_intros\<close> and \<open>frame_simps\<close> the other theories fill.
  \<^item> \<open>Db_State\<close>: the tables as lists of row records (\<^verbatim>\<open>db/db.go\<close>, \<^verbatim>\<open>db/dialect.go\<close>) in one record \<open>db_state\<close>, which every storage operation takes
    and returns; the well-formedness predicates.
  \<^item> \<open>Significance_Registry\<close>, \<open>Registry_Maintenance\<close> (\<^verbatim>\<open>db/significance.go\<close>): resolving a significance to a level, opening gaps for
    relative placement, claiming, compacting and reaping levels.
  \<^item> \<open>Link_Graph\<close> (\<^verbatim>\<open>db/link.go\<close>): both link graphs over one description of their tables, the aggregates kept beside the rows,
    spreading activation. \<open>Tx_Retry\<close> (\<^verbatim>\<open>db/db.go\<close>): the bounded retry of a write.
  \<^item> \<open>Bounded_Queues\<close> (\<^verbatim>\<open>db/callbacks.go\<close>, \<^verbatim>\<open>db/outbox.go\<close>, \<^verbatim>\<open>db/tombstone.go\<close>): the callback queue, the search outbox and the forgotten log, their claims and bounds.
  \<^item> \<open>Delete_Chokepoint\<close> (\<^verbatim>\<open>db/memory.go\<close>): recall, and the one delete of forgetting.
  \<^item> \<open>Decay\<close>, \<open>Measurements\<close> (\<^verbatim>\<open>hippocampus/sleep.go\<close>): value, thresholds, retention, capacity pressure and the figures they are computed from.
  \<^item> \<open>Passes\<close> (\<^verbatim>\<open>db/memory.go\<close>, \<^verbatim>\<open>db/event.go\<close>): the consolidation passes, expiry and eviction, from scan to delete. \<open>Sleep_Cycle\<close>
    (\<^verbatim>\<open>hippocampus/sleep.go\<close>): the cycle that runs them, its report and its callbacks. \<open>Preview\<close> (\<^verbatim>\<open>db/preview.go\<close>): the dry run. \<open>Explain\<close> (\<^verbatim>\<open>hippocampus/explain.go\<close>):
    where a memory stands and when it will go.
  \<^item> \<open>Authorisation\<close> (\<^verbatim>\<open>auth/\<close>), \<open>Group_Scope\<close> (\<^verbatim>\<open>hippocampus/scope.go\<close>, \<^verbatim>\<open>hippocampus/link.go\<close>), \<open>Rate_Limit\<close> (\<^verbatim>\<open>ratelimit/\<close>): who may call what, what a bound caller
    sees and touches, and how often.
  \<^item> \<open>Metadata\<close> (\<^verbatim>\<open>types/metadata.go\<close>), \<open>Selection\<close> (\<^verbatim>\<open>db/order.go\<close>, \<^verbatim>\<open>hippocampus/selection.go\<close>), \<open>Delete_By_Filter\<close> (\<^verbatim>\<open>hippocampus/predicate.go\<close>): filters,
    listings with their count cache, deletion by filter and event cascades.
  \<^item> \<open>Record_Writes\<close> (\<^verbatim>\<open>db/memory.go\<close>, \<^verbatim>\<open>db/event.go\<close>, \<^verbatim>\<open>db/compress.go\<close>), \<open>Write_Handlers\<close> (\<^verbatim>\<open>hippocampus/memory.go\<close>, \<^verbatim>\<open>hippocampus/event.go\<close>): creating, updating,
    merging and summarising records, at the level of statements and of requests.
  \<^item> \<open>Ranked_Search\<close> (\<^verbatim>\<open>hippocampus/search.go\<close>, \<^verbatim>\<open>fusion.go\<close>, \<^verbatim>\<open>ranking.go\<close>): search in its three modes, fusion of rankings, the blend with significance and recall.
  \<^item> \<open>Object_Reaper\<close>, \<open>Object_Callbacks\<close> (\<^verbatim>\<open>integrations/objectstore\<close>, \<^verbatim>\<open>notify/webhook.go\<close>): the retention controller, the webhook and its receiver, the read tap.

  \<^bold>\<open>How code becomes definitions.\<close> A struct is a record, an enumeration a datatype, a statement a function from \<open>db_state\<close> to \<open>db_state\<close>; a call that can
  fail returns a sum whose left side is the error, and a transaction that fails returns the state it began with. Names are the source's, with the record's or handler's
  prefix where two collide (\<open>rpc_\<close> for a handler that shares its name with a storage call). What other connections commit between two statements, the failures of single
  statements, the clock, fresh ids, sorts that are not stable and the order of a map are fields of an environment record, so a theorem about an operation holds for all of
  them unless it says otherwise. \<open>int32\<close> and \<open>int64\<close> are integers with their wrap-around written out where a result depends on it; \<^verbatim>\<open>float64\<close> is modelled by the reals.

  \<^bold>\<open>What is shown.\<close> Forgetting: what the delete removes it records exactly, and a recall always wins against it; no pass takes a memory inside its retention; eviction
  takes the least valuable and reaches its floor; passes, cycles and requests keep the tables well formed; the report accounts for every memory; a stalled cycle forgets
  nothing; the dry run and the forecast agree with the passes. Requests: the declared policy is what both transports enforce, and a bound caller neither reads, writes,
  links, deletes, finds nor learns of records outside its groups; stored memories read back; listings, filtered deletes and cascades are exact and end. Registry
  and graph: placement lands where it was asked, aggregates equal the sums of their rows. Limiter: the ceiling holds over every window, the bounded table refines
  the unbounded one, a client that waits as told is served. Search: fusion and ranking respect agreement and dominance, and a search reinforces exactly what it
  returns. Object store: the object of a memory the store holds is never deleted, a sweep and a catch-up leave no orphan, a confirmed delivery
  was acted on and an unverified one never is. Where the code falls short of its own comments, a lemma exhibits the run.

  \<^bold>\<open>Interfaces.\<close> A locale states what one component relies on of another and is interpreted on the definitions that provide it: among them the graph description of
  \<open>Link_Graph\<close>, the delete the passes share, the verifier decorators of \<open>Authorisation\<close>, the readers of a client's bucket in \<open>Rate_Limit\<close>, and \<open>held_reader\<close> of
  \<open>Object_Reaper\<close>, whose provider is the client of \<open>ExplainConsolidation\<close>.

  \<^bold>\<open>Loops and bounds.\<close> Loops over data recurse on it. Loops that may not end are \<^theory_text>\<open>partial_function (option)\<close> and are proved to return: the
  rounds of a deletion by filter (each round removes a row, so a bounded one ends; against a writer that keeps adding rows an unbounded one need not), and the walk of the forgotten log (each full
  page lowers the cursor, whatever is written meanwhile). The retry of a transaction has the source's attempt limit, and the bisection of a decay curve its sixty
  steps, which leave \<open>10\<^sup>6 / 2\<^sup>6\<^sup>0\<close> age units open, the error the forecast's theorem carries.

  \<^bold>\<open>Not modelled.\<close> SQL text, dialects, migrations and the content index tables; the engines behind the search index, the embedder and the summariser's model, which are
  parameters; JWT parsing, HMAC and JSON codecs, likewise; key fetching, OAuth2 and browser sessions, TLS, HTTP and gRPC plumbing and the generated protocol code; the callback
  dispatcher's goroutine and backoff; archives and file and S3 input and output; the command line, the MCP server, event sources, the configuration wizard, the demo and telemetry. They are
  input and output around the logic above, or code the repository only calls.
\<close>

end
